(* ===== verification/Js_Object.thy ===== *)
theory Js_Object
  imports Prelude
begin

text \<open>
  JavaScript objects used as dictionaries (\<open>Record<string, V>\<close>): the own enumerable
  properties in the order \<open>Object.keys\<close>, \<open>Object.entries\<close> and spread visit them.
  That order is part of the behaviour of the code (a fallback takes the first key):
  array-index keys come first, in ascending numeric order, then every other key in the
  order of its insertion. Only own properties are modelled.
\<close>

type_synonym 'v js_object = "(string \<times> 'v) list"

section \<open>Array-index keys\<close>

definition digit_of :: "char \<Rightarrow> nat option" where
  "digit_of c = (let n = of_char c :: nat in if 48 \<le> n \<and> n \<le> 57 then Some (n - 48) else None)"

fun decimal :: "nat \<Rightarrow> string \<Rightarrow> nat option" where
  "decimal acc [] = Some acc"
| "decimal acc (c # cs) = (case digit_of c of None \<Rightarrow> None | Some d \<Rightarrow> decimal (10 * acc + d) cs)"

text \<open>
  The canonical numerals \<open>"0"\<close>, \<open>"1"\<close>, \<dots>, \<open>"4294967294"\<close>: no sign, no leading
  zero.
\<close>

definition array_index :: "string \<Rightarrow> nat option" where
  "array_index s =
     (if s = [] \<or> (hd s = CHR ''0'' \<and> s \<noteq> ''0'') then None
      else case decimal 0 s of None \<Rightarrow> None
           | Some n \<Rightarrow> if n < 4294967295 then Some n else None)"

section \<open>Operations\<close>

fun js_get :: "'v js_object \<Rightarrow> string \<Rightarrow> 'v option" where
  "js_get [] k = None"
| "js_get ((k', v) # ob) k = (if k' = k then Some v else js_get ob k)"

definition js_keys :: "'v js_object \<Rightarrow> string list" where
  "js_keys ob = map fst ob"

text \<open>Where a new array-index key \<open>n\<close> goes: before the first key that must follow it.\<close>

fun insert_index :: "nat \<Rightarrow> string \<Rightarrow> 'v \<Rightarrow> 'v js_object \<Rightarrow> 'v js_object" where
  "insert_index n k v [] = [(k, v)]"
| "insert_index n k v ((k', v') # ob) =
     (case array_index k' of
        None \<Rightarrow> (k, v) # (k', v') # ob
      | Some m \<Rightarrow> if n < m then (k, v) # (k', v') # ob else (k', v') # insert_index n k v ob)"

fun js_update :: "string \<Rightarrow> 'v \<Rightarrow> 'v js_object \<Rightarrow> 'v js_object" where
  "js_update k v [] = []"
| "js_update k v ((k', v') # ob) = (if k' = k then (k, v) # ob else (k', v') # js_update k v ob)"

text \<open>\<open>o[k] = v\<close>, and \<open>{...o, [k]: v}\<close> on a copy.\<close>

definition js_put :: "string \<Rightarrow> 'v \<Rightarrow> 'v js_object \<Rightarrow> 'v js_object" where
  "js_put k v ob =
     (if k \<in> set (js_keys ob) then js_update k v ob
      else case array_index k of None \<Rightarrow> ob @ [(k, v)] | Some n \<Rightarrow> insert_index n k v ob)"

text \<open>A dictionary built by assigning the entries of a list in turn.\<close>

definition js_from_entries :: "(string \<times> 'v) list \<Rightarrow> 'v js_object" where
  "js_from_entries kvs = fold (\<lambda>(k, v) ob. js_put k v ob) kvs []"

section \<open>Well-formed objects\<close>

text \<open>Keys are distinct and in property order: the order relation on two keys of one object.\<close>

definition key_before :: "string \<Rightarrow> string \<Rightarrow> bool" where
  "key_before a b \<longleftrightarrow>
     (case array_index b of None \<Rightarrow> True
      | Some n \<Rightarrow> (case array_index a of None \<Rightarrow> False | Some m \<Rightarrow> m \<le> n))"

definition js_ok :: "'v js_object \<Rightarrow> bool" where
  "js_ok ob \<longleftrightarrow> distinct (js_keys ob) \<and> sorted_wrt key_before (js_keys ob)"


lemma js_keys_Nil [simp]: "js_keys [] = []"
  by (simp add: js_keys_def)

lemma js_get_None_iff [js_object]: "js_get ob k = None \<longleftrightarrow> k \<notin> set (js_keys ob)"
  by (induction ob k rule: js_get.induct) (auto simp: js_keys_def)

lemma js_get_Some_key: "js_get ob k = Some v \<Longrightarrow> k \<in> set (js_keys ob)"
  by (metis js_get_None_iff option.distinct(1))

lemma js_get_in_set: "js_get ob k = Some v \<Longrightarrow> (k, v) \<in> set ob"
  by (induction ob k rule: js_get.induct) (auto split: if_splits)

lemma js_get_eq_Some_iff: "distinct (js_keys ob) \<Longrightarrow> js_get ob k = Some v \<longleftrightarrow> (k, v) \<in> set ob"
  by (induction ob k rule: js_get.induct) (auto simp: js_keys_def rev_image_eqI)

lemma js_keys_update [simp]: "js_keys (js_update k v ob) = js_keys ob"
  by (induction k v ob rule: js_update.induct) (auto simp: js_keys_def)

lemma js_get_update_other: "j \<noteq> k \<Longrightarrow> js_get (js_update k v ob) j = js_get ob j"
  by (induction k v ob rule: js_update.induct) auto

lemma js_get_update_same: "k \<in> set (js_keys ob) \<Longrightarrow> js_get (js_update k v ob) k = Some v"
  by (induction k v ob rule: js_update.induct) (auto simp: js_keys_def)

lemma js_get_append: "js_get (ob @ ob') k = (case js_get ob k of None \<Rightarrow> js_get ob' k | Some v \<Rightarrow> Some v)"
  by (induction ob k rule: js_get.induct) auto

lemma set_keys_insert_index [simp]: "set (js_keys (insert_index n k v ob)) = insert k (set (js_keys ob))"
  by (induction n k v ob rule: insert_index.induct) (auto simp: js_keys_def split: option.splits)

lemma js_get_insert_index:
  "k \<notin> set (js_keys ob) \<Longrightarrow> js_get (insert_index n k v ob) j = (if j = k then Some v else js_get ob j)"
  by (induction n k v ob rule: insert_index.induct) (auto simp: js_keys_def split: option.splits)

lemma js_get_put [js_object]: "js_get (js_put k v ob) j = (if j = k then Some v else js_get ob j)"
proof (cases "k \<in> set (js_keys ob)")
  case True
  then show ?thesis
    by (simp add: js_put_def js_get_update_other js_get_update_same)
next
  case False
  then have "js_get ob k = None" by (simp add: js_get_None_iff)
  with False show ?thesis
    by (simp add: js_put_def js_get_append js_get_insert_index split: option.splits)
qed

lemma set_keys_put [js_object]: "set (js_keys (js_put k v ob)) = insert k (set (js_keys ob))"
  by (auto simp: js_put_def split: option.splits) (auto simp: js_keys_def)

lemma distinct_keys_insert_index:
  "distinct (js_keys ob) \<Longrightarrow> k \<notin> set (js_keys ob) \<Longrightarrow> distinct (js_keys (insert_index n k v ob))"
proof (induction n k v ob rule: insert_index.induct)
  case (2 n k v k' v' ob)
  then show ?case
    using set_keys_insert_index [of n k v ob] by (auto simp: js_keys_def split: option.splits)
qed (simp add: js_keys_def)

lemma distinct_keys_put: "distinct (js_keys ob) \<Longrightarrow> distinct (js_keys (js_put k v ob))"
  by (auto simp: js_put_def distinct_keys_insert_index split: option.splits) (auto simp: js_keys_def)

text \<open>The property order: transitive, so that an insertion keeps a sorted object sorted.\<close>

lemma key_before_string [simp]: "array_index b = None \<Longrightarrow> key_before a b"
  by (simp add: key_before_def)

lemma key_before_index [simp]:
  "array_index b = Some n \<Longrightarrow> key_before a b \<longleftrightarrow> (\<exists>m. array_index a = Some m \<and> m \<le> n)"
  by (simp add: key_before_def split: option.splits)

lemma key_before_trans: "key_before a b \<Longrightarrow> key_before b c \<Longrightarrow> key_before a c"
  by (force simp: key_before_def split: option.splits)

lemma sorted_insert_index:
  assumes "array_index k = Some n" and "sorted_wrt key_before (js_keys ob)"
  shows "sorted_wrt key_before (js_keys (insert_index n k v ob))"
  using assms
proof (induction n k v ob rule: insert_index.induct)
  case (1 n k v)
  then show ?case by (simp add: js_keys_def)
next
  case (2 n k v k' v' ob)
  show ?case
  proof (cases "\<exists>m. array_index k' = Some m \<and> m \<le> n")
    case True
    then obtain m where m: "array_index k' = Some m" "m \<le> n" by blast
    have IH: "sorted_wrt key_before (js_keys (insert_index n k v ob))"
      using 2 m by (simp add: js_keys_def)
    have "key_before k' x" if "x \<in> insert k (set (js_keys ob))" for x
      using that m 2 by (auto simp: js_keys_def)
    then have "\<forall>x\<in>set (js_keys (insert_index n k v ob)). key_before k' x" by simp
    with IH m show ?thesis by (simp add: js_keys_def)
  next
    case False
    have k': "key_before k k'" using False 2(2) by (cases "array_index k'") auto
    then have "\<forall>x\<in>set (js_keys ob). key_before k x"
      using 2(3) key_before_trans by (auto simp: js_keys_def)
    with k' False 2 show ?thesis by (auto simp: js_keys_def split: option.splits)
  qed
qed

lemma js_ok_empty [simp]: "js_ok []"
  by (simp add: js_ok_def js_keys_def)

lemma js_ok_put [js_object]: "js_ok ob \<Longrightarrow> js_ok (js_put k v ob)"
  by (auto simp: js_ok_def js_put_def distinct_keys_insert_index sorted_insert_index
      sorted_wrt_append split: option.splits) (auto simp: js_keys_def sorted_wrt_append)

lemma js_ok_distinct: "js_ok ob \<Longrightarrow> distinct (js_keys ob)"
  by (simp add: js_ok_def)

lemma js_ok_filter: "js_ok ob \<Longrightarrow> js_ok (filter p ob)"
  by (simp add: js_ok_def js_keys_def distinct_map_filter sorted_wrt_filter sorted_wrt_map)

lemma js_get_filter_key: "js_get (filter (\<lambda>(k, v). p k) ob) k = (if p k then js_get ob k else None)"
  by (induction ob) auto

lemma js_put_snoc:
  assumes "js_ok (ob @ [(k, v)])"
  shows "js_put k v ob = ob @ [(k, v)]"
proof -
  from assms have fresh: "k \<notin> set (js_keys ob)" by (simp add: js_ok_def js_keys_def)
  have "insert_index n k v ob = ob @ [(k, v)]" if "array_index k = Some n" for n
    using that assms
  proof (induction n k v ob rule: insert_index.induct)
    case (2 n k v k' v' ob)
    then show ?case by (auto simp: js_ok_def js_keys_def sorted_wrt_append)
  qed simp
  with fresh show ?thesis by (simp add: js_put_def split: option.split)
qed

text \<open>Rebuilding an object from its own entries gives the object back.\<close>

lemma js_from_entries_id: "js_ok ob \<Longrightarrow> js_from_entries ob = ob"
proof (induction ob rule: rev_induct)
  case (snoc kv ob)
  obtain k v where kv: "kv = (k, v)" by (cases kv)
  from snoc.prems have "js_ok ob" by (auto simp: js_ok_def js_keys_def sorted_wrt_append)
  with snoc kv show ?case by (simp add: js_from_entries_def js_put_snoc)
qed (simp add: js_from_entries_def)

lemma js_ok_fold_put: "js_ok ob \<Longrightarrow> js_ok (fold (\<lambda>(k, v). js_put k v) kvs ob)"
  by (induction kvs arbitrary: ob) (auto simp: js_ok_put)

lemma js_ok_from_entries [simp]: "js_ok (js_from_entries kvs)"
  by (simp add: js_from_entries_def js_ok_fold_put)

lemma js_ok_map_values: "js_ok (map (\<lambda>(k, v). (k, f k v)) ob) = js_ok ob"
proof -
  have "js_keys (map (\<lambda>(k, v). (k, f k v)) ob) = js_keys ob"
    by (auto simp: js_keys_def)
  then show ?thesis by (simp add: js_ok_def)
qed

lemma js_get_map_values: "js_get (map (\<lambda>(k, v). (k, f k v)) ob) j = map_option (f j) (js_get ob j)"
  by (induction ob j rule: js_get.induct) auto

section \<open>The dictionary interface\<close>

text \<open>
  What the components rely on: a put is seen by the next get and by no other key, it adds
  at most its key, and the property order is kept.
\<close>

locale dictionary =
  fixes get :: "'d \<Rightarrow> string \<Rightarrow> 'v option"
    and put :: "string \<Rightarrow> 'v \<Rightarrow> 'd \<Rightarrow> 'd"
    and dkeys :: "'d \<Rightarrow> string list"
    and dinv :: "'d \<Rightarrow> bool"
  assumes get_put: "get (put k v d) j = (if j = k then Some v else get d j)"
    and get_keys: "get d k = None \<longleftrightarrow> k \<notin> set (dkeys d)"
    and dinv_put: "dinv d \<Longrightarrow> dinv (put k v d)"
begin

lemma keys_put: "set (dkeys (put k v d)) = insert k (set (dkeys d))"
proof (rule set_eqI)
  fix j
  have "j \<in> set (dkeys (put k v d)) \<longleftrightarrow> get (put k v d) j \<noteq> None"
    by (simp add: get_keys)
  also have "\<dots> \<longleftrightarrow> j = k \<or> j \<in> set (dkeys d)"
    using get_keys [of d j] by (auto simp: get_put)
  finally show "j \<in> set (dkeys (put k v d)) \<longleftrightarrow> j \<in> insert k (set (dkeys d))" by simp
qed

text \<open>A property of every entry survives a put of a value that has it.\<close>

lemma all_entries_put:
  "(\<And>j w. get d j = Some w \<Longrightarrow> P j w) \<Longrightarrow> P k v \<Longrightarrow> get (put k v d) j = Some w \<Longrightarrow> P j w"
  by (simp add: get_put split: if_splits)

lemma dinv_fold: "dinv d \<Longrightarrow> dinv (fold (\<lambda>(k, v). put k v) kvs d)"
  by (induction kvs arbitrary: d) (auto intro: dinv_put)

end

interpretation js: dictionary js_get js_put js_keys js_ok
  by unfold_locales (auto simp: js_get_put js_get_None_iff js_ok_put)

end
