(* ===== verification/Tab_Url.thy ===== *)
theory Tab_Url
  imports Js_Object
begin

text \<open>
  The URL layer of the desktop tab store (\<open>tab-store.ts\<close>, lines 222--333) and the
  reserved workspace slugs (\<open>packages/core/paths/reserved-slugs.ts\<close>): splitting a tab
  URL, the identity of a tab, its icon, its workspace, and the guard that every path passes
  before it becomes a tab.
\<close>

section \<open>Reserved slugs\<close>

definition RESERVED_SLUGS :: "string list" where
  "RESERVED_SLUGS =
   [''login'', ''logout'', ''signin'', ''signout'', ''signup'', ''auth'', ''oauth'',
    ''callback'', ''invite'', ''invitations'', ''verify'', ''reset'', ''password'',
    ''onboarding'', ''api'', ''admin'', ''multica'', ''www'', ''new'', ''home'',
    ''homepage'', ''dashboard'', ''help'', ''about'', ''pricing'', ''changelog'', ''docs'',
    ''support'', ''status'', ''legal'', ''privacy'', ''terms'', ''security'', ''contact'',
    ''contact-sales'', ''blog'', ''careers'', ''press'', ''download'', ''usecases'',
    ''profile'', ''account'', ''billing'', ''notifications'', ''search'', ''members'',
    ''issues'', ''projects'', ''autopilots'', ''agents'', ''squads'', ''inbox'',
    ''my-issues'', ''usage'', ''runtimes'', ''skills'', ''settings'', ''workspaces'',
    ''teams'', ''v1'', ''v2'', ''graphql'', ''webhooks'', ''sdk'', ''tokens'', ''cli'',
    ''health'', ''readyz'', ''healthz'', ''ws'', ''metrics'', ''ping'', ''postmaster'',
    ''abuse'', ''noreply'', ''webmaster'', ''hostmaster'', ''mail'', ''ftp'', ''static'',
    ''cdn'', ''assets'', ''public'', ''files'', ''uploads'', ''_next'', ''favicon.ico'',
    ''robots.txt'', ''sitemap.xml'', ''manifest.json'', ''.well-known'']"

definition isReservedSlug :: "string \<Rightarrow> bool" where
  "isReservedSlug slug = List.member RESERVED_SLUGS slug"

section \<open>Icons and slugs of a path\<close>

definition ROUTE_ICONS :: "string js_object" where
  "ROUTE_ICONS =
   [(''inbox'', ''Inbox''), (''my-issues'', ''CircleUser''), (''issues'', ''ListTodo''),
    (''projects'', ''FolderKanban''), (''autopilots'', ''ListTodo''), (''agents'', ''Bot''),
    (''runtimes'', ''Monitor''), (''skills'', ''BookOpenText''), (''settings'', ''Settings'')]"

text \<open>\<open>segments[i] ?? ""\<close>.\<close>

definition segment_or_empty :: "string list \<Rightarrow> nat \<Rightarrow> string" where
  "segment_or_empty ss i = (if i < length ss then ss ! i else [])"

definition resolveRouteIcon :: "string \<Rightarrow> string" where
  "resolveRouteIcon pathname =
     (case js_get ROUTE_ICONS (segment_or_empty (path_segments pathname) 1) of
        Some i \<Rightarrow> i | None \<Rightarrow> ''ListTodo'')"

definition extractWorkspaceSlug :: "string \<Rightarrow> string option" where
  "extractWorkspaceSlug path =
     (let first = segment_or_empty (path_segments path) 0 in
      if first = [] then None
      else if isReservedSlug first then None
      else Some first)"

section \<open>Splitting and sanitizing\<close>

definition splitTabUrl :: "string \<Rightarrow> string \<times> string" where
  "splitTabUrl url =
     (let searchIdx = js_index_of CHR ''?'' url;
          hashIdx = js_index_of CHR ''#'' url;
          cut = (case searchIdx of
                   None \<Rightarrow> hashIdx
                 | Some s \<Rightarrow> (case hashIdx of None \<Rightarrow> Some s | Some h \<Rightarrow> Some (min s h)))
      in case cut of
           None \<Rightarrow> (url, [])
         | Some c \<Rightarrow> (take c url, drop c url))"

definition resourceKeyForUrl :: "string \<Rightarrow> string" where
  "resourceKeyForUrl url = fst (splitTabUrl url)"

definition defaultPathFor :: "string \<Rightarrow> string" where
  "defaultPathFor slug = ''/'' @ slug @ ''/issues''"

text \<open>
  \<open>null\<close> (\<open>None\<close>) for a path no tab may have; a bare \<open>/{slug}\<close> becomes the issues
  list of the workspace, everything else is kept as it is.
\<close>

definition sanitizeTabPath :: "string \<Rightarrow> string option" where
  "sanitizeTabPath path =
     (let (pathname, suffix) = splitTabUrl path;
          segments = path_segments pathname;
          firstSegment = segment_or_empty segments 0
      in if firstSegment = [] then None
         else if isReservedSlug firstSegment then None
         else if length segments = 1 then Some (''/'' @ firstSegment @ ''/issues'' @ suffix)
         else Some path)"

section \<open>Splitting a URL\<close>

text \<open>A pathname holds neither of the two delimiters; a suffix is empty or starts with one.\<close>

definition plain_path :: "string \<Rightarrow> bool" where
  "plain_path p \<longleftrightarrow> CHR ''?'' \<notin> set p \<and> CHR ''#'' \<notin> set p"

definition url_suffix :: "string \<Rightarrow> bool" where
  "url_suffix s \<longleftrightarrow> s = [] \<or> hd s = CHR ''?'' \<or> hd s = CHR ''#''"

lemma js_index_of_append:
  "js_index_of c (p @ s) = (case js_index_of c p of Some i \<Rightarrow> Some i
     | None \<Rightarrow> map_option (\<lambda>i. length p + i) (js_index_of c s))"
  by (induction p; cases "js_index_of c s") (auto split: option.splits)

lemma not_in_take: "c \<notin> set (take n xs) \<Longrightarrow> m \<le> n \<Longrightarrow> c \<notin> set (take m xs)"
  using set_take_subset_set_take [of m n xs] by blast

lemma splitTabUrl_plain:
  assumes "plain_path p" and "url_suffix s"
  shows "splitTabUrl (p @ s) = (p, s)"
proof (cases s)
  case Nil
  with assms show ?thesis
    by (auto simp: splitTabUrl_def plain_path_def js_index_of_None_iff [symmetric])
next
  case (Cons c t)
  with assms(2) have c: "c = CHR ''?'' \<or> c = CHR ''#''" by (simp add: url_suffix_def)
  have none: "js_index_of CHR ''?'' p = None" "js_index_of CHR ''#'' p = None"
    using assms(1) by (auto simp: plain_path_def js_index_of_None_iff)
  show ?thesis
    using c none Cons by (auto simp: splitTabUrl_def js_index_of_append split: option.splits)
qed

lemma splitTabUrl_append: "splitTabUrl url = (p, s) \<Longrightarrow> p @ s = url"
  by (auto simp: splitTabUrl_def Let_def split: option.splits)

lemma splitTabUrl_plain_path: "splitTabUrl url = (p, s) \<Longrightarrow> plain_path p"
  by (auto simp: splitTabUrl_def Let_def plain_path_def js_index_of_None_iff min_def
      dest!: js_index_of_before dest: in_set_takeD not_in_take split: option.splits if_splits)
    (meson nat_le_linear not_in_take)

lemma splitTabUrl_suffix: "splitTabUrl url = (p, s) \<Longrightarrow> url_suffix s"
  by (auto simp: splitTabUrl_def Let_def url_suffix_def hd_drop_conv_nth min_def
      dest: js_index_of_less split: option.splits if_splits)

lemma resourceKeyForUrl_plain: "plain_path p \<Longrightarrow> url_suffix s \<Longrightarrow> resourceKeyForUrl (p @ s) = p"
  by (simp add: resourceKeyForUrl_def splitTabUrl_plain)

section \<open>The segments of a path\<close>

abbreviation first_segment :: "string \<Rightarrow> string" where
  "first_segment p \<equiv> segment_or_empty (path_segments p) 0"

lemma first_segment_eq: "first_segment p = (case path_segments p of [] \<Rightarrow> [] | s # _ \<Rightarrow> s)"
  by (auto simp: segment_or_empty_def split: list.split)

lemma js_split_append:
  "js_split c (p @ s) =
     butlast (js_split c p) @ (last (js_split c p) @ hd (js_split c s)) # tl (js_split c s)"
  by (induction p) (auto split: list.splits)

lemma first_segment_append:
  assumes "2 \<le> length (path_segments p)"
  shows "first_segment (p @ s) = first_segment p"
proof -
  let ?ne = "filter (\<lambda>s. s \<noteq> ([]::string))" and ?sp = "js_split CHR ''/''"
  have split: "?ne (?sp p) = ?ne (butlast (?sp p)) @ ?ne [last (?sp p)]"
    by (metis append_butlast_last_id filter_append js_split_nonempty)
  have "length (?ne [last (?sp p)]) \<le> 1" by simp
  with assms split have "?ne (butlast (?sp p)) \<noteq> []"
    by (auto simp: path_segments_def split: if_splits)
  then obtain a as where a: "?ne (butlast (?sp p)) = a # as" by (cases "?ne (butlast (?sp p))") auto
  with split have "path_segments p = a # as @ ?ne [last (?sp p)]"
    by (simp add: path_segments_def)
  moreover have "\<exists>bs. path_segments (p @ s) = a # bs"
    using a by (simp add: path_segments_def js_split_append)
  ultimately show ?thesis by (auto simp: segment_or_empty_def)
qed

lemma first_segment_subset: "set (first_segment p) \<subseteq> set p - {CHR ''/''}"
proof (cases "path_segments p")
  case (Cons a as)
  then have "a \<in> set (path_segments p)" by simp
  then have a: "a \<in> set (js_split CHR ''/'' p)" by (simp add: path_segments_def)
  have "first_segment p = a" using Cons by (simp add: segment_or_empty_def)
  with js_split_pieces [OF a] js_split_subset [OF a] show ?thesis by auto
qed (simp add: segment_or_empty_def)

lemma path_segments_two:
  assumes "CHR ''/'' \<notin> set a" and "a \<noteq> []" and "CHR ''/'' \<notin> set b" and "b \<noteq> []"
  shows "path_segments (CHR ''/'' # a @ CHR ''/'' # b) = [a, b]"
  using assms by (simp add: path_segments_def js_split_sep js_split_no_sep)

section \<open>Proper slugs and clean tab URLs\<close>

text \<open>
  A slug that can stand as the first segment of a tab URL. Workspace slugs match
  \<open>[a-z0-9]+(-[a-z0-9]+)*\<close> and are never reserved, which implies it.
\<close>

definition proper_slug :: "string \<Rightarrow> bool" where
  "proper_slug s \<longleftrightarrow> s \<noteq> [] \<and> CHR ''/'' \<notin> set s \<and> plain_path s \<and> \<not> isReservedSlug s"

definition clean_url :: "string \<Rightarrow> bool" where
  "clean_url u \<longleftrightarrow> sanitizeTabPath u = Some u"

lemma default_path_split:
  assumes "CHR ''/'' \<notin> set f" and "f \<noteq> []" and "plain_path f" and "url_suffix s"
  shows "splitTabUrl (''/'' @ f @ ''/issues'' @ s) = (''/'' @ f @ ''/issues'', s)"
    and "path_segments (''/'' @ f @ ''/issues'') = [f, ''issues'']"
proof -
  have "plain_path (''/'' @ f @ ''/issues'')"
    using assms(3) by (simp add: plain_path_def)
  from splitTabUrl_plain [OF this assms(4)]
  show "splitTabUrl (''/'' @ f @ ''/issues'' @ s) = (''/'' @ f @ ''/issues'', s)" by simp
  show "path_segments (''/'' @ f @ ''/issues'') = [f, ''issues'']"
    using path_segments_two [of f "''issues''"] assms by simp
qed

lemma sanitizeTabPath_cases:
  assumes "sanitizeTabPath path = Some q"
  obtains (bare) p s where "splitTabUrl path = (p, s)" and "path_segments p = [first_segment p]"
      and "q = ''/'' @ first_segment p @ ''/issues'' @ s"
      and "first_segment p \<noteq> []" and "\<not> isReservedSlug (first_segment p)"
    | (route) p s where "splitTabUrl path = (p, s)" and "2 \<le> length (path_segments p)"
      and "q = path" and "first_segment p \<noteq> []" and "\<not> isReservedSlug (first_segment p)"
proof -
  obtain p s where sp: "splitTabUrl path = (p, s)" by force
  with assms have f: "first_segment p \<noteq> []" "\<not> isReservedSlug (first_segment p)"
    by (auto simp: sanitizeTabPath_def Let_def split: if_splits)
  show thesis
  proof (cases "length (path_segments p) = 1")
    case True
    then have "path_segments p = [first_segment p]"
      by (auto simp: first_segment_eq length_Suc_conv)
    with True sp f assms show thesis
      by (intro bare [of p s]) (auto simp: sanitizeTabPath_def)
  next
    case False
    from f have "path_segments p \<noteq> []" by (auto simp: first_segment_eq)
    with False have "2 \<le> length (path_segments p)"
      by (cases "path_segments p" rule: remdups_adj.cases) auto
    with False sp f assms show thesis
      by (intro route [of p s]) (auto simp: sanitizeTabPath_def)
  qed
qed

lemma sanitizeTabPath_clean:
  assumes "sanitizeTabPath path = Some q"
  shows "clean_url q \<and> extractWorkspaceSlug q = Some (first_segment (fst (splitTabUrl path)))"
  using assms
proof (cases rule: sanitizeTabPath_cases)
  case (bare p s)
  let ?f = "first_segment p"
  have f: "CHR ''/'' \<notin> set ?f" "plain_path ?f"
    using first_segment_subset [of p] splitTabUrl_plain_path [OF bare(1)]
    by (auto simp: plain_path_def)
  note split = default_path_split [OF f(1) bare(4) f(2) splitTabUrl_suffix [OF bare(1)]]
  have "first_segment (''/'' @ ?f @ ''/issues'') = ?f"
    by (simp only: split(2)) (simp add: segment_or_empty_def)
  moreover have "first_segment ((''/'' @ ?f @ ''/issues'') @ s) = first_segment (''/'' @ ?f @ ''/issues'')"
    by (rule first_segment_append) (simp only: split(2), simp)
  ultimately show ?thesis
    using bare split by (simp add: clean_url_def sanitizeTabPath_def extractWorkspaceSlug_def)
next
  case (route p s)
  have "first_segment path = first_segment p"
    using first_segment_append [OF route(2), of s] splitTabUrl_append [OF route(1)] by simp
  with route assms show ?thesis
    by (simp add: clean_url_def extractWorkspaceSlug_def)
qed

lemma sanitize_clean: "sanitizeTabPath path = Some q \<Longrightarrow> clean_url q"
  by (simp add: sanitizeTabPath_clean)

lemma clean_url_slug: "clean_url u \<Longrightarrow> \<exists>slug. extractWorkspaceSlug u = Some slug"
  unfolding clean_url_def using sanitizeTabPath_clean by blast

lemma extractWorkspaceSlug_Some:
  "extractWorkspaceSlug u = Some s \<longleftrightarrow> first_segment u = s \<and> s \<noteq> [] \<and> \<not> isReservedSlug s"
  by (auto simp: extractWorkspaceSlug_def Let_def)

lemma defaultPathFor_clean:
  assumes "proper_slug slug"
  shows "clean_url (defaultPathFor slug)" and "extractWorkspaceSlug (defaultPathFor slug) = Some slug"
proof -
  have slug: "CHR ''/'' \<notin> set slug" "slug \<noteq> []" "plain_path slug" "\<not> isReservedSlug slug"
    using assms by (auto simp: proper_slug_def)
  have suf: "url_suffix []" by (simp add: url_suffix_def)
  note split = default_path_split [OF slug(1-3) suf]
  have "first_segment (''/'' @ slug @ ''/issues'') = slug"
    by (simp only: split(2)) (simp add: segment_or_empty_def)
  with split slug show "clean_url (defaultPathFor slug)"
    and "extractWorkspaceSlug (defaultPathFor slug) = Some slug"
    by (simp_all add: clean_url_def sanitizeTabPath_def defaultPathFor_def extractWorkspaceSlug_def)
qed

lemma extractWorkspaceSlug_proper:
  assumes "clean_url u" and "extractWorkspaceSlug u = Some slug"
  shows "proper_slug slug"
proof -
  obtain p s where p: "splitTabUrl u = (p, s)" by force
  from assms have "slug = first_segment p"
    using sanitizeTabPath_clean p by (fastforce simp: clean_url_def)
  moreover have "first_segment p \<noteq> []" "\<not> isReservedSlug (first_segment p)"
    using assms(2) \<open>slug = first_segment p\<close> by (auto simp: extractWorkspaceSlug_Some)
  ultimately show ?thesis
    using first_segment_subset [of p] splitTabUrl_plain_path [OF p]
    by (auto simp: proper_slug_def plain_path_def)
qed

end
