(* ===== verification/Tab_Store.thy ===== *)
theory Tab_Store
  imports Tab_Url
begin

text \<open>
  The desktop tab store (\<open>apps/desktop/src/renderer/src/stores/tab-store.ts\<close>): its state
  and every action of the store, one definition per action with the guards and early
  returns of the code. An action is a function of the store; \<open>set({...})\<close> returns the
  updated record, an early return the store as it was. An id that the code draws from
  \<open>createSafeId\<close> is an argument (\<open>fresh\<close>), and so is \<open>arrayMove\<close> of
  \<open>@dnd-kit/sortable\<close>, which is not part of the repository.
\<close>

section \<open>Data\<close>

text \<open>Scroll offsets are JavaScript numbers; finite ones are rationals.\<close>

record scroll_offset =
  offset_top :: rat
  offset_height :: rat

record tab_memento =
  scroll :: "scroll_offset js_object"

definition emptyMemento :: tab_memento where
  "emptyMemento = \<lparr>scroll = []\<rparr>"

definition scrollMementoKey :: "string \<Rightarrow> string \<Rightarrow> string" where
  "scrollMementoKey routeKey containerKey = routeKey @ ''::'' @ containerKey"

record tab_history =
  hist_stack :: "string list"
  hist_index :: int

record tab_session =
  tab_id :: string
  tab_url :: string
  tab_resourceKey :: string
  tab_title :: string
  tab_icon :: string
  tab_pinned :: bool
  tab_history :: tab_history
  tab_memento :: tab_memento

record tab_group =
  group_tabs :: "tab_session list"
  group_active :: string

record tab_store =
  activeWorkspaceSlug :: "string option"
  byWorkspace :: "tab_group js_object"
  mountGeneration :: nat

definition initial_store :: tab_store where
  "initial_store = \<lparr>activeWorkspaceSlug = None, byWorkspace = [], mountGeneration = 0\<rparr>"

section \<open>Sessions and groups\<close>

definition makeSession :: "string \<Rightarrow> string \<Rightarrow> string \<Rightarrow> string \<Rightarrow> tab_session" where
  "makeSession fresh url title icon =
     \<lparr>tab_id = fresh, tab_url = url, tab_resourceKey = resourceKeyForUrl url, tab_title = title,
      tab_icon = icon, tab_pinned = False, tab_history = \<lparr>hist_stack = [url], hist_index = 0\<rparr>,
      tab_memento = emptyMemento\<rparr>"

fun pinnedBoundary :: "tab_session list \<Rightarrow> nat" where
  "pinnedBoundary [] = 0"
| "pinnedBoundary (t # ts) = (if tab_pinned t then Suc (pinnedBoundary ts) else 0)"

definition defaultTabFor :: "string \<Rightarrow> string \<Rightarrow> tab_session" where
  "defaultTabFor fresh slug =
     makeSession fresh (defaultPathFor slug) ''Issues'' (resolveRouteIcon (defaultPathFor slug))"

text \<open>The group, its slug and the index of the tab: the first hit in key order.\<close>

fun findTabLocation :: "tab_group js_object \<Rightarrow> string \<Rightarrow> (string \<times> tab_group \<times> nat) option" where
  "findTabLocation [] tabId = None"
| "findTabLocation ((slug, grp) # rest) tabId =
     (case find_index (\<lambda>t. tab_id t = tabId) (group_tabs grp) of
        Some index \<Rightarrow> Some (slug, grp, index)
      | None \<Rightarrow> findTabLocation rest tabId)"

definition buildCloseOtherTabsResult ::
    "tab_group js_object \<Rightarrow> string \<Rightarrow> tab_group js_object option" where
  "buildCloseOtherTabsResult groups tabId =
     (case findTabLocation groups tabId of
        None \<Rightarrow> None
      | Some (slug, grp, _) \<Rightarrow>
          let closingTabs = filter (\<lambda>t. \<not> tab_pinned t \<and> tab_id t \<noteq> tabId) (group_tabs grp) in
          if closingTabs = [] then None
          else
            let closingIds = map tab_id closingTabs;
                nextTabs = filter (\<lambda>t. \<not> List.member closingIds (tab_id t)) (group_tabs grp);
                nextActiveTabId =
                  (if List.member closingIds (group_active grp) then tabId
                   else group_active grp)
            in Some (js_put slug \<lparr>group_tabs = nextTabs, group_active = nextActiveTabId\<rparr> groups))"

text \<open>\<open>{...byWorkspace, [slug]: group}\<close>.\<close>

definition put_group :: "string \<Rightarrow> tab_group \<Rightarrow> tab_store \<Rightarrow> tab_store" where
  "put_group slug g s = s\<lparr>byWorkspace := js_put slug g (byWorkspace s)\<rparr>"

text \<open>
  The active workspace with its group: the three lines
  \<open>if (!activeWorkspaceSlug) return; const group = byWorkspace[activeWorkspaceSlug];
  if (!group) return\<close> that open most actions.
\<close>

definition active_group :: "tab_store \<Rightarrow> (string \<times> tab_group) option" where
  "active_group s =
     (case activeWorkspaceSlug s of
        None \<Rightarrow> None
      | Some slug \<Rightarrow>
          if slug = [] then None
          else map_option (Pair slug) (js_get (byWorkspace s) slug))"

definition active_index :: "tab_group \<Rightarrow> nat option" where
  "active_index g = find_index (\<lambda>t. tab_id t = group_active g) (group_tabs g)"

text \<open>\<open>tabs.find((t) => t.resourceKey === key)\<close>.\<close>

definition find_by_key :: "string \<Rightarrow> tab_session list \<Rightarrow> tab_session option" where
  "find_by_key key ts = List.find (\<lambda>t. tab_resourceKey t = key) ts"

section \<open>Switching workspaces, opening and closing tabs\<close>

definition switchWorkspace :: "string \<Rightarrow> string \<Rightarrow> string option \<Rightarrow> tab_store \<Rightarrow> tab_store" where
  "switchWorkspace fresh slug openPath s =
     (if slug = [] then s
      else case js_get (byWorkspace s) slug of
        None \<Rightarrow>
          let desiredPath = (case openPath of Some p \<Rightarrow> p | None \<Rightarrow> defaultPathFor slug);
              cleanDesired = (if desiredPath = [] then None else sanitizeTabPath desiredPath);
              seedPath = (case cleanDesired of Some p \<Rightarrow> p | None \<Rightarrow> defaultPathFor slug);
              tab = makeSession fresh seedPath ''Issues'' (resolveRouteIcon seedPath)
          in put_group slug \<lparr>group_tabs = [tab], group_active = tab_id tab\<rparr>
               (s\<lparr>activeWorkspaceSlug := Some slug\<rparr>)
      | Some existing \<Rightarrow>
          (case (if falsy openPath then None else Option.bind openPath sanitizeTabPath) of
             None \<Rightarrow> s\<lparr>activeWorkspaceSlug := Some slug\<rparr>
           | Some clean \<Rightarrow>
               (case find_by_key (resourceKeyForUrl clean) (group_tabs existing) of
                  Some match \<Rightarrow>
                    put_group slug (existing\<lparr>group_active := tab_id match\<rparr>)
                      (s\<lparr>activeWorkspaceSlug := Some slug\<rparr>)
                | None \<Rightarrow>
                    let tab = makeSession fresh clean ''Issues'' (resolveRouteIcon clean)
                    in put_group slug
                         \<lparr>group_tabs = group_tabs existing @ [tab], group_active = tab_id tab\<rparr>
                         (s\<lparr>activeWorkspaceSlug := Some slug\<rparr>))))"

text \<open>\<open>openTab\<close> and \<open>addTab\<close> also return the id of the tab, or the empty string.\<close>

definition openTab ::
    "string \<Rightarrow> string \<Rightarrow> string \<Rightarrow> string \<Rightarrow> bool \<Rightarrow> tab_store \<Rightarrow> tab_store \<times> string" where
  "openTab fresh path title icon activate s =
     (case (sanitizeTabPath path, active_group s) of
        (Some clean, Some (slug, grp)) \<Rightarrow>
          (case find_by_key (resourceKeyForUrl clean) (group_tabs grp) of
             Some existing \<Rightarrow>
               (put_group slug (grp\<lparr>group_active := tab_id existing\<rparr>) s, tab_id existing)
           | None \<Rightarrow>
               let tab = makeSession fresh clean title icon
               in (put_group slug
                     \<lparr>group_tabs = group_tabs grp @ [tab],
                      group_active = (if activate then tab_id tab else group_active grp)\<rparr> s,
                   tab_id tab))
      | _ \<Rightarrow> (s, []))"

definition addTab :: "string \<Rightarrow> string \<Rightarrow> string \<Rightarrow> string \<Rightarrow> tab_store \<Rightarrow> tab_store \<times> string" where
  "addTab fresh path title icon s =
     (case (sanitizeTabPath path, active_group s) of
        (Some clean, Some (slug, grp)) \<Rightarrow>
          let tab = makeSession fresh clean title icon
          in (put_group slug
                \<lparr>group_tabs = group_tabs grp @ [tab], group_active = group_active grp\<rparr> s,
              tab_id tab)
      | _ \<Rightarrow> (s, []))"

text \<open>
  \<open>nextTabs[Math.min(index, nextTabs.length - 1)].id\<close> reads past the end only if every
  tab of the group has the closed id; the code then throws before it writes the store.
\<close>

definition closeTab :: "string \<Rightarrow> string \<Rightarrow> tab_store \<Rightarrow> tab_store" where
  "closeTab fresh tabId s =
     (case findTabLocation (byWorkspace s) tabId of
        None \<Rightarrow> s
      | Some (slug, grp, index) \<Rightarrow>
          if length (group_tabs grp) = 1 then
            let freshTab = defaultTabFor fresh slug
            in put_group slug \<lparr>group_tabs = [freshTab], group_active = tab_id freshTab\<rparr> s
          else
            let nextTabs = filter (\<lambda>t. tab_id t \<noteq> tabId) (group_tabs grp) in
            if group_active grp = tabId then
              (if nextTabs = [] then s
               else put_group slug
                      \<lparr>group_tabs = nextTabs,
                       group_active = tab_id (nextTabs ! min index (length nextTabs - 1))\<rparr> s)
            else put_group slug \<lparr>group_tabs = nextTabs, group_active = group_active grp\<rparr> s)"

definition closeOtherTabs :: "string \<Rightarrow> tab_store \<Rightarrow> tab_store" where
  "closeOtherTabs tabId s =
     (case buildCloseOtherTabsResult (byWorkspace s) tabId of
        None \<Rightarrow> s | Some nextGroups \<Rightarrow> s\<lparr>byWorkspace := nextGroups\<rparr>)"

definition setActiveTab :: "string \<Rightarrow> tab_store \<Rightarrow> tab_store" where
  "setActiveTab tabId s =
     (case findTabLocation (byWorkspace s) tabId of
        None \<Rightarrow> s
      | Some (slug, grp, _) \<Rightarrow>
          if Some slug = activeWorkspaceSlug s \<and> group_active grp = tabId then s
          else put_group slug (grp\<lparr>group_active := tabId\<rparr>) (s\<lparr>activeWorkspaceSlug := Some slug\<rparr>))"

definition updateTab :: "string \<Rightarrow> string option \<Rightarrow> string option \<Rightarrow> tab_store \<Rightarrow> tab_store" where
  "updateTab tabId patchTitle patchIcon s =
     (case findTabLocation (byWorkspace s) tabId of
        None \<Rightarrow> s
      | Some (slug, grp, index) \<Rightarrow>
          let current = group_tabs grp ! index;
              nextTab = current\<lparr>tab_title := (case patchTitle of Some x \<Rightarrow> x | None \<Rightarrow> tab_title current),
                                tab_icon := (case patchIcon of Some x \<Rightarrow> x | None \<Rightarrow> tab_icon current)\<rparr>
          in if tab_title nextTab = tab_title current \<and> tab_icon nextTab = tab_icon current then s
             else put_group slug (grp\<lparr>group_tabs := (group_tabs grp)[index := nextTab]\<rparr>) s)"

section \<open>Virtual history\<close>

definition navigateActiveSession :: "string \<Rightarrow> bool \<Rightarrow> tab_store \<Rightarrow> tab_store" where
  "navigateActiveSession target replace s =
     (case active_group s of
        None \<Rightarrow> s
      | Some (slug, grp) \<Rightarrow>
          (case (active_index grp, sanitizeTabPath target) of
             (Some index, Some clean) \<Rightarrow>
               let current = group_tabs grp ! index;
                   h = tab_history current
               in if extractWorkspaceSlug clean \<noteq> Some slug then s
                  else if tab_url current = clean then s
                  else
                    let stack' =
                          (if replace
                           then js_slice (hist_stack h) 0 (hist_index h) @ [clean] @
                                js_slice_from (hist_stack h) (hist_index h + 1)
                           else js_slice (hist_stack h) 0 (hist_index h + 1) @ [clean]);
                        historyIndex = (if replace then hist_index h else hist_index h + 1);
                        nextTab = current\<lparr>tab_url := clean,
                                          tab_resourceKey := resourceKeyForUrl clean,
                                          tab_icon := resolveRouteIcon (fst (splitTabUrl clean)),
                                          tab_history := \<lparr>hist_stack = stack', hist_index = historyIndex\<rparr>\<rparr>
                    in put_group slug (grp\<lparr>group_tabs := (group_tabs grp)[index := nextTab]\<rparr>) s
           | _ \<Rightarrow> s))"

definition stepHistory :: "int \<Rightarrow> tab_store \<Rightarrow> tab_store" where
  "stepHistory delta s =
     (case active_group s of
        None \<Rightarrow> s
      | Some (slug, grp) \<Rightarrow>
          (case active_index grp of
             None \<Rightarrow> s
           | Some index \<Rightarrow>
               let current = group_tabs grp ! index;
                   h = tab_history current;
                   nextIndex = hist_index h + delta
               in if nextIndex < 0 \<or> int (length (hist_stack h)) \<le> nextIndex then s
                  else
                    let target = hist_stack h ! nat nextIndex;
                        nextTab = current\<lparr>tab_url := target,
                                          tab_resourceKey := resourceKeyForUrl target,
                                          tab_icon := resolveRouteIcon (fst (splitTabUrl target)),
                                          tab_history := h\<lparr>hist_index := nextIndex\<rparr>\<rparr>
                    in put_group slug (grp\<lparr>group_tabs := (group_tabs grp)[index := nextTab]\<rparr>) s))"

definition goBack :: "tab_store \<Rightarrow> tab_store" where
  "goBack = stepHistory (- 1)"

definition goForward :: "tab_store \<Rightarrow> tab_store" where
  "goForward = stepHistory 1"

section \<open>Scroll mementos\<close>

text \<open>The scroll record after a commit: the route's old entries dropped, the given ones written.\<close>

definition next_scroll ::
    "string \<Rightarrow> scroll_offset js_object \<Rightarrow> scroll_offset js_object \<Rightarrow> scroll_offset js_object" where
  "next_scroll routeKey entries old =
     fold (\<lambda>(containerKey, value). js_put (scrollMementoKey routeKey containerKey) value) entries
       (js_from_entries (filter (\<lambda>(key, value). \<not> starts_with key (routeKey @ ''::'')) old))"

definition same_scroll :: "scroll_offset js_object \<Rightarrow> scroll_offset js_object \<Rightarrow> bool" where
  "same_scroll old new \<longleftrightarrow>
     length (js_keys old) = length (js_keys new) \<and>
     list_all (\<lambda>k. case (js_get old k, js_get new k) of
                     (Some prev, Some nxt) \<Rightarrow>
                       offset_top prev = offset_top nxt \<and> offset_height prev = offset_height nxt
                   | _ \<Rightarrow> False) (js_keys new)"

definition commitScrollMemento ::
    "string \<Rightarrow> string \<Rightarrow> scroll_offset js_object \<Rightarrow> tab_store \<Rightarrow> tab_store" where
  "commitScrollMemento tabId routeKey entries s =
     (case findTabLocation (byWorkspace s) tabId of
        None \<Rightarrow> s
      | Some (slug, grp, index) \<Rightarrow>
          let current = group_tabs grp ! index;
              old = scroll (tab_memento current);
              nextScroll = next_scroll routeKey entries old
          in if same_scroll old nextScroll then s
             else put_group slug
                    (grp\<lparr>group_tabs :=
                       (group_tabs grp)[index := current\<lparr>tab_memento := \<lparr>scroll = nextScroll\<rparr>\<rparr>]\<rparr>) s)"

section \<open>Reload, reorder, pin\<close>

definition reloadActiveTab :: "tab_store \<Rightarrow> tab_store" where
  "reloadActiveTab s =
     (case active_group s of
        None \<Rightarrow> s
      | Some (slug, grp) \<Rightarrow>
          if \<not> list_ex (\<lambda>t. tab_id t = group_active grp) (group_tabs grp) then s
          else s\<lparr>mountGeneration := mountGeneration s + 1\<rparr>)"

definition closeActiveTab :: "string \<Rightarrow> tab_store \<Rightarrow> tab_store" where
  "closeActiveTab fresh s =
     (case active_group s of
        None \<Rightarrow> s
      | Some (slug, grp) \<Rightarrow> closeTab fresh (group_active grp) s)"

definition moveTab ::
    "(tab_session list \<Rightarrow> nat \<Rightarrow> nat \<Rightarrow> tab_session list) \<Rightarrow> int \<Rightarrow> int \<Rightarrow> tab_store \<Rightarrow> tab_store" where
  "moveTab arrayMove fromIndex toIndex s =
     (if fromIndex = toIndex then s
      else case active_group s of
        None \<Rightarrow> s
      | Some (slug, grp) \<Rightarrow>
          if fromIndex < 0 \<or> int (length (group_tabs grp)) \<le> fromIndex then s
          else
            let boundary = int (pinnedBoundary (group_tabs grp));
                source = group_tabs grp ! nat fromIndex;
                clampedTo =
                  (if tab_pinned source then max 0 (min toIndex (boundary - 1))
                   else max boundary (min toIndex (int (length (group_tabs grp)) - 1)))
            in if clampedTo = fromIndex then s
               else put_group slug
                      (grp\<lparr>group_tabs :=
                         arrayMove (group_tabs grp) (nat fromIndex) (nat clampedTo)\<rparr>) s)"

definition togglePin :: "string \<Rightarrow> tab_store \<Rightarrow> tab_store" where
  "togglePin tabId s =
     (case findTabLocation (byWorkspace s) tabId of
        None \<Rightarrow> s
      | Some (slug, grp, index) \<Rightarrow>
          let current = group_tabs grp ! index;
              nextTab = current\<lparr>tab_pinned := \<not> tab_pinned current\<rparr>;
              withoutCurrent = take index (group_tabs grp) @ drop (Suc index) (group_tabs grp);
              insertAt = pinnedBoundary withoutCurrent;
              nextTabs = take insertAt withoutCurrent @ [nextTab] @ drop insertAt withoutCurrent
          in put_group slug (grp\<lparr>group_tabs := nextTabs\<rparr>) s)"

section \<open>Revoked workspaces, reset\<close>

text \<open>
  \<open>validSlugs\<close> is a \<open>Set\<close>, iterated in insertion order. The three repointing blocks of
  the code, in order: the active workspace was dropped, there is none, no group is left.
\<close>

definition first_key :: "'v js_object \<Rightarrow> string option" where
  "first_key ob = (case js_keys ob of [] \<Rightarrow> None | k # _ \<Rightarrow> Some k)"

definition validateWorkspaceSlugs :: "string \<Rightarrow> string list \<Rightarrow> tab_store \<Rightarrow> tab_store" where
  "validateWorkspaceSlugs fresh validSlugs s =
     (let kept = js_from_entries (filter (\<lambda>(slug, g). List.member validSlugs slug) (byWorkspace s));
          changed1 = list_ex (\<lambda>(slug, g). \<not> List.member validSlugs slug) (byWorkspace s);
          dropped = (\<not> falsy (activeWorkspaceSlug s)
                     \<and> \<not> List.member validSlugs (the (activeWorkspaceSlug s)));
          next1 = (if dropped then first_key kept else activeWorkspaceSlug s);
          next2 = (if falsy next1 then first_key kept else next1);
          changed2 = (changed1 \<or> dropped \<or> (falsy next1 \<and> \<not> falsy next2));
          fallbackSlug = (case validSlugs of [] \<Rightarrow> None | v # _ \<Rightarrow> Some v)
      in if falsy next2 \<and> \<not> falsy fallbackSlug then
           let freshTab = defaultTabFor fresh (the fallbackSlug)
           in s\<lparr>activeWorkspaceSlug := fallbackSlug,
                byWorkspace := js_put (the fallbackSlug)
                  \<lparr>group_tabs = [freshTab], group_active = tab_id freshTab\<rparr> kept\<rparr>
         else if \<not> changed2 then s
         else s\<lparr>activeWorkspaceSlug := next2, byWorkspace := kept\<rparr>)"

definition reset :: "tab_store \<Rightarrow> tab_store" where
  "reset s = s\<lparr>activeWorkspaceSlug := None, byWorkspace := [], mountGeneration := 0\<rparr>"

section \<open>Selectors\<close>

definition getActiveTab :: "tab_store \<Rightarrow> tab_session option" where
  "getActiveTab s =
     (case active_group s of
        None \<Rightarrow> None
      | Some (slug, grp) \<Rightarrow> List.find (\<lambda>t. tab_id t = group_active grp) (group_tabs grp))"

definition useActiveTabIdentity :: "tab_store \<Rightarrow> string option \<times> string option" where
  "useActiveTabIdentity s =
     (activeWorkspaceSlug s, map_option (\<lambda>(slug, grp). group_active grp) (active_group s))"

definition useActiveTabUrl :: "tab_store \<Rightarrow> string option" where
  "useActiveTabUrl s = map_option tab_url (getActiveTab s)"

definition useActiveTabHistory :: "tab_store \<Rightarrow> int \<times> nat" where
  "useActiveTabHistory s =
     (case getActiveTab s of
        None \<Rightarrow> (0, 1)
      | Some t \<Rightarrow> (hist_index (tab_history t), length (hist_stack (tab_history t))))"

end
