(* ===== verification/Tab_Invariant.thy ===== *)
theory Tab_Invariant
  imports Tab_Store
begin

text \<open>
  The invariant of the tab store and its preservation by every action: each workspace has a
  tab, its active tab is one of them, pinned tabs come first, ids are unique across
  workspaces, every session's identity and virtual history agree with its URL, and the
  active workspace has a group.
\<close>

section \<open>The invariant\<close>

definition pinned_first :: "tab_session list \<Rightarrow> bool" where
  "pinned_first ts = list_all (\<lambda>t. \<not> tab_pinned t) (drop (pinnedBoundary ts) ts)"

definition history_ok :: "tab_session \<Rightarrow> bool" where
  "history_ok t \<longleftrightarrow>
     (let h = tab_history t in
      0 \<le> hist_index h \<and> hist_index h < int (length (hist_stack h))
      \<and> hist_stack h ! nat (hist_index h) = tab_url t
      \<and> list_all clean_url (hist_stack h))"

definition session_ok :: "tab_session \<Rightarrow> bool" where
  "session_ok t \<longleftrightarrow>
     tab_resourceKey t = resourceKeyForUrl (tab_url t) \<and> history_ok t \<and> js_ok (scroll (tab_memento t))"

definition group_ids :: "tab_group \<Rightarrow> string list" where
  "group_ids g = map tab_id (group_tabs g)"

definition group_ok :: "tab_group \<Rightarrow> bool" where
  "group_ok g \<longleftrightarrow>
     List.member (group_ids g) (group_active g) \<and> distinct (group_ids g)
     \<and> pinned_first (group_tabs g) \<and> list_all session_ok (group_tabs g)"

definition all_ids :: "tab_group js_object \<Rightarrow> string list" where
  "all_ids ob = concat (map (\<lambda>(slug, g). group_ids g) ob)"

definition groups_ok :: "tab_group js_object \<Rightarrow> bool" where
  "groups_ok ob \<longleftrightarrow>
     js_ok ob \<and> list_all proper_slug (js_keys ob) \<and> distinct (all_ids ob)
     \<and> list_all (\<lambda>(slug, g). group_ok g) ob"

definition active_ok :: "tab_store \<Rightarrow> bool" where
  "active_ok s = (case activeWorkspaceSlug s of
     None \<Rightarrow> byWorkspace s = [] | Some slug \<Rightarrow> List.member (js_keys (byWorkspace s)) slug)"

definition store_ok :: "tab_store \<Rightarrow> bool" where
  "store_ok s \<longleftrightarrow> groups_ok (byWorkspace s) \<and> active_ok s"

section \<open>Pinned tabs first\<close>

lemma pinnedBoundary_takeWhile: "pinnedBoundary ts = length (takeWhile tab_pinned ts)"
  by (induction ts) auto

lemma pinned_first_Cons [simp]:
  "pinned_first (t # ts) \<longleftrightarrow> (if tab_pinned t then pinned_first ts else list_all (\<lambda>t. \<not> tab_pinned t) ts)"
  by (simp add: pinned_first_def)

lemma pinned_first_Nil [simp]: "pinned_first []"
  by (simp add: pinned_first_def)

lemma all_unpinned_first: "list_all (\<lambda>t. \<not> tab_pinned t) ts \<Longrightarrow> pinned_first ts"
  by (cases ts) auto

lemma pinned_first_append:
  "pinned_first (xs @ ys) \<longleftrightarrow>
     pinned_first xs \<and> pinned_first ys \<and> (list_all tab_pinned xs \<or> list_all (\<lambda>t. \<not> tab_pinned t) ys)"
  by (induction xs) (auto simp: list_all_iff intro: all_unpinned_first)

lemma all_pinned_first: "list_all tab_pinned ts \<Longrightarrow> pinned_first ts"
  by (induction ts) auto

lemma pinned_first_filter: "pinned_first ts \<Longrightarrow> pinned_first (filter p ts)"
  by (induction ts) (auto simp: list_all_iff intro: all_unpinned_first)

lemma pinned_first_map: "(\<And>t. t \<in> set ts \<Longrightarrow> tab_pinned (f t) = tab_pinned t)
    \<Longrightarrow> pinned_first (map f ts) = pinned_first ts"
  by (induction ts) (auto simp: list_all_iff)

lemma pinned_first_update:
  "i < length ts \<Longrightarrow> tab_pinned t = tab_pinned (ts ! i) \<Longrightarrow> pinned_first (ts[i := t]) = pinned_first ts"
proof (induction ts arbitrary: i)
  case (Cons a ts)
  show ?case
  proof (cases i)
    case (Suc j)
    have "list_all (\<lambda>t. \<not> tab_pinned t) (ts[j := t]) = list_all (\<lambda>t. \<not> tab_pinned t) ts"
      using Cons.prems Suc by (auto simp: list_all_length nth_list_update)
    with Cons Suc show ?thesis by simp
  qed (use Cons in simp)
qed simp

lemma take_pinnedBoundary: "list_all tab_pinned (take (pinnedBoundary ts) ts)"
  by (simp add: pinnedBoundary_takeWhile takeWhile_eq_take [symmetric] list_all_iff)
    (meson set_takeWhileD)

lemma pinnedBoundary_le: "pinnedBoundary ts \<le> length ts"
  by (simp add: pinnedBoundary_takeWhile length_takeWhile_le)

lemma pinned_first_nth: "pinned_first ts \<Longrightarrow> i < length ts \<Longrightarrow> tab_pinned (ts ! i) \<longleftrightarrow> i < pinnedBoundary ts"
proof (induction ts arbitrary: i)
  case (Cons t ts)
  then show ?case by (cases i) (auto simp: list_all_length)
qed simp

text \<open>Inserting at the boundary keeps the order, whatever the inserted tab is.\<close>

lemma pinned_first_insert_boundary:
  assumes "pinned_first ts"
  shows "pinned_first (take (pinnedBoundary ts) ts @ [t] @ drop (pinnedBoundary ts) ts)"
proof -
  have "pinned_first (take (pinnedBoundary ts) ts @ drop (pinnedBoundary ts) ts)"
    using assms by simp
  then show ?thesis
    using take_pinnedBoundary [of ts] assms
    by (auto simp: pinned_first_append pinned_first_def [of ts]
        intro: all_unpinned_first all_pinned_first)
qed

section \<open>Ids across workspaces\<close>

lemma set_all_ids: "x \<in> set (all_ids ob) \<longleftrightarrow> (\<exists>slug g. (slug, g) \<in> set ob \<and> x \<in> set (group_ids g))"
  by (auto simp: all_ids_def)

lemma all_ids_get:
  "distinct (js_keys ob) \<Longrightarrow>
   x \<in> set (all_ids ob) \<longleftrightarrow> (\<exists>slug g. js_get ob slug = Some g \<and> x \<in> set (group_ids g))"
  by (simp add: set_all_ids js_get_eq_Some_iff)

text \<open>A symmetric relation between the values of a map, after a new key is added.\<close>

lemma pairwise_upd:
  assumes "G s = None" and sym: "symp I"
  shows "(\<forall>a b h k. (G(s \<mapsto> g)) a = Some h \<longrightarrow> (G(s \<mapsto> g)) b = Some k \<longrightarrow> a \<noteq> b \<longrightarrow> I h k) \<longleftrightarrow>
    (\<forall>b h. G b = Some h \<longrightarrow> I g h) \<and>
    (\<forall>a b h k. G a = Some h \<longrightarrow> G b = Some k \<longrightarrow> a \<noteq> b \<longrightarrow> I h k)" (is "?L \<longleftrightarrow> ?R")
proof
  assume L: ?L
  have "I g h" if "G b = Some h" for b h
  proof -
    have "b \<noteq> s" using that assms(1) by auto
    with that L [rule_format, of s g b h] show ?thesis by simp
  qed
  moreover have "I h k" if "G a = Some h" "G b = Some k" "a \<noteq> b" for a b h k
  proof -
    have "a \<noteq> s" "b \<noteq> s" using that assms(1) by auto
    with that L [rule_format, of a h b k] show ?thesis by simp
  qed
  ultimately show ?R by blast
next
  assume R: ?R
  show ?L
  proof (intro allI impI)
    fix a b h k
    assume "(G(s \<mapsto> g)) a = Some h" "(G(s \<mapsto> g)) b = Some k" "a \<noteq> b"
    with R show "I h k"
      by (cases "a = s"; cases "b = s") (auto intro: sympD [OF sym])
  qed
qed

text \<open>Distinctness of the concatenation, in terms of lookups.\<close>

lemma distinct_all_ids:
  assumes "distinct (js_keys ob)"
  shows "distinct (all_ids ob) \<longleftrightarrow>
    (\<forall>a g. js_get ob a = Some g \<longrightarrow> distinct (group_ids g)) \<and>
    (\<forall>a b g h. js_get ob a = Some g \<longrightarrow> js_get ob b = Some h \<longrightarrow> a \<noteq> b
       \<longrightarrow> set (group_ids g) \<inter> set (group_ids h) = {})"
  using assms
proof (induction ob)
  case Nil
  then show ?case by (simp add: all_ids_def)
next
  case (Cons sg ob)
  obtain s g where sg: "sg = (s, g)" by (cases sg)
  have keys: "s \<notin> set (js_keys ob)" "distinct (js_keys ob)"
    using Cons.prems sg by (auto simp: js_keys_def)
  then have none: "js_get ob s = None" by (simp add: js_get_None_iff)
  have get: "js_get (sg # ob) = (js_get ob)(s \<mapsto> g)"
    by (auto simp: sg)
  have disj: "set (group_ids g) \<inter> set (all_ids ob) = {} \<longleftrightarrow>
      (\<forall>b h. js_get ob b = Some h \<longrightarrow> set (group_ids g) \<inter> set (group_ids h) = {})"
    using all_ids_get [OF keys(2)] by blast
  have all: "(\<forall>a h. ((js_get ob)(s \<mapsto> g)) a = Some h \<longrightarrow> distinct (group_ids h)) \<longleftrightarrow>
      distinct (group_ids g) \<and> (\<forall>a h. js_get ob a = Some h \<longrightarrow> distinct (group_ids h))"
    using none by (metis fun_upd_apply option.distinct(1) option.inject)
  have split: "distinct (all_ids (sg # ob)) \<longleftrightarrow>
      distinct (group_ids g) \<and> distinct (all_ids ob) \<and> set (group_ids g) \<inter> set (all_ids ob) = {}"
    by (auto simp: sg all_ids_def)
  have sym: "symp (\<lambda>h k. set (group_ids h) \<inter> set (group_ids k) = {})"
    by (auto simp: symp_def)
  note pw = pairwise_upd [where G = "js_get ob" and s = s, OF none sym]
  show ?case
    unfolding split disj get all pw Cons.IH [OF keys(2)] by blast
qed

lemma groups_ok_get:
  "groups_ok ob \<longleftrightarrow>
     js_ok ob \<and> (\<forall>slug\<in>set (js_keys ob). proper_slug slug) \<and>
     (\<forall>slug g. js_get ob slug = Some g \<longrightarrow> group_ok g) \<and>
     (\<forall>a b g h. js_get ob a = Some g \<longrightarrow> js_get ob b = Some h \<longrightarrow> a \<noteq> b
       \<longrightarrow> set (group_ids g) \<inter> set (group_ids h) = {})"
proof (cases "js_ok ob")
  case True
  then have d: "distinct (js_keys ob)" by (rule js_ok_distinct)
  have "(\<forall>(slug, g)\<in>set ob. group_ok g) \<longleftrightarrow> (\<forall>slug g. js_get ob slug = Some g \<longrightarrow> group_ok g)"
    by (auto simp: js_get_eq_Some_iff [OF d])
  with True show ?thesis
    by (simp add: groups_ok_def list_all_iff distinct_all_ids [OF d]) (auto simp: group_ok_def)
qed (simp add: groups_ok_def)

text \<open>
  The one lemma every action rests on: a group may be replaced by any good group whose ids
  are its own or new to the store.
\<close>

lemma groups_ok_put:
  assumes ok: "groups_ok ob" and slug: "proper_slug slug" and g: "group_ok g"
    and ids: "\<And>x. x \<in> set (group_ids g) \<Longrightarrow>
        (\<exists>old. js_get ob slug = Some old \<and> x \<in> set (group_ids old)) \<or> x \<notin> set (all_ids ob)"
  shows "groups_ok (js_put slug g ob)"
proof -
  have d: "distinct (js_keys ob)" using ok by (simp add: groups_ok_def js_ok_distinct)
  have disj: "set (group_ids g) \<inter> set (group_ids h) = {}"
    if h: "js_get ob b = Some h" "b \<noteq> slug" for b h
  proof -
    have "x \<notin> set (group_ids h)" if "x \<in> set (group_ids g)" for x
      using ids [OF that] ok h all_ids_get [OF d] unfolding groups_ok_get by blast
    then show ?thesis by blast
  qed
  then have disj': "set (group_ids h) \<inter> set (group_ids g) = {}"
    if "js_get ob b = Some h" "b \<noteq> slug" for b h
    using that by blast
  show ?thesis
    using ok slug g disj disj' unfolding groups_ok_get
    by (simp add: js_get_put set_keys_put js_ok_put)
qed

section \<open>Locating a tab\<close>

lemma findTabLocation_Some:
  "findTabLocation ob tabId = Some (slug, g, i) \<Longrightarrow>
     (slug, g) \<in> set ob \<and> find_index (\<lambda>t. tab_id t = tabId) (group_tabs g) = Some i"
  by (induction ob tabId rule: findTabLocation.induct) (auto split: option.splits)

lemma findTabLocation_get:
  assumes "groups_ok ob" and "findTabLocation ob tabId = Some (slug, g, i)"
  shows "js_get ob slug = Some g" and "i < length (group_tabs g)" and "tab_id (group_tabs g ! i) = tabId"
    and "group_ok g" and "proper_slug slug"
proof -
  note loc = findTabLocation_Some [OF assms(2)]
  have "distinct (js_keys ob)" using assms(1) by (simp add: groups_ok_def js_ok_distinct)
  with loc show get: "js_get ob slug = Some g" by (simp add: js_get_eq_Some_iff)
  from loc find_index_Some show "i < length (group_tabs g)" "tab_id (group_tabs g ! i) = tabId"
    by fastforce+
  show "group_ok g" "proper_slug slug"
    using get assms(1) js_get_Some_key [OF get] unfolding groups_ok_get by blast+
qed

lemma findTabLocation_None: "findTabLocation ob tabId = None \<longleftrightarrow> tabId \<notin> set (all_ids ob)"
  by (induction ob tabId rule: findTabLocation.induct)
    (auto simp: all_ids_def group_ids_def find_index_None split: option.splits dest!: find_index_Some)

lemma active_group_Some:
  assumes "active_group s = Some (slug, g)"
  shows "activeWorkspaceSlug s = Some slug" and "js_get (byWorkspace s) slug = Some g" and "slug \<noteq> []"
  using assms by (auto simp: active_group_def split: option.splits if_splits)

lemma store_ok_group:
  "store_ok s \<Longrightarrow> js_get (byWorkspace s) slug = Some g \<Longrightarrow> group_ok g \<and> proper_slug slug"
  by (metis groups_ok_get js_get_Some_key store_ok_def)

lemma active_index_Some: "active_index g = Some i \<Longrightarrow> i < length (group_tabs g) \<and> tab_id (group_tabs g ! i) = group_active g"
  by (auto simp: active_index_def dest: find_index_Some)

section \<open>Writing a group back\<close>

text \<open>\<open>set({byWorkspace: {...byWorkspace, [slug]: g}})\<close>, with or without a new active workspace.\<close>

lemma store_ok_put_group:
  assumes "store_ok s" and "proper_slug slug" and "group_ok g"
    and "\<And>x. x \<in> set (group_ids g) \<Longrightarrow>
        (\<exists>old. js_get (byWorkspace s) slug = Some old \<and> x \<in> set (group_ids old))
        \<or> x \<notin> set (all_ids (byWorkspace s))"
  shows "js_get (byWorkspace s) slug \<noteq> None \<Longrightarrow> store_ok (put_group slug g s)"
    and "store_ok (put_group slug g (s\<lparr>activeWorkspaceSlug := Some slug\<rparr>))"
  using assms groups_ok_put [of "byWorkspace s" slug g]
  by (auto simp: store_ok_def put_group_def active_ok_def set_keys_put split: option.splits)

lemma store_ok_edit:
  assumes s: "store_ok s" and "js_get (byWorkspace s) slug = Some g" and "group_ok g'"
    and "set (group_ids g') \<subseteq> set (group_ids g)"
  shows "store_ok (put_group slug g' s)"
    and "store_ok (put_group slug g' (s\<lparr>activeWorkspaceSlug := Some slug\<rparr>))"
proof -
  have "proper_slug slug" using store_ok_group [OF s assms(2)] by simp
  note put = store_ok_put_group [OF s this assms(3)]
  show "store_ok (put_group slug g' s)"
    and "store_ok (put_group slug g' (s\<lparr>activeWorkspaceSlug := Some slug\<rparr>))"
    using assms(2,4) by (auto intro!: put)
qed

text \<open>One session of a group replaced by a good one with the same x and pin.\<close>

lemma group_ok_update:
  assumes "group_ok g" and "i < length (group_tabs g)" and "session_ok t"
    and "tab_id t = tab_id (group_tabs g ! i)" and "tab_pinned t = tab_pinned (group_tabs g ! i)"
  shows "group_ok (g\<lparr>group_tabs := (group_tabs g)[i := t]\<rparr>)"
    and "group_ids (g\<lparr>group_tabs := (group_tabs g)[i := t]\<rparr>) = group_ids g"
proof -
  show ids: "group_ids (g\<lparr>group_tabs := (group_tabs g)[i := t]\<rparr>) = group_ids g"
    using assms by (simp add: group_ids_def map_list_update_same)
  show "group_ok (g\<lparr>group_tabs := (group_tabs g)[i := t]\<rparr>)"
    using assms ids
    by (auto simp: group_ok_def pinned_first_update list_all_iff dest: set_list_update)
qed

lemma store_ok_update_session:
  assumes "store_ok s" and "js_get (byWorkspace s) slug = Some g" and "i < length (group_tabs g)"
    and "session_ok t" and "tab_id t = tab_id (group_tabs g ! i)"
    and "tab_pinned t = tab_pinned (group_tabs g ! i)"
  shows "store_ok (put_group slug (g\<lparr>group_tabs := (group_tabs g)[i := t]\<rparr>) s)"
proof -
  have "group_ok g" using assms store_ok_group by blast
  from group_ok_update [OF this assms(3-6)] show ?thesis
    by (intro store_ok_edit(1) [OF assms(1,2)]) auto
qed

lemma group_session_ok: "group_ok g \<Longrightarrow> i < length (group_tabs g) \<Longrightarrow> session_ok (group_tabs g ! i)"
  by (simp add: group_ok_def list_all_length)

end
