(* ===== verification/Tab_Actions.thy ===== *)
theory Tab_Actions
  imports Tab_Invariant "HOL-Library.Multiset"
begin

text \<open>
  Every action of the tab store keeps the invariant; the actions as one step function, the
  reachable states, and the interface to \<open>arrayMove\<close>.
\<close>

section \<open>The library call\<close>

text \<open>
  \<open>arrayMove\<close> of \<open>@dnd-kit/sortable\<close>: "moves an item of an array to a different
  position". For two positions in range the item is taken out and put back at the new one.
\<close>

locale array_mover =
  fixes array_move :: "'a list \<Rightarrow> nat \<Rightarrow> nat \<Rightarrow> 'a list"
  assumes array_move: "i < length xs \<Longrightarrow> j < length xs \<Longrightarrow>
    array_move xs i j =
      take j (take i xs @ drop (Suc i) xs) @ [xs ! i] @ drop j (take i xs @ drop (Suc i) xs)"
begin

lemma move_set:
  assumes "i < length xs" and "j < length xs"
  shows "set (array_move xs i j) = set xs" and "length (array_move xs i j) = length xs"
proof -
  let ?r = "take i xs @ drop (Suc i) xs"
  have split: "xs = take i xs @ xs ! i # drop (Suc i) xs"
    using assms(1) by (rule id_take_nth_drop)
  have "set (array_move xs i j) = insert (xs ! i) (set (take j ?r) \<union> set (drop j ?r))"
    by (auto simp: array_move [OF assms])
  also have "\<dots> = insert (xs ! i) (set ?r)"
    by (simp only: set_append [symmetric] append_take_drop_id)
  also have "\<dots> = set xs"
    by (subst (4) split) auto
  finally show "set (array_move xs i j) = set xs" .
  show "length (array_move xs i j) = length xs"
    using assms by (simp add: array_move)
qed

lemma move_distinct:
  assumes "i < length xs" and "j < length xs"
  shows "distinct (map f (array_move xs i j)) = distinct (map f xs)"
proof -
  have "distinct (map f xs) \<longleftrightarrow> card (f ` set xs) = length xs" for xs :: "'a list"
    by (metis card_distinct distinct_card length_map list.set_map)
  then show ?thesis using move_set [OF assms] by simp
qed

end

text \<open>The instance that the executable examples use.\<close>

definition move_item :: "'a list \<Rightarrow> nat \<Rightarrow> nat \<Rightarrow> 'a list" where
  "move_item xs i j =
     (let r = take i xs @ drop (Suc i) xs in
      if i < length xs then take j r @ [xs ! i] @ drop j r else xs)"

interpretation move_item: array_mover move_item
  by unfold_locales (simp add: move_item_def Let_def)

section \<open>New sessions\<close>

lemma session_ok_makeSession: "clean_url u \<Longrightarrow> session_ok (makeSession fresh u title icon)"
  by (simp add: session_ok_def makeSession_def history_ok_def emptyMemento_def Let_def)

lemma makeSession_simps [simp]:
  "tab_id (makeSession fresh u title icon) = fresh"
  "tab_pinned (makeSession fresh u title icon) = False"
  "tab_url (makeSession fresh u title icon) = u"
  "tab_resourceKey (makeSession fresh u title icon) = resourceKeyForUrl u"
  by (simp_all add: makeSession_def)

lemma group_ok_single:
  "session_ok t \<Longrightarrow> group_ok \<lparr>group_tabs = [t], group_active = tab_id t\<rparr>"
  by (simp add: group_ok_def group_ids_def all_unpinned_first)

lemma group_ok_append:
  assumes "group_ok g" and "session_ok t" and "\<not> tab_pinned t" and "tab_id t \<notin> set (group_ids g)"
    and "a \<in> insert (tab_id t) (set (group_ids g))"
  shows "group_ok \<lparr>group_tabs = group_tabs g @ [t], group_active = a\<rparr>"
  using assms by (auto simp: group_ok_def group_ids_def pinned_first_append)

lemma group_ok_activate: "group_ok g \<Longrightarrow> a \<in> set (group_ids g) \<Longrightarrow> group_ok (g\<lparr>group_active := a\<rparr>)"
  by (simp add: group_ok_def group_ids_def)

lemma group_ids_activate [simp]: "group_ids (g\<lparr>group_active := a\<rparr>) = group_ids g"
  by (simp add: group_ids_def)

lemma group_ids_make [simp]: "group_ids \<lparr>group_tabs = ts, group_active = a\<rparr> = map tab_id ts"
  by (simp add: group_ids_def)

lemma defaultTabFor_ok: "proper_slug slug \<Longrightarrow> session_ok (defaultTabFor fresh slug)"
  by (simp add: defaultTabFor_def session_ok_makeSession defaultPathFor_clean)

lemma defaultTabFor_id [simp]: "tab_id (defaultTabFor fresh slug) = fresh"
  by (simp add: defaultTabFor_def)

text \<open>A new single-tab group, and a tab appended to a group.\<close>

lemma store_ok_new_group:
  assumes "store_ok s" and "proper_slug slug" and "session_ok t"
    and "tab_id t \<notin> set (all_ids (byWorkspace s))"
  shows "js_get (byWorkspace s) slug \<noteq> None \<Longrightarrow>
      store_ok (put_group slug \<lparr>group_tabs = [t], group_active = tab_id t\<rparr> s)"
    and "store_ok (put_group slug \<lparr>group_tabs = [t], group_active = tab_id t\<rparr>
           (s\<lparr>activeWorkspaceSlug := Some slug\<rparr>))"
  using assms by (auto intro!: store_ok_put_group group_ok_single)

lemma store_ok_append_tab:
  assumes s: "store_ok s" and g: "js_get (byWorkspace s) slug = Some g" and "session_ok t"
    and "\<not> tab_pinned t" and fresh: "tab_id t \<notin> set (all_ids (byWorkspace s))"
    and "a \<in> insert (tab_id t) (set (group_ids g))"
  shows "store_ok (put_group slug \<lparr>group_tabs = group_tabs g @ [t], group_active = a\<rparr> s)"
    and "store_ok (put_group slug \<lparr>group_tabs = group_tabs g @ [t], group_active = a\<rparr>
           (s\<lparr>activeWorkspaceSlug := Some slug\<rparr>))"
proof -
  have "distinct (js_keys (byWorkspace s))"
    using s by (simp add: store_ok_def groups_ok_def js_ok_distinct)
  then have "tab_id t \<notin> set (group_ids g)"
    using fresh g all_ids_get by blast
  then have ok: "group_ok \<lparr>group_tabs = group_tabs g @ [t], group_active = a\<rparr>"
    using assms store_ok_group [OF s g] by (auto intro!: group_ok_append)
  show "store_ok (put_group slug \<lparr>group_tabs = group_tabs g @ [t], group_active = a\<rparr> s)"
    and "store_ok (put_group slug \<lparr>group_tabs = group_tabs g @ [t], group_active = a\<rparr>
           (s\<lparr>activeWorkspaceSlug := Some slug\<rparr>))"
    using s store_ok_group [OF s g] ok g fresh
    by (auto intro!: store_ok_put_group simp: group_ids_def)
qed

lemma find_by_key_Some: "find_by_key key ts = Some t \<Longrightarrow> t \<in> set ts \<and> tab_resourceKey t = key"
  by (auto simp: find_by_key_def find_Some_iff)

lemma store_ok_activate_tab:
  assumes "store_ok s" and "js_get (byWorkspace s) slug = Some g" and "t \<in> set (group_tabs g)"
  shows "store_ok (put_group slug (g\<lparr>group_active := tab_id t\<rparr>) s)"
    and "store_ok (put_group slug (g\<lparr>group_active := tab_id t\<rparr>) (s\<lparr>activeWorkspaceSlug := Some slug\<rparr>))"
  using assms store_ok_group [OF assms(1,2)]
  by (auto intro!: store_ok_edit group_ok_activate simp: group_ids_def)

section \<open>Opening and switching\<close>

lemma store_ok_active_slug:
  "store_ok s \<Longrightarrow> js_get (byWorkspace s) slug = Some g \<Longrightarrow> store_ok (s\<lparr>activeWorkspaceSlug := Some slug\<rparr>)"
  by (simp add: store_ok_def active_ok_def) (blast dest: js_get_Some_key)

lemma switchWorkspace_ok:
  assumes s: "store_ok s" and slug: "slug = [] \<or> proper_slug slug"
    and fresh: "fresh \<notin> set (all_ids (byWorkspace s))"
  shows "store_ok (switchWorkspace fresh slug openPath s)"
proof (cases "slug = []")
  case False
  with slug have slug: "proper_slug slug" by simp
  show ?thesis
  proof (cases "js_get (byWorkspace s) slug")
    case None
    define seed where "seed = (case (if (case openPath of Some p \<Rightarrow> p | None \<Rightarrow> defaultPathFor slug) = []
        then None else sanitizeTabPath (case openPath of Some p \<Rightarrow> p | None \<Rightarrow> defaultPathFor slug))
      of Some p \<Rightarrow> p | None \<Rightarrow> defaultPathFor slug)"
    have "clean_url seed"
      using slug unfolding seed_def
      by (auto simp: defaultPathFor_clean sanitize_clean split: option.split)
    then have "session_ok (makeSession fresh seed ''Issues'' (resolveRouteIcon seed))"
      by (rule session_ok_makeSession)
    from store_ok_new_group(2) [OF s slug this] False None fresh show ?thesis
      by (simp add: switchWorkspace_def Let_def seed_def)
  next
    case (Some existing)
    show ?thesis
    proof (cases "if falsy openPath then None else Option.bind openPath sanitizeTabPath")
      case None
      with False Some s show ?thesis
        by (simp add: switchWorkspace_def store_ok_active_slug)
    next
      case clean: (Some clean)
      then have c: "clean_url clean"
        by (auto simp: bind_eq_Some_conv sanitize_clean split: if_splits)
      show ?thesis
      proof (cases "find_by_key (resourceKeyForUrl clean) (group_tabs existing)")
        case None
        then show ?thesis
          using False Some clean
            store_ok_append_tab(2) [OF s Some session_ok_makeSession [OF c, of fresh "''Issues''" "resolveRouteIcon clean"]] fresh
          by (simp add: switchWorkspace_def Let_def)
      next
        case (Some t)
        with \<open>js_get _ _ = Some existing\<close> show ?thesis
          using False clean s store_ok_activate_tab(2) [of s slug existing t]
          by (simp add: switchWorkspace_def find_by_key_Some)
      qed
    qed
  qed
qed (simp add: switchWorkspace_def s)

lemma openTab_ok:
  assumes s: "store_ok s" and fresh: "fresh \<notin> set (all_ids (byWorkspace s))"
  shows "store_ok (fst (openTab fresh path title icon activate s))"
proof (cases "sanitizeTabPath path")
  case clean: (Some clean)
  show ?thesis
  proof (cases "active_group s")
    case (Some sg)
    obtain slug g where sg: "sg = (slug, g)" by force
    note g = active_group_Some [OF Some [unfolded sg]]
    have act: "group_active g \<in> set (group_ids g)"
      using store_ok_group [OF s g(2)] by (simp add: group_ok_def)
    note t = session_ok_makeSession [OF sanitize_clean [OF clean], of fresh title icon]
    show ?thesis
    proof (cases "find_by_key (resourceKeyForUrl clean) (group_tabs g)")
      case None
      then show ?thesis
        using clean Some sg fresh act store_ok_append_tab(1) [OF s g(2) t]
        by (simp add: openTab_def Let_def)
    next
      case found: (Some e)
      then have "e \<in> set (group_tabs g)" by (simp add: find_by_key_Some)
      then show ?thesis
        using clean Some sg s g found store_ok_activate_tab(1) [of s slug g e]
        by (simp add: openTab_def)
    qed
  qed (simp add: openTab_def clean s)
qed (simp add: openTab_def s)

lemma addTab_ok:
  assumes s: "store_ok s" and fresh: "fresh \<notin> set (all_ids (byWorkspace s))"
  shows "store_ok (fst (addTab fresh path title icon s))"
proof (cases "sanitizeTabPath path")
  case clean: (Some clean)
  show ?thesis
  proof (cases "active_group s")
    case (Some sg)
    obtain slug g where sg: "sg = (slug, g)" by force
    note g = active_group_Some [OF Some [unfolded sg]]
    have act: "group_active g \<in> set (group_ids g)"
      using store_ok_group [OF s g(2)] by (simp add: group_ok_def)
    note t = session_ok_makeSession [OF sanitize_clean [OF clean], of fresh title icon]
    show ?thesis
      using clean Some sg fresh act store_ok_append_tab(1) [OF s g(2) t]
      by (simp add: addTab_def Let_def)
  qed (simp add: addTab_def clean s)
qed (simp add: addTab_def s)

section \<open>Closing\<close>

lemma group_ok_filter:
  assumes "group_ok g" and "a \<in> set (map tab_id (filter p (group_tabs g)))"
  shows "group_ok \<lparr>group_tabs = filter p (group_tabs g), group_active = a\<rparr>"
  using assms
  by (auto simp: group_ok_def group_ids_def pinned_first_filter distinct_map_filter list_all_iff)

lemma closeTab_ok:
  assumes s: "store_ok s" and fresh: "fresh \<notin> set (all_ids (byWorkspace s))"
  shows "store_ok (closeTab fresh tabId s)"
proof (cases "findTabLocation (byWorkspace s) tabId")
  case (Some loc)
  obtain slug g i where loc: "loc = (slug, g, i)" by (cases loc)
  have gok: "groups_ok (byWorkspace s)" using s by (simp add: store_ok_def)
  note g = findTabLocation_get [OF gok Some [unfolded loc]]
  let ?next = "filter (\<lambda>t. tab_id t \<noteq> tabId) (group_tabs g)"
  have keep: "store_ok (put_group slug \<lparr>group_tabs = ?next, group_active = a\<rparr> s)"
    if "a \<in> set (map tab_id ?next)" for a
    by (rule store_ok_edit(1) [OF s g(1) group_ok_filter [OF g(4) that]]) (auto simp: group_ids_def)
  show ?thesis
  proof (cases "length (group_tabs g) = 1")
    case True
    with Some loc g store_ok_new_group(1) [OF s g(5) defaultTabFor_ok [OF g(5)], of fresh] fresh
    show ?thesis by (simp add: closeTab_def)
  next
    case False
    show ?thesis
    proof (cases "group_active g = tabId")
      case True
      show ?thesis
      proof (cases "?next = []")
        case True
        with Some loc False \<open>group_active g = tabId\<close> s show ?thesis by (simp add: closeTab_def)
      next
        case nonempty: False
        then have "min i (length ?next - 1) < length ?next" by (cases ?next) auto
        then have "tab_id (?next ! min i (length ?next - 1)) \<in> set (map tab_id ?next)"
          unfolding set_map by (intro imageI nth_mem)
        from keep [OF this] show ?thesis
          using Some loc False True nonempty by (simp add: closeTab_def Let_def)
      qed
    next
      case other: False
      have "group_active g \<in> set (group_ids g)" using g(4) by (simp add: group_ok_def)
      then have "group_active g \<in> set (map tab_id ?next)" using other by (auto simp: group_ids_def)
      from keep [OF this] show ?thesis
        using Some loc False other by (simp add: closeTab_def Let_def)
    qed
  qed
qed (simp add: closeTab_def s)

lemma closeOtherTabs_ok:
  assumes s: "store_ok s"
  shows "store_ok (closeOtherTabs tabId s)"
proof (cases "buildCloseOtherTabsResult (byWorkspace s) tabId")
  case (Some ob)
  then obtain slug g i where loc: "findTabLocation (byWorkspace s) tabId = Some (slug, g, i)"
    by (auto simp: buildCloseOtherTabsResult_def split: option.splits)
  have gok: "groups_ok (byWorkspace s)" using s by (simp add: store_ok_def)
  note g = findTabLocation_get [OF gok loc]
  define closing where "closing = map tab_id (filter (\<lambda>t. \<not> tab_pinned t \<and> tab_id t \<noteq> tabId) (group_tabs g))"
  let ?next = "filter (\<lambda>t. \<not> List.member closing (tab_id t)) (group_tabs g)"
  let ?a = "if List.member closing (group_active g) then tabId else group_active g"
  have ob: "ob = js_put slug \<lparr>group_tabs = ?next, group_active = ?a\<rparr> (byWorkspace s)"
    using Some loc by (auto simp: buildCloseOtherTabsResult_def closing_def Let_def split: if_splits)
  have "tabId \<in> set (group_ids g)" "tabId \<notin> set closing"
    using g(2,3) by (auto simp: group_ids_def closing_def)
  moreover have "group_active g \<in> set (group_ids g)" using g(4) by (simp add: group_ok_def)
  ultimately have "?a \<in> set (map tab_id ?next)" by (auto simp: group_ids_def)
  note ok = group_ok_filter [OF g(4) this]
  have "set (group_ids \<lparr>group_tabs = ?next, group_active = ?a\<rparr>) \<subseteq> set (group_ids g)"
    by (auto simp: group_ids_def)
  from store_ok_edit(1) [OF s g(1) ok this] show ?thesis
    using Some ob by (simp add: closeOtherTabs_def put_group_def)
qed (simp add: closeOtherTabs_def s)

lemma setActiveTab_ok:
  assumes s: "store_ok s"
  shows "store_ok (setActiveTab tabId s)"
proof (cases "findTabLocation (byWorkspace s) tabId")
  case (Some loc)
  obtain slug g i where loc: "loc = (slug, g, i)" by (cases loc)
  have gok: "groups_ok (byWorkspace s)" using s by (simp add: store_ok_def)
  note g = findTabLocation_get [OF gok Some [unfolded loc]]
  from store_ok_activate_tab(2) [OF s g(1), of "group_tabs g ! i"] g s Some loc show ?thesis
    by (simp add: setActiveTab_def)
qed (simp add: setActiveTab_def s)

section \<open>Editing one session\<close>

lemma updateTab_ok:
  assumes s: "store_ok s"
  shows "store_ok (updateTab tabId patchTitle patchIcon s)"
proof (cases "findTabLocation (byWorkspace s) tabId")
  case (Some loc)
  obtain slug g i where loc: "loc = (slug, g, i)" by (cases loc)
  have gok: "groups_ok (byWorkspace s)" using s by (simp add: store_ok_def)
  note g = findTabLocation_get [OF gok Some [unfolded loc]]
  have "session_ok ((group_tabs g ! i)\<lparr>tab_title := a, tab_icon := b\<rparr>)" for a b
    using group_session_ok [OF g(4,2)] by (simp add: session_ok_def history_ok_def)
  from store_ok_update_session [OF s g(1,2) this] show ?thesis
    using s Some loc by (simp add: updateTab_def Let_def)
qed (simp add: updateTab_def s)

text \<open>The history after a push or a replace holds the new URL at its index.\<close>

lemma navigate_history:
  fixes i :: int
  assumes "0 \<le> i" and "i < int (length st)" and "list_all clean_url st" and "clean_url u"
  shows "let st' = js_slice st 0 i @ [u] @ js_slice_from st (i + 1) in
      i < int (length st') \<and> st' ! nat i = u \<and> list_all clean_url st'"
    and "let st' = js_slice st 0 (i + 1) @ [u] in
      i + 1 < int (length st') \<and> st' ! nat (i + 1) = u \<and> list_all clean_url st'"
proof -
  obtain n where n: "i = int n" using assms(1) nonneg_int_cases by blast
  have n': "nat (int n + 1) = Suc n" by simp
  have "\<forall>u\<in>set (take k st). clean_url u" "\<forall>u\<in>set (drop k st). clean_url u" for k
    using assms(3) by (auto simp: list_all_iff dest: in_set_takeD in_set_dropD)
  then show "let st' = js_slice st 0 i @ [u] @ js_slice_from st (i + 1) in
      i < int (length st') \<and> st' ! nat i = u \<and> list_all clean_url st'"
    and "let st' = js_slice st 0 (i + 1) @ [u] in
      i + 1 < int (length st') \<and> st' ! nat (i + 1) = u \<and> list_all clean_url st'"
    using assms n by (auto simp: n' list_all_iff nth_append Let_def)
qed

lemma session_ok_navigate:
  assumes "session_ok t" and "clean_url u" and "h = tab_history t"
  shows "session_ok (t\<lparr>tab_url := u, tab_resourceKey := resourceKeyForUrl u, tab_icon := ic, tab_history :=
      \<lparr>hist_stack = (if replace then js_slice (hist_stack h) 0 (hist_index h) @ [u] @
                        js_slice_from (hist_stack h) (hist_index h + 1)
                      else js_slice (hist_stack h) 0 (hist_index h + 1) @ [u]),
       hist_index = (if replace then hist_index h else hist_index h + 1)\<rparr>\<rparr>)"
proof -
  have h: "0 \<le> hist_index h" "hist_index h < int (length (hist_stack h))"
    "list_all clean_url (hist_stack h)"
    using assms by (auto simp: session_ok_def history_ok_def Let_def)
  note nav = navigate_history [OF h assms(2)]
  show ?thesis
    using assms(1) h nav by (simp add: session_ok_def history_ok_def Let_def)
qed

lemma navigateActiveSession_ok:
  assumes s: "store_ok s"
  shows "store_ok (navigateActiveSession target replace s)"
proof (cases "active_group s")
  case (Some sg)
  obtain slug g where sg: "sg = (slug, g)" by force
  note g = active_group_Some [OF Some [unfolded sg]]
  have gok: "group_ok g" using store_ok_group [OF s g(2)] by simp
  show ?thesis
  proof (cases "active_index g")
    case idx: (Some i)
    note i = active_index_Some [OF idx]
    show ?thesis
    proof (cases "sanitizeTabPath target")
      case (Some clean)
      note t = session_ok_navigate [OF group_session_ok [OF gok conjunct1 [OF i]] sanitize_clean [OF Some] refl]
      show ?thesis
        using s \<open>active_group s = _\<close> sg idx Some store_ok_update_session [OF s g(2) conjunct1 [OF i] t]
        by (simp add: navigateActiveSession_def Let_def)
    qed (use s Some sg idx in \<open>simp add: navigateActiveSession_def\<close>)
  qed (use s Some sg in \<open>simp add: navigateActiveSession_def\<close>)
qed (simp add: navigateActiveSession_def s)

lemma session_ok_step:
  assumes "session_ok t" and "h = tab_history t" and "0 \<le> j" and "j < int (length (hist_stack h))"
  shows "session_ok (t\<lparr>tab_url := hist_stack h ! nat j,
      tab_resourceKey := resourceKeyForUrl (hist_stack h ! nat j), tab_icon := ic,
      tab_history := h\<lparr>hist_index := j\<rparr>\<rparr>)"
  using assms by (simp add: session_ok_def history_ok_def Let_def)

lemma stepHistory_ok:
  assumes s: "store_ok s"
  shows "store_ok (stepHistory delta s)"
proof (cases "active_group s")
  case (Some sg)
  obtain slug g where sg: "sg = (slug, g)" by force
  note g = active_group_Some [OF Some [unfolded sg]]
  have gok: "group_ok g" using store_ok_group [OF s g(2)] by simp
  show ?thesis
  proof (cases "active_index g")
    case idx: (Some i)
    note i = active_index_Some [OF idx]
    note t = session_ok_step [OF group_session_ok [OF gok conjunct1 [OF i]] refl]
    show ?thesis
      using s Some sg idx store_ok_update_session [OF s g(2) conjunct1 [OF i] t]
      by (simp add: stepHistory_def Let_def)
  qed (use s Some sg in \<open>simp add: stepHistory_def\<close>)
qed (simp add: stepHistory_def s)

lemma js_ok_next_scroll: "js_ok (next_scroll routeKey entries old)"
proof -
  have "js_ok (fold (\<lambda>(c, v). js_put (scrollMementoKey routeKey c) v) es ob)" if "js_ok ob"
    for es and ob :: "scroll_offset js_object"
    using that by (induction es arbitrary: ob) (auto simp: js_ok_put)
  then show ?thesis by (simp add: next_scroll_def)
qed

lemma commitScrollMemento_ok:
  assumes s: "store_ok s"
  shows "store_ok (commitScrollMemento tabId routeKey entries s)"
proof (cases "findTabLocation (byWorkspace s) tabId")
  case (Some loc)
  obtain slug g i where loc: "loc = (slug, g, i)" by (cases loc)
  have gok: "groups_ok (byWorkspace s)" using s by (simp add: store_ok_def)
  note g = findTabLocation_get [OF gok Some [unfolded loc]]
  have "session_ok ((group_tabs g ! i)\<lparr>tab_memento := \<lparr>scroll = next_scroll routeKey entries old\<rparr>\<rparr>)" for old
    using group_session_ok [OF g(4,2)] by (simp add: session_ok_def history_ok_def js_ok_next_scroll)
  from store_ok_update_session [OF s g(1,2) this] show ?thesis
    using s Some loc by (simp add: commitScrollMemento_def Let_def)
qed (simp add: commitScrollMemento_def s)

section \<open>Reload, reorder, pin\<close>

lemma reloadActiveTab_ok: "store_ok s \<Longrightarrow> store_ok (reloadActiveTab s)"
  by (auto simp: reloadActiveTab_def store_ok_def active_ok_def split: option.splits prod.splits)

lemma closeActiveTab_ok:
  "store_ok s \<Longrightarrow> fresh \<notin> set (all_ids (byWorkspace s)) \<Longrightarrow> store_ok (closeActiveTab fresh s)"
  by (auto simp: closeActiveTab_def closeTab_ok split: option.splits)

text \<open>
  A move inside one zone keeps the pinned tabs first: the source and every position between
  the two ends lie on the same side of the boundary.
\<close>

lemma pinned_first_iff_nth:
  "pinned_first ts \<longleftrightarrow> (\<exists>b\<le>length ts. \<forall>i<length ts. tab_pinned (ts ! i) \<longleftrightarrow> i < b)"
proof
  assume "pinned_first ts"
  then show "\<exists>b\<le>length ts. \<forall>i<length ts. tab_pinned (ts ! i) \<longleftrightarrow> i < b"
    using pinned_first_nth pinnedBoundary_le by blast
next
  assume "\<exists>b\<le>length ts. \<forall>i<length ts. tab_pinned (ts ! i) \<longleftrightarrow> i < b"
  then obtain b where b: "b \<le> length ts" "\<forall>i<length ts. tab_pinned (ts ! i) \<longleftrightarrow> i < b" by blast
  have "list_all tab_pinned (take b ts)" and un: "list_all (\<lambda>t. \<not> tab_pinned t) (drop b ts)"
    using b by (simp_all add: list_all_length)
  then have "pinned_first (take b ts)" "pinned_first (drop b ts)"
    by (blast intro: all_pinned_first all_unpinned_first)+
  with un have "pinned_first (take b ts @ drop b ts)"
    using b by (simp only: pinned_first_append) simp
  then show "pinned_first ts" by simp
qed

context array_mover
begin

lemma move_nth:
  assumes i: "i < length xs" and j: "j < length xs" and k: "k < length xs"
  shows "array_move xs i j ! k =
    (if k = j then xs ! i
     else if k < j then (if k < i then xs ! k else xs ! Suc k)
     else (if k \<le> i then xs ! (k - 1) else xs ! k))"
proof -
  define r where "r = take i xs @ drop (Suc i) xs"
  have r: "r ! m = (if m < i then xs ! m else xs ! Suc m)" if "m < length xs - 1" for m
    using that i by (auto simp: r_def nth_append min_def)
  have len: "length r = length xs - 1" using i by (simp add: r_def)
  have am: "array_move xs i j = take j r @ [xs ! i] @ drop j r"
    using array_move [OF i j] by (simp add: r_def)
  have tj: "length (take j r) = j" using j len by simp
  consider "k < j" | "k = j" | "j < k" by linarith
  then show ?thesis
  proof cases
    case 1
    with tj have "array_move xs i j ! k = r ! k" by (simp add: am nth_append)
    with 1 r [of k] j show ?thesis by simp
  next
    case 2
    with tj show ?thesis by (simp add: am nth_append)
  next
    case 3
    then obtain m where m: "k = Suc m" "j \<le> m" by (cases k) auto
    have "array_move xs i j ! k = (xs ! i # drop j r) ! (k - j)"
      using 3 tj by (simp add: am nth_append)
    also have "\<dots> = drop j r ! (m - j)" using m by (simp add: Suc_diff_le)
    also have "\<dots> = r ! m" using m k len by simp
    finally show ?thesis using 3 m r [of m] k by auto
  qed
qed

end

lemma moveTab_clamp:
  assumes "array_mover am" and g: "group_ok g" and i: "i < length (group_tabs g)"
    and j: "j < length (group_tabs g)"
    and zone: "i < pinnedBoundary (group_tabs g) \<longleftrightarrow> j < pinnedBoundary (group_tabs g)"
  shows "group_ok (g\<lparr>group_tabs := am (group_tabs g) i j\<rparr>)"
    and "set (group_ids (g\<lparr>group_tabs := am (group_tabs g) i j\<rparr>)) = set (group_ids g)"
proof -
  let ?ts = "group_tabs g"
  note sets = array_mover.move_set [OF assms(1) i j]
  have pin: "tab_pinned (?ts ! k) \<longleftrightarrow> k < pinnedBoundary ?ts" if "k < length ?ts" for k
    using g that by (simp add: group_ok_def pinned_first_nth)
  have "tab_pinned (am ?ts i j ! k) \<longleftrightarrow> k < pinnedBoundary ?ts" if k: "k < length ?ts" for k
    using zone pin i j k by (auto simp: array_mover.move_nth [OF assms(1) i j k])
  then have "pinned_first (am ?ts i j)"
    using sets pinnedBoundary_le [of ?ts] unfolding pinned_first_iff_nth by auto
  then show "group_ok (g\<lparr>group_tabs := am ?ts i j\<rparr>)"
    using g sets array_mover.move_distinct [OF assms(1) i j, of tab_id]
    by (simp add: group_ok_def group_ids_def list_all_iff)
  show "set (group_ids (g\<lparr>group_tabs := am ?ts i j\<rparr>)) = set (group_ids g)"
    using sets by (simp add: group_ids_def)
qed

lemma moveTab_ok:
  assumes am: "array_mover am" and s: "store_ok s"
  shows "store_ok (moveTab am fromIndex toIndex s)"
proof (cases "active_group s")
  case (Some sg)
  obtain slug g where sg: "sg = (slug, g)" by force
  note g = active_group_Some [OF Some [unfolded sg]]
  have gok: "group_ok g" using store_ok_group [OF s g(2)] by simp
  let ?ts = "group_tabs g" and ?b = "int (pinnedBoundary (group_tabs g))"
  let ?to = "if tab_pinned (?ts ! nat fromIndex) then max 0 (min toIndex (?b - 1))
             else max ?b (min toIndex (int (length ?ts) - 1))"
  show ?thesis
  proof (cases "0 \<le> fromIndex \<and> fromIndex < int (length ?ts)")
    case True
    then have i: "nat fromIndex < length ?ts" by auto
    have pin: "tab_pinned (?ts ! nat fromIndex) \<longleftrightarrow> nat fromIndex < pinnedBoundary ?ts"
      using gok i by (simp add: group_ok_def pinned_first_nth)
    have "nat ?to < length ?ts"
      and "nat fromIndex < pinnedBoundary ?ts \<longleftrightarrow> nat ?to < pinnedBoundary ?ts"
      using True i pin pinnedBoundary_le [of ?ts] by auto
    note mv = moveTab_clamp [OF am gok i this]
    from store_ok_edit(1) [OF s g(2) mv(1)] mv(2) show ?thesis
      using s Some sg True by (simp add: moveTab_def Let_def)
  qed (use s Some sg in \<open>auto simp: moveTab_def\<close>)
qed (simp add: moveTab_def s)

lemma mset_insert_at: "mset (take b r @ [t] @ drop b r) = add_mset t (mset r)"
proof -
  have "mset (take b r) + mset (drop b r) = mset r"
    by (metis append_take_drop_id mset_append)
  then show ?thesis by simp
qed

lemma group_ok_toggle:
  assumes g: "group_ok g" and i: "i < length (group_tabs g)"
  shows "let r = take i (group_tabs g) @ drop (Suc i) (group_tabs g);
             t = (group_tabs g ! i)\<lparr>tab_pinned := p\<rparr>;
             g' = g\<lparr>group_tabs := take (pinnedBoundary r) r @ [t] @ drop (pinnedBoundary r) r\<rparr>
         in group_ok g' \<and> set (group_ids g') = set (group_ids g)"
proof -
  let ?ts = "group_tabs g"
  define t where "t = (group_tabs g ! i)\<lparr>tab_pinned := p\<rparr>"
  define r where "r = take i ?ts @ drop (Suc i) ?ts"
  define n where "n = take (pinnedBoundary r) r @ [t] @ drop (pinnedBoundary r) r"
  have split: "?ts = take i ?ts @ ?ts ! i # drop (Suc i) ?ts" using i by (rule id_take_nth_drop)
  have "pinned_first (take i ?ts @ ?ts ! i # drop (Suc i) ?ts)"
    using g split by (simp add: group_ok_def)
  then have "pinned_first r"
    unfolding r_def by (auto simp: pinned_first_append split: if_splits intro: all_unpinned_first)
  then have pf: "pinned_first n" unfolding n_def by (rule pinned_first_insert_boundary)
  have mset_n: "mset n = add_mset t (mset r)" unfolding n_def by (rule mset_insert_at)
  have mset_ts: "mset ?ts = add_mset (?ts ! i) (mset r)"
    by (subst split) (simp add: r_def)
  have "mset (map tab_id n) = mset (map tab_id ?ts)"
    unfolding mset_map mset_n mset_ts by (simp add: t_def)
  then have ids: "distinct (map tab_id n) = distinct (map tab_id ?ts)"
    "set (map tab_id n) = set (map tab_id ?ts)"
    by (blast dest: mset_eq_imp_distinct_iff mset_eq_setD)+
  have "session_ok t"
    using group_session_ok [OF g i] by (simp add: t_def session_ok_def history_ok_def)
  moreover have "set n = insert t (set r)" "set r \<subseteq> set ?ts"
    using arg_cong [OF mset_n, of set_mset] arg_cong [OF mset_ts, of set_mset] by auto
  ultimately have "list_all session_ok n"
    using g by (auto simp: group_ok_def list_all_iff)
  with pf g ids have "group_ok (g\<lparr>group_tabs := n\<rparr>) \<and> set (group_ids (g\<lparr>group_tabs := n\<rparr>)) = set (group_ids g)"
    by (simp add: group_ok_def group_ids_def)
  then show ?thesis by (simp add: Let_def n_def r_def t_def)
qed

lemma togglePin_ok:
  assumes s: "store_ok s"
  shows "store_ok (togglePin tabId s)"
proof (cases "findTabLocation (byWorkspace s) tabId")
  case (Some loc)
  obtain slug g i where loc: "loc = (slug, g, i)" by (cases loc)
  have gok: "groups_ok (byWorkspace s)" using s by (simp add: store_ok_def)
  note g = findTabLocation_get [OF gok Some [unfolded loc]]
  note t = group_ok_toggle [OF g(4,2), of "\<not> tab_pinned (group_tabs g ! i)", unfolded Let_def]
  from store_ok_edit(1) [OF s g(1) conjunct1 [OF t]] conjunct2 [OF t] show ?thesis
    using Some loc by (simp add: togglePin_def Let_def)
qed (simp add: togglePin_def s)

section \<open>Revoked workspaces\<close>

lemma groups_ok_filter:
  assumes "groups_ok ob"
  shows "groups_ok (filter (\<lambda>(slug, g). p slug) ob)"
proof -
  have "js_ok (filter (\<lambda>(slug, g). p slug) ob)"
    using assms by (simp add: groups_ok_def js_ok_filter)
  moreover have "set (js_keys (filter (\<lambda>(slug, g). p slug) ob)) \<subseteq> set (js_keys ob)"
    by (auto simp: js_keys_def)
  ultimately show ?thesis
    using assms unfolding groups_ok_get by (auto simp: js_get_filter_key split: if_splits)
qed

lemma kept_groups:
  "groups_ok ob \<Longrightarrow> js_from_entries (filter (\<lambda>(slug, g). p slug) ob) = filter (\<lambda>(slug, g). p slug) ob"
  by (simp add: js_from_entries_id js_ok_filter groups_ok_def)

lemma first_key_in: "first_key ob = Some k \<Longrightarrow> k \<in> set (js_keys ob)"
  by (auto simp: first_key_def split: list.splits)

lemma first_key_None: "first_key ob = None \<longleftrightarrow> ob = []"
  by (auto simp: first_key_def js_keys_def split: list.splits)

lemma store_ok_active:
  "store_ok s \<Longrightarrow> activeWorkspaceSlug s = Some slug \<Longrightarrow> slug \<in> set (js_keys (byWorkspace s)) \<and> proper_slug slug"
  by (auto simp: store_ok_def active_ok_def groups_ok_def list_all_iff)

lemma proper_slug_nonempty: "proper_slug slug \<Longrightarrow> slug \<noteq> []"
  by (simp add: proper_slug_def)

lemma keys_filter_key:
  "set (js_keys (filter (\<lambda>(slug, g). p slug) ob)) = {k \<in> set (js_keys ob). p k}"
  by (auto simp: js_keys_def)

text \<open>What a validation leaves: the groups of valid slugs, an active one among them if any.\<close>

lemma validateWorkspaceSlugs_cases:
  fixes s :: tab_store and validSlugs :: "string list"
  assumes s: "store_ok s"
  defines "kept \<equiv> filter (\<lambda>(slug, g). List.member validSlugs slug) (byWorkspace s)"
  obtains (keep) "validateWorkspaceSlugs fresh validSlugs s = s\<lparr>byWorkspace := kept\<rparr>"
      and "activeWorkspaceSlug s \<noteq> None \<Longrightarrow> the (activeWorkspaceSlug s) \<in> set (js_keys kept)"
      and "activeWorkspaceSlug s = None \<Longrightarrow> kept = [] \<and> validSlugs = [] \<or> kept = [] \<and> hd validSlugs = []"
    | (repoint) "validateWorkspaceSlugs fresh validSlugs s =
        s\<lparr>activeWorkspaceSlug := first_key kept, byWorkspace := kept\<rparr>"
      and "kept \<noteq> [] \<or> validSlugs = [] \<or> hd validSlugs = []"
    | (reseed) slug where "validSlugs \<noteq> []" and "slug = hd validSlugs" and "slug \<noteq> []" and "kept = []"
      and "validateWorkspaceSlugs fresh validSlugs s =
        s\<lparr>activeWorkspaceSlug := Some slug, byWorkspace := js_put slug
          \<lparr>group_tabs = [defaultTabFor fresh slug], group_active = fresh\<rparr> kept\<rparr>"
proof -
  have gok: "groups_ok (byWorkspace s)" using s by (simp add: store_ok_def)
  have kept: "js_from_entries (filter (\<lambda>(slug, g). slug \<in> set validSlugs) (byWorkspace s)) = kept"
    using kept_groups [OF gok] by (simp add: kept_def)
  have nochange: "kept = byWorkspace s"
    if "\<not> list_ex (\<lambda>(slug, g). \<not> List.member validSlugs slug) (byWorkspace s)"
    using that by (auto simp: kept_def filter_id_conv list_ex_iff)
  have fk: "falsy (first_key kept) \<longleftrightarrow> kept = []"
  proof (cases "first_key kept")
    case (Some k)
    have "proper_slug k"
      using first_key_in [OF Some] gok by (auto simp: kept_def keys_filter_key groups_ok_def list_all_iff)
    with Some show ?thesis by (auto simp: proper_slug_nonempty first_key_None [symmetric])
  qed (use first_key_None [of kept] in \<open>simp add: first_key_def js_keys_def\<close>)
  show thesis
  proof (cases "activeWorkspaceSlug s")
    case None
    show ?thesis
    proof (cases "kept = []")
      case False
      then have v: "validateWorkspaceSlugs fresh validSlugs s =
          s\<lparr>activeWorkspaceSlug := first_key kept, byWorkspace := kept\<rparr>"
        using None fk by (simp add: validateWorkspaceSlugs_def Let_def kept)
      show ?thesis by (rule repoint [OF v]) (use False in simp)
    next
      case empty: True
      show ?thesis
      proof (cases "validSlugs = [] \<or> hd validSlugs = []")
        case True
        then have "falsy (case validSlugs of [] \<Rightarrow> None | v # _ \<Rightarrow> Some v)" by (cases validSlugs) auto
        then have v: "validateWorkspaceSlugs fresh validSlugs s = s\<lparr>byWorkspace := kept\<rparr>"
          using None fk nochange empty first_key_None [of kept]
          by (auto simp: validateWorkspaceSlugs_def Let_def kept)
        show ?thesis by (rule keep [OF v]) (use None True empty in auto)
      next
        case False
        then have fb: "(case validSlugs of [] \<Rightarrow> None | v # _ \<Rightarrow> Some v) = Some (hd validSlugs)"
          by (cases validSlugs) auto
        show ?thesis
          by (rule reseed [of "hd validSlugs"])
            (use None False fb fk empty in \<open>simp_all add: validateWorkspaceSlugs_def Let_def kept\<close>)
      qed
    qed
  next
    case (Some slug)
    note act = store_ok_active [OF s Some]
    show ?thesis
    proof (cases "List.member validSlugs slug")
      case True
      then have v: "validateWorkspaceSlugs fresh validSlugs s = s\<lparr>byWorkspace := kept\<rparr>"
        using Some act nochange by (auto simp: validateWorkspaceSlugs_def Let_def kept proper_slug_nonempty)
      show ?thesis
        by (rule keep [OF v]) (use Some act True in \<open>auto simp: kept_def keys_filter_key\<close>)
    next
      case gone: False
      show ?thesis
      proof (cases "kept \<noteq> [] \<or> validSlugs = [] \<or> hd validSlugs = []")
        case True
        then have "kept \<noteq> [] \<or> falsy (case validSlugs of [] \<Rightarrow> None | v # _ \<Rightarrow> Some v)"
          by (cases validSlugs) auto
        then have v: "validateWorkspaceSlugs fresh validSlugs s =
            s\<lparr>activeWorkspaceSlug := first_key kept, byWorkspace := kept\<rparr>"
          using Some act gone fk
          by (auto simp: validateWorkspaceSlugs_def Let_def kept proper_slug_nonempty)
        show ?thesis by (rule repoint [OF v True])
      next
        case False
        then have fb: "(case validSlugs of [] \<Rightarrow> None | v # _ \<Rightarrow> Some v) = Some (hd validSlugs)"
          by (cases validSlugs) auto
        show ?thesis
          by (rule reseed [of "hd validSlugs"])
            (use Some act gone False fb fk in
              \<open>auto simp: validateWorkspaceSlugs_def Let_def kept proper_slug_nonempty\<close>)
      qed
    qed
  qed
qed

lemma validateWorkspaceSlugs_ok:
  assumes s: "store_ok s" and valid: "list_all proper_slug validSlugs"
    and fresh: "fresh \<notin> set (all_ids (byWorkspace s))"
  shows "store_ok (validateWorkspaceSlugs fresh validSlugs s)"
proof -
  have gok: "groups_ok (filter (\<lambda>(slug, g). List.member validSlugs slug) (byWorkspace s))"
    using s by (simp add: store_ok_def groups_ok_filter)
  from s show ?thesis
  proof (cases rule: validateWorkspaceSlugs_cases [where validSlugs = validSlugs and fresh = fresh])
    case keep
    with gok show ?thesis
      by (auto simp: store_ok_def active_ok_def split: option.splits)
  next
    case repoint
    with gok show ?thesis
      by (auto simp: store_ok_def active_ok_def first_key_in first_key_None split: option.splits)
  next
    case (reseed slug)
    then have slug: "proper_slug slug" using valid by (cases validSlugs) auto
    have "group_ok \<lparr>group_tabs = [defaultTabFor fresh slug], group_active = fresh\<rparr>"
      using group_ok_single [OF defaultTabFor_ok [OF slug], of fresh] by simp
    then have "groups_ok (js_put slug \<lparr>group_tabs = [defaultTabFor fresh slug], group_active = fresh\<rparr> [])"
      using slug by (intro groups_ok_put) (simp_all add: groups_ok_def all_ids_def js_keys_def)
    with reseed show ?thesis
      by (simp add: store_ok_def active_ok_def set_keys_put)
  qed
qed

section \<open>The store as a machine\<close>

text \<open>Every action, with its arguments. \<open>CommitScroll\<close> takes the captured offsets.\<close>

datatype tab_action =
    SwitchWorkspace string "string option"
  | OpenTab string string string bool
  | AddTab string string string
  | CloseTab string
  | CloseOtherTabs string
  | SetActiveTab string
  | UpdateTab string "string option" "string option"
  | Navigate string bool
  | GoBack
  | GoForward
  | CommitScroll string string "scroll_offset js_object"
  | ReloadActiveTab
  | CloseActiveTab
  | MoveTab int int
  | TogglePin string
  | ValidateSlugs "string list"
  | Reset

fun tab_step ::
    "(tab_session list \<Rightarrow> nat \<Rightarrow> nat \<Rightarrow> tab_session list) \<Rightarrow> string \<Rightarrow> tab_action \<Rightarrow> tab_store \<Rightarrow> tab_store" where
  "tab_step am fresh (SwitchWorkspace slug openPath) s = switchWorkspace fresh slug openPath s"
| "tab_step am fresh (OpenTab path title icon activate) s = fst (openTab fresh path title icon activate s)"
| "tab_step am fresh (AddTab path title icon) s = fst (addTab fresh path title icon s)"
| "tab_step am fresh (CloseTab tabId) s = closeTab fresh tabId s"
| "tab_step am fresh (CloseOtherTabs tabId) s = closeOtherTabs tabId s"
| "tab_step am fresh (SetActiveTab tabId) s = setActiveTab tabId s"
| "tab_step am fresh (UpdateTab tabId title icon) s = updateTab tabId title icon s"
| "tab_step am fresh (Navigate url replace) s = navigateActiveSession url replace s"
| "tab_step am fresh GoBack s = goBack s"
| "tab_step am fresh GoForward s = goForward s"
| "tab_step am fresh (CommitScroll tabId routeKey entries) s = commitScrollMemento tabId routeKey entries s"
| "tab_step am fresh ReloadActiveTab s = reloadActiveTab s"
| "tab_step am fresh CloseActiveTab s = closeActiveTab fresh s"
| "tab_step am fresh (MoveTab fromIndex toIndex) s = moveTab am fromIndex toIndex s"
| "tab_step am fresh (TogglePin tabId) s = togglePin tabId s"
| "tab_step am fresh (ValidateSlugs slugs) s = validateWorkspaceSlugs fresh slugs s"
| "tab_step am fresh Reset s = reset s"

text \<open>Workspace slugs that reach the store come from the server's workspace list.\<close>

fun action_ok :: "tab_action \<Rightarrow> bool" where
  "action_ok (SwitchWorkspace slug openPath) = (slug = [] \<or> proper_slug slug)"
| "action_ok (ValidateSlugs slugs) = list_all proper_slug slugs"
| "action_ok _ = True"

inductive tab_reachable ::
    "(tab_session list \<Rightarrow> nat \<Rightarrow> nat \<Rightarrow> tab_session list) \<Rightarrow> tab_store \<Rightarrow> tab_store \<Rightarrow> bool" for am s0 where
  start: "tab_reachable am s0 s0"
| step: "tab_reachable am s0 s \<Longrightarrow> fresh \<notin> set (all_ids (byWorkspace s)) \<Longrightarrow> action_ok a
    \<Longrightarrow> tab_reachable am s0 (tab_step am fresh a s)"

lemma initial_store_ok: "store_ok initial_store"
  by (simp add: store_ok_def initial_store_def groups_ok_def active_ok_def all_ids_def js_keys_def)

lemma reset_ok: "store_ok (reset s)"
  by (simp add: store_ok_def reset_def groups_ok_def active_ok_def all_ids_def js_keys_def)

lemmas tab_action_ok =
  switchWorkspace_ok openTab_ok addTab_ok closeTab_ok closeOtherTabs_ok setActiveTab_ok updateTab_ok
  navigateActiveSession_ok stepHistory_ok commitScrollMemento_ok reloadActiveTab_ok closeActiveTab_ok
  moveTab_ok togglePin_ok validateWorkspaceSlugs_ok reset_ok

lemma tab_step_ok:
  assumes "array_mover am" and "store_ok s" and "fresh \<notin> set (all_ids (byWorkspace s))" and "action_ok a"
  shows "store_ok (tab_step am fresh a s)"
  using assms by (cases a) (simp_all add: tab_action_ok goBack_def goForward_def)

lemma tab_reachable_ok:
  "tab_reachable am s0 s \<Longrightarrow> array_mover am \<Longrightarrow> store_ok s0 \<Longrightarrow> store_ok s"
  by (induction rule: tab_reachable.induct) (auto intro: tab_step_ok)

end
