(* ===== verification/Tab_Persist.thy ===== *)
theory Tab_Persist
  imports Tab_Actions
begin

text \<open>
  The persisted shapes of the tab store, their migrations, and the two legs of zustand's
  \<open>persist\<close> middleware the store configures: \<open>partialize\<close> (what is written) and
  \<open>merge\<close> (how a persisted state is taken back). A field the code reads with \<open>?.\<close>
  or \<open>??\<close> is an \<open>option\<close>.
\<close>

section \<open>Persisted shapes\<close>

record v1_tab =
  v1_id :: string
  v1_path :: string
  v1_title :: string
  v1_icon :: string

record v1_persisted =
  v1_tabs :: "v1_tab list option"
  v1_activeTabId :: "string option"

text \<open>A tab of version 2 has the shape of one of version 1.\<close>

record v2_group =
  v2_tabs :: "v1_tab list"
  v2_active :: string

record v2_persisted =
  v2_activeWorkspaceSlug :: "string option"
  v2_byWorkspace :: "v2_group js_object option"

record v3_tab =
  v3_id :: string
  v3_path :: string
  v3_title :: string
  v3_icon :: string
  v3_pinned :: bool

record v3_group =
  v3_tabs :: "v3_tab list"
  v3_active :: string

record v3_persisted =
  v3_activeWorkspaceSlug :: "string option"
  v3_byWorkspace :: "v3_group js_object option"

record v4_history =
  v4_stack :: "string list option"
  v4_index :: "int option"

record v4_tab =
  v4_id :: string
  v4_url :: string
  v4_title :: string
  v4_icon :: string
  v4_pinned :: bool
  v4_history :: "v4_history option"
  v4_memento :: "tab_memento option"

record v4_group =
  v4_tabs :: "v4_tab list"
  v4_active :: string

record v4_persisted =
  v4_activeWorkspaceSlug :: "string option"
  v4_byWorkspace :: "v4_group js_object option"

section \<open>Migrations\<close>

text \<open>\<open>byWorkspace[slug].tabs.push(tab)\<close>, creating the group on its first tab.\<close>

definition push_v2 :: "v1_tab \<Rightarrow> v2_group js_object \<Rightarrow> v2_group js_object" where
  "push_v2 tab groups =
     (case extractWorkspaceSlug (v1_path tab) of
        None \<Rightarrow> groups
      | Some slug \<Rightarrow>
          (case js_get groups slug of
             None \<Rightarrow> js_put slug \<lparr>v2_tabs = [tab], v2_active = []\<rparr> groups
           | Some g \<Rightarrow> js_put slug (g\<lparr>v2_tabs := v2_tabs g @ [tab]\<rparr>) groups))"

definition choose_active_v2 :: "string option \<Rightarrow> v2_group \<Rightarrow> v2_group" where
  "choose_active_v2 oldActive g =
     (let hasOldActive = list_ex (\<lambda>t. Some (v1_id t) = oldActive) (v2_tabs g) in
      g\<lparr>v2_active := (if hasOldActive then the oldActive else v1_id (hd (v2_tabs g)))\<rparr>)"

definition migrateV1ToV2 :: "v1_persisted \<Rightarrow> v2_persisted" where
  "migrateV1ToV2 v1 =
     (let oldTabs = (case v1_tabs v1 of None \<Rightarrow> [] | Some ts \<Rightarrow> ts);
          grouped = fold push_v2 oldTabs [];
          groups = map (\<lambda>(slug, g). (slug, choose_active_v2 (v1_activeTabId v1) g)) grouped;
          inherited = map_option fst
            (List.find (\<lambda>(slug, g). Some (v2_active g) = v1_activeTabId v1) groups)
      in \<lparr>v2_activeWorkspaceSlug = (if falsy inherited then first_key groups else inherited),
          v2_byWorkspace = Some groups\<rparr>)"

definition migrateV2ToV3 :: "v2_persisted \<Rightarrow> v3_persisted" where
  "migrateV2ToV3 v2 =
     \<lparr>v3_activeWorkspaceSlug = v2_activeWorkspaceSlug v2,
      v3_byWorkspace = Some (js_from_entries (map (\<lambda>(slug, g).
        (slug, \<lparr>v3_tabs = map (\<lambda>t. \<lparr>v3_id = v1_id t, v3_path = v1_path t, v3_title = v1_title t,
                                   v3_icon = v1_icon t, v3_pinned = False\<rparr>) (v2_tabs g),
                v3_active = v2_active g\<rparr>))
        (case v2_byWorkspace v2 of None \<Rightarrow> [] | Some ob \<Rightarrow> ob)))\<rparr>"

definition migrateV3ToV4 :: "v3_persisted \<Rightarrow> v4_persisted" where
  "migrateV3ToV4 v3 =
     \<lparr>v4_activeWorkspaceSlug = v3_activeWorkspaceSlug v3,
      v4_byWorkspace = Some (js_from_entries (map (\<lambda>(slug, g).
        (slug, \<lparr>v4_tabs = map (\<lambda>t. \<lparr>v4_id = v3_id t, v4_url = v3_path t, v4_title = v3_title t,
                                   v4_icon = v3_icon t, v4_pinned = v3_pinned t,
                                   v4_history = Some \<lparr>v4_stack = Some [v3_path t], v4_index = Some 0\<rparr>,
                                   v4_memento = Some emptyMemento\<rparr>) (v3_tabs g),
                v4_active = v3_active g\<rparr>))
        (case v3_byWorkspace v3 of None \<Rightarrow> [] | Some ob \<Rightarrow> ob)))\<rparr>"

text \<open>
  The persisted version number says which shape a state has; \<open>migrate\<close> runs the chain of
  migrations from there.
\<close>

datatype persisted =
    PersistedV1 v1_persisted
  | PersistedV2 v2_persisted
  | PersistedV3 v3_persisted
  | PersistedV4 v4_persisted

fun migrate :: "persisted \<Rightarrow> v4_persisted" where
  "migrate (PersistedV1 v) = migrateV3ToV4 (migrateV2ToV3 (migrateV1ToV2 v))"
| "migrate (PersistedV2 v) = migrateV3ToV4 (migrateV2ToV3 v)"
| "migrate (PersistedV3 v) = migrateV3ToV4 v"
| "migrate (PersistedV4 v) = v"

section \<open>Writing and reading back\<close>

definition persist_tab :: "tab_session \<Rightarrow> v4_tab" where
  "persist_tab t =
     \<lparr>v4_id = tab_id t, v4_url = tab_url t, v4_title = tab_title t, v4_icon = tab_icon t,
      v4_pinned = tab_pinned t,
      v4_history = Some \<lparr>v4_stack = Some (hist_stack (tab_history t)),
                         v4_index = Some (hist_index (tab_history t))\<rparr>,
      v4_memento = Some (tab_memento t)\<rparr>"

definition partialize :: "tab_store \<Rightarrow> v4_persisted" where
  "partialize s =
     \<lparr>v4_activeWorkspaceSlug = activeWorkspaceSlug s,
      v4_byWorkspace = Some (js_from_entries (map (\<lambda>(slug, g).
        (slug, \<lparr>v4_tabs = map persist_tab (group_tabs g), v4_active = group_active g\<rparr>))
        (byWorkspace s)))\<rparr>"

text \<open>One persisted tab of the group \<open>slug\<close>; \<open>None\<close> when it is dropped.\<close>

definition rehydrate_tab :: "string \<Rightarrow> v4_tab \<Rightarrow> tab_session option" where
  "rehydrate_tab slug pTab =
     (case sanitizeTabPath (v4_url pTab) of
        None \<Rightarrow> None
      | Some clean \<Rightarrow>
          if extractWorkspaceSlug clean \<noteq> Some slug then None
          else
            let pStack = Option.bind (v4_history pTab) v4_stack;
                pIndex = Option.bind (v4_history pTab) v4_index;
                stack' = (case pStack of Some st \<Rightarrow> (if st \<noteq> [] then st else [clean]) | None \<Rightarrow> [clean]);
                index' = min (max (case pIndex of Some i \<Rightarrow> i | None \<Rightarrow> int (length stack') - 1) 0)
                             (int (length stack') - 1)
            in Some \<lparr>tab_id = v4_id pTab, tab_url = clean, tab_resourceKey = resourceKeyForUrl clean,
                     tab_title = v4_title pTab, tab_icon = v4_icon pTab, tab_pinned = v4_pinned pTab,
                     tab_history = \<lparr>hist_stack = stack', hist_index = index'\<rparr>,
                     tab_memento = (case v4_memento pTab of Some m \<Rightarrow> m | None \<Rightarrow> emptyMemento)\<rparr>)"

text \<open>One persisted group; \<open>None\<close> when no tab is left. The sort is stable.\<close>

definition rehydrate_group :: "string \<Rightarrow> v4_group \<Rightarrow> tab_group option" where
  "rehydrate_group slug pGroup =
     (let kept = List.map_filter (rehydrate_tab slug) (v4_tabs pGroup);
          sorted_tabs = sort_key (\<lambda>t. if tab_pinned t then 0 else (1 :: nat)) kept
      in if kept = [] then None
         else Some \<lparr>group_tabs = sorted_tabs,
                    group_active = (if list_ex (\<lambda>t. tab_id t = v4_active pGroup) sorted_tabs
                                    then v4_active pGroup else tab_id (hd sorted_tabs))\<rparr>)"

definition merge_groups :: "v4_group js_object \<Rightarrow> tab_group js_object" where
  "merge_groups pGroups =
     fold (\<lambda>(slug, pGroup) ob.
       case rehydrate_group slug pGroup of None \<Rightarrow> ob | Some g \<Rightarrow> js_put slug g ob) pGroups []"

definition merge :: "v4_persisted option \<Rightarrow> tab_store \<Rightarrow> tab_store" where
  "merge persistedState currentState =
     (case Option.bind persistedState v4_byWorkspace of
        None \<Rightarrow> currentState
      | Some pGroups \<Rightarrow>
          let groups = merge_groups pGroups;
              pActive = Option.bind persistedState v4_activeWorkspaceSlug;
              active = (if \<not> falsy pActive \<and> js_get groups (the pActive) \<noteq> None then pActive
                        else first_key groups)
          in currentState\<lparr>byWorkspace := groups, activeWorkspaceSlug := active\<rparr>)"

end
