(* ===== verification/Tab_Properties.thy ===== *)
theory Tab_Properties
  imports Tab_Persist
begin

text \<open>
  What the tab store promises: the invariant in every reachable state, what each action does
  to the tabs and to the virtual history, what a restart restores and what a migration keeps.
\<close>

section \<open>Reading a store after a write\<close>

lemma put_group_simps [simp]:
  "js_get (byWorkspace (put_group slug g s)) k = (if k = slug then Some g else js_get (byWorkspace s) k)"
  "activeWorkspaceSlug (put_group slug g s) = activeWorkspaceSlug s"
  "mountGeneration (put_group slug g s) = mountGeneration s"
  by (simp_all add: put_group_def js_get_put)

lemma active_group_put:
  "active_group s = Some (slug, h) \<Longrightarrow> active_group (put_group slug g s) = Some (slug, g)"
  by (auto simp: active_group_def split: option.splits if_splits)

lemma active_index_ok:
  assumes "group_ok g"
  obtains i where "active_index g = Some i" and "i < length (group_tabs g)"
    and "tab_id (group_tabs g ! i) = group_active g"
proof -
  have "group_active g \<in> set (group_ids g)" using assms by (simp add: group_ok_def)
  then have "active_index g \<noteq> None" by (auto simp: active_index_def find_index_None group_ids_def)
  then show thesis using active_index_Some that by blast
qed

lemma find_nth_unique:
  "distinct (map f xs) \<Longrightarrow> i < length xs \<Longrightarrow> f (xs ! i) = k \<Longrightarrow> List.find (\<lambda>x. f x = k) xs = Some (xs ! i)"
  by (auto simp: find_Some_iff distinct_conv_nth intro!: exI [of _ i])

lemma getActiveTab_ok:
  assumes "active_group s = Some (slug, g)" and "group_ok g" and "active_index g = Some i"
  shows "getActiveTab s = Some (group_tabs g ! i)"
  using assms active_index_Some [OF assms(3)]
  by (auto simp: getActiveTab_def group_ok_def group_ids_def intro!: find_nth_unique)

text \<open>The active group, its active index and the active session of a good store.\<close>

lemma store_ok_active_tab:
  assumes "store_ok s" and "active_group s = Some (slug, g)"
  obtains i where "active_index g = Some i" and "i < length (group_tabs g)" and "group_ok g"
    and "getActiveTab s = Some (group_tabs g ! i)" and "session_ok (group_tabs g ! i)"
proof -
  have g: "group_ok g"
    using store_ok_group [OF assms(1) active_group_Some(2) [OF assms(2)]] by simp
  from g obtain i where "active_index g = Some i" "i < length (group_tabs g)"
    by (rule active_index_ok)
  with g getActiveTab_ok [OF assms(2) g] group_session_ok [OF g] that show thesis by blast
qed

text \<open>Replacing the active session by one with the same id.\<close>

lemma getActiveTab_update:
  assumes "active_group s = Some (slug, g)" and "group_ok g" and "active_index g = Some i"
    and "tab_id t = tab_id (group_tabs g ! i)"
  defines "s' \<equiv> put_group slug (g\<lparr>group_tabs := (group_tabs g)[i := t]\<rparr>) s"
  shows "getActiveTab s' = Some t"
    and "active_group s' = Some (slug, g\<lparr>group_tabs := (group_tabs g)[i := t]\<rparr>)"
    and "active_index (g\<lparr>group_tabs := (group_tabs g)[i := t]\<rparr>) = Some i"
proof -
  note i = active_index_Some [OF assms(3)]
  let ?g = "g\<lparr>group_tabs := (group_tabs g)[i := t]\<rparr>"
  have ids: "map tab_id (group_tabs ?g) = map tab_id (group_tabs g)"
    using i assms(4) by (simp add: map_list_update_same)
  show ag: "active_group s' = Some (slug, ?g)"
    unfolding s'_def using assms(1) by (rule active_group_put)
  have d: "distinct (map tab_id (group_tabs ?g))"
    using assms(2) ids by (simp add: group_ok_def group_ids_def)
  show "active_index ?g = Some i"
    unfolding active_index_def using d i assms(4) by (intro find_index_nth_unique) auto
  show "getActiveTab s' = Some t"
    using d i assms(4) find_nth_unique [OF d, of i "group_active g"]
    by (simp add: getActiveTab_def ag)
qed

section \<open>The invariant\<close>

text \<open>
  C1. In every state the tab store reaches from its initial state, by any sequence of its
  actions with fresh ids, every workspace group has its active tab among its tabs, pinned
  tabs come before unpinned ones, ids are unique across all workspaces, each session's
  identity is the pathname of its URL and its virtual history points at that URL, and the
  active workspace has a group.
\<close>
theorem tab_store_invariant:
  assumes "array_mover am" and "tab_reachable am initial_store s"
  shows "store_ok s"
  using assms initial_store_ok by (blast intro: tab_reachable_ok)

lemma tab_store_invariant_witness:
  "store_ok (tab_step move_item ''t2'' (OpenTab ''/acme/projects'' ''P'' ''F'' True)
     (tab_step move_item ''t1'' (SwitchWorkspace ''acme'' None) initial_store))"
proof (rule tab_store_invariant [OF move_item.array_mover_axioms])
  let ?s1 = "tab_step move_item ''t1'' (SwitchWorkspace ''acme'' None) initial_store"
  have "proper_slug ''acme''" by code_simp
  then have 1: "tab_reachable move_item initial_store ?s1"
    by (intro tab_reachable.step [OF tab_reachable.start])
      (simp_all add: initial_store_def all_ids_def)
  have "''t2'' \<notin> set (all_ids (byWorkspace ?s1))" by code_simp
  with 1 show "tab_reachable move_item initial_store
      (tab_step move_item ''t2'' (OpenTab ''/acme/projects'' ''P'' ''F'' True) ?s1)"
    by (rule tab_reachable.step) simp
qed

section \<open>Virtual history\<close>

lemma stepHistory_put:
  assumes "active_group s = Some (slug, g)" and "active_index g = Some i"
    and "h = tab_history (group_tabs g ! i)" and "0 \<le> hist_index h + d"
    and "hist_index h + d < int (length (hist_stack h))" and "u = hist_stack h ! nat (hist_index h + d)"
  shows "stepHistory d s = put_group slug (g\<lparr>group_tabs := (group_tabs g)
      [i := (group_tabs g ! i)\<lparr>tab_url := u, tab_resourceKey := resourceKeyForUrl u,
        tab_icon := resolveRouteIcon (fst (splitTabUrl u)),
        tab_history := h\<lparr>hist_index := hist_index h + d\<rparr>\<rparr>]\<rparr>) s"
  using assms by (simp add: stepHistory_def Let_def)

lemma stepHistory_tab:
  assumes s: "store_ok s" and t: "getActiveTab s = Some t" and h: "h = tab_history t"
    and d: "0 \<le> hist_index h + d" "hist_index h + d < int (length (hist_stack h))"
    and u: "u = hist_stack h ! nat (hist_index h + d)"
  shows "getActiveTab (stepHistory d s) =
      Some (t\<lparr>tab_url := u, tab_resourceKey := resourceKeyForUrl u,
        tab_icon := resolveRouteIcon (fst (splitTabUrl u)),
        tab_history := h\<lparr>hist_index := hist_index h + d\<rparr>\<rparr>)"
proof -
  from t obtain slug g where ag: "active_group s = Some (slug, g)"
    by (auto simp: getActiveTab_def split: option.splits)
  from store_ok_active_tab [OF s ag] obtain i where i: "active_index g = Some i" "group_ok g"
    "getActiveTab s = Some (group_tabs g ! i)" by blast
  with t have tg: "group_tabs g ! i = t" by simp
  note put = stepHistory_put [OF ag i(1), unfolded tg, OF h d u]
  show ?thesis
    unfolding put by (rule getActiveTab_update(1) [OF ag i(2,1)]) (simp add: tg)
qed

text \<open>
  Going back and then forward returns the active tab to where it was: when there is an
  entry to go back to, the tab keeps its id, its URL, its identity, its history and its
  memento (only the icon is recomputed from the route).
\<close>
theorem goForward_goBack:
  assumes "store_ok s" and "getActiveTab s = Some t" and "0 < hist_index (tab_history t)"
  shows "getActiveTab (goForward (goBack s)) =
    Some (t\<lparr>tab_icon := resolveRouteIcon (fst (splitTabUrl (tab_url t)))\<rparr>)"
proof -
  let ?h = "tab_history t" and ?u = "hist_stack (tab_history t) ! nat (hist_index (tab_history t) + - 1)"
  from assms(2) obtain slug g where ag: "active_group s = Some (slug, g)"
    by (auto simp: getActiveTab_def split: option.splits)
  from store_ok_active_tab [OF assms(1) ag] have "session_ok t"
    using assms(2) by (metis option.inject)
  then have t: "tab_resourceKey t = resourceKeyForUrl (tab_url t)"
    "hist_index ?h < int (length (hist_stack ?h))" "hist_stack ?h ! nat (hist_index ?h) = tab_url t"
    by (auto simp: session_ok_def history_ok_def Let_def)
  let ?t = "t\<lparr>tab_url := ?u, tab_resourceKey := resourceKeyForUrl ?u,
      tab_icon := resolveRouteIcon (fst (splitTabUrl ?u)),
      tab_history := ?h\<lparr>hist_index := hist_index ?h + - 1\<rparr>\<rparr>"
  have bk: "getActiveTab (goBack s) = Some ?t"
    unfolding goBack_def using assms(3) t(2) by (intro stepHistory_tab [OF assms(1,2)]) auto
  have ok: "store_ok (goBack s)"
    unfolding goBack_def by (rule stepHistory_ok [OF assms(1)])
  have "getActiveTab (goForward (goBack s)) = Some (?t\<lparr>tab_url := tab_url t,
      tab_resourceKey := resourceKeyForUrl (tab_url t),
      tab_icon := resolveRouteIcon (fst (splitTabUrl (tab_url t))),
      tab_history := (tab_history ?t)\<lparr>hist_index := hist_index (tab_history ?t) + 1\<rparr>\<rparr>)"
    unfolding goForward_def using assms(3) t by (intro stepHistory_tab [OF ok bk]) auto
  then show ?thesis by (simp add: t(1) [symmetric])
qed

text \<open>A store with one workspace, one tab and a two-entry history, for the examples.\<close>

definition example_tab :: tab_session where
  "example_tab = \<lparr>tab_id = ''t1'', tab_url = ''/acme/projects'', tab_resourceKey = ''/acme/projects'',
     tab_title = ''P'', tab_icon = ''FolderKanban'', tab_pinned = False,
     tab_history = \<lparr>hist_stack = [''/acme/issues'', ''/acme/projects''], hist_index = 1\<rparr>,
     tab_memento = emptyMemento\<rparr>"

definition example_store :: tab_store where
  "example_store = \<lparr>activeWorkspaceSlug = Some ''acme'',
     byWorkspace = [(''acme'', \<lparr>group_tabs = [example_tab], group_active = ''t1''\<rparr>)],
     mountGeneration = 0\<rparr>"

lemma example_store_ok: "store_ok example_store"
  by code_simp

lemma example_store_active: "getActiveTab example_store = Some example_tab"
  by (simp add: getActiveTab_def active_group_def example_store_def example_tab_def)

lemma goForward_goBack_witness:
  "getActiveTab (goForward (goBack example_store)) = Some example_tab"
proof -
  have "0 < hist_index (tab_history example_tab)" by (simp add: example_tab_def)
  from goForward_goBack [OF example_store_ok example_store_active this]
  show ?thesis by (simp add: example_tab_def) code_simp
qed

text \<open>
  An accepted in-tab navigation stays in the same tab, makes the sanitized URL its URL
  and pathname its identity, cuts the history after the current entry and appends the URL;
  going back then returns to the URL the tab had.
\<close>
theorem navigate_then_back:
  assumes s: "store_ok s" and t: "getActiveTab s = Some t"
    and clean: "sanitizeTabPath target = Some clean"
    and slug: "extractWorkspaceSlug clean = activeWorkspaceSlug s" and new: "tab_url t \<noteq> clean"
  shows "let s' = navigateActiveSession target False s in
    (\<exists>t'. getActiveTab s' = Some t' \<and> tab_id t' = tab_id t \<and> tab_url t' = clean
      \<and> tab_resourceKey t' = resourceKeyForUrl clean
      \<and> hist_stack (tab_history t') =
          take (Suc (nat (hist_index (tab_history t)))) (hist_stack (tab_history t)) @ [clean]
      \<and> hist_index (tab_history t') = hist_index (tab_history t) + 1)
    \<and> useActiveTabUrl (goBack s') = Some (tab_url t)"
proof -
  let ?h = "tab_history t"
  from t obtain slug' g where ag: "active_group s = Some (slug', g)"
    by (auto simp: getActiveTab_def split: option.splits)
  from store_ok_active_tab [OF s ag] obtain i where i: "active_index g = Some i" "group_ok g"
    "getActiveTab s = Some (group_tabs g ! i)" "session_ok (group_tabs g ! i)" by blast
  with t have tg: "group_tabs g ! i = t" by simp
  have h: "0 \<le> hist_index ?h" "hist_index ?h < int (length (hist_stack ?h))"
    "hist_stack ?h ! nat (hist_index ?h) = tab_url t"
    using i(4) tg by (auto simp: session_ok_def history_ok_def Let_def)
  have slug': "extractWorkspaceSlug clean = Some slug'"
    using slug active_group_Some(1) [OF ag] by simp
  let ?t = "t\<lparr>tab_url := clean, tab_resourceKey := resourceKeyForUrl clean,
      tab_icon := resolveRouteIcon (fst (splitTabUrl clean)),
      tab_history := \<lparr>hist_stack = take (nat (hist_index ?h + 1)) (hist_stack ?h) @ [clean],
                      hist_index = hist_index ?h + 1\<rparr>\<rparr>"
  let ?s = "navigateActiveSession target False s"
  have nav: "?s = put_group slug' (g\<lparr>group_tabs := (group_tabs g)[i := ?t]\<rparr>) s"
    using ag i(1) tg clean slug' new h(1) by (simp add: navigateActiveSession_def Let_def)
  have t': "getActiveTab ?s = Some ?t"
    unfolding nav by (rule getActiveTab_update(1) [OF ag i(2,1)]) (simp add: tg)
  have ok: "store_ok ?s" by (rule navigateActiveSession_ok [OF s])
  have "nat (hist_index ?h + 1) = Suc (nat (hist_index ?h))" using h(1) by simp
  moreover have "useActiveTabUrl (goBack ?s) = Some (tab_url t)"
    unfolding useActiveTabUrl_def goBack_def
    using stepHistory_tab [OF ok t' refl, of "- 1" "tab_url t"] h
    by (simp add: nth_append)
  ultimately show ?thesis using t' by simp
qed

lemma navigate_then_back_witness:
  "useActiveTabUrl (goBack (navigateActiveSession ''/acme/inbox?x=1'' False example_store)) =
     Some ''/acme/projects''"
proof -
  have "sanitizeTabPath ''/acme/inbox?x=1'' = Some ''/acme/inbox?x=1''"
    "extractWorkspaceSlug ''/acme/inbox?x=1'' = activeWorkspaceSlug example_store"
    "tab_url example_tab \<noteq> ''/acme/inbox?x=1''"
    by code_simp+
  from navigate_then_back [OF example_store_ok example_store_active this]
  show ?thesis by (simp add: Let_def example_tab_def)
qed

section \<open>Opening and closing tabs\<close>

lemma find_by_key_append:
  "find_by_key key ts = None \<Longrightarrow> tab_resourceKey t = key \<Longrightarrow> find_by_key key (ts @ [t]) = Some t"
  by (induction ts) (auto simp: find_by_key_def split: if_splits)

lemma openTab_result:
  assumes "openTab fresh path title icon activate s = (s', x)" and "x \<noteq> []" and "fresh \<noteq> []"
  obtains clean slug g g' t where "sanitizeTabPath path = Some clean" and "active_group s = Some (slug, g)"
    and "s' = put_group slug g' s" and "tab_id t = x"
    and "find_by_key (resourceKeyForUrl clean) (group_tabs g') = Some t"
    and "find_by_key (resourceKeyForUrl clean) (group_tabs g) = Some t \<and> group_tabs g' = group_tabs g
      \<or> find_by_key (resourceKeyForUrl clean) (group_tabs g) = None
        \<and> t = makeSession fresh clean title icon \<and> group_tabs g' = group_tabs g @ [t]"
proof -
  from assms obtain clean slug g where c: "sanitizeTabPath path = Some clean"
    and g: "active_group s = Some (slug, g)"
    by (auto simp: openTab_def split: option.splits)
  show thesis
  proof (cases "find_by_key (resourceKeyForUrl clean) (group_tabs g)")
    case None
    let ?t = "makeSession fresh clean title icon"
    let ?g = "\<lparr>group_tabs = group_tabs g @ [?t], group_active = (if activate then fresh else group_active g)\<rparr>"
    have "s' = put_group slug ?g s" "x = fresh"
      using assms(1) c g None by (auto simp: openTab_def Let_def)
    then show thesis
      using that [OF c g, of ?g ?t] None find_by_key_append [OF None, of ?t] by simp
  next
    case (Some t)
    from that [OF c g, of "g\<lparr>group_active := tab_id t\<rparr>" t] show thesis
      using assms c g Some by (auto simp: openTab_def Let_def)
  qed
qed

text \<open>
  Opening is deduplicated: after a path was opened, opening it again - whatever its title
  or the fresh id offered - adds no tab, returns the id of the first time and makes that tab
  the active one of its workspace.
\<close>
theorem openTab_dedup:
  assumes "openTab fresh path title icon activate s = (s', x)" and "x \<noteq> []" and "fresh \<noteq> []"
  shows "\<exists>s'' slug g. openTab fresh' path title' icon' activate' s' = (s'', x)
    \<and> active_group s' = Some (slug, g) \<and> active_group s'' = Some (slug, g\<lparr>group_active := x\<rparr>)
    \<and> useActiveTabIdentity s'' = (Some slug, Some x)"
proof -
  from openTab_result [OF assms] obtain clean slug g g' t
    where c: "sanitizeTabPath path = Some clean" "active_group s = Some (slug, g)"
      "s' = put_group slug g' s" "tab_id t = x"
      "find_by_key (resourceKeyForUrl clean) (group_tabs g') = Some t" by metis
  have ag: "active_group s' = Some (slug, g')" using c by (simp add: active_group_put)
  let ?s = "put_group slug (g'\<lparr>group_active := x\<rparr>) s'"
  have "openTab fresh' path title' icon' activate' s' = (?s, x)"
    using c ag by (simp add: openTab_def)
  moreover have "active_group ?s = Some (slug, g'\<lparr>group_active := x\<rparr>)"
    by (rule active_group_put [OF ag])
  ultimately show ?thesis
    using ag active_group_Some(1) [OF ag] by (auto simp: useActiveTabIdentity_def)
qed

lemma openTab_dedup_witness:
  "snd (openTab ''t3'' ''/acme/inbox?f=2'' ''X'' ''Y'' False
     (fst (openTab ''t2'' ''/acme/inbox?f=2'' ''I'' ''J'' False example_store))) = ''t2''"
proof -
  let ?o = "openTab ''t2'' ''/acme/inbox?f=2'' ''I'' ''J'' False example_store"
  have "snd ?o = ''t2''" by code_simp
  then have "?o = (fst ?o, ''t2'')" by (metis prod.collapse)
  from openTab_dedup [OF this, of "''t3''" "''X''" "''Y''" False] show ?thesis by auto
qed

text \<open>
  Closing a tab removes exactly it: its id is gone, every other tab of its group stays in
  order, no other group changes, and if it was the active tab its right neighbour (the last
  remaining tab when it was the rightmost) becomes active, otherwise the active tab stays;
  closing the only tab leaves one fresh tab on the workspace's issues list.
\<close>
theorem closeTab_spec:
  assumes s: "store_ok s" and loc: "findTabLocation (byWorkspace s) tabId = Some (slug, g, i)"
    and fresh: "fresh \<notin> set (all_ids (byWorkspace s))"
  shows "\<exists>g'. closeTab fresh tabId s = put_group slug g' s \<and> tabId \<notin> set (group_ids g')
    \<and> (if length (group_tabs g) = 1
       then map tab_url (group_tabs g') = [defaultPathFor slug] \<and> group_active g' = fresh
       else group_tabs g' = take i (group_tabs g) @ drop (Suc i) (group_tabs g)
         \<and> (if group_active g = tabId
            then group_active g' = tab_id (group_tabs g !
              (if Suc i < length (group_tabs g) then Suc i else i - 1))
            else group_active g' = group_active g))"
proof -
  have gok: "groups_ok (byWorkspace s)" using s by (simp add: store_ok_def)
  note g = findTabLocation_get [OF gok loc]
  let ?ts = "group_tabs g"
  have d: "distinct (map tab_id ?ts)" using g(4) by (simp add: group_ok_def group_ids_def)
  have rest: "filter (\<lambda>t. tab_id t \<noteq> tabId) ?ts = take i ?ts @ drop (Suc i) ?ts"
    using filter_neq_unique [OF d g(2)] g(3) by simp
  show ?thesis
  proof (cases "length ?ts = 1")
    case True
    have "tabId \<in> set (all_ids (byWorkspace s))"
      using loc findTabLocation_None [of "byWorkspace s" tabId] by auto
    then have "tabId \<noteq> fresh" using fresh by blast
    with True loc show ?thesis
      by (intro exI [of _ "\<lparr>group_tabs = [defaultTabFor fresh slug], group_active = fresh\<rparr>"])
        (simp add: closeTab_def defaultTabFor_def)
  next
    case False
    define r where "r = take i ?ts @ drop (Suc i) ?ts"
    have r: "r \<noteq> []" "length r = length ?ts - 1" using False g(2) by (auto simp: r_def)
    have nb: "r ! min i (length r - 1) = ?ts ! (if Suc i < length ?ts then Suc i else i - 1)"
    proof (cases "Suc i < length ?ts")
      case True
      then show ?thesis using r(2) by (simp add: r_def nth_append)
    next
      case last: False
      then have "length ?ts = Suc i" using g(2) by simp
      with r show ?thesis by (cases i) (simp_all add: r_def nth_append)
    qed
    have rest: "filter (\<lambda>t. tab_id t \<noteq> tabId) ?ts = r" using rest by (simp add: r_def)
    have gone: "tabId \<notin> set (map tab_id r)" unfolding rest [symmetric] by auto
    show ?thesis
      unfolding r_def [symmetric] using loc False rest r nb gone
      by (intro exI [of _ "\<lparr>group_tabs = r, group_active =
          (if group_active g = tabId then tab_id (r ! min i (length r - 1)) else group_active g)\<rparr>"])
        (simp add: closeTab_def Let_def)
  qed
qed

lemma closeTab_spec_witness:
  "\<exists>g'. closeTab ''n'' ''t1'' example_store = put_group ''acme'' g' example_store
     \<and> map tab_url (group_tabs g') = [''/acme/issues'']"
proof -
  have loc: "findTabLocation (byWorkspace example_store) ''t1'' =
      Some (''acme'', \<lparr>group_tabs = [example_tab], group_active = ''t1''\<rparr>, 0)"
    by (simp add: example_store_def example_tab_def)
  have "''n'' \<notin> set (all_ids (byWorkspace example_store))" by code_simp
  from closeTab_spec [OF example_store_ok loc this] show ?thesis
    by (auto simp: defaultPathFor_def)
qed

text \<open>
  Closing the other tabs keeps exactly the pinned tabs of the group and the target, in
  their order; the active tab stays when it survives, otherwise the target becomes active.
\<close>
theorem closeOtherTabs_spec:
  assumes s: "store_ok s" and loc: "findTabLocation (byWorkspace s) tabId = Some (slug, g, i)"
  shows "\<exists>g'. js_get (byWorkspace (closeOtherTabs tabId s)) slug = Some g'
    \<and> group_tabs g' = filter (\<lambda>t. tab_pinned t \<or> tab_id t = tabId) (group_tabs g)
    \<and> group_active g' = (if group_active g \<in> set (group_ids g') then group_active g else tabId)"
proof -
  have gok: "groups_ok (byWorkspace s)" using s by (simp add: store_ok_def)
  note g = findTabLocation_get [OF gok loc]
  have d: "distinct (map tab_id (group_tabs g))" using g(4) by (simp add: group_ok_def group_ids_def)
  have act: "group_active g \<in> set (group_ids g)" using g(4) by (simp add: group_ok_def)
  let ?c = "filter (\<lambda>t. \<not> tab_pinned t \<and> tab_id t \<noteq> tabId) (group_tabs g)"
  let ?k = "filter (\<lambda>t. tab_pinned t \<or> tab_id t = tabId) (group_tabs g)"
  have mem: "tab_id t \<in> tab_id ` set ?c \<longleftrightarrow> \<not> (tab_pinned t \<or> tab_id t = tabId)"
    if "t \<in> set (group_tabs g)" for t
    using that distinct_map_inj [OF d] by auto
  have next_eq: "filter (\<lambda>t. tab_id t \<notin> tab_id ` set ?c) (group_tabs g) = ?k"
    by (rule filter_cong) (use mem in auto)
  have act_eq: "group_active g \<in> tab_id ` set ?c \<longleftrightarrow> group_active g \<notin> set (map tab_id ?k)"
    using act mem distinct_map_inj [OF d] by (fastforce simp: group_ids_def)
  show ?thesis
  proof (cases "?c = []")
    case True
    then have "?k = group_tabs g" by (auto simp: filter_id_conv filter_empty_conv)
    with True loc g(1) act show ?thesis
      by (auto simp: closeOtherTabs_def buildCloseOtherTabsResult_def group_ids_def)
  next
    case False
    with loc next_eq have "closeOtherTabs tabId s = s\<lparr>byWorkspace := js_put slug
        \<lparr>group_tabs = ?k, group_active =
          (if group_active g \<in> tab_id ` set ?c then tabId else group_active g)\<rparr> (byWorkspace s)\<rparr>"
      by (simp add: closeOtherTabs_def buildCloseOtherTabsResult_def Let_def del: set_filter)
    with act_eq show ?thesis
      by (simp add: js_get_put group_ids_def del: set_filter)
  qed
qed

lemma closeOtherTabs_spec_witness:
  "\<exists>g'. js_get (byWorkspace (closeOtherTabs ''t1'' example_store)) ''acme'' = Some g'
     \<and> group_tabs g' = [example_tab]"
proof -
  have "findTabLocation (byWorkspace example_store) ''t1'' =
      Some (''acme'', \<lparr>group_tabs = [example_tab], group_active = ''t1''\<rparr>, 0)"
    by (simp add: example_store_def example_tab_def)
  from closeOtherTabs_spec [OF example_store_ok this] show ?thesis
    by (auto simp: example_tab_def)
qed

section \<open>Reordering and pinning\<close>

text \<open>
  C2. Dragging a tab moves that tab to the drop position clamped to its own zone (pinned or
  unpinned), keeps the set of tabs, and leaves the pinned tabs first.
\<close>
theorem moveTab_spec:
  assumes am: "array_mover am" and s: "store_ok s" and ag: "active_group s = Some (slug, g)"
    and i: "0 \<le> fromIndex" "fromIndex < int (length (group_tabs g))"
    and b: "b = int (pinnedBoundary (group_tabs g))"
    and j: "j = (if fromIndex < b then max 0 (min toIndex (b - 1))
                 else max b (min toIndex (int (length (group_tabs g)) - 1)))"
    and move: "j \<noteq> fromIndex" "fromIndex \<noteq> toIndex"
  shows "\<exists>g'. moveTab am fromIndex toIndex s = put_group slug g' s
    \<and> group_tabs g' ! nat j = group_tabs g ! nat fromIndex
    \<and> set (group_tabs g') = set (group_tabs g) \<and> length (group_tabs g') = length (group_tabs g)
    \<and> pinned_first (group_tabs g') \<and> group_active g' = group_active g"
proof -
  have gok: "group_ok g" using store_ok_group [OF s active_group_Some(2) [OF ag]] by simp
  let ?ts = "group_tabs g"
  have n: "nat fromIndex < length ?ts" using i by auto
  have pin: "tab_pinned (?ts ! nat fromIndex) \<longleftrightarrow> fromIndex < b"
    using pinned_first_nth [OF _ n] gok i b by (auto simp: group_ok_def)
  have jn: "nat j < length ?ts" "nat fromIndex < pinnedBoundary ?ts \<longleftrightarrow> nat j < pinnedBoundary ?ts"
    using i b j pinnedBoundary_le [of ?ts] by auto
  let ?g = "g\<lparr>group_tabs := am ?ts (nat fromIndex) (nat j)\<rparr>"
  have clamp: "(if tab_pinned (?ts ! nat fromIndex) then max 0 (min toIndex (int (pinnedBoundary ?ts) - 1))
      else max (int (pinnedBoundary ?ts)) (min toIndex (int (length ?ts) - 1))) = j"
    unfolding pin b [symmetric] by (rule j [symmetric])
  have "moveTab am fromIndex toIndex s = put_group slug ?g s"
    unfolding moveTab_def Let_def ag option.case prod.case clamp using i(1,2) move by simp
  moreover have "pinned_first (group_tabs ?g)"
    using moveTab_clamp(1) [OF am gok n jn] by (simp add: group_ok_def)
  ultimately show ?thesis
    using array_mover.move_set [OF am n jn(1)] array_mover.move_nth [OF am n jn(1) jn(1)]
    by (intro exI [of _ ?g]) simp
qed

definition pinned_group :: tab_group where
  "pinned_group = \<lparr>group_tabs =
      [(makeSession ''t2'' ''/acme/inbox'' ''I'' ''Inbox'')\<lparr>tab_pinned := True\<rparr>, example_tab,
       makeSession ''t3'' ''/acme/agents'' ''A'' ''Bot''], group_active = ''t1''\<rparr>"

definition pinned_store :: tab_store where
  "pinned_store = \<lparr>activeWorkspaceSlug = Some ''acme'', byWorkspace = [(''acme'', pinned_group)],
     mountGeneration = 0\<rparr>"

lemma pinned_store_ok: "store_ok pinned_store"
proof -
  have e: "session_ok example_tab" "proper_slug ''acme''"
    using example_store_ok by (auto simp: store_ok_def groups_ok_def group_ok_def example_store_def js_keys_def)
  have "clean_url ''/acme/inbox''" "clean_url ''/acme/agents''" by code_simp+
  then have "session_ok (makeSession ''t2'' ''/acme/inbox'' ''I'' ''Inbox'')"
    "session_ok (makeSession ''t3'' ''/acme/agents'' ''A'' ''Bot'')"
    by (blast intro: session_ok_makeSession)+
  moreover from this have "session_ok ((makeSession ''t2'' ''/acme/inbox'' ''I'' ''Inbox'')\<lparr>tab_pinned := True\<rparr>)"
    by (simp add: session_ok_def history_ok_def)
  ultimately have "group_ok pinned_group"
    using e by (simp add: group_ok_def pinned_group_def group_ids_def all_unpinned_first example_tab_def)
  moreover have "distinct (group_ids pinned_group)"
    by (simp add: pinned_group_def group_ids_def example_tab_def)
  ultimately show ?thesis
    using e by (simp add: store_ok_def groups_ok_def pinned_store_def active_ok_def js_keys_def
        js_ok_def all_ids_def)
qed

lemma pinned_store_active: "active_group pinned_store = Some (''acme'', pinned_group)"
  by (simp add: active_group_def pinned_store_def)

lemma moveTab_spec_witness:
  "\<exists>g'. moveTab move_item 2 0 pinned_store = put_group ''acme'' g' pinned_store
     \<and> tab_id (group_tabs g' ! 1) = ''t3''"
proof -
  have len: "(2::int) < int (length (group_tabs pinned_group))"
    and b: "(1::int) = int (pinnedBoundary (group_tabs pinned_group))"
    and j: "(1::int) = (if (2::int) < 1 then max 0 (min 0 (1 - 1))
      else max 1 (min 0 (int (length (group_tabs pinned_group)) - 1)))"
    and id3: "tab_id (group_tabs pinned_group ! 2) = ''t3''"
    by (simp_all add: pinned_group_def example_tab_def)
  show ?thesis
    using moveTab_spec [OF move_item.array_mover_axioms pinned_store_ok pinned_store_active _ len b j] id3
    by auto
qed

text \<open>
  Toggling a pin flips it on that tab only: the tab moves to the zone boundary - the end
  of the pinned zone when pinned, the start of the unpinned zone when unpinned - and the other
  tabs keep their order and their pins.
\<close>
theorem togglePin_spec:
  assumes s: "store_ok s" and loc: "findTabLocation (byWorkspace s) tabId = Some (slug, g, i)"
  shows "\<exists>g' j. togglePin tabId s = put_group slug g' s \<and> j < length (group_tabs g')
    \<and> group_tabs g' ! j = (group_tabs g ! i)\<lparr>tab_pinned := \<not> tab_pinned (group_tabs g ! i)\<rparr>
    \<and> filter (\<lambda>t. tab_id t \<noteq> tabId) (group_tabs g') = filter (\<lambda>t. tab_id t \<noteq> tabId) (group_tabs g)
    \<and> j = length (filter tab_pinned (filter (\<lambda>t. tab_id t \<noteq> tabId) (group_tabs g)))"
proof -
  have gok: "groups_ok (byWorkspace s)" using s by (simp add: store_ok_def)
  note g = findTabLocation_get [OF gok loc]
  let ?ts = "group_tabs g"
  define t where "t = (?ts ! i)\<lparr>tab_pinned := \<not> tab_pinned (?ts ! i)\<rparr>"
  define r where "r = take i ?ts @ drop (Suc i) ?ts"
  define n where "n = take (pinnedBoundary r) r @ [t] @ drop (pinnedBoundary r) r"
  have d: "distinct (map tab_id ?ts)" using g(4) by (simp add: group_ok_def group_ids_def)
  have rest: "filter (\<lambda>t. tab_id t \<noteq> tabId) ?ts = r"
    using filter_neq_unique [OF d g(2)] g(3) by (simp add: r_def)
  then have rr: "filter (\<lambda>t. tab_id t \<noteq> tabId) r = r" by (auto simp: filter_id_conv)
  have "pinned_first r"
    unfolding rest [symmetric] using g(4) by (simp add: group_ok_def pinned_first_filter)
  then have "filter tab_pinned r = take (pinnedBoundary r) r"
    using take_pinnedBoundary [of r]
    by (subst append_take_drop_id [of "pinnedBoundary r" r, symmetric], subst filter_append)
      (simp add: pinned_first_def list_all_iff filter_id_conv filter_empty_conv)
  then have len: "length (filter tab_pinned r) = pinnedBoundary r"
    using pinnedBoundary_le [of r] by simp
  have "tab_id t = tabId" using g(3) by (simp add: t_def)
  then have "filter (\<lambda>t. tab_id t \<noteq> tabId) n = filter (\<lambda>t. tab_id t \<noteq> tabId) r"
    unfolding n_def
    using filter_append [of "\<lambda>t. tab_id t \<noteq> tabId" "take (pinnedBoundary r) r" "drop (pinnedBoundary r) r",
        unfolded append_take_drop_id]
    by simp
  moreover have "togglePin tabId s = put_group slug (g\<lparr>group_tabs := n\<rparr>) s"
    using loc by (simp add: togglePin_def Let_def n_def r_def t_def)
  moreover have "n ! pinnedBoundary r = t" "pinnedBoundary r < length n"
    using pinnedBoundary_le [of r] by (auto simp: n_def nth_append min_def)
  ultimately show ?thesis
    using rest rr len t_def
    by (intro exI [of _ "g\<lparr>group_tabs := n\<rparr>"] exI [of _ "pinnedBoundary r"]) simp
qed

lemma togglePin_spec_witness:
  "\<exists>g' j. togglePin ''t1'' example_store = put_group ''acme'' g' example_store
     \<and> j < length (group_tabs g') \<and> tab_pinned (group_tabs g' ! j)"
proof -
  have "findTabLocation (byWorkspace example_store) ''t1'' =
      Some (''acme'', \<lparr>group_tabs = [example_tab], group_active = ''t1''\<rparr>, 0)"
    by (simp add: example_store_def example_tab_def)
  from togglePin_spec [OF example_store_ok this] obtain g' j
    where "togglePin ''t1'' example_store = put_group ''acme'' g' example_store"
      "j < length (group_tabs g')" "group_tabs g' ! j = example_tab\<lparr>tab_pinned := True\<rparr>"
    by (auto simp: example_tab_def)
  then show ?thesis by (intro exI [of _ g'] exI [of _ j]) simp
qed

section \<open>Revoked workspaces, paths, scroll offsets\<close>

text \<open>
  When the list of valid workspaces arrives, the groups of the other workspaces are
  dropped, the groups of valid ones stay as they were, and the active workspace is a valid
  one unless the list is empty; with no group left, the first valid workspace gets one fresh
  tab on its issues list.
\<close>
theorem validateWorkspaceSlugs_spec:
  assumes s: "store_ok s" and valid: "list_all proper_slug validSlugs"
  shows "let s' = validateWorkspaceSlugs fresh validSlugs s in
    set (js_keys (byWorkspace s')) \<subseteq> set validSlugs
    \<and> (\<forall>slug\<in>set validSlugs. js_get (byWorkspace s) slug \<noteq> None
        \<longrightarrow> js_get (byWorkspace s') slug = js_get (byWorkspace s) slug)
    \<and> (validSlugs \<noteq> [] \<longrightarrow> (\<exists>slug\<in>set validSlugs. activeWorkspaceSlug s' = Some slug
        \<and> js_get (byWorkspace s') slug \<noteq> None))"
  using s
proof (cases rule: validateWorkspaceSlugs_cases [where validSlugs = validSlugs and fresh = fresh])
  case keep
  have "activeWorkspaceSlug s \<noteq> None" if "validSlugs \<noteq> []"
    using keep(3) valid that by (cases validSlugs) (auto simp: proper_slug_def)
  with keep show ?thesis
    by (auto simp: Let_def keys_filter_key js_get_filter_key js_get_None_iff)
next
  case repoint
  let ?k = "filter (\<lambda>(slug, g). List.member validSlugs slug) (byWorkspace s)"
  have "\<exists>k\<in>set validSlugs. first_key ?k = Some k \<and> js_get (byWorkspace s) k \<noteq> None"
    if "validSlugs \<noteq> []"
  proof -
    have "first_key ?k \<noteq> None"
      using repoint(2) valid that by (cases validSlugs) (auto simp: proper_slug_def first_key_None)
    then obtain k where k: "first_key ?k = Some k" by blast
    from first_key_in [OF this] have "k \<in> set validSlugs" "k \<in> set (js_keys (byWorkspace s))"
      by (simp_all add: keys_filter_key)
    with k show ?thesis by (intro bexI [of _ k]) (simp_all add: js_get_None_iff)
  qed
  with repoint(1) show ?thesis
    by (auto simp: Let_def keys_filter_key js_get_filter_key)
next
  case (reseed slug)
  have "js_get (byWorkspace s) x = None" if "x \<in> set validSlugs" for x
    using arg_cong [OF reseed(4), of "\<lambda>ob. js_get ob x"] that
    by (simp add: js_get_filter_key)
  with reseed show ?thesis
    by (auto simp: Let_def set_keys_put js_get_put)
qed

lemma validateWorkspaceSlugs_spec_witness:
  "activeWorkspaceSlug (validateWorkspaceSlugs ''n'' [''beta''] example_store) = Some ''beta''"
proof -
  have "list_all proper_slug [''beta'']" by code_simp
  from validateWorkspaceSlugs_spec [OF example_store_ok this, of "''n''"] show ?thesis
    by (simp add: Let_def)
qed

text \<open>
  The path guard is idempotent and sound: what it accepts it accepts again unchanged,
  and an accepted URL belongs to a workspace whose slug is the first path segment of the
  input, is not reserved and holds no delimiter.
\<close>
theorem sanitizeTabPath_sound:
  assumes "sanitizeTabPath path = Some q"
  shows "sanitizeTabPath q = Some q \<and>
    (\<exists>slug. extractWorkspaceSlug q = Some slug \<and> proper_slug slug
      \<and> slug = hd (path_segments (resourceKeyForUrl path)))"
proof -
  note c = sanitizeTabPath_clean [OF assms]
  have "path_segments (fst (splitTabUrl path)) \<noteq> []"
    using assms by (cases rule: sanitizeTabPath_cases) auto
  then have "first_segment (fst (splitTabUrl path)) = hd (path_segments (resourceKeyForUrl path))"
    by (simp add: resourceKeyForUrl_def segment_or_empty_def hd_conv_nth)
  with c extractWorkspaceSlug_proper show ?thesis by (auto simp: clean_url_def)
qed

lemma sanitizeTabPath_sound_witness:
  "sanitizeTabPath ''/acme?view=board'' = Some ''/acme/issues?view=board''
     \<and> sanitizeTabPath ''/acme/issues?view=board'' = Some ''/acme/issues?view=board''"
proof -
  have h: "sanitizeTabPath ''/acme?view=board'' = Some ''/acme/issues?view=board''" by code_simp
  from sanitizeTabPath_sound [OF this] h show ?thesis by simp
qed

lemma js_get_fold_entries:
  "distinct (js_keys es) \<Longrightarrow>
   js_get (fold (\<lambda>(c, v). js_put (scrollMementoKey r c) v) es ob) k =
     (if \<exists>c v. (c, v) \<in> set es \<and> k = scrollMementoKey r c
      then js_get es (drop (length r + 2) k) else js_get ob k)"
proof (induction es arbitrary: ob)
  case (Cons e es)
  obtain c v where e: "e = (c, v)" by (cases e)
  have nc: "c \<notin> set (js_keys es)" "distinct (js_keys es)"
    using Cons.prems e by (auto simp: js_keys_def)
  show ?case
  proof (cases "k = scrollMementoKey r c")
    case True
    have "\<nexists>v. (c, v) \<in> set es" using nc(1) by (force simp: js_keys_def)
    with True Cons.IH [OF nc(2)] show ?thesis
      by (auto simp: e scrollMementoKey_def js_get_put)
  next
    case False
    then have "drop (length r + 2) k \<noteq> c" if "\<exists>c' v'. (c', v') \<in> set es \<and> k = scrollMementoKey r c'"
      using that by (auto simp: scrollMementoKey_def)
    with False Cons.IH [OF nc(2)] show ?thesis
      by (auto simp: e js_get_put)
  qed
qed simp

lemma js_get_next_scroll:
  assumes "js_ok old" and "js_ok entries"
  shows "js_get (next_scroll r entries old) k =
    (if starts_with k (r @ ''::'') then js_get entries (drop (length r + 2) k) else js_get old k)"
proof -
  have base: "js_get (js_from_entries (filter (\<lambda>(key, v). \<not> starts_with key (r @ ''::'')) old)) k =
      (if starts_with k (r @ ''::'') then None else js_get old k)"
    using assms(1) by (simp add: js_from_entries_id js_ok_filter js_get_filter_key)
  have pre: "starts_with k (r @ ''::'') \<longleftrightarrow> k = scrollMementoKey r (drop (length r + 2) k)"
    unfolding starts_with_def scrollMementoKey_def
    using append_take_drop_id [of "length r + 2" k]
    by (metis append.assoc append_eq_conv_conj length_append list.size(3,4) One_nat_def Suc_1 add_Suc_right add_0_right)
  show ?thesis
  proof (cases "\<exists>c v. (c, v) \<in> set entries \<and> k = scrollMementoKey r c")
    case True
    then have "starts_with k (r @ ''::'')" by (auto simp: scrollMementoKey_def starts_with_def)
    with True show ?thesis
      by (simp add: next_scroll_def js_get_fold_entries [OF js_ok_distinct [OF assms(2)]])
  next
    case False
    then have "js_get entries (drop (length r + 2) k) = None" if "starts_with k (r @ ''::'')"
      using that pre js_get_in_set by (metis option.exhaust)
    with False base show ?thesis
      by (auto simp: next_scroll_def js_get_fold_entries [OF js_ok_distinct [OF assms(2)]])
  qed
qed

lemma same_scroll_get:
  assumes "same_scroll old new" and "distinct (js_keys old)" and "distinct (js_keys new)"
  shows "js_get new k = js_get old k"
proof -
  have both: "\<exists>p q. js_get old k = Some p \<and> js_get new k = Some q
      \<and> offset_top p = offset_top q \<and> offset_height p = offset_height q"
    if "k \<in> set (js_keys new)" for k
  proof -
    have "case (js_get old k, js_get new k) of
        (Some prev, Some nxt) \<Rightarrow> offset_top prev = offset_top nxt \<and> offset_height prev = offset_height nxt
      | _ \<Rightarrow> False"
      using assms(1) that by (simp add: same_scroll_def list_all_iff)
    then show ?thesis by (simp split: option.splits)
  qed
  then have eq: "js_get new k = js_get old k" if "k \<in> set (js_keys new)" for k
  proof -
    from both [OF that] obtain p q where pq: "js_get old k = Some p" "js_get new k = Some q"
      "offset_top p = offset_top q" "offset_height p = offset_height q" by blast
    then have "p = q" by (cases p; cases q) simp
    with pq show ?thesis by simp
  qed
  have sub: "set (js_keys new) \<subseteq> set (js_keys old)"
  proof
    fix k assume "k \<in> set (js_keys new)"
    then obtain p where "js_get old k = Some p" using both by blast
    then show "k \<in> set (js_keys old)" by (rule js_get_Some_key)
  qed
  have "card (set (js_keys new)) = card (set (js_keys old))"
    using assms by (simp add: same_scroll_def distinct_card)
  then have "set (js_keys new) = set (js_keys old)"
    using sub by (simp add: card_subset_eq)
  with eq show ?thesis by (metis js_get_None_iff)
qed

text \<open>
  Committing the captured offsets of one route replaces that route's entries in the tab
  and no others: afterwards every key of the route holds what was captured (nothing, when the
  container was scrolled back to the top), every other key what it held, whether or not the
  write was skipped because nothing changed.
\<close>
theorem commitScrollMemento_spec:
  assumes s: "store_ok s" and loc: "findTabLocation (byWorkspace s) tabId = Some (slug, g, i)"
    and e: "js_ok entries"
  shows "\<exists>g'. js_get (byWorkspace (commitScrollMemento tabId routeKey entries s)) slug = Some g'
    \<and> length (group_tabs g') = length (group_tabs g)
    \<and> (\<forall>k. js_get (scroll (tab_memento (group_tabs g' ! i))) k =
        (if starts_with k (routeKey @ ''::'') then js_get entries (drop (length routeKey + 2) k)
         else js_get (scroll (tab_memento (group_tabs g ! i))) k))"
proof -
  have gok: "groups_ok (byWorkspace s)" using s by (simp add: store_ok_def)
  note g = findTabLocation_get [OF gok loc]
  let ?old = "scroll (tab_memento (group_tabs g ! i))"
  have old: "js_ok ?old" using group_session_ok [OF g(4,2)] by (simp add: session_ok_def)
  note get = js_get_next_scroll [OF old e, of routeKey]
  show ?thesis
  proof (cases "same_scroll ?old (next_scroll routeKey entries ?old)")
    case True
    from same_scroll_get [OF True js_ok_distinct [OF old] js_ok_distinct [OF js_ok_next_scroll]]
    have "js_get ?old k = js_get (next_scroll routeKey entries ?old) k" for k by simp
    with True loc g(1) get show ?thesis
      by (intro exI [of _ g]) (simp add: commitScrollMemento_def Let_def)
  next
    case False
    with loc g(2) get show ?thesis by (simp add: commitScrollMemento_def Let_def)
  qed
qed

lemma commitScrollMemento_spec_witness:
  "\<exists>g'. js_get (byWorkspace (commitScrollMemento ''t1'' ''/acme/projects''
       [(''main'', \<lparr>offset_top = 40, offset_height = 900\<rparr>)] example_store)) ''acme'' = Some g'
     \<and> js_get (scroll (tab_memento (group_tabs g' ! 0))) ''/acme/projects::main''
       = Some \<lparr>offset_top = 40, offset_height = 900\<rparr>"
proof -
  have loc: "findTabLocation (byWorkspace example_store) ''t1'' =
      Some (''acme'', \<lparr>group_tabs = [example_tab], group_active = ''t1''\<rparr>, 0)"
    by (simp add: example_store_def example_tab_def)
  have "js_ok [(''main'', \<lparr>offset_top = 40, offset_height = 900\<rparr>)]"
    by (simp add: js_ok_def js_keys_def)
  from commitScrollMemento_spec [OF example_store_ok loc this, of "''/acme/projects''"] show ?thesis
    by (auto simp: starts_with_def)
qed

end
