(* ===== verification/Tab_Restore.thy ===== *)
theory Tab_Restore
  imports Tab_Properties
begin

text \<open>
  Restart and migration: what a persisted tab store gives back. The round trip through
  \<open>partialize\<close> and \<open>merge\<close>, the guarantees of \<open>merge\<close> on arbitrary persisted
  data, and what the migration from the flat tab list keeps.
\<close>

section \<open>Rehydrating a group\<close>

lemma pinned_first_sorted:
  "pinned_first ts \<longleftrightarrow> sorted (map (\<lambda>t. if tab_pinned t then 0 else (1::nat)) ts)"
proof (induction ts)
  case (Cons t ts)
  then show ?case using all_unpinned_first [of ts] by (auto simp: list_all_iff)
qed simp

lemma sort_pinned_id:
  "pinned_first ts \<Longrightarrow> sort_key (\<lambda>t. if tab_pinned t then 0 else (1::nat)) ts = ts"
  by (simp add: pinned_first_sorted sort_key_id_if_sorted)

lemma pinned_first_sort: "pinned_first (sort_key (\<lambda>t. if tab_pinned t then 0 else (1::nat)) ts)"
  by (simp add: pinned_first_sorted)

text \<open>A good session of the workspace survives a write and a read as it is.\<close>

lemma rehydrate_persist_tab:
  assumes "session_ok t" and "extractWorkspaceSlug (tab_url t) = Some slug"
  shows "rehydrate_tab slug (persist_tab t) = Some t"
proof -
  let ?h = "tab_history t"
  have h: "0 \<le> hist_index ?h" "hist_index ?h < int (length (hist_stack ?h))"
    "hist_stack ?h ! nat (hist_index ?h) = tab_url t" "list_all clean_url (hist_stack ?h)"
    "tab_resourceKey t = resourceKeyForUrl (tab_url t)"
    using assms(1) by (auto simp: session_ok_def history_ok_def Let_def)
  then have "clean_url (tab_url t)"
    by (metis list_all_length nat_less_iff)
  then have clean: "sanitizeTabPath (tab_url t) = Some (tab_url t)" by (simp add: clean_url_def)
  have "hist_stack ?h \<noteq> []" using h by auto
  moreover have "min (max (hist_index ?h) 0) (int (length (hist_stack ?h)) - 1) = hist_index ?h"
    using h by auto
  ultimately show ?thesis
    using clean assms(2) h(5) by (simp add: rehydrate_tab_def persist_tab_def Let_def)
qed

lemma rehydrate_tab_Some:
  assumes "rehydrate_tab slug p = Some t"
  shows "tab_id t = v4_id p \<and> clean_url (tab_url t) \<and> extractWorkspaceSlug (tab_url t) = Some slug
    \<and> tab_resourceKey t = resourceKeyForUrl (tab_url t)
    \<and> 0 \<le> hist_index (tab_history t)
    \<and> hist_index (tab_history t) < int (length (hist_stack (tab_history t)))"
proof -
  from assms obtain clean where c: "sanitizeTabPath (v4_url p) = Some clean"
    "extractWorkspaceSlug clean = Some slug"
    by (auto simp: rehydrate_tab_def split: option.splits if_splits)
  let ?st = "case Option.bind (v4_history p) v4_stack of Some st \<Rightarrow> if st \<noteq> [] then st else [clean] | None \<Rightarrow> [clean]"
  have "0 < int (length ?st)" by (simp split: option.split)
  then have "0 \<le> min (max x 0) (int (length ?st) - 1) \<and> min (max x 0) (int (length ?st) - 1) < int (length ?st)" for x
    by linarith
  with assms c sanitize_clean [OF c(1)] show ?thesis
    by (auto simp: rehydrate_tab_def Let_def)
qed

lemma map_filter_persist:
  assumes "\<And>t. t \<in> set ts \<Longrightarrow> rehydrate_tab slug (persist_tab t) = Some t"
  shows "List.map_filter (rehydrate_tab slug) (map persist_tab ts) = ts"
  using assms by (induction ts) (auto simp: List.map_filter_simps)

lemma rehydrate_persist_group:
  assumes g: "group_ok g" and "\<And>t. t \<in> set (group_tabs g) \<Longrightarrow> extractWorkspaceSlug (tab_url t) = Some slug"
  shows "rehydrate_group slug \<lparr>v4_tabs = map persist_tab (group_tabs g), v4_active = group_active g\<rparr> = Some g"
proof -
  have "List.map_filter (rehydrate_tab slug) (map persist_tab (group_tabs g)) = group_tabs g"
    using assms by (intro map_filter_persist rehydrate_persist_tab) (auto simp: group_ok_def list_all_iff)
  moreover have "\<exists>t\<in>set (group_tabs g). tab_id t = group_active g" "group_tabs g \<noteq> []"
    using g by (auto simp: group_ok_def group_ids_def)
  ultimately show ?thesis
    using g by (simp add: rehydrate_group_def Let_def sort_pinned_id group_ok_def list_ex_iff)
qed

lemma js_get_merge_fold:
  "distinct (js_keys pgs) \<Longrightarrow>
   js_get (fold (\<lambda>(slug, p) ob. case rehydrate_group slug p of None \<Rightarrow> ob | Some g \<Rightarrow> js_put slug g ob) pgs ob) k =
     (case Option.bind (js_get pgs k) (rehydrate_group k) of Some g \<Rightarrow> Some g | None \<Rightarrow> js_get ob k)"
proof (induction pgs arbitrary: ob)
  case (Cons e pgs)
  obtain slug p where e: "e = (slug, p)" by (cases e)
  have nc: "slug \<notin> set (js_keys pgs)" "distinct (js_keys pgs)"
    using Cons.prems e by (auto simp: js_keys_def)
  then have "js_get pgs slug = None" by (simp add: js_get_None_iff)
  with Cons.IH [OF nc(2)] show ?case
    by (auto simp: e js_get_put split: option.split)
qed simp

lemma js_get_merge_groups:
  "distinct (js_keys pgs) \<Longrightarrow> js_get (merge_groups pgs) k = Option.bind (js_get pgs k) (rehydrate_group k)"
  by (simp add: merge_groups_def js_get_merge_fold split: option.split)

lemma js_ok_merge_groups: "js_ok (merge_groups pgs)"
proof -
  have "js_ok ob \<Longrightarrow> js_ok (fold (\<lambda>(slug, p) ob. case rehydrate_group slug p of None \<Rightarrow> ob
      | Some g \<Rightarrow> js_put slug g ob) pgs ob)" for ob
    by (induction pgs arbitrary: ob) (auto simp: js_ok_put split: option.split)
  then show ?thesis by (simp add: merge_groups_def)
qed

lemma merge_groups_persist:
  assumes "\<And>slug g. (slug, g) \<in> set ob \<Longrightarrow>
    rehydrate_group slug \<lparr>v4_tabs = map persist_tab (group_tabs g), v4_active = group_active g\<rparr> = Some g"
  shows "merge_groups (map (\<lambda>(slug, g).
      (slug, \<lparr>v4_tabs = map persist_tab (group_tabs g), v4_active = group_active g\<rparr>)) ob) = js_from_entries ob"
proof -
  let ?f = "\<lambda>(slug, g). (slug, \<lparr>v4_tabs = map persist_tab (group_tabs g), v4_active = group_active g\<rparr>)"
  have "fold (\<lambda>(slug, p) ob. case rehydrate_group slug p of None \<Rightarrow> ob | Some g \<Rightarrow> js_put slug g ob)
      (map ?f ob) acc = fold (\<lambda>(k, v). js_put k v) ob acc" for acc
    using assms by (induction ob arbitrary: acc) auto
  then show ?thesis by (simp add: merge_groups_def js_from_entries_def)
qed

section \<open>Restart\<close>

text \<open>Every tab belongs to the workspace whose group holds it.\<close>

definition in_workspace :: "tab_store \<Rightarrow> bool" where
  "in_workspace s = list_all (\<lambda>(slug, g).
     list_all (\<lambda>t. extractWorkspaceSlug (tab_url t) = Some slug) (group_tabs g)) (byWorkspace s)"



text \<open>
  C4. Whatever is persisted, a restart gives a usable store: each restored group has a tab and
  its active tab, pinned tabs come first, each tab has a clean URL of that workspace with the
  matching identity and a history index inside its stack, and the active workspace is one that
  has a group.
\<close>
theorem merge_sound:
  assumes "v4_byWorkspace p = Some pGroups" and "distinct (js_keys pGroups)"
  shows "let s = merge (Some p) cur in
    (\<forall>slug g. js_get (byWorkspace s) slug = Some g \<longrightarrow>
       group_active g \<in> set (group_ids g) \<and> pinned_first (group_tabs g)
       \<and> (\<forall>t\<in>set (group_tabs g). clean_url (tab_url t)
           \<and> extractWorkspaceSlug (tab_url t) = Some slug
           \<and> tab_resourceKey t = resourceKeyForUrl (tab_url t)
           \<and> 0 \<le> hist_index (tab_history t)
           \<and> hist_index (tab_history t) < int (length (hist_stack (tab_history t)))))
    \<and> active_ok s"
proof -
  let ?gs = "merge_groups pGroups"
  have m: "byWorkspace (merge (Some p) cur) = ?gs"
    "activeWorkspaceSlug (merge (Some p) cur) =
       (if \<not> falsy (v4_activeWorkspaceSlug p) \<and> js_get ?gs (the (v4_activeWorkspaceSlug p)) \<noteq> None
        then v4_activeWorkspaceSlug p else first_key ?gs)"
    using assms(1) by (simp_all add: merge_def Let_def)
  have grp: "group_active g \<in> set (group_ids g) \<and> pinned_first (group_tabs g)
       \<and> (\<forall>t\<in>set (group_tabs g). clean_url (tab_url t)
           \<and> extractWorkspaceSlug (tab_url t) = Some slug
           \<and> tab_resourceKey t = resourceKeyForUrl (tab_url t)
           \<and> 0 \<le> hist_index (tab_history t)
           \<and> hist_index (tab_history t) < int (length (hist_stack (tab_history t))))"
    if "js_get ?gs slug = Some g" for slug g
  proof -
    from that obtain pg where "rehydrate_group slug pg = Some g"
      by (auto simp: js_get_merge_groups [OF assms(2)] bind_eq_Some_conv)
    then obtain ts where ts: "ts = List.map_filter (rehydrate_tab slug) (v4_tabs pg)" "ts \<noteq> []"
      and g: "group_tabs g = sort_key (\<lambda>t. if tab_pinned t then 0 else (1::nat)) ts"
      and a: "group_active g = (if list_ex (\<lambda>t. tab_id t = v4_active pg) (group_tabs g)
                then v4_active pg else tab_id (hd (group_tabs g)))"
      by (auto simp: rehydrate_group_def Let_def split: if_splits)
    have ne: "group_tabs g \<noteq> []" "set (group_tabs g) = set ts"
      using ts(2) g by (auto simp flip: set_empty)
    then have "group_active g \<in> set (group_ids g)"
      using a by (cases "list_ex (\<lambda>t. tab_id t = v4_active pg) (group_tabs g)")
        (auto simp: group_ids_def list_ex_iff simp del: image_iff intro: rev_image_eqI)
    moreover have "\<exists>q. rehydrate_tab slug q = Some t" if "t \<in> set (group_tabs g)" for t
      using that ne(2) ts(1) by (auto simp: List.map_filter_def)
    ultimately show ?thesis
      using g pinned_first_sort rehydrate_tab_Some by metis
  qed
  have "active_ok (merge (Some p) cur)"
    using js_get_Some_key [of ?gs] first_key_in [of ?gs] first_key_None [of ?gs]
    by (auto simp: active_ok_def m split: option.split if_splits)
  with grp m(1) show ?thesis by (simp add: Let_def)
qed

lemma merge_sound_witness:
  "active_ok (merge (Some \<lparr>v4_activeWorkspaceSlug = Some ''gone'',
     v4_byWorkspace = Some [(''acme'', \<lparr>v4_tabs = [], v4_active = ''x''\<rparr>)]\<rparr>) initial_store)"
proof -
  let ?p = "\<lparr>v4_activeWorkspaceSlug = Some ''gone'',
     v4_byWorkspace = Some [(''acme'', \<lparr>v4_tabs = [], v4_active = ''x''\<rparr>)]\<rparr>"
  have "v4_byWorkspace ?p = Some [(''acme'', \<lparr>v4_tabs = [], v4_active = ''x''\<rparr>)]"
    "distinct (js_keys [(''acme'', \<lparr>v4_tabs = [], v4_active = ''x''\<rparr>)])"
    by (simp_all add: js_keys_def)
  from merge_sound [OF this, of initial_store] show ?thesis by (simp add: Let_def)
qed

section \<open>Migration from the flat tab list\<close>

lemma js_get_fold_push:
  "js_get (fold push_v2 ts ob) slug =
     (let new = filter (\<lambda>t. extractWorkspaceSlug (v1_path t) = Some slug) ts in
      case js_get ob slug of
        None \<Rightarrow> if new = [] then None else Some \<lparr>v2_tabs = new, v2_active = []\<rparr>
      | Some g \<Rightarrow> Some (g\<lparr>v2_tabs := v2_tabs g @ new\<rparr>))"
proof (induction ts arbitrary: ob)
  case (Cons t ts)
  show ?case
  proof (cases "extractWorkspaceSlug (v1_path t) = Some slug")
    case True
    then have "js_get (push_v2 t ob) slug = Some (case js_get ob slug of
        None \<Rightarrow> \<lparr>v2_tabs = [t], v2_active = []\<rparr> | Some g \<Rightarrow> g\<lparr>v2_tabs := v2_tabs g @ [t]\<rparr>)"
      by (simp add: push_v2_def js_get_put split: option.split)
    with True show ?thesis
      by (cases "js_get ob slug") (simp_all add: Cons.IH Let_def)
  next
    case False
    then have "js_get (push_v2 t ob) slug = js_get ob slug"
      by (auto simp: push_v2_def js_get_put split: option.split)
    with False show ?thesis by (simp add: Cons.IH)
  qed
qed (simp split: option.split)

text \<open>
  Migrating the flat tab list of version 1 loses no workspace tab: the group of a
  workspace holds exactly the old tabs whose path starts with its slug, in their old order
  (tabs without a workspace are dropped), and its active tab is the old active tab when it
  landed there and otherwise its first tab.
\<close>
theorem migrateV1ToV2_groups:
  assumes "v1_tabs v1 = Some oldTabs"
    and new: "new = filter (\<lambda>t. extractWorkspaceSlug (v1_path t) = Some slug) oldTabs"
  shows "Option.bind (v2_byWorkspace (migrateV1ToV2 v1)) (\<lambda>groups. js_get groups slug) =
    (if new = [] then None
     else Some \<lparr>v2_tabs = new,
       v2_active = (case v1_activeTabId v1 of
          Some a \<Rightarrow> if a \<in> v1_id ` set new then a else v1_id (hd new)
        | None \<Rightarrow> v1_id (hd new))\<rparr>)"
proof -
  have "js_get (fold push_v2 oldTabs []) slug =
      (if new = [] then None else Some \<lparr>v2_tabs = new, v2_active = []\<rparr>)"
    by (simp add: js_get_fold_push new Let_def)
  then show ?thesis
    using assms(1)
    by (auto simp: migrateV1ToV2_def Let_def js_get_map_values choose_active_v2_def list_ex_iff
        split: option.split)
qed

lemma migrateV1ToV2_groups_witness:
  "Option.bind (v2_byWorkspace (migrateV1ToV2
      \<lparr>v1_tabs = Some [\<lparr>v1_id = ''a'', v1_path = ''/acme/issues'', v1_title = [], v1_icon = []\<rparr>,
                      \<lparr>v1_id = ''b'', v1_path = ''/login'', v1_title = [], v1_icon = []\<rparr>],
       v1_activeTabId = Some ''b''\<rparr>)) (\<lambda>groups. js_get groups ''acme'') =
   Some \<lparr>v2_tabs = [\<lparr>v1_id = ''a'', v1_path = ''/acme/issues'', v1_title = [], v1_icon = []\<rparr>],
         v2_active = ''a''\<rparr>"
proof -
  let ?a = "\<lparr>v1_id = ''a'', v1_path = ''/acme/issues'', v1_title = [], v1_icon = []\<rparr>"
    and ?b = "\<lparr>v1_id = ''b'', v1_path = ''/login'', v1_title = [], v1_icon = []\<rparr>"
  have e: "extractWorkspaceSlug ''/acme/issues'' = Some ''acme''" "extractWorkspaceSlug ''/login'' = None"
    by code_simp+
  then have "[?a] = filter (\<lambda>t. extractWorkspaceSlug (v1_path t) = Some ''acme'') [?a, ?b]" by simp
  from migrateV1ToV2_groups [OF _ this, of "\<lparr>v1_tabs = Some [?a, ?b], v1_activeTabId = Some ''b''\<rparr>"]
  show ?thesis by simp
qed

section \<open>Tabs outside their workspace\<close>

lemma rehydrate_group_tabs:
  assumes "rehydrate_group slug \<lparr>v4_tabs = map persist_tab ts, v4_active = a\<rparr> = Some g"
  shows "\<forall>t\<in>set (group_tabs g). \<exists>p\<in>set ts. rehydrate_tab slug (persist_tab p) = Some t"
proof -
  have "set (group_tabs g) = set (List.map_filter (rehydrate_tab slug) (map persist_tab ts))"
    using assms by (auto simp: rehydrate_group_def Let_def split: if_splits)
  then show ?thesis by (auto simp: List.map_filter_def simp del: map_map)
qed

text \<open>
  The store does not enforce that a tab belongs to the workspace whose group it is put
  in: opening a path of another workspace that is not open yet adds that path to the active
  workspace's group, and the next restart silently drops it from that group.
\<close>
theorem openTab_foreign_path:
  fixes s :: tab_store and path title icon fresh slug :: string and activate :: bool
  assumes s: "store_ok s" and ag: "active_group s = Some (slug, g)"
    and clean: "sanitizeTabPath path = Some clean" and foreign: "extractWorkspaceSlug clean \<noteq> Some slug"
    and new: "find_by_key (resourceKeyForUrl clean) (group_tabs g) = None"
    and fresh: "fresh \<notin> set (all_ids (byWorkspace s))"
    and s'_def: "s' = fst (openTab fresh path title icon activate s)"
  shows "(\<exists>g'. active_group s' = Some (slug, g') \<and> fresh \<in> set (group_ids g'))
    \<and> (\<forall>g'. js_get (byWorkspace (merge (Some (partialize s')) initial_store)) slug = Some g'
         \<longrightarrow> fresh \<notin> set (group_ids g'))"
proof -
  let ?t = "makeSession fresh clean title icon"
  let ?g = "\<lparr>group_tabs = group_tabs g @ [?t], group_active = (if activate then fresh else group_active g)\<rparr>"
  have s': "s' = put_group slug ?g s"
    using ag clean new by (simp add: s'_def openTab_def Let_def)
  have ok: "store_ok s'" unfolding s'_def by (rule openTab_ok [OF s fresh])
  have kok: "js_ok (byWorkspace s')" using ok by (simp add: store_ok_def groups_ok_def)
  have g: "js_get (byWorkspace s) slug = Some g" by (rule active_group_Some(2) [OF ag])
  then have fg: "fresh \<notin> set (group_ids g)"
    using fresh s all_ids_get js_ok_distinct by (metis groups_ok_def store_ok_def)
  let ?f = "\<lambda>slug g. \<lparr>v4_tabs = map persist_tab (group_tabs g), v4_active = group_active g\<rparr>"
  have "js_from_entries (map (\<lambda>(slug, g). (slug, ?f slug g)) (byWorkspace s')) =
      map (\<lambda>(slug, g). (slug, ?f slug g)) (byWorkspace s')"
    using kok by (intro js_from_entries_id) (simp add: js_ok_map_values)
  moreover have "distinct (js_keys (map (\<lambda>(slug, g). (slug, ?f slug g)) (byWorkspace s')))"
    using kok js_ok_map_values [of ?f] js_ok_distinct by blast
  ultimately have res: "js_get (byWorkspace (merge (Some (partialize s')) initial_store)) slug =
      rehydrate_group slug (?f slug ?g)"
    by (simp add: merge_def partialize_def Let_def js_get_merge_groups js_get_map_values s')
  have "fresh \<notin> set (group_ids g')" if rg: "rehydrate_group slug (?f slug ?g) = Some g'" for g'
  proof
    assume "fresh \<in> set (group_ids g')"
    then obtain t where t: "t \<in> set (group_tabs g')" "tab_id t = fresh" by (auto simp: group_ids_def)
    then obtain p where p: "p \<in> set (group_tabs ?g)" "rehydrate_tab slug (persist_tab p) = Some t"
      using rehydrate_group_tabs [of slug "group_tabs ?g" "group_active ?g"] rg by auto
    from rehydrate_tab_Some [OF p(2)] t(2) have "tab_id p = fresh" by (simp add: persist_tab_def)
    with p(1) fg have "p = ?t" by (auto simp: group_ids_def)
    moreover have "sanitizeTabPath clean = Some clean"
      using sanitize_clean [OF clean] by (simp add: clean_url_def)
    ultimately show False
      using p(2) foreign by (simp add: rehydrate_tab_def persist_tab_def)
  qed
  with res have "\<forall>g'. js_get (byWorkspace (merge (Some (partialize s')) initial_store)) slug = Some g'
         \<longrightarrow> fresh \<notin> set (group_ids g')" by simp
  moreover have "active_group s' = Some (slug, ?g)" unfolding s' by (rule active_group_put [OF ag])
  ultimately show ?thesis by (auto simp: group_ids_def)
qed

lemma openTab_foreign_path_witness:
  "\<exists>g'. active_group (fst (openTab ''t9'' ''/beta/issues'' ''B'' ''L'' True pinned_store)) = Some (''acme'', g')
     \<and> ''t9'' \<in> set (group_ids g')"
proof -
  have "sanitizeTabPath ''/beta/issues'' = Some ''/beta/issues''"
    "extractWorkspaceSlug ''/beta/issues'' \<noteq> Some ''acme''"
    "find_by_key (resourceKeyForUrl ''/beta/issues'') (group_tabs pinned_group) = None"
    "''t9'' \<notin> set (all_ids (byWorkspace pinned_store))" by code_simp+
  from openTab_foreign_path [OF pinned_store_ok pinned_store_active this refl] show ?thesis by blast
qed

end
