(* ===== verification/Issue_Types.thy ===== *)
theory Issue_Types
  imports Js_Object
begin

text \<open>
  The data of the issue caches (\<open>packages/core/types/issue.ts\<close>, \<open>label.ts\<close>, \<open>property.ts\<close>,
  \<open>inbox.ts\<close>, \<open>api.ts\<close>): issues, partial issues (patches), the bucketed list cache.  A union
  with \<open>null\<close> is an \<open>option\<close>; a \<open>Partial<Issue>\<close> has one more \<open>option\<close> around every field, where
  \<open>None\<close> means that the object has no such property, so \<open>project_id: null\<close> is \<open>Some None\<close>.  A
  property that is present with the value \<open>undefined\<close> does not occur: patches are JSON payloads.
  Positions and stages are finite numbers, read as rationals; dates are their strings.
\<close>

section \<open>Enumerations\<close>

datatype issue_status = Backlog | Todo | In_progress | In_review | Done | Blocked | Cancelled

datatype issue_priority = Urgent | High | Medium | Low | No_priority

datatype issue_assignee_type = Member | Agent | Squad

definition ALL_STATUSES :: "issue_status list" where
  "ALL_STATUSES = [Backlog, Todo, In_progress, In_review, Done, Blocked, Cancelled]"

definition PAGINATED_STATUSES :: "issue_status list" where
  "PAGINATED_STATUSES = ALL_STATUSES"

lemma set_PAGINATED [simp]: "set PAGINATED_STATUSES = UNIV"
proof -
  have "s \<in> set PAGINATED_STATUSES" for s
    by (cases s) (simp_all add: PAGINATED_STATUSES_def ALL_STATUSES_def)
  then show ?thesis by blast
qed

lemma distinct_PAGINATED: "distinct PAGINATED_STATUSES"
  by (simp add: PAGINATED_STATUSES_def ALL_STATUSES_def)

section \<open>Entities\<close>

record issue_reaction =
  rea_id :: string
  rea_issue_id :: string
  rea_actor_type :: string
  rea_actor_id :: string
  rea_emoji :: string
  rea_created_at :: string

datatype metadata_value = MString string | MNumber rat | MBool bool

type_synonym issue_metadata = "metadata_value js_object"

datatype property_value = PString string | PNumber rat | PBool bool | PList "string list"

type_synonym property_values = "property_value js_object"

datatype label_resource = Issue_resource | Agent_resource | Skill_resource

record label =
  lab_id :: string
  lab_workspace_id :: string
  lab_resource_type :: "label_resource option"
  lab_name :: string
  lab_description :: "string option"
  lab_color :: string
  lab_usage_count :: "int option"
  lab_created_at :: string
  lab_updated_at :: string

record issue =
  iss_id :: string
  iss_workspace_id :: string
  iss_number :: int
  iss_identifier :: string
  iss_title :: string
  iss_description :: "string option"
  iss_status :: issue_status
  iss_priority :: issue_priority
  iss_assignee_type :: "issue_assignee_type option"
  iss_assignee_id :: "string option"
  iss_creator_type :: issue_assignee_type
  iss_creator_id :: string
  iss_parent_issue_id :: "string option"
  iss_project_id :: "string option"
  iss_position :: rat
  iss_stage :: "rat option"
  iss_start_date :: "string option"
  iss_due_date :: "string option"
  iss_metadata :: issue_metadata
  iss_properties :: property_values
  iss_reactions :: "issue_reaction list option"
  iss_labels :: "label list option"
  iss_created_at :: string
  iss_updated_at :: string

section \<open>Partial issues\<close>

record issue_patch =
  pat_id :: "string option"
  pat_workspace_id :: "string option"
  pat_number :: "int option"
  pat_identifier :: "string option"
  pat_title :: "string option"
  pat_description :: "string option option"
  pat_status :: "issue_status option"
  pat_priority :: "issue_priority option"
  pat_assignee_type :: "issue_assignee_type option option"
  pat_assignee_id :: "string option option"
  pat_creator_type :: "issue_assignee_type option"
  pat_creator_id :: "string option"
  pat_parent_issue_id :: "string option option"
  pat_project_id :: "string option option"
  pat_position :: "rat option"
  pat_stage :: "rat option option"
  pat_start_date :: "string option option"
  pat_due_date :: "string option option"
  pat_metadata :: "issue_metadata option"
  pat_properties :: "property_values option"
  pat_reactions :: "issue_reaction list option"
  pat_labels :: "label list option"
  pat_created_at :: "string option"
  pat_updated_at :: "string option"

definition empty_patch :: issue_patch where
  "empty_patch = \<lparr>pat_id = None, pat_workspace_id = None, pat_number = None, pat_identifier = None,
     pat_title = None, pat_description = None, pat_status = None, pat_priority = None,
     pat_assignee_type = None, pat_assignee_id = None, pat_creator_type = None,
     pat_creator_id = None, pat_parent_issue_id = None, pat_project_id = None,
     pat_position = None, pat_stage = None, pat_start_date = None, pat_due_date = None,
     pat_metadata = None, pat_properties = None, pat_reactions = None, pat_labels = None,
     pat_created_at = None, pat_updated_at = None\<rparr>"

text \<open>\<open>{...a, b}\<close> for one field: the later property wins where it is present.\<close>

fun over :: "'a option \<Rightarrow> 'a \<Rightarrow> 'a" where
  "over None old = old"
| "over (Some new) old = new"

fun over_opt :: "'a option \<Rightarrow> 'a option \<Rightarrow> 'a option" where
  "over_opt None old = old"
| "over_opt (Some new) old = Some new"

definition merge_issue :: "issue \<Rightarrow> issue_patch \<Rightarrow> issue" where
  "merge_issue i p =
     \<lparr>iss_id = over (pat_id p) (iss_id i),
      iss_workspace_id = over (pat_workspace_id p) (iss_workspace_id i),
      iss_number = over (pat_number p) (iss_number i),
      iss_identifier = over (pat_identifier p) (iss_identifier i),
      iss_title = over (pat_title p) (iss_title i),
      iss_description = over (pat_description p) (iss_description i),
      iss_status = over (pat_status p) (iss_status i),
      iss_priority = over (pat_priority p) (iss_priority i),
      iss_assignee_type = over (pat_assignee_type p) (iss_assignee_type i),
      iss_assignee_id = over (pat_assignee_id p) (iss_assignee_id i),
      iss_creator_type = over (pat_creator_type p) (iss_creator_type i),
      iss_creator_id = over (pat_creator_id p) (iss_creator_id i),
      iss_parent_issue_id = over (pat_parent_issue_id p) (iss_parent_issue_id i),
      iss_project_id = over (pat_project_id p) (iss_project_id i),
      iss_position = over (pat_position p) (iss_position i),
      iss_stage = over (pat_stage p) (iss_stage i),
      iss_start_date = over (pat_start_date p) (iss_start_date i),
      iss_due_date = over (pat_due_date p) (iss_due_date i),
      iss_metadata = over (pat_metadata p) (iss_metadata i),
      iss_properties = over (pat_properties p) (iss_properties i),
      iss_reactions = over_opt (pat_reactions p) (iss_reactions i),
      iss_labels = over_opt (pat_labels p) (iss_labels i),
      iss_created_at = over (pat_created_at p) (iss_created_at i),
      iss_updated_at = over (pat_updated_at p) (iss_updated_at i)\<rparr>"

text \<open>A full issue read as a \<open>Partial<Issue>\<close>, and \<open>{...a, ...b}\<close> of two partial issues.\<close>

definition partial_of :: "issue \<Rightarrow> issue_patch" where
  "partial_of i =
     \<lparr>pat_id = Some (iss_id i), pat_workspace_id = Some (iss_workspace_id i),
      pat_number = Some (iss_number i), pat_identifier = Some (iss_identifier i),
      pat_title = Some (iss_title i), pat_description = Some (iss_description i),
      pat_status = Some (iss_status i), pat_priority = Some (iss_priority i),
      pat_assignee_type = Some (iss_assignee_type i), pat_assignee_id = Some (iss_assignee_id i),
      pat_creator_type = Some (iss_creator_type i), pat_creator_id = Some (iss_creator_id i),
      pat_parent_issue_id = Some (iss_parent_issue_id i),
      pat_project_id = Some (iss_project_id i), pat_position = Some (iss_position i),
      pat_stage = Some (iss_stage i), pat_start_date = Some (iss_start_date i),
      pat_due_date = Some (iss_due_date i), pat_metadata = Some (iss_metadata i),
      pat_properties = Some (iss_properties i), pat_reactions = iss_reactions i,
      pat_labels = iss_labels i, pat_created_at = Some (iss_created_at i),
      pat_updated_at = Some (iss_updated_at i)\<rparr>"

definition merge_partial :: "issue_patch \<Rightarrow> issue_patch \<Rightarrow> issue_patch" where
  "merge_partial a b =
     \<lparr>pat_id = over_opt (pat_id b) (pat_id a),
      pat_workspace_id = over_opt (pat_workspace_id b) (pat_workspace_id a),
      pat_number = over_opt (pat_number b) (pat_number a),
      pat_identifier = over_opt (pat_identifier b) (pat_identifier a),
      pat_title = over_opt (pat_title b) (pat_title a),
      pat_description = over_opt (pat_description b) (pat_description a),
      pat_status = over_opt (pat_status b) (pat_status a),
      pat_priority = over_opt (pat_priority b) (pat_priority a),
      pat_assignee_type = over_opt (pat_assignee_type b) (pat_assignee_type a),
      pat_assignee_id = over_opt (pat_assignee_id b) (pat_assignee_id a),
      pat_creator_type = over_opt (pat_creator_type b) (pat_creator_type a),
      pat_creator_id = over_opt (pat_creator_id b) (pat_creator_id a),
      pat_parent_issue_id = over_opt (pat_parent_issue_id b) (pat_parent_issue_id a),
      pat_project_id = over_opt (pat_project_id b) (pat_project_id a),
      pat_position = over_opt (pat_position b) (pat_position a),
      pat_stage = over_opt (pat_stage b) (pat_stage a),
      pat_start_date = over_opt (pat_start_date b) (pat_start_date a),
      pat_due_date = over_opt (pat_due_date b) (pat_due_date a),
      pat_metadata = over_opt (pat_metadata b) (pat_metadata a),
      pat_properties = over_opt (pat_properties b) (pat_properties a),
      pat_reactions = over_opt (pat_reactions b) (pat_reactions a),
      pat_labels = over_opt (pat_labels b) (pat_labels a),
      pat_created_at = over_opt (pat_created_at b) (pat_created_at a),
      pat_updated_at = over_opt (pat_updated_at b) (pat_updated_at a)\<rparr>"

lemma over_opt_Some [simp]: "over_opt x (Some y) = Some (over x y)"
  by (cases x) simp_all

lemma partial_of_merge: "partial_of (merge_issue i p) = merge_partial (partial_of i) p"
  by (simp add: partial_of_def merge_issue_def merge_partial_def)

lemma merge_issue_empty [simp]: "merge_issue i empty_patch = i"
  by (simp add: merge_issue_def empty_patch_def)

section \<open>The bucketed list cache\<close>

record status_bucket =
  bucket_issues :: "issue list"
  bucket_total :: int

record list_cache =
  byStatus :: "issue_status \<Rightarrow> status_bucket option"

section \<open>Grouped responses and inbox rows\<close>

record assignee_group =
  grp_id :: string
  grp_assignee_type :: "issue_assignee_type option"
  grp_assignee_id :: "string option"
  grp_issues :: "issue list"
  grp_total :: int

record grouped_response =
  resp_groups :: "assignee_group list"

datatype inbox_actor = Actor_member | Actor_agent | Actor_system

datatype inbox_severity = Action_required | Attention | Info

record inbox_item =
  inb_id :: string
  inb_workspace_id :: string
  inb_recipient_type :: inbox_actor
  inb_recipient_id :: string
  inb_actor_type :: "inbox_actor option"
  inb_actor_id :: "string option"
  inb_type :: string
  inb_severity :: inbox_severity
  inb_issue_id :: "string option"
  inb_title :: string
  inb_body :: "string option"
  inb_issue_status :: "issue_status option"
  inb_read :: bool
  inb_archived :: bool
  inb_created_at :: string
  inb_details :: "string js_object option"

section \<open>An issue for the worked examples\<close>

definition example_issue :: "string \<Rightarrow> issue_status \<Rightarrow> rat \<Rightarrow> issue" where
  "example_issue i status position =
     \<lparr>iss_id = i, iss_workspace_id = ''w'', iss_number = 1, iss_identifier = ''MUL-1'',
      iss_title = ''t'', iss_description = None, iss_status = status, iss_priority = High,
      iss_assignee_type = Some Member, iss_assignee_id = Some ''u1'', iss_creator_type = Member,
      iss_creator_id = ''u1'', iss_parent_issue_id = None, iss_project_id = Some ''p1'',
      iss_position = position, iss_stage = None, iss_start_date = None, iss_due_date = None,
      iss_metadata = [], iss_properties = [], iss_reactions = None, iss_labels = None,
      iss_created_at = ''2026-01-01T00:00:00Z'', iss_updated_at = ''2026-01-01T00:00:00Z''\<rparr>"

end
