(* ===== verification/Issue_Buckets.thy ===== *)
theory Issue_Buckets
  imports Issue_Types "HOL-Library.Multiset"
begin

text \<open>
  The bucketed issue list (\<open>packages/core/issues/cache-helpers.ts\<close>): one bucket per status with
  the loaded issues and the server's total.  \<open>buckets_ok\<close> is its invariant: an issue sits in the
  bucket of its status, is loaded at most once in the whole list, and no bucket has loaded more
  issues than its total.
\<close>

section \<open>Operations\<close>

definition EMPTY_BUCKET :: status_bucket where
  "EMPTY_BUCKET = \<lparr>bucket_issues = [], bucket_total = 0\<rparr>"

definition getBucket :: "list_cache \<Rightarrow> issue_status \<Rightarrow> status_bucket" where
  "getBucket resp status = (case byStatus resp status of None \<Rightarrow> EMPTY_BUCKET | Some b \<Rightarrow> b)"

definition setBucket :: "list_cache \<Rightarrow> issue_status \<Rightarrow> status_bucket \<Rightarrow> list_cache" where
  "setBucket resp status bucket = resp\<lparr>byStatus := (byStatus resp)(status \<mapsto> bucket)\<rparr>"

fun locate :: "list_cache \<Rightarrow> string \<Rightarrow> issue_status list \<Rightarrow> (issue_status \<times> issue) option" where
  "locate resp i [] = None"
| "locate resp i (status # rest) =
     (case Option.bind (byStatus resp status) (\<lambda>b. List.find (\<lambda>x. iss_id x = i) (bucket_issues b)) of
        Some found \<Rightarrow> Some (status, found)
      | None \<Rightarrow> locate resp i rest)"

definition findIssueLocation :: "list_cache \<Rightarrow> string \<Rightarrow> (issue_status \<times> issue) option" where
  "findIssueLocation resp i = locate resp i PAGINATED_STATUSES"

definition flattenIssueBuckets :: "list_cache \<Rightarrow> issue list" where
  "flattenIssueBuckets data = concat (map (\<lambda>status.
     case byStatus data status of None \<Rightarrow> [] | Some b \<Rightarrow> bucket_issues b) PAGINATED_STATUSES)"

definition addIssueToBuckets :: "list_cache \<Rightarrow> issue \<Rightarrow> list_cache" where
  "addIssueToBuckets resp issue =
     (let bucket = getBucket resp (iss_status issue) in
      if list_ex (\<lambda>i. iss_id i = iss_id issue) (bucket_issues bucket) then resp
      else setBucket resp (iss_status issue)
        \<lparr>bucket_issues = bucket_issues bucket @ [issue], bucket_total = bucket_total bucket + 1\<rparr>)"

definition removeIssueFromBuckets :: "list_cache \<Rightarrow> string \<Rightarrow> list_cache" where
  "removeIssueFromBuckets resp i =
     (case findIssueLocation resp i of
        None \<Rightarrow> resp
      | Some (status, _) \<Rightarrow>
          let bucket = getBucket resp status in
          setBucket resp status
            \<lparr>bucket_issues = filter (\<lambda>x. iss_id x \<noteq> i) (bucket_issues bucket),
             bucket_total = max 0 (bucket_total bucket - 1)\<rparr>)"

definition moveBucketTotal :: "list_cache \<Rightarrow> issue_status \<Rightarrow> issue_status \<Rightarrow> list_cache" where
  "moveBucketTotal resp src to =
     (if src = to then resp
      else let fromBucket = getBucket resp src;
               toBucket = getBucket resp to;
               step = setBucket resp src
                 (fromBucket\<lparr>bucket_total := max 0 (bucket_total fromBucket - 1)\<rparr>)
           in setBucket step to (toBucket\<lparr>bucket_total := bucket_total toBucket + 1\<rparr>))"

definition decrementBucketTotal :: "list_cache \<Rightarrow> issue_status \<Rightarrow> list_cache" where
  "decrementBucketTotal resp status =
     (let bucket = getBucket resp status in
      setBucket resp status (bucket\<lparr>bucket_total := max 0 (bucket_total bucket - 1)\<rparr>))"

definition insertByPosition :: "issue list \<Rightarrow> issue \<Rightarrow> issue list" where
  "insertByPosition issues issue =
     (case find_index (\<lambda>i. iss_position i > iss_position issue) issues of
        None \<Rightarrow> issues @ [issue]
      | Some idx \<Rightarrow> take idx issues @ [issue] @ drop idx issues)"

definition patchIssueInBuckets :: "list_cache \<Rightarrow> string \<Rightarrow> issue_patch \<Rightarrow> list_cache" where
  "patchIssueInBuckets resp i patch =
     (case findIssueLocation resp i of
        None \<Rightarrow> resp
      | Some (status, old) \<Rightarrow>
          let merged = merge_issue old patch;
              nextStatus = (case pat_status patch of None \<Rightarrow> status | Some s \<Rightarrow> s)
          in if nextStatus = status then
               let bucket = getBucket resp status;
                   positionChanged = (case pat_position patch of
                     None \<Rightarrow> False | Some p \<Rightarrow> p \<noteq> iss_position old)
               in if \<not> positionChanged then
                    setBucket resp status (bucket\<lparr>bucket_issues :=
                      map (\<lambda>x. if iss_id x = i then merged else x) (bucket_issues bucket)\<rparr>)
                  else
                    setBucket resp status (bucket\<lparr>bucket_issues :=
                      insertByPosition (filter (\<lambda>x. iss_id x \<noteq> i) (bucket_issues bucket)) merged\<rparr>)
             else
               let fromBucket = getBucket resp status;
                   toBucket = getBucket resp nextStatus;
                   step = setBucket resp status
                     \<lparr>bucket_issues = filter (\<lambda>x. iss_id x \<noteq> i) (bucket_issues fromBucket),
                      bucket_total = max 0 (bucket_total fromBucket - 1)\<rparr>
               in setBucket step nextStatus
                    \<lparr>bucket_issues = insertByPosition (bucket_issues toBucket) merged,
                     bucket_total = bucket_total toBucket + 1\<rparr>)"

section \<open>Reading buckets\<close>

definition loaded :: "list_cache \<Rightarrow> issue_status \<Rightarrow> issue list" where
  "loaded resp s = bucket_issues (getBucket resp s)"

definition server_total :: "list_cache \<Rightarrow> issue_status \<Rightarrow> int" where
  "server_total resp s = bucket_total (getBucket resp s)"

definition buckets_ok :: "list_cache \<Rightarrow> bool" where
  "buckets_ok resp \<longleftrightarrow>
     (\<forall>s. (\<forall>i\<in>set (loaded resp s). iss_status i = s)
        \<and> distinct (map iss_id (loaded resp s))
        \<and> int (length (loaded resp s)) \<le> server_total resp s)
     \<and> (\<forall>s s'. \<forall>i\<in>set (loaded resp s). \<forall>j\<in>set (loaded resp s').
          iss_id i = iss_id j \<longrightarrow> s = s')"

named_theorems bucket "Reading a bucket after an update"

lemma loaded_setBucket [bucket]:
  "loaded (setBucket resp s b) s' = (if s' = s then bucket_issues b else loaded resp s')"
  by (simp add: loaded_def getBucket_def setBucket_def)

lemma total_setBucket [bucket]:
  "server_total (setBucket resp s b) s' = (if s' = s then bucket_total b else server_total resp s')"
  by (simp add: server_total_def getBucket_def setBucket_def)

lemma bucket_issues_getBucket [bucket]: "bucket_issues (getBucket resp s) = loaded resp s"
  by (simp add: loaded_def)

lemma bucket_total_getBucket [bucket]: "bucket_total (getBucket resp s) = server_total resp s"
  by (simp add: server_total_def)

lemma flatten_loaded: "flattenIssueBuckets resp = concat (map (loaded resp) PAGINATED_STATUSES)"
  by (auto simp: flattenIssueBuckets_def loaded_def getBucket_def EMPTY_BUCKET_def
      intro!: arg_cong [where f = concat] split: option.split)

lemma set_flatten: "set (flattenIssueBuckets resp) = (\<Union>s. set (loaded resp s))"
  by (auto simp: flatten_loaded)

lemma locate_loaded:
  "locate resp i (s # ss) = (case List.find (\<lambda>x. iss_id x = i) (loaded resp s) of
     Some found \<Rightarrow> Some (s, found) | None \<Rightarrow> locate resp i ss)"
  by (simp add: loaded_def getBucket_def EMPTY_BUCKET_def split: option.split)

lemma locate_Some:
  "locate resp i ss = Some (s, x) \<Longrightarrow> x \<in> set (loaded resp s) \<and> iss_id x = i"
proof (induction ss)
  case (Cons t ss)
  then show ?case
    by (auto simp: locate_loaded find_Some_iff split: option.splits simp del: locate.simps)
qed simp

lemma locate_None:
  "locate resp i ss = None \<longleftrightarrow> (\<forall>s\<in>set ss. \<forall>x\<in>set (loaded resp s). iss_id x \<noteq> i)"
proof (induction ss)
  case (Cons t ss)
  then show ?case
    by (auto simp: locate_loaded find_None_iff find_Some_iff split: option.splits simp del: locate.simps)
qed simp

lemma findIssueLocation_Some:
  "findIssueLocation resp i = Some (s, x) \<Longrightarrow> x \<in> set (loaded resp s) \<and> iss_id x = i"
  by (simp add: findIssueLocation_def locate_Some)

lemma findIssueLocation_None:
  "findIssueLocation resp i = None \<longleftrightarrow> (\<forall>s. \<forall>x\<in>set (loaded resp s). iss_id x \<noteq> i)"
  by (simp add: findIssueLocation_def locate_None)

lemma buckets_ok_unique:
  assumes "buckets_ok resp" "x \<in> set (loaded resp s)" "y \<in> set (loaded resp s')" "iss_id x = iss_id y"
  shows "x = y \<and> s = s'"
proof -
  have "s = s'" using assms unfolding buckets_ok_def by metis
  moreover have "inj_on iss_id (set (loaded resp s))"
    using assms(1) unfolding buckets_ok_def by (simp add: distinct_map)
  ultimately show ?thesis using assms by (simp add: inj_on_def)
qed

lemma findIssueLocation_iff:
  assumes "buckets_ok resp"
  shows "findIssueLocation resp i = Some (s, x) \<longleftrightarrow> x \<in> set (loaded resp s) \<and> iss_id x = i"
proof
  assume x: "x \<in> set (loaded resp s) \<and> iss_id x = i"
  then obtain t y where "findIssueLocation resp i = Some (t, y)"
    using findIssueLocation_None [of resp i] by (cases "findIssueLocation resp i") auto
  with x show "findIssueLocation resp i = Some (s, x)"
    using buckets_ok_unique [OF assms] findIssueLocation_Some by metis
qed (rule findIssueLocation_Some)

section \<open>Insertion by position\<close>

lemma insertByPosition_split:
  "insertByPosition issues x =
     takeWhile (\<lambda>i. iss_position i \<le> iss_position x) issues @ [x] @
     dropWhile (\<lambda>i. iss_position i \<le> iss_position x) issues"
proof (induction issues)
  case (Cons a issues)
  then show ?case
    by (auto simp: insertByPosition_def not_le split: option.splits)
qed (simp add: insertByPosition_def)

lemma set_insertByPosition [simp]: "set (insertByPosition issues x) = insert x (set issues)"
proof -
  have "set issues = set (takeWhile (\<lambda>i. iss_position i \<le> iss_position x) issues) \<union>
      set (dropWhile (\<lambda>i. iss_position i \<le> iss_position x) issues)"
    by (metis set_append takeWhile_dropWhile_id)
  then show ?thesis by (auto simp: insertByPosition_split)
qed

lemma mset_insertByPosition: "mset (insertByPosition issues x) = add_mset x (mset issues)"
  by (simp add: insertByPosition_split) (metis mset_append takeWhile_dropWhile_id)

lemma length_insertByPosition [simp]: "length (insertByPosition issues x) = Suc (length issues)"
  using mset_insertByPosition [of issues x] by (metis size_add_mset size_mset)

lemma distinct_insertByPosition:
  "distinct (map iss_id (insertByPosition issues x)) \<longleftrightarrow>
     iss_id x \<notin> iss_id ` set issues \<and> distinct (map iss_id issues)"
proof -
  have "mset (map iss_id (insertByPosition issues x)) = mset (map iss_id (x # issues))"
    by (simp add: mset_insertByPosition)
  then show ?thesis using mset_eq_imp_distinct_iff by fastforce
qed

lemma sorted_insert_between:
  assumes "sorted (map f (a @ b))" "\<forall>i\<in>set a. f i \<le> f x" "\<forall>j\<in>set b. f x \<le> (f j :: rat)"
  shows "sorted (map f (a @ [x] @ b))"
  using assms by (auto simp: sorted_append)

lemma sorted_insertByPosition:
  assumes "sorted (map iss_position issues)"
  shows "sorted (map iss_position (insertByPosition issues x))"
proof -
  define a where "a = takeWhile (\<lambda>i. iss_position i \<le> iss_position x) issues"
  define b where "b = dropWhile (\<lambda>i. iss_position i \<le> iss_position x) issues"
  have ab: "a @ b = issues" by (simp add: a_def b_def)
  have "iss_position x \<le> iss_position j" if j: "j \<in> set b" for j
  proof (cases b)
    case (Cons h r)
    then have "\<not> iss_position h \<le> iss_position x"
      unfolding b_def by (simp add: dropWhile_eq_Cons_conv)
    moreover have "sorted (map iss_position b)"
      using assms unfolding ab [symmetric] by (simp add: sorted_append)
    then have "iss_position h \<le> iss_position j" using j Cons by auto
    ultimately show ?thesis by simp
  qed (use j in simp)
  moreover have "\<forall>i\<in>set a. iss_position i \<le> iss_position x"
    unfolding a_def using set_takeWhileD by fastforce
  ultimately have "sorted (map iss_position (a @ [x] @ b))"
    using assms ab by (intro sorted_insert_between) auto
  then show ?thesis by (simp add: insertByPosition_split a_def b_def)
qed

section \<open>What each operation does to the buckets\<close>

lemma total_pos:
  assumes "buckets_ok resp" "x \<in> set (loaded resp s)"
  shows "1 \<le> server_total resp s"
proof -
  have "int (length (loaded resp s)) \<le> server_total resp s" using assms(1) by (simp add: buckets_ok_def)
  moreover have "0 < length (loaded resp s)" using assms(2) by (cases "loaded resp s") auto
  ultimately show ?thesis by linarith
qed

lemma total_nonneg: "buckets_ok resp \<Longrightarrow> 0 \<le> server_total resp s"
  unfolding buckets_ok_def using of_nat_0_le_iff order_trans by blast

lemma length_filter_id:
  assumes "distinct (map iss_id xs)" "x \<in> set xs" "iss_id x = i"
  shows "length (filter (\<lambda>y. iss_id y \<noteq> i) xs) = length xs - 1"
  using assms
proof (induction xs)
  case (Cons a xs)
  show ?case
  proof (cases "iss_id a = i")
    case True
    have "iss_id a \<notin> iss_id ` set xs" using Cons.prems(1) by simp
    then have "\<forall>y\<in>set xs. iss_id y \<noteq> iss_id a" by (metis image_eqI)
    then have "filter (\<lambda>y. iss_id y \<noteq> i) xs = xs" using True by (intro filter_True) simp
    with True show ?thesis by simp
  next
    case False
    then have "x \<in> set xs" using Cons.prems by auto
    with Cons False show ?thesis by (cases xs) auto
  qed
qed simp

lemma bucket_update:
  "b\<lparr>bucket_issues := L\<rparr> = \<lparr>bucket_issues = L, bucket_total = bucket_total b\<rparr>"
  by (cases b) simp

text \<open>The card a patch moves, its old bucket and its new one.\<close>

lemma map_id_replace:
  "iss_id new = i \<Longrightarrow> map iss_id (map (\<lambda>x. if iss_id x = i then new else x) xs) = map iss_id xs"
  by (induction xs) auto

lemma set_replace:
  "old \<in> set xs \<Longrightarrow> iss_id old = i \<Longrightarrow>
     set (map (\<lambda>x. if iss_id x = i then new else x) xs) = insert new {x \<in> set xs. iss_id x \<noteq> i}"
  by auto

lemma next_status:
  assumes "buckets_ok resp" and "findIssueLocation resp i = Some (st, old)"
  shows "(case pat_status p of None \<Rightarrow> st | Some s \<Rightarrow> s) = iss_status (merge_issue old p)"
proof -
  have "iss_status old = st"
    using assms(1) findIssueLocation_Some [OF assms(2)] by (auto simp: buckets_ok_def)
  then show ?thesis by (cases "pat_status p") (simp_all add: merge_issue_def)
qed

lemma patch_other_column:
  assumes "buckets_ok resp" and "findIssueLocation resp i = Some (st, old)"
    and "iss_status (merge_issue old p) \<noteq> st"
  shows "patchIssueInBuckets resp i p =
    setBucket (setBucket resp st
        \<lparr>bucket_issues = filter (\<lambda>x. iss_id x \<noteq> i) (loaded resp st),
         bucket_total = max 0 (server_total resp st - 1)\<rparr>)
      (iss_status (merge_issue old p))
      \<lparr>bucket_issues = insertByPosition (loaded resp (iss_status (merge_issue old p))) (merge_issue old p),
       bucket_total = server_total resp (iss_status (merge_issue old p)) + 1\<rparr>"
  using assms(3) by (simp add: patchIssueInBuckets_def assms(2) next_status [OF assms(1,2)] Let_def bucket)

lemma patch_same_column:
  assumes ok: "buckets_ok resp" and loc: "findIssueLocation resp i = Some (st, old)"
    and pid: "iss_id (merge_issue old p) = i" and st: "iss_status (merge_issue old p) = st"
  obtains L where "patchIssueInBuckets resp i p =
      setBucket resp st \<lparr>bucket_issues = L, bucket_total = server_total resp st\<rparr>"
    and "set L = insert (merge_issue old p) {x \<in> set (loaded resp st). iss_id x \<noteq> i}"
    and "distinct (map iss_id L)" and "length L = length (loaded resp st)"
proof (cases "case pat_position p of None \<Rightarrow> False | Some q \<Rightarrow> q \<noteq> iss_position old")
  case pos: True
  have old: "old \<in> set (loaded resp st)" "iss_id old = i"
    using findIssueLocation_Some [OF loc] by auto
  have dist: "distinct (map iss_id (loaded resp st))" using ok by (simp add: buckets_ok_def)
  let ?L = "insertByPosition (filter (\<lambda>x. iss_id x \<noteq> i) (loaded resp st)) (merge_issue old p)"
  show thesis
  proof (rule that [of ?L])
    show "patchIssueInBuckets resp i p =
        setBucket resp st \<lparr>bucket_issues = ?L, bucket_total = server_total resp st\<rparr>"
      using pos by (simp add: patchIssueInBuckets_def loc next_status [OF ok loc] st Let_def
          loaded_def server_total_def bucket_update)
    show "set ?L = insert (merge_issue old p) {x \<in> set (loaded resp st). iss_id x \<noteq> i}" by simp
    show "distinct (map iss_id ?L)"
      using pid dist by (auto simp: distinct_insertByPosition distinct_map_filter)
    show "length ?L = length (loaded resp st)"
      using length_filter_id [OF dist old] old(1) by (cases "loaded resp st") auto
  qed
next
  case pos: False
  have old: "old \<in> set (loaded resp st)" "iss_id old = i"
    using findIssueLocation_Some [OF loc] by auto
  have dist: "distinct (map iss_id (loaded resp st))" using ok by (simp add: buckets_ok_def)
  let ?L = "map (\<lambda>x. if iss_id x = i then merge_issue old p else x) (loaded resp st)"
  show thesis
  proof (rule that [of ?L])
    show "patchIssueInBuckets resp i p =
        setBucket resp st \<lparr>bucket_issues = ?L, bucket_total = server_total resp st\<rparr>"
      using pos by (simp add: patchIssueInBuckets_def loc next_status [OF ok loc] st Let_def
          loaded_def server_total_def bucket_update)
    show "set ?L = insert (merge_issue old p) {x \<in> set (loaded resp st). iss_id x \<noteq> i}"
      by (rule set_replace [OF old])
    show "distinct (map iss_id ?L)" by (simp only: map_id_replace [OF pid] dist)
  qed simp
qed

lemma patch_loaded:
  assumes ok: "buckets_ok resp" and loc: "findIssueLocation resp i = Some (st, old)"
    and pid: "iss_id (merge_issue old p) = i"
  shows "set (loaded (patchIssueInBuckets resp i p) s) =
      {x \<in> set (loaded resp s). iss_id x \<noteq> i} \<union>
      (if s = iss_status (merge_issue old p) then {merge_issue old p} else {})"
    and "server_total (patchIssueInBuckets resp i p) s =
      server_total resp s - (if s = st then 1 else 0) + (if s = iss_status (merge_issue old p) then 1 else 0)"
    and "distinct (map iss_id (loaded (patchIssueInBuckets resp i p) s))"
    and "int (length (loaded (patchIssueInBuckets resp i p) s)) = int (length (loaded resp s))
      - (if s = st then 1 else 0) + (if s = iss_status (merge_issue old p) then 1 else 0)"
proof -
  let ?new = "merge_issue old p" and ?r = "patchIssueInBuckets resp i p"
  have old: "old \<in> set (loaded resp st)" "iss_id old = i"
    using findIssueLocation_Some [OF loc] by auto
  have pos: "1 \<le> server_total resp st" by (rule total_pos [OF ok old(1)])
  have dist: "distinct (map iss_id (loaded resp s'))" for s' using ok by (simp add: buckets_ok_def)
  have other: "\<forall>x\<in>set (loaded resp s'). iss_id x \<noteq> i" if "s' \<noteq> st" for s'
    using buckets_ok_unique [OF ok old(1)] old(2) that by blast
  have keep: "{x \<in> set (loaded resp s'). iss_id x \<noteq> i} = set (loaded resp s')" if "s' \<noteq> st" for s'
    using other [OF that] by auto
  have fresh: "i \<notin> iss_id ` set (loaded resp s')" if "s' \<noteq> st" for s'
    using other [OF that] by auto
  have len: "length (filter (\<lambda>x. iss_id x \<noteq> i) (loaded resp st)) = length (loaded resp st) - 1"
    by (rule length_filter_id [OF dist old])
  have len1: "1 \<le> length (loaded resp st)" using old(1) by (cases "loaded resp st") auto
  have "set (loaded ?r s) = {x \<in> set (loaded resp s). iss_id x \<noteq> i} \<union>
      (if s = iss_status ?new then {?new} else {})
    \<and> server_total ?r s = server_total resp s - (if s = st then 1 else 0) + (if s = iss_status ?new then 1 else 0)
    \<and> distinct (map iss_id (loaded ?r s))
    \<and> int (length (loaded ?r s)) = int (length (loaded resp s)) - (if s = st then 1 else 0)
        + (if s = iss_status ?new then 1 else 0)"
  proof (cases "iss_status ?new = st")
    case True
    obtain L where L: "?r = setBucket resp st \<lparr>bucket_issues = L, bucket_total = server_total resp st\<rparr>"
      "set L = insert ?new {x \<in> set (loaded resp st). iss_id x \<noteq> i}"
      "distinct (map iss_id L)" "length L = length (loaded resp st)"
      by (rule patch_same_column [OF ok loc pid True])
    show ?thesis
      using L True keep [of s] dist [of s] by (cases "s = st") (simp_all add: bucket)
  next
    case False
    note r = patch_other_column [OF ok loc False]
    show ?thesis
    proof (cases "s = st")
      case True
      then show ?thesis
        using False pos dist [of st] len len1
        by (simp add: r bucket distinct_map_filter of_nat_diff)
    next
      case nst: False
      show ?thesis
        using False nst keep [OF nst] fresh [OF nst] dist [of s] pid
        by (cases "s = iss_status ?new") (simp_all add: r bucket distinct_insertByPosition)
    qed
  qed
  then show "set (loaded ?r s) = {x \<in> set (loaded resp s). iss_id x \<noteq> i} \<union>
      (if s = iss_status ?new then {?new} else {})"
    and "server_total ?r s = server_total resp s - (if s = st then 1 else 0) + (if s = iss_status ?new then 1 else 0)"
    and "distinct (map iss_id (loaded ?r s))"
    and "int (length (loaded ?r s)) = int (length (loaded resp s)) - (if s = st then 1 else 0)
        + (if s = iss_status ?new then 1 else 0)"
    by blast+
qed

lemma patch_ok:
  assumes ok: "buckets_ok resp" and pid: "pat_id p = None \<or> pat_id p = Some i"
  shows "buckets_ok (patchIssueInBuckets resp i p)"
proof (cases "findIssueLocation resp i")
  case None
  with ok show ?thesis by (simp add: patchIssueInBuckets_def)
next
  case (Some loc)
  obtain st old where "loc = (st, old)" by (cases loc)
  with Some have loc: "findIssueLocation resp i = Some (st, old)" by simp
  let ?new = "merge_issue old p"
  have new: "iss_id ?new = i"
    using pid findIssueLocation_Some [OF loc] by (auto simp: merge_issue_def)
  note pl = patch_loaded [OF ok loc new]
  have "int (length (loaded (patchIssueInBuckets resp i p) s)) \<le> server_total (patchIssueInBuckets resp i p) s"
    for s using ok unfolding pl(2) pl(4) by (simp add: buckets_ok_def)
  moreover have "iss_status x = s" if "x \<in> set (loaded (patchIssueInBuckets resp i p) s)" for x s
    using that ok unfolding pl(1) by (auto simp: buckets_ok_def split: if_splits)
  moreover have "s = s'" if "x \<in> set (loaded (patchIssueInBuckets resp i p) s)"
    "y \<in> set (loaded (patchIssueInBuckets resp i p) s')" "iss_id x = iss_id y" for x y s s'
    using that new buckets_ok_unique [OF ok] unfolding pl(1) by (auto split: if_splits)
  ultimately show ?thesis using pl(3) unfolding buckets_ok_def by blast
qed

lemma remove_loaded:
  assumes ok: "buckets_ok resp" and loc: "findIssueLocation resp i = Some (st, old)"
  shows "loaded (removeIssueFromBuckets resp i) s = filter (\<lambda>x. iss_id x \<noteq> i) (loaded resp s)"
    and "server_total (removeIssueFromBuckets resp i) s = server_total resp s - (if s = st then 1 else 0)"
proof -
  have old: "old \<in> set (loaded resp st)" "iss_id old = i"
    using findIssueLocation_Some [OF loc] by auto
  have pos: "1 \<le> server_total resp st" by (rule total_pos [OF ok old(1)])
  have "filter (\<lambda>x. iss_id x \<noteq> i) (loaded resp s') = loaded resp s'" if "s' \<noteq> st" for s'
    using buckets_ok_unique [OF ok old(1)] old(2) that by (intro filter_True) blast
  then show "loaded (removeIssueFromBuckets resp i) s = filter (\<lambda>x. iss_id x \<noteq> i) (loaded resp s)"
    by (simp add: removeIssueFromBuckets_def loc Let_def bucket)
  show "server_total (removeIssueFromBuckets resp i) s = server_total resp s - (if s = st then 1 else 0)"
    using pos by (simp add: removeIssueFromBuckets_def loc Let_def bucket)
qed

lemma remove_ok:
  assumes ok: "buckets_ok resp"
  shows "buckets_ok (removeIssueFromBuckets resp i)"
proof (cases "findIssueLocation resp i")
  case None
  with ok show ?thesis by (simp add: removeIssueFromBuckets_def)
next
  case (Some loc)
  obtain st old where "loc = (st, old)" by (cases loc)
  with Some have loc: "findIssueLocation resp i = Some (st, old)" by simp
  note rl = remove_loaded [OF ok loc]
  have old: "old \<in> set (loaded resp st)" "iss_id old = i"
    using findIssueLocation_Some [OF loc] by auto
  have "length (filter (\<lambda>x. iss_id x \<noteq> i) (loaded resp st)) < length (loaded resp st)"
    using old by (intro length_filter_less) auto
  moreover have "length (filter (\<lambda>x. iss_id x \<noteq> i) (loaded resp s)) \<le> length (loaded resp s)" for s
    by (rule length_filter_le)
  moreover have "int (length (loaded resp s)) \<le> server_total resp s" for s using ok by (simp add: buckets_ok_def)
  ultimately have "int (length (loaded (removeIssueFromBuckets resp i) s)) \<le>
      server_total (removeIssueFromBuckets resp i) s" for s
    unfolding rl by (smt (verit) of_nat_less_iff of_nat_mono)
  then show ?thesis
    using ok unfolding buckets_ok_def rl by (auto simp: distinct_map_filter) blast
qed

lemma add_loaded:
  assumes "\<forall>s. \<forall>x\<in>set (loaded resp s). iss_id x \<noteq> iss_id issue"
  shows "loaded (addIssueToBuckets resp issue) s =
      loaded resp s @ (if s = iss_status issue then [issue] else [])"
    and "server_total (addIssueToBuckets resp issue) s = server_total resp s + (if s = iss_status issue then 1 else 0)"
  using assms by (auto simp: addIssueToBuckets_def list_ex_iff Let_def bucket)

lemma add_ok:
  assumes ok: "buckets_ok resp"
    and new: "\<forall>s. s \<noteq> iss_status issue \<longrightarrow> (\<forall>x\<in>set (loaded resp s). iss_id x \<noteq> iss_id issue)"
  shows "buckets_ok (addIssueToBuckets resp issue)"
proof (cases "list_ex (\<lambda>i. iss_id i = iss_id issue) (loaded resp (iss_status issue))")
  case True
  with ok show ?thesis by (simp add: addIssueToBuckets_def bucket)
next
  case False
  with new have "\<forall>s. \<forall>x\<in>set (loaded resp s). iss_id x \<noteq> iss_id issue"
    by (metis (mono_tags, lifting) list_ex_iff)
  note al = add_loaded [OF this] and fresh = this
  have "int (length (loaded (addIssueToBuckets resp issue) s)) \<le>
      server_total (addIssueToBuckets resp issue) s" for s
    using ok unfolding al by (simp add: buckets_ok_def)
  moreover have "iss_status x = s" if "x \<in> set (loaded (addIssueToBuckets resp issue) s)" for x s
    using that ok unfolding al by (auto simp: buckets_ok_def split: if_splits)
  moreover have "distinct (map iss_id (loaded (addIssueToBuckets resp issue) s))" for s
    using ok fresh [rule_format, of _ "iss_status issue"] unfolding al
    by (simp add: buckets_ok_def) (metis imageE)
  moreover have "s = s'" if "x \<in> set (loaded (addIssueToBuckets resp issue) s)"
    "y \<in> set (loaded (addIssueToBuckets resp issue) s')" "iss_id x = iss_id y" for x y s s'
    using that buckets_ok_unique [OF ok] unfolding al
    by (auto split: if_splits dest: fresh [rule_format])
  ultimately show ?thesis unfolding buckets_ok_def by blast
qed

lemma move_total:
  assumes "buckets_ok resp" "1 \<le> server_total resp s0"
  shows "loaded (moveBucketTotal resp s0 s1) s = loaded resp s"
    and "server_total (moveBucketTotal resp s0 s1) s =
      server_total resp s - (if s = s0 then 1 else 0) + (if s = s1 then 1 else 0)"
  using assms(2) by (auto simp: moveBucketTotal_def Let_def bucket)

lemma decrement_total:
  assumes "1 \<le> server_total resp s0"
  shows "loaded (decrementBucketTotal resp s0) s = loaded resp s"
    and "server_total (decrementBucketTotal resp s0) s = server_total resp s - (if s = s0 then 1 else 0)"
  using assms by (auto simp: decrementBucketTotal_def Let_def bucket)

section \<open>Properties\<close>

text \<open>
  Patching an issue keeps the list well formed: the issue ends up once, in the bucket of its
  new status, with the patched fields; every other card stays where it is; and one unit of the
  totals moves with it, so that their sum over all statuses does not change.
\<close>
theorem patchIssueInBuckets_spec:
  assumes "buckets_ok resp" and "findIssueLocation resp i = Some (st, old)"
    and "pat_id p = None \<or> pat_id p = Some i"
  shows "(let resp' = patchIssueInBuckets resp i p; new = merge_issue old p in
     buckets_ok resp'
     \<and> findIssueLocation resp' i = Some (iss_status new, new)
     \<and> (\<forall>s. {x \<in> set (loaded resp' s). iss_id x \<noteq> i} = {x \<in> set (loaded resp s). iss_id x \<noteq> i})
     \<and> (\<forall>s. server_total resp' s = server_total resp s - (if s = st then 1 else 0)
            + (if s = iss_status new then 1 else 0))
     \<and> (\<Sum>s\<leftarrow>PAGINATED_STATUSES. server_total resp' s) = (\<Sum>s\<leftarrow>PAGINATED_STATUSES. server_total resp s))"
proof -
  let ?new = "merge_issue old p" and ?r = "patchIssueInBuckets resp i p"
  have new: "iss_id ?new = i"
    using assms(3) findIssueLocation_Some [OF assms(2)] by (auto simp: merge_issue_def)
  note pl = patch_loaded [OF assms(1,2) new]
  have ok: "buckets_ok ?r" by (rule patch_ok [OF assms(1,3)])
  have loc: "findIssueLocation ?r i = Some (iss_status ?new, ?new)"
    unfolding findIssueLocation_iff [OF ok] pl(1) using new by simp
  have others: "{x \<in> set (loaded ?r s). iss_id x \<noteq> i} = {x \<in> set (loaded resp s). iss_id x \<noteq> i}" for s
    unfolding pl(1) using new by auto
  have sums: "(\<Sum>s\<leftarrow>PAGINATED_STATUSES. server_total ?r s) = (\<Sum>s\<leftarrow>PAGINATED_STATUSES. server_total resp s)"
    unfolding pl(2) by (cases st; cases "iss_status ?new") (simp_all add: PAGINATED_STATUSES_def ALL_STATUSES_def)
  show ?thesis unfolding Let_def by (intro conjI allI ok loc others pl(2) sums)
qed

definition board :: list_cache where
  "board = \<lparr>byStatus = (\<lambda>s. if s = Todo then Some \<lparr>bucket_issues =
       [example_issue ''i1'' Todo 1, example_issue ''i2'' Todo 2], bucket_total = 7\<rparr>
     else if s = Done then Some \<lparr>bucket_issues = [example_issue ''i3'' Done 5], bucket_total = 1\<rparr>
     else None)\<rparr>"

lemma board_buckets [simp]:
  "loaded board s = (if s = Todo then [example_issue ''i1'' Todo 1, example_issue ''i2'' Todo 2]
     else if s = Done then [example_issue ''i3'' Done 5] else [])"
  "server_total board s = (if s = Todo then 7 else if s = Done then 1 else 0)"
  by (simp_all add: loaded_def server_total_def getBucket_def board_def EMPTY_BUCKET_def)

lemma example_issue_fields [simp]:
  "iss_id (example_issue i s q) = i" "iss_status (example_issue i s q) = s"
  "iss_position (example_issue i s q) = q"
  by (simp_all add: example_issue_def)

lemma board_ok: "buckets_ok board"
  by (simp add: buckets_ok_def)

lemma patchIssueInBuckets_spec_witness:
  "findIssueLocation (patchIssueInBuckets board ''i2'' (empty_patch\<lparr>pat_status := Some Done\<rparr>)) ''i2'' =
     Some (Done, example_issue ''i2'' Done 2)"
proof -
  have "findIssueLocation board ''i2'' = Some (Todo, example_issue ''i2'' Todo 2)"
    unfolding findIssueLocation_iff [OF board_ok] by simp
  from patchIssueInBuckets_spec [OF board_ok this, of "empty_patch\<lparr>pat_status := Some Done\<rparr>"]
  have "findIssueLocation (patchIssueInBuckets board ''i2'' (empty_patch\<lparr>pat_status := Some Done\<rparr>)) ''i2'' =
      Some (Done, merge_issue (example_issue ''i2'' Todo 2) (empty_patch\<lparr>pat_status := Some Done\<rparr>))"
    by (simp add: Let_def empty_patch_def merge_issue_def)
  then show ?thesis by (simp add: merge_issue_def empty_patch_def example_issue_def)
qed

text \<open>
  A card dropped into a column sorted by position lands in a sorted column, at the slot its
  position gives it, behind cards of the same position, and displaces nothing; the optimistic
  move of a card between two sorted columns therefore leaves both columns sorted.
\<close>
theorem insertByPosition_sorted:
  assumes "sorted (map iss_position issues)"
  shows "sorted (map iss_position (insertByPosition issues x))
    \<and> (\<exists>before after. issues = before @ after \<and> insertByPosition issues x = before @ x # after
         \<and> (\<forall>i\<in>set before. iss_position i \<le> iss_position x)
         \<and> (\<forall>i\<in>set after. iss_position x < iss_position i))"
proof -
  let ?low = "\<lambda>i. iss_position i \<le> iss_position x"
  define a where "a = takeWhile ?low issues"
  define b where "b = dropWhile ?low issues"
  have ab: "issues = a @ b" by (simp add: a_def b_def)
  have "iss_position x < iss_position j" if j: "j \<in> set b" for j
  proof (cases b)
    case (Cons h r)
    then have "\<not> ?low h" unfolding b_def by (simp add: dropWhile_eq_Cons_conv)
    moreover have "iss_position h \<le> iss_position j"
      using assms j Cons unfolding ab by (auto simp: sorted_append)
    ultimately show ?thesis by simp
  qed (use j in simp)
  moreover have "\<forall>i\<in>set a. ?low i" unfolding a_def using set_takeWhileD by fastforce
  moreover have "insertByPosition issues x = a @ x # b"
    by (simp add: insertByPosition_split a_def b_def)
  ultimately show ?thesis using sorted_insertByPosition [OF assms] ab by blast
qed

lemma insertByPosition_sorted_witness:
  "sorted (map iss_position (insertByPosition [example_issue ''i1'' Todo 1, example_issue ''i2'' Todo 2]
      (example_issue ''i3'' Todo 1)))"
  using insertByPosition_sorted [of "[example_issue ''i1'' Todo 1, example_issue ''i2'' Todo 2]"
      "example_issue ''i3'' Todo 1"] by simp

text \<open>
  A card that is added and then removed leaves no trace, adding it twice is adding it once,
  and both operations keep the list well formed.
\<close>
theorem add_remove_roundtrip:
  assumes "buckets_ok resp" and "\<forall>s. \<forall>x\<in>set (loaded resp s). iss_id x \<noteq> iss_id issue"
  shows "(let added = addIssueToBuckets resp issue in
     buckets_ok added \<and> addIssueToBuckets added issue = added
     \<and> findIssueLocation added (iss_id issue) = Some (iss_status issue, issue)
     \<and> buckets_ok (removeIssueFromBuckets added (iss_id issue))
     \<and> (\<forall>s. loaded (removeIssueFromBuckets added (iss_id issue)) s = loaded resp s
          \<and> server_total (removeIssueFromBuckets added (iss_id issue)) s = server_total resp s))"
proof -
  let ?added = "addIssueToBuckets resp issue"
  note al = add_loaded [OF assms(2)]
  have ok: "buckets_ok ?added" by (rule add_ok) (use assms in auto)
  have loc: "findIssueLocation ?added (iss_id issue) = Some (iss_status issue, issue)"
    unfolding findIssueLocation_iff [OF ok] al by simp
  have again: "addIssueToBuckets ?added issue = ?added"
    using al(1) [of "iss_status issue"]
    by (subst addIssueToBuckets_def) (simp add: list_ex_iff bucket Let_def)
  have "filter (\<lambda>x. iss_id x \<noteq> iss_id issue) (loaded resp s) = loaded resp s" for s
    using assms(2) by (intro filter_True) blast
  then have "loaded (removeIssueFromBuckets ?added (iss_id issue)) s = loaded resp s" for s
    unfolding remove_loaded [OF ok loc] al by simp
  moreover have "server_total (removeIssueFromBuckets ?added (iss_id issue)) s = server_total resp s" for s
    unfolding remove_loaded [OF ok loc] al by simp
  ultimately show ?thesis using ok loc again remove_ok [OF ok] by (simp add: Let_def)
qed

lemma add_remove_roundtrip_witness:
  "loaded (removeIssueFromBuckets (addIssueToBuckets board (example_issue ''i9'' Done 3)) ''i9'') Done =
     loaded board Done"
  using add_remove_roundtrip [OF board_ok, of "example_issue ''i9'' Done 3"] by (simp add: Let_def)

end
