(* ===== verification/Query_Client.thy ===== *)
theory Query_Client
  imports Issue_Types
begin

text \<open>
  Query keys (\<open>packages/core/issues/queries.ts\<close>, \<open>inbox/queries.ts\<close>, \<open>labels/queries.ts\<close>,
  \<open>projects/queries.ts\<close>, \<open>agents/queries.ts\<close>) and the query client of
  \<open>@tanstack/react-query\<close>.  The client is a package outside the repository, so it is a
  parameter: the record \<open>query_client\<close> of the operations the code calls, with the locale
  \<open>query_cache\<close> for its documented behaviour.  \<open>memory_client\<close> is an instance of that contract.
\<close>

section \<open>Query keys\<close>

record my_issues_filter =
  mif_assignee_id :: "string option"
  mif_assignee_ids :: "string list option"
  mif_assignee_types :: "issue_assignee_type list option"
  mif_creator_id :: "string option"
  mif_project_id :: "string option"
  mif_involves_user_id :: "string option"

record issue_sort =
  srt_sort_by :: "string option"
  srt_sort_direction :: "string option"
  srt_date_field :: "string option"
  srt_date_start :: "string option"
  srt_date_end :: "string option"
  srt_properties :: "string list js_object option"

record issue_actor_ref =
  ref_type :: issue_assignee_type
  ref_id :: string

record grouped_filter = my_issues_filter +
  gf_statuses :: "issue_status list option"
  gf_priorities :: "issue_priority list option"
  gf_metadata :: "issue_metadata option"
  gf_assignee_filters :: "issue_actor_ref list option"
  gf_include_no_assignee :: "bool option"
  gf_creator_filters :: "issue_actor_ref list option"
  gf_project_ids :: "string list option"
  gf_include_no_project :: "bool option"
  gf_label_ids :: "string list option"
  gf_sort :: issue_sort

datatype key_part = KStr string | KSort issue_sort | KFilter my_issues_filter
  | KGrouped grouped_filter | KIds "string list"

type_synonym query_key = "key_part list"

definition empty_filter :: my_issues_filter where
  "empty_filter = \<lparr>mif_assignee_id = None, mif_assignee_ids = None, mif_assignee_types = None,
     mif_creator_id = None, mif_project_id = None, mif_involves_user_id = None\<rparr>"

definition empty_sort :: issue_sort where
  "empty_sort = \<lparr>srt_sort_by = None, srt_sort_direction = None, srt_date_field = None,
     srt_date_start = None, srt_date_end = None, srt_properties = None\<rparr>"

definition issueKeys_all :: "string \<Rightarrow> query_key" where
  "issueKeys_all wsId = [KStr ''issues'', KStr wsId]"

definition issueKeys_list :: "string \<Rightarrow> query_key" where
  "issueKeys_list wsId = issueKeys_all wsId @ [KStr ''list'']"

definition issueKeys_listSorted :: "string \<Rightarrow> issue_sort option \<Rightarrow> query_key" where
  "issueKeys_listSorted wsId srt =
     issueKeys_list wsId @ [KSort (case srt of None \<Rightarrow> empty_sort | Some s \<Rightarrow> s)]"

definition issueKeys_assigneeGroupsAll :: "string \<Rightarrow> query_key" where
  "issueKeys_assigneeGroupsAll wsId = issueKeys_all wsId @ [KStr ''assignee-groups'']"

definition issueKeys_assigneeGroups :: "string \<Rightarrow> grouped_filter \<Rightarrow> query_key" where
  "issueKeys_assigneeGroups wsId flt = issueKeys_assigneeGroupsAll wsId @ [KGrouped flt]"

definition issueKeys_myAll :: "string \<Rightarrow> query_key" where
  "issueKeys_myAll wsId = issueKeys_all wsId @ [KStr ''my'']"

definition issueKeys_myList :: "string \<Rightarrow> string \<Rightarrow> my_issues_filter \<Rightarrow> query_key" where
  "issueKeys_myList wsId scope flt = issueKeys_myAll wsId @ [KStr scope, KFilter flt]"

definition issueKeys_myListSorted ::
  "string \<Rightarrow> string \<Rightarrow> my_issues_filter \<Rightarrow> issue_sort option \<Rightarrow> query_key" where
  "issueKeys_myListSorted wsId scope flt srt =
     issueKeys_myList wsId scope flt @ [KSort (case srt of None \<Rightarrow> empty_sort | Some s \<Rightarrow> s)]"

definition issueKeys_myAssigneeGroupsAll :: "string \<Rightarrow> query_key" where
  "issueKeys_myAssigneeGroupsAll wsId = issueKeys_myAll wsId @ [KStr ''assignee-groups'']"

definition issueKeys_myAssigneeGroups :: "string \<Rightarrow> string \<Rightarrow> grouped_filter \<Rightarrow> query_key" where
  "issueKeys_myAssigneeGroups wsId scope flt =
     issueKeys_myAssigneeGroupsAll wsId @ [KStr scope, KGrouped flt]"

definition issueKeys_projectGanttAll :: "string \<Rightarrow> query_key" where
  "issueKeys_projectGanttAll wsId = issueKeys_all wsId @ [KStr ''project-gantt'']"

definition issueKeys_projectGantt :: "string \<Rightarrow> string \<Rightarrow> query_key" where
  "issueKeys_projectGantt wsId projectId = issueKeys_projectGanttAll wsId @ [KStr projectId]"

definition issueKeys_detail :: "string \<Rightarrow> string \<Rightarrow> query_key" where
  "issueKeys_detail wsId i = issueKeys_all wsId @ [KStr ''detail'', KStr i]"

definition issueKeys_children :: "string \<Rightarrow> string \<Rightarrow> query_key" where
  "issueKeys_children wsId i = issueKeys_all wsId @ [KStr ''children'', KStr i]"

definition issueKeys_childrenByParentsAll :: "string \<Rightarrow> query_key" where
  "issueKeys_childrenByParentsAll wsId = issueKeys_all wsId @ [KStr ''children-by-parents'']"

definition issueKeys_childProgress :: "string \<Rightarrow> query_key" where
  "issueKeys_childProgress wsId = issueKeys_all wsId @ [KStr ''child-progress'']"

text \<open>The caches of one issue: \<open>timeline\<close>, \<open>reactions\<close>, \<open>subscribers\<close>, \<open>usage\<close>,
  \<open>attachments\<close> and \<open>tasks\<close> carry no workspace id.\<close>

definition issueKeys_timeline :: "string \<Rightarrow> query_key" where
  "issueKeys_timeline i = [KStr ''issues'', KStr ''timeline'', KStr i]"

definition issueKeys_commentTriggerPreview :: "string \<Rightarrow> query_key" where
  "issueKeys_commentTriggerPreview i = [KStr ''issues'', KStr ''comment-trigger-preview'', KStr i]"

definition issueKeys_reactions :: "string \<Rightarrow> query_key" where
  "issueKeys_reactions i = [KStr ''issues'', KStr ''reactions'', KStr i]"

definition issueKeys_subscribers :: "string \<Rightarrow> query_key" where
  "issueKeys_subscribers i = [KStr ''issues'', KStr ''subscribers'', KStr i]"

definition issueKeys_usage :: "string \<Rightarrow> query_key" where
  "issueKeys_usage i = [KStr ''issues'', KStr ''usage'', KStr i]"

definition issueKeys_attachments :: "string \<Rightarrow> query_key" where
  "issueKeys_attachments i = [KStr ''issues'', KStr ''attachments'', KStr i]"

definition issueKeys_tasks :: "string \<Rightarrow> query_key" where
  "issueKeys_tasks i = [KStr ''issues'', KStr ''tasks'', KStr i]"

definition inboxKeys_list :: "string \<Rightarrow> query_key" where
  "inboxKeys_list wsId = [KStr ''inbox'', KStr wsId, KStr ''list'']"

definition inboxKeys_unreadSummary :: query_key where
  "inboxKeys_unreadSummary = [KStr ''inbox'', KStr ''unread-summary'']"

definition labelKeys_byIssue :: "string \<Rightarrow> string \<Rightarrow> query_key" where
  "labelKeys_byIssue wsId i = [KStr ''labels'', KStr wsId, KStr ''issue'', KStr i]"

definition projectKeys_all :: "string \<Rightarrow> query_key" where
  "projectKeys_all wsId = [KStr ''projects'', KStr wsId]"

definition agentTaskSnapshotKeys_list :: "string \<Rightarrow> query_key" where
  "agentTaskSnapshotKeys_list wsId =
     [KStr ''workspaces'', KStr wsId, KStr ''agent-task-snapshot'', KStr ''list'']"

definition agentActivityKeys_last30d :: "string \<Rightarrow> query_key" where
  "agentActivityKeys_last30d wsId =
     [KStr ''workspaces'', KStr wsId, KStr ''agent-activity'', KStr ''30d'']"

definition agentRunCountsKeys_last30d :: "string \<Rightarrow> query_key" where
  "agentRunCountsKeys_last30d wsId =
     [KStr ''workspaces'', KStr wsId, KStr ''agent-run-counts'', KStr ''30d'']"

definition agentTasksKeys_all :: "string \<Rightarrow> query_key" where
  "agentTasksKeys_all wsId = [KStr ''workspaces'', KStr wsId, KStr ''agent-tasks'']"

lemmas query_key_defs = issueKeys_all_def issueKeys_list_def issueKeys_listSorted_def
  issueKeys_assigneeGroupsAll_def issueKeys_assigneeGroups_def issueKeys_myAll_def
  issueKeys_myList_def issueKeys_myListSorted_def issueKeys_myAssigneeGroupsAll_def
  issueKeys_myAssigneeGroups_def issueKeys_projectGanttAll_def issueKeys_projectGantt_def
  issueKeys_detail_def issueKeys_children_def issueKeys_childrenByParentsAll_def
  issueKeys_childProgress_def issueKeys_timeline_def issueKeys_reactions_def
  issueKeys_subscribers_def issueKeys_usage_def issueKeys_attachments_def issueKeys_tasks_def
  inboxKeys_list_def inboxKeys_unreadSummary_def labelKeys_byIssue_def projectKeys_all_def
  agentTaskSnapshotKeys_list_def agentActivityKeys_last30d_def agentRunCountsKeys_last30d_def
  agentTasksKeys_all_def

section \<open>Query filters and cached values\<close>

record query_filter =
  flt_queryKey :: query_key
  flt_exact :: bool
  flt_predicate :: "query_key \<Rightarrow> bool"

text \<open>\<open>{ queryKey }\<close>, \<open>{ queryKey, exact: true }\<close> and \<open>{ queryKey, predicate }\<close>; a filter
  without \<open>exact\<close> selects every key that starts with \<open>queryKey\<close>.\<close>

definition by_prefix :: "query_key \<Rightarrow> query_filter" where
  "by_prefix k = \<lparr>flt_queryKey = k, flt_exact = False, flt_predicate = (\<lambda>_. True)\<rparr>"

definition by_key :: "query_key \<Rightarrow> query_filter" where
  "by_key k = \<lparr>flt_queryKey = k, flt_exact = True, flt_predicate = (\<lambda>_. True)\<rparr>"

definition filter_selects :: "query_filter \<Rightarrow> query_key \<Rightarrow> bool" where
  "filter_selects f k \<longleftrightarrow>
     (if flt_exact f then k = flt_queryKey f
      else take (length (flt_queryKey f)) k = flt_queryKey f) \<and> flt_predicate f k"

datatype cache_value = CList list_cache | CGrouped grouped_response | CIssue issue
  | CIssues "issue list" | CLabels "label list" | CInbox "inbox_item list" | COther

text \<open>What a typed read of a key finds: data of another shape is no data of the type asked for.\<close>

fun as_issue :: "cache_value option \<Rightarrow> issue option" where
  "as_issue (Some (CIssue i)) = Some i"
| "as_issue _ = None"

fun as_issues :: "cache_value option \<Rightarrow> issue list option" where
  "as_issues (Some (CIssues is)) = Some is"
| "as_issues _ = None"

fun as_labels :: "cache_value option \<Rightarrow> label list option" where
  "as_labels (Some (CLabels ls)) = Some ls"
| "as_labels _ = None"

fun as_inbox :: "cache_value option \<Rightarrow> inbox_item list option" where
  "as_inbox (Some (CInbox is)) = Some is"
| "as_inbox _ = None"

text \<open>\<open>data?.byStatus\<close>: only the bucketed lists have that property.\<close>

fun as_bucketed :: "cache_value option \<Rightarrow> list_cache option" where
  "as_bucketed (Some (CList l)) = Some l"
| "as_bucketed _ = None"

lemma as_issue_Some [simp]: "as_issue v = Some i \<longleftrightarrow> v = Some (CIssue i)"
  by (cases v rule: as_issue.cases) auto

lemma as_issues_Some [simp]: "as_issues v = Some i \<longleftrightarrow> v = Some (CIssues i)"
  by (cases v rule: as_issues.cases) auto

lemma as_inbox_Some [simp]: "as_inbox v = Some i \<longleftrightarrow> v = Some (CInbox i)"
  by (cases v rule: as_inbox.cases) auto

lemma as_bucketed_Some [simp]: "as_bucketed v = Some l \<longleftrightarrow> v = Some (CList l)"
  by (cases v rule: as_bucketed.cases) auto

section \<open>The client\<close>

record 'q query_client =
  getQueryData :: "'q \<Rightarrow> query_key \<Rightarrow> cache_value option"
  getQueriesData :: "'q \<Rightarrow> query_filter \<Rightarrow> (query_key \<times> cache_value option) list"
  setQueryData :: "query_key \<Rightarrow> cache_value \<Rightarrow> 'q \<Rightarrow> 'q"
  invalidateQueries :: "query_filter \<Rightarrow> 'q \<Rightarrow> 'q"
  removeQueries :: "query_filter \<Rightarrow> 'q \<Rightarrow> 'q"
  isInvalidated :: "'q \<Rightarrow> query_key \<Rightarrow> bool"

text \<open>\<open>setQueryData(key, updater)\<close>: an updater that returns \<open>undefined\<close> leaves the cache alone.\<close>

definition updateQueryData ::
  "'q query_client \<Rightarrow> query_key \<Rightarrow> (cache_value option \<Rightarrow> cache_value option) \<Rightarrow> 'q \<Rightarrow> 'q" where
  "updateQueryData cl key f qc =
     (case f (getQueryData cl qc key) of None \<Rightarrow> qc | Some v \<Rightarrow> setQueryData cl key v qc)"

text \<open>
  The contract: writing a key changes that key alone and clears its invalidation, a filtered
  read lists each cached query it selects once, with its data; invalidation keeps all data and
  marks the selected queries that are cached, removal drops exactly the selected ones.
\<close>

locale query_cache =
  fixes cl :: "'q query_client"
  assumes get_set: "getQueryData cl (setQueryData cl k v qc) j =
      (if j = k then Some v else getQueryData cl qc j)"
    and invalid_set: "isInvalidated cl (setQueryData cl k v qc) j =
      (j \<noteq> k \<and> isInvalidated cl qc j)"
    and queries_distinct: "distinct (map fst (getQueriesData cl qc f))"
    and queries_sound: "(k, d) \<in> set (getQueriesData cl qc f) \<Longrightarrow>
      filter_selects f k \<and> getQueryData cl qc k = d"
    and queries_complete: "getQueryData cl qc k = Some v \<Longrightarrow> filter_selects f k \<Longrightarrow>
      (k, Some v) \<in> set (getQueriesData cl qc f)"
    and get_invalidate: "getQueryData cl (invalidateQueries cl f qc) k = getQueryData cl qc k"
    and invalid_invalidate: "getQueryData cl qc k \<noteq> None \<Longrightarrow>
      isInvalidated cl (invalidateQueries cl f qc) k =
      (filter_selects f k \<or> isInvalidated cl qc k)"
    and get_remove: "getQueryData cl (removeQueries cl f qc) k =
      (if filter_selects f k then None else getQueryData cl qc k)"
    and invalid_remove: "\<not> filter_selects f k \<Longrightarrow>
      isInvalidated cl (removeQueries cl f qc) k = isInvalidated cl qc k"
begin

lemma get_update:
  "getQueryData cl (updateQueryData cl k f qc) j =
     (if j = k \<and> f (getQueryData cl qc k) \<noteq> None then f (getQueryData cl qc k)
      else getQueryData cl qc j)"
  by (auto simp: updateQueryData_def get_set split: option.split)

lemma invalid_update:
  "isInvalidated cl (updateQueryData cl k f qc) j =
     ((j = k \<longrightarrow> f (getQueryData cl qc k) = None) \<and> isInvalidated cl qc j)"
  by (auto simp: updateQueryData_def invalid_set split: option.split)

lemma queries_iff:
  "(k, Some v) \<in> set (getQueriesData cl qc f) \<longleftrightarrow>
     getQueryData cl qc k = Some v \<and> filter_selects f k"
  using queries_sound queries_complete by blast

end

section \<open>A client in memory\<close>

text \<open>An instance of the contract: one entry per key in insertion order, with its data and
  its invalidation mark.\<close>

type_synonym memory_cache = "(query_key \<times> cache_value \<times> bool) list"

definition memory_set :: "query_key \<Rightarrow> cache_value \<Rightarrow> memory_cache \<Rightarrow> memory_cache" where
  "memory_set k v qc =
     (if map_of qc k = None then qc @ [(k, v, False)]
      else map (\<lambda>(j, e). if j = k then (k, v, False) else (j, e)) qc)"

definition memory_client :: "memory_cache query_client" where
  "memory_client =
     \<lparr>getQueryData = (\<lambda>qc k. map_option fst (map_of qc k)),
      getQueriesData = (\<lambda>qc f. map (\<lambda>k. (k, map_option fst (map_of qc k)))
        (filter (filter_selects f) (remdups (map fst qc)))),
      setQueryData = memory_set,
      invalidateQueries = (\<lambda>f. map (\<lambda>(k, v, m). (k, v, m \<or> filter_selects f k))),
      removeQueries = (\<lambda>f. filter (\<lambda>(k, _). \<not> filter_selects f k)),
      isInvalidated = (\<lambda>qc k. case map_of qc k of None \<Rightarrow> False | Some (v, m) \<Rightarrow> m)\<rparr>"

lemma map_of_memory_set:
  "map_of (memory_set k v qc) j = (if j = k then Some (v, False) else map_of qc j)"
proof (cases "map_of qc k")
  case None
  then show ?thesis
    by (auto simp: memory_set_def map_add_def split: option.split)
next
  case (Some e)
  have "map_of (map (\<lambda>(j, e). if j = k then (k, v, False) else (j, e)) q) j =
      (if j = k then map_option (\<lambda>_. (v, False)) (map_of q k) else map_of q j)" for q
    by (induction q) auto
  with Some show ?thesis by (simp add: memory_set_def)
qed

lemma map_of_memory_invalidate:
  "map_of (map (\<lambda>(k, v, m). (k, v, m \<or> p k)) qc) j =
     map_option (\<lambda>(v, m). (v, m \<or> p j)) (map_of qc j)"
  by (induction qc) auto

lemma map_of_filter_key:
  "map_of (filter (\<lambda>(k, _). p k) qc) j = (if p j then map_of qc j else None)"
  by (induction qc) auto

interpretation memory: query_cache memory_client
proof
  fix qc :: memory_cache and f k d
  show "distinct (map fst (getQueriesData memory_client qc f))"
    by (simp add: memory_client_def comp_def)
  show "(k, d) \<in> set (getQueriesData memory_client qc f) \<Longrightarrow>
      filter_selects f k \<and> getQueryData memory_client qc k = d"
    by (auto simp: memory_client_def)
next
  fix qc :: memory_cache and f k v
  show "getQueryData memory_client qc k = Some v \<Longrightarrow> filter_selects f k \<Longrightarrow>
      (k, Some v) \<in> set (getQueriesData memory_client qc f)"
    by (force simp: memory_client_def dest: map_of_SomeD)
next
  fix qc :: memory_cache and f k
  show "getQueryData memory_client (invalidateQueries memory_client f qc) k =
      getQueryData memory_client qc k"
    by (cases "map_of qc k") (auto simp: memory_client_def map_of_memory_invalidate)
qed (auto simp: memory_client_def map_of_memory_set map_of_memory_invalidate map_of_filter_key
      split: option.splits)

end
