(* ===== verification/Issue_Membership.thy ===== *)
theory Issue_Membership
  imports Query_Client
begin

text \<open>
  Which lists an issue belongs to (\<open>packages/core/issues/surface/membership.ts\<close>) and which query a
  surface runs (\<open>surface/scope.ts\<close>, \<open>surface/query-plan.ts\<close>).  The specification is the server's
  predicate \<open>server_member\<close>: an issue passes every field of the filter, where the relations only
  the server knows are the arguments \<open>involves\<close> (behind \<open>involves_user_id\<close>) and \<open>related\<close> (the
  union behind the scope \<open>all\<close>).
\<close>

section \<open>Membership\<close>

datatype issue_membership = Yes | No | Unknown

record issue_changed_dims =
  chg_assignee :: bool
  chg_project :: bool
  chg_status :: bool

text \<open>\<open>has(field) && (!base || base.field !== p.field)\<close>.\<close>

definition field_changed :: "'a option \<Rightarrow> 'a option \<Rightarrow> bool" where
  "field_changed written before \<longleftrightarrow>
     (case written of None \<Rightarrow> False | Some v \<Rightarrow> before = None \<or> before \<noteq> Some v)"

definition issueChangedDims :: "issue_patch \<Rightarrow> issue option \<Rightarrow> issue_changed_dims" where
  "issueChangedDims patch base =
     \<lparr>chg_assignee = field_changed (pat_assignee_id patch) (map_option iss_assignee_id base)
        \<or> field_changed (pat_assignee_type patch) (map_option iss_assignee_type base),
      chg_project = field_changed (pat_project_id patch) (map_option iss_project_id base),
      chg_status = field_changed (pat_status patch) (map_option iss_status base)\<rparr>"

definition listFilterDependsOn ::
  "string option \<Rightarrow> my_issues_filter \<Rightarrow> issue_changed_dims \<Rightarrow> bool" where
  "listFilterDependsOn scope flt changed =
     (if scope = Some ''all'' then chg_assignee changed
      else if chg_assignee changed \<and>
          (mif_assignee_id flt \<noteq> None \<or> mif_assignee_ids flt \<noteq> None \<or>
           mif_assignee_types flt \<noteq> None \<or> mif_involves_user_id flt \<noteq> None)
        then True
      else if chg_project changed \<and> mif_project_id flt \<noteq> None then True
      else False)"

text \<open>One field of the filter: not asked for, the partial issue does not say, or a verdict.\<close>

definition check_field :: "'f option \<Rightarrow> 'a option \<Rightarrow> ('f \<Rightarrow> 'a \<Rightarrow> bool) \<Rightarrow> issue_membership" where
  "check_field wanted field accepts =
     (case wanted of None \<Rightarrow> Yes
      | Some w \<Rightarrow> (case field of None \<Rightarrow> Unknown | Some v \<Rightarrow> if accepts w v then Yes else No))"

definition accepts_list :: "'a list \<Rightarrow> 'a option \<Rightarrow> bool" where
  "accepts_list ws v = (case v of None \<Rightarrow> False | Some x \<Rightarrow> x \<in> set ws)"

text \<open>A definite miss returns at once; otherwise one undecided field makes the answer unknown.\<close>

fun combine_checks :: "bool \<Rightarrow> issue_membership list \<Rightarrow> issue_membership" where
  "combine_checks unknown [] = (if unknown then Unknown else Yes)"
| "combine_checks unknown (c # cs) =
     (case c of No \<Rightarrow> No | Unknown \<Rightarrow> combine_checks True cs | Yes \<Rightarrow> combine_checks unknown cs)"

definition issueMatchesListFilter ::
  "issue_patch \<Rightarrow> string option \<Rightarrow> my_issues_filter \<Rightarrow> issue_membership" where
  "issueMatchesListFilter issue scope flt =
     (if scope = Some ''all'' then Unknown
      else combine_checks False
        [check_field (mif_assignee_id flt) (pat_assignee_id issue) (\<lambda>w v. v = Some w),
         check_field (mif_assignee_ids flt) (pat_assignee_id issue) accepts_list,
         check_field (mif_assignee_types flt) (pat_assignee_type issue) accepts_list,
         check_field (mif_creator_id flt) (pat_creator_id issue) (\<lambda>w v. v = w),
         check_field (mif_project_id flt) (pat_project_id issue) (\<lambda>w v. v = Some w),
         (case mif_involves_user_id flt of None \<Rightarrow> Yes | Some _ \<Rightarrow> Unknown)])"

section \<open>Scopes\<close>

datatype workspace_actor_kind = All_actors | Members_only | Agents_only

datatype my_relation = My_all | My_assigned | My_created | My_involved

datatype actor_relation = Actor_assigned | Actor_created

datatype scope_actor = Scope_member | Scope_agent

datatype issue_scope = Scope_workspace "workspace_actor_kind option"
  | Scope_my my_relation string | Scope_project string
  | Scope_actor scope_actor string actor_relation | Scope_team string

fun actor_kind_name :: "workspace_actor_kind \<Rightarrow> string" where
  "actor_kind_name All_actors = ''all''"
| "actor_kind_name Members_only = ''members''"
| "actor_kind_name Agents_only = ''agents''"

fun my_relation_name :: "my_relation \<Rightarrow> string" where
  "my_relation_name My_all = ''all''"
| "my_relation_name My_assigned = ''assigned''"
| "my_relation_name My_created = ''created''"
| "my_relation_name My_involved = ''involved''"

fun actor_relation_name :: "actor_relation \<Rightarrow> string" where
  "actor_relation_name Actor_assigned = ''assigned''"
| "actor_relation_name Actor_created = ''created''"

fun scope_actor_name :: "scope_actor \<Rightarrow> string" where
  "scope_actor_name Scope_member = ''member''"
| "scope_actor_name Scope_agent = ''agent''"

fun scope_actor_type :: "scope_actor \<Rightarrow> issue_assignee_type" where
  "scope_actor_type Scope_member = Member"
| "scope_actor_type Scope_agent = Agent"

fun issueScopeKey :: "issue_scope \<Rightarrow> string" where
  "issueScopeKey (Scope_workspace kind) =
     ''workspace:'' @ actor_kind_name (case kind of None \<Rightarrow> All_actors | Some k \<Rightarrow> k)"
| "issueScopeKey (Scope_my relation userId) = ''my:'' @ userId @ '':'' @ my_relation_name relation"
| "issueScopeKey (Scope_project projectId) = ''project:'' @ projectId"
| "issueScopeKey (Scope_actor actorType actorId relation) =
     ''actor:'' @ scope_actor_name actorType @ '':'' @ actorId @ '':'' @ actor_relation_name relation"
| "issueScopeKey (Scope_team teamId) = ''team:'' @ teamId"

datatype issue_scope_error = UnsupportedIssueScopeError string

definition unsupported_scope :: "issue_scope \<Rightarrow> string \<Rightarrow> issue_scope_error" where
  "unsupported_scope scope operation = UnsupportedIssueScopeError
     (''Issue scope \"'' @ issueScopeKey scope @ ''\" is not supported for '' @ operation @ ''.'')"

section \<open>Query plans\<close>

text \<open>The defaults of a new issue: the plan only ever sets these three of its fields.\<close>

record create_defaults =
  cre_assignee_type :: "issue_assignee_type option"
  cre_assignee_id :: "string option"
  cre_project_id :: "string option"

definition no_defaults :: create_defaults where
  "no_defaults = \<lparr>cre_assignee_type = None, cre_assignee_id = None, cre_project_id = None\<rparr>"

datatype plan_kind = Plan_workspace | Plan_scoped

record query_plan =
  plan_kind :: plan_kind
  plan_scopeKey :: string
  plan_queryScope :: "string option"
  plan_queryFilter :: my_issues_filter
  plan_groupedScopeFilter :: my_issues_filter
  plan_loadMoreScope :: "string option"
  plan_loadMoreFilter :: "my_issues_filter option"
  plan_userId :: "string option"
  plan_createDefaults :: create_defaults

text \<open>The \<open>queryScope\<close>, \<open>queryFilter\<close>, \<open>userId\<close> and \<open>createDefaults\<close> of a relation.\<close>

fun myRelationPlan ::
  "my_relation \<Rightarrow> string \<Rightarrow> string \<times> my_issues_filter \<times> string option \<times> create_defaults" where
  "myRelationPlan My_assigned userId =
     (''assigned'', empty_filter\<lparr>mif_assignee_id := Some userId\<rparr>, None,
      \<lparr>cre_assignee_type = Some Member, cre_assignee_id = Some userId, cre_project_id = None\<rparr>)"
| "myRelationPlan My_created userId =
     (''created'', empty_filter\<lparr>mif_creator_id := Some userId\<rparr>, None, no_defaults)"
| "myRelationPlan My_involved userId =
     (''agents'', empty_filter\<lparr>mif_involves_user_id := Some userId\<rparr>, None, no_defaults)"
| "myRelationPlan My_all userId = (''all'', empty_filter, Some userId, no_defaults)"

definition scoped_plan ::
  "string \<Rightarrow> string \<Rightarrow> my_issues_filter \<Rightarrow> string option \<Rightarrow> create_defaults \<Rightarrow> query_plan" where
  "scoped_plan scopeKey queryScope queryFilter userId createDefaults =
     \<lparr>plan_kind = Plan_scoped, plan_scopeKey = scopeKey, plan_queryScope = Some queryScope,
      plan_queryFilter = queryFilter, plan_groupedScopeFilter = queryFilter,
      plan_loadMoreScope = Some queryScope, plan_loadMoreFilter = Some queryFilter,
      plan_userId = userId, plan_createDefaults = createDefaults\<rparr>"

definition buildIssueSurfaceQueryPlan :: "issue_scope \<Rightarrow> issue_scope_error + query_plan" where
  "buildIssueSurfaceQueryPlan scope =
     (let scopeKey = issueScopeKey scope in
      case scope of
        Scope_workspace actorKind \<Rightarrow>
          if actorKind = Some Members_only \<or> actorKind = Some Agents_only then
            let queryFilter = (if actorKind = Some Members_only
                  then empty_filter\<lparr>mif_assignee_types := Some [Member]\<rparr>
                  else empty_filter\<lparr>mif_assignee_types := Some [Agent, Squad]\<rparr>)
            in Inr (scoped_plan scopeKey scopeKey queryFilter None no_defaults)
          else Inr \<lparr>plan_kind = Plan_workspace, plan_scopeKey = scopeKey, plan_queryScope = None,
            plan_queryFilter = empty_filter, plan_groupedScopeFilter = empty_filter,
            plan_loadMoreScope = None, plan_loadMoreFilter = None, plan_userId = None,
            plan_createDefaults = no_defaults\<rparr>
      | Scope_project projectId \<Rightarrow>
          Inr (scoped_plan scopeKey scopeKey (empty_filter\<lparr>mif_project_id := Some projectId\<rparr>) None
            (no_defaults\<lparr>cre_project_id := Some projectId\<rparr>))
      | Scope_my relation userId \<Rightarrow>
          (case myRelationPlan relation userId of (queryScope, queryFilter, user, defaults) \<Rightarrow>
             Inr (scoped_plan scopeKey queryScope queryFilter user defaults))
      | Scope_actor actorType actorId relation \<Rightarrow>
          Inr (scoped_plan scopeKey scopeKey
            (if relation = Actor_assigned then empty_filter\<lparr>mif_assignee_id := Some actorId\<rparr>
             else empty_filter\<lparr>mif_creator_id := Some actorId\<rparr>) None
            (if relation = Actor_assigned
             then \<lparr>cre_assignee_type = Some (scope_actor_type actorType),
                   cre_assignee_id = Some actorId, cre_project_id = None\<rparr>
             else no_defaults))
      | Scope_team _ \<Rightarrow> Inl (unsupported_scope scope ''issue surface query plan''))"

section \<open>The server's predicate\<close>

definition server_member ::
  "(string \<Rightarrow> issue \<Rightarrow> bool) \<Rightarrow> (issue \<Rightarrow> bool) \<Rightarrow> string option \<Rightarrow> my_issues_filter \<Rightarrow> issue \<Rightarrow> bool"
where
  "server_member involves related scope flt i \<longleftrightarrow>
     (if scope = Some ''all'' then related i
      else (\<forall>a. mif_assignee_id flt = Some a \<longrightarrow> iss_assignee_id i = Some a)
         \<and> (\<forall>as. mif_assignee_ids flt = Some as \<longrightarrow> (\<exists>a\<in>set as. iss_assignee_id i = Some a))
         \<and> (\<forall>ts. mif_assignee_types flt = Some ts \<longrightarrow> (\<exists>t\<in>set ts. iss_assignee_type i = Some t))
         \<and> (\<forall>c. mif_creator_id flt = Some c \<longrightarrow> iss_creator_id i = c)
         \<and> (\<forall>p. mif_project_id flt = Some p \<longrightarrow> iss_project_id i = Some p)
         \<and> (\<forall>u. mif_involves_user_id flt = Some u \<longrightarrow> involves u i))"

text \<open>What a partial issue says of a full one: each property it has is the issue's.\<close>

definition says :: "issue_patch \<Rightarrow> issue \<Rightarrow> bool" where
  "says p i \<longleftrightarrow> merge_issue i p = i"

lemma over_eq_iff: "over x y = y \<longleftrightarrow> (x = None \<or> x = Some y)"
  by (cases x) auto

lemma over_opt_eq_iff: "over_opt x y = y \<longleftrightarrow> (x = None \<or> x = y)"
  by (cases x) auto

lemma says_fields:
  assumes "says p i"
  shows "pat_assignee_id p = Some v \<Longrightarrow> iss_assignee_id i = v"
    and "pat_assignee_type p = Some t \<Longrightarrow> iss_assignee_type i = t"
    and "pat_creator_id p = Some c \<Longrightarrow> iss_creator_id i = c"
    and "pat_project_id p = Some j \<Longrightarrow> iss_project_id i = j"
proof -
  have "iss_assignee_id (merge_issue i p) = iss_assignee_id i"
    "iss_assignee_type (merge_issue i p) = iss_assignee_type i"
    "iss_creator_id (merge_issue i p) = iss_creator_id i"
    "iss_project_id (merge_issue i p) = iss_project_id i"
    using assms by (simp_all add: says_def)
  then show "pat_assignee_id p = Some v \<Longrightarrow> iss_assignee_id i = v"
    and "pat_assignee_type p = Some t \<Longrightarrow> iss_assignee_type i = t"
    and "pat_creator_id p = Some c \<Longrightarrow> iss_creator_id i = c"
    and "pat_project_id p = Some j \<Longrightarrow> iss_project_id i = j"
    by (simp_all add: merge_issue_def)
qed

lemma says_partial_of [simp]: "says (partial_of i) i"
  by (simp add: says_def merge_issue_def partial_of_def over_opt_eq_iff)

lemma check_field_Yes:
  "check_field w f acc = Yes \<longleftrightarrow> (\<forall>x. w = Some x \<longrightarrow> (\<exists>v. f = Some v \<and> acc x v))"
  by (auto simp: check_field_def split: option.splits)

lemma check_field_No:
  "check_field w f acc = No \<longleftrightarrow> (\<exists>x v. w = Some x \<and> f = Some v \<and> \<not> acc x v)"
  by (auto simp: check_field_def split: option.splits)

lemma check_field_Unknown:
  "check_field w f acc = Unknown \<longleftrightarrow> w \<noteq> None \<and> f = None"
  by (auto simp: check_field_def split: option.splits)

lemma accepts_list_iff: "accepts_list ws v \<longleftrightarrow> (\<exists>x\<in>set ws. v = Some x)"
  by (auto simp: accepts_list_def split: option.split)

lemma combine_Yes: "combine_checks u cs = Yes \<longleftrightarrow> \<not> u \<and> (\<forall>c\<in>set cs. c = Yes)"
  by (induction cs arbitrary: u) (auto split: issue_membership.split)

lemma combine_No: "combine_checks u cs = No \<longleftrightarrow> No \<in> set cs"
  by (induction cs arbitrary: u) (auto split: issue_membership.split)

declare combine_checks.simps [simp del]

lemma matches_Yes:
  "issueMatchesListFilter p scope flt = Yes \<longleftrightarrow> scope \<noteq> Some ''all''
     \<and> check_field (mif_assignee_id flt) (pat_assignee_id p) (\<lambda>w v. v = Some w) = Yes
     \<and> check_field (mif_assignee_ids flt) (pat_assignee_id p) accepts_list = Yes
     \<and> check_field (mif_assignee_types flt) (pat_assignee_type p) accepts_list = Yes
     \<and> check_field (mif_creator_id flt) (pat_creator_id p) (\<lambda>w v. v = w) = Yes
     \<and> check_field (mif_project_id flt) (pat_project_id p) (\<lambda>w v. v = Some w) = Yes
     \<and> mif_involves_user_id flt = None"
  by (simp add: issueMatchesListFilter_def combine_Yes split: option.split)

lemma matches_No:
  "issueMatchesListFilter p scope flt = No \<longleftrightarrow> scope \<noteq> Some ''all'' \<and>
     (check_field (mif_assignee_id flt) (pat_assignee_id p) (\<lambda>w v. v = Some w) = No
      \<or> check_field (mif_assignee_ids flt) (pat_assignee_id p) accepts_list = No
      \<or> check_field (mif_assignee_types flt) (pat_assignee_type p) accepts_list = No
      \<or> check_field (mif_creator_id flt) (pat_creator_id p) (\<lambda>w v. v = w) = No
      \<or> check_field (mif_project_id flt) (pat_project_id p) (\<lambda>w v. v = Some w) = No)"
  unfolding issueMatchesListFilter_def by (simp add: combine_No eq_commute [of No] split: option.split)

section \<open>Membership is decided soundly\<close>

lemma matches_sound:
  assumes "says p i"
  shows "issueMatchesListFilter p scope flt = Yes \<Longrightarrow> server_member involves related scope flt i"
    and "issueMatchesListFilter p scope flt = No \<Longrightarrow> \<not> server_member involves related scope flt i"
proof -
  note f = says_fields [OF assms]
  show "server_member involves related scope flt i"
    if m: "issueMatchesListFilter p scope flt = Yes"
  proof -
    note y = m [unfolded matches_Yes check_field_Yes accepts_list_iff]
    show ?thesis unfolding server_member_def
      using y f(1) f(2) f(3) f(4) by auto
  qed
  show "\<not> server_member involves related scope flt i"
    if m: "issueMatchesListFilter p scope flt = No"
  proof -
    note n = m [unfolded matches_No check_field_No accepts_list_iff]
    show ?thesis unfolding server_member_def
      using n f(1) f(2) f(3) f(4) by auto
  qed
qed

text \<open>
  C8. The client's membership verdict is never wrong: judged from any part of an issue, a
  definite answer is the server's answer, whatever the relations only the server can evaluate;
  and for a full issue the answer is definite unless the list is the union scope or filters by
  involvement.
\<close>
theorem issueMatchesListFilter_sound:
  assumes "says p i"
  shows "(issueMatchesListFilter p scope flt = Yes \<longrightarrow> server_member involves related scope flt i)
    \<and> (issueMatchesListFilter p scope flt = No \<longrightarrow> \<not> server_member involves related scope flt i)
    \<and> (scope \<noteq> Some ''all'' \<and> mif_involves_user_id flt = None
         \<longrightarrow> issueMatchesListFilter (partial_of i) scope flt \<noteq> Unknown)"
proof (intro conjI impI)
  assume "scope \<noteq> Some ''all'' \<and> mif_involves_user_id flt = None"
  then have "issueMatchesListFilter (partial_of i) scope flt \<in> {Yes, No}"
    unfolding insert_iff matches_Yes matches_No
    by (auto simp: check_field_Yes check_field_No partial_of_def)
  then show "issueMatchesListFilter (partial_of i) scope flt \<noteq> Unknown" by auto
qed (use matches_sound [OF assms] in blast)+

lemma issueMatchesListFilter_sound_witness:
  "issueMatchesListFilter (partial_of (example_issue ''i1'' Todo 1)) (Some ''assigned'')
      (empty_filter\<lparr>mif_assignee_id := Some ''u1''\<rparr>) = Yes
   \<and> server_member (\<lambda>u i. False) (\<lambda>i. False) (Some ''assigned'') (empty_filter\<lparr>mif_assignee_id := Some ''u1''\<rparr>)
      (example_issue ''i1'' Todo 1)"
proof
  show y: "issueMatchesListFilter (partial_of (example_issue ''i1'' Todo 1)) (Some ''assigned'')
      (empty_filter\<lparr>mif_assignee_id := Some ''u1''\<rparr>) = Yes"
    by (simp add: matches_Yes check_field_def empty_filter_def partial_of_def example_issue_def)
  show "server_member (\<lambda>u i. False) (\<lambda>i. False) (Some ''assigned'')
      (empty_filter\<lparr>mif_assignee_id := Some ''u1''\<rparr>) (example_issue ''i1'' Todo 1)"
    using issueMatchesListFilter_sound [OF says_partial_of, of "example_issue ''i1'' Todo 1"] y by blast
qed

section \<open>Changed dimensions\<close>

text \<open>The dimensions a change reports cover what it moves: what is not reported is unchanged.\<close>

definition dims_cover :: "issue_changed_dims \<Rightarrow> issue \<Rightarrow> issue \<Rightarrow> bool" where
  "dims_cover changed i j \<longleftrightarrow>
     (\<not> chg_assignee changed \<longrightarrow>
        iss_assignee_id j = iss_assignee_id i \<and> iss_assignee_type j = iss_assignee_type i)
     \<and> (\<not> chg_project changed \<longrightarrow> iss_project_id j = iss_project_id i)
     \<and> (\<not> chg_status changed \<longrightarrow> iss_status j = iss_status i)"

text \<open>The server's relations key on the assignee and the creator of an issue.\<close>

definition reads_actors :: "(issue \<Rightarrow> bool) \<Rightarrow> bool" where
  "reads_actors r \<longleftrightarrow> (\<forall>i j. iss_assignee_id i = iss_assignee_id j \<longrightarrow>
     iss_assignee_type i = iss_assignee_type j \<longrightarrow> iss_creator_id i = iss_creator_id j \<longrightarrow> r i = r j)"

lemma listFilterDependsOn_False:
  assumes indep: "\<not> listFilterDependsOn scope flt changed" and cover: "dims_cover changed i j"
    and creator: "iss_creator_id j = iss_creator_id i"
    and reads: "\<forall>u. reads_actors (involves u)" "reads_actors related"
  shows "server_member involves related scope flt j = server_member involves related scope flt i"
proof (cases "chg_assignee changed")
  case True
  then have "scope \<noteq> Some ''all''" "mif_assignee_id flt = None" "mif_assignee_ids flt = None"
    "mif_assignee_types flt = None" "mif_involves_user_id flt = None"
    "chg_project changed \<longrightarrow> mif_project_id flt = None"
    using indep by (auto simp: listFilterDependsOn_def split: if_splits)
  then show ?thesis using cover creator by (auto simp: server_member_def dims_cover_def)
next
  case False
  then have same: "iss_assignee_id j = iss_assignee_id i" "iss_assignee_type j = iss_assignee_type i"
    using cover by (auto simp: dims_cover_def)
  then have r: "related j = related i" "involves u j = involves u i" for u
    using reads creator unfolding reads_actors_def by blast+
  have "scope = Some ''all'' \<or> mif_project_id flt = None \<or> iss_project_id j = iss_project_id i"
    using indep cover by (auto simp: listFilterDependsOn_def dims_cover_def split: if_splits)
  then show ?thesis using same creator r by (auto simp: server_member_def)
qed

lemma field_changed_over:
  "field_changed w (Some b) \<longleftrightarrow> over w b \<noteq> b"
  by (auto simp: field_changed_def over_eq_iff split: option.split)

text \<open>
  The change dimensions of a patch are sound, and exact when the pre-change issue is known;
  and a list whose filter does not depend on them keeps the issue in or out of the list when the
  patch is applied, provided the creator stays and the server's relations read nothing but
  assignee and creator.
\<close>
theorem issueChangedDims_sound:
  assumes base: "base = None \<or> base = Some i"
    and creator: "iss_creator_id (merge_issue i p) = iss_creator_id i"
    and reads: "\<forall>u. reads_actors (involves u)" "reads_actors related"
  shows "(let changed = issueChangedDims p base; j = merge_issue i p in
     dims_cover changed i j
     \<and> (base = Some i \<longrightarrow> chg_assignee changed =
          (iss_assignee_id j \<noteq> iss_assignee_id i \<or> iss_assignee_type j \<noteq> iss_assignee_type i)
        \<and> chg_project changed = (iss_project_id j \<noteq> iss_project_id i)
        \<and> chg_status changed = (iss_status j \<noteq> iss_status i))
     \<and> (\<not> listFilterDependsOn scope flt changed \<longrightarrow>
          server_member involves related scope flt j = server_member involves related scope flt i))"
proof -
  let ?c = "issueChangedDims p base" and ?j = "merge_issue i p"
  have cover: "dims_cover ?c i ?j"
    using base by (auto simp: dims_cover_def issueChangedDims_def merge_issue_def field_changed_def
        split: option.splits)
  have "base = Some i \<longrightarrow> chg_assignee ?c =
          (iss_assignee_id ?j \<noteq> iss_assignee_id i \<or> iss_assignee_type ?j \<noteq> iss_assignee_type i)
        \<and> chg_project ?c = (iss_project_id ?j \<noteq> iss_project_id i)
        \<and> chg_status ?c = (iss_status ?j \<noteq> iss_status i)"
    by (simp add: issueChangedDims_def merge_issue_def field_changed_over)
  with cover listFilterDependsOn_False [OF _ cover creator reads] show ?thesis
    by (simp add: Let_def)
qed

lemma issueChangedDims_sound_witness:
  "let changed = issueChangedDims (empty_patch\<lparr>pat_status := Some Done\<rparr>)
       (Some (example_issue ''i1'' Todo 1)) in
   \<not> chg_assignee changed \<and> chg_status changed
   \<and> server_member (\<lambda>u i. True) (\<lambda>i. False) None empty_filter
       (merge_issue (example_issue ''i1'' Todo 1) (empty_patch\<lparr>pat_status := Some Done\<rparr>))"
proof -
  have s: "server_member (\<lambda>u i. True) (\<lambda>i. False) None empty_filter (example_issue ''i1'' Todo 1)"
    by (simp add: server_member_def empty_filter_def)
  have d: "\<not> listFilterDependsOn None empty_filter (issueChangedDims (empty_patch\<lparr>pat_status := Some Done\<rparr>)
       (Some (example_issue ''i1'' Todo 1)))"
    by (simp add: listFilterDependsOn_def empty_filter_def)
  have "iss_creator_id (merge_issue (example_issue ''i1'' Todo 1) (empty_patch\<lparr>pat_status := Some Done\<rparr>))
      = iss_creator_id (example_issue ''i1'' Todo 1)"
    "\<forall>u. reads_actors ((\<lambda>u i. True) (u :: string))" "reads_actors (\<lambda>i. False)"
    by (simp_all add: merge_issue_def empty_patch_def reads_actors_def)
  from issueChangedDims_sound [OF disjI2 [OF refl] this] s d show ?thesis
    by (simp add: Let_def merge_issue_def empty_patch_def example_issue_def)
qed

section \<open>A surface queries its scope\<close>

text \<open>What a scope means for an issue, as far as the client can tell.\<close>

fun scope_contains :: "issue_scope \<Rightarrow> issue \<Rightarrow> issue_membership" where
  "scope_contains (Scope_workspace kind) i =
     (if kind = Some Members_only then if iss_assignee_type i = Some Member then Yes else No
      else if kind = Some Agents_only
        then if iss_assignee_type i = Some Agent \<or> iss_assignee_type i = Some Squad then Yes else No
      else Yes)"
| "scope_contains (Scope_my relation u) i =
     (case relation of
        My_assigned \<Rightarrow> if iss_assignee_id i = Some u then Yes else No
      | My_created \<Rightarrow> if iss_creator_id i = u then Yes else No
      | _ \<Rightarrow> Unknown)"
| "scope_contains (Scope_project p) i = (if iss_project_id i = Some p then Yes else No)"
| "scope_contains (Scope_actor _ a relation) i =
     (case relation of
        Actor_assigned \<Rightarrow> if iss_assignee_id i = Some a then Yes else No
      | Actor_created \<Rightarrow> if iss_creator_id i = a then Yes else No)"
| "scope_contains (Scope_team _) i = Unknown"

text \<open>The issue a create form starts from: the defaults written over a draft.\<close>

definition with_defaults :: "create_defaults \<Rightarrow> issue \<Rightarrow> issue" where
  "with_defaults d i =
     i\<lparr>iss_assignee_type := over_opt (cre_assignee_type d) (iss_assignee_type i),
       iss_assignee_id := over_opt (cre_assignee_id d) (iss_assignee_id i),
       iss_project_id := over_opt (cre_project_id d) (iss_project_id i)\<rparr>"

lemmas plan_defs = buildIssueSurfaceQueryPlan_def scoped_plan_def empty_filter_def no_defaults_def
  check_field_def accepts_list_def partial_of_def with_defaults_def Let_def

text \<open>
  Every scope but a team has a plan, and the plan is its scope: the list it queries holds an
  issue exactly when the scope does (undecided for the involved and the union relation, which the
  server evaluates), loading more pages goes on with the list that is shown, the union relation
  alone carries the user id, and a new issue that takes the plan's defaults is never outside the
  surface it was created on when the defaults name an assignee or a project.
\<close>
theorem buildIssueSurfaceQueryPlan_spec:
  "case buildIssueSurfaceQueryPlan scope of
     Inl e \<Rightarrow> (\<exists>team. scope = Scope_team team) \<and> e = unsupported_scope scope ''issue surface query plan''
   | Inr plan \<Rightarrow>
       issueMatchesListFilter (partial_of i) (plan_queryScope plan) (plan_queryFilter plan) =
         scope_contains scope i
       \<and> (plan_kind plan = Plan_scoped \<longleftrightarrow> plan_queryScope plan \<noteq> None)
       \<and> plan_loadMoreScope plan = plan_queryScope plan
       \<and> plan_loadMoreFilter plan =
           (if plan_kind plan = Plan_scoped then Some (plan_queryFilter plan) else None)
       \<and> plan_groupedScopeFilter plan = plan_queryFilter plan
       \<and> plan_userId plan = (case scope of Scope_my My_all u \<Rightarrow> Some u | _ \<Rightarrow> None)
       \<and> (plan_createDefaults plan \<noteq> no_defaults \<longrightarrow>
            scope_contains scope (with_defaults (plan_createDefaults plan) i) = Yes)"
proof (cases scope)
  case (Scope_workspace kind)
  then show ?thesis
    by (cases kind rule: option.exhaust; cases "the kind")
      (auto simp: plan_defs issueMatchesListFilter_def combine_checks.simps split: option.split)
next
  case (Scope_my relation u)
  then show ?thesis
    by (cases relation) (auto simp: plan_defs issueMatchesListFilter_def combine_checks.simps)
next
  case (Scope_project p)
  then show ?thesis
    by (auto simp: plan_defs issueMatchesListFilter_def combine_checks.simps)
next
  case (Scope_actor t a relation)
  then show ?thesis
    by (cases relation) (auto simp: plan_defs issueMatchesListFilter_def combine_checks.simps)
qed (simp add: plan_defs)

lemma buildIssueSurfaceQueryPlan_spec_witness:
  "\<exists>plan. buildIssueSurfaceQueryPlan (Scope_project ''p1'') = Inr plan
     \<and> issueMatchesListFilter (partial_of (example_issue ''i1'' Todo 1)) (plan_queryScope plan)
         (plan_queryFilter plan) = Yes"
  using buildIssueSurfaceQueryPlan_spec [of "Scope_project ''p1''" "example_issue ''i1'' Todo 1"]
  by (simp add: buildIssueSurfaceQueryPlan_def Let_def example_issue_def)

end
