(* ===== verification/Issue_Coordinator.thy ===== *)
theory Issue_Coordinator
  imports Issue_Buckets Issue_Membership
begin

text \<open>
  The cache coordinator (\<open>packages/core/issues/cache-coordinator.ts\<close>): how one issue change runs
  through the bucketed lists, the detail cache and the inbox, what it reports as stale, and how a
  failed mutation is rolled back.  The loop of \<open>applyIssueChange\<close> is a fold over the lists found
  at its start; \<open>reconcileList\<close> is its body without the writes: the list to store, if one is
  stored, and whether the key is reported stale.  The source compares \<open>next !== data\<close> by
  identity: every branch that stores builds a new object, except \<open>moveBucketTotal\<close> with equal
  statuses, which returns its argument.
\<close>

section \<open>Lists and their contracts\<close>

definition listContractFromKey :: "query_key \<Rightarrow> string option \<times> my_issues_filter" where
  "listContractFromKey key =
     (if length key > 2 \<and> key ! 2 = KStr ''my'' then
        ((if length key > 3 then case key ! 3 of KStr s \<Rightarrow> Some s | _ \<Rightarrow> None else None),
         (if length key > 4 then case key ! 4 of KFilter f \<Rightarrow> f | _ \<Rightarrow> empty_filter else empty_filter))
      else (None, empty_filter))"

definition bucketedListEntries ::
  "'q query_client \<Rightarrow> 'q \<Rightarrow> string \<Rightarrow> (query_key \<times> list_cache) list" where
  "bucketedListEntries cl qc wsId =
     List.map_filter (\<lambda>(k, d). map_option (Pair k) (as_bucketed d))
       (getQueriesData cl qc (by_prefix (issueKeys_list wsId)) @
        getQueriesData cl qc (by_prefix (issueKeys_myAll wsId)))"

section \<open>Inbox rows\<close>

definition patchInboxIssueStatus ::
  "'q query_client \<Rightarrow> string \<Rightarrow> string \<Rightarrow> issue_status \<Rightarrow> 'q \<Rightarrow> 'q" where
  "patchInboxIssueStatus cl wsId issueId status =
     updateQueryData cl (inboxKeys_list wsId) (\<lambda>old. map_option (\<lambda>items. CInbox
       (map (\<lambda>i. if inb_issue_id i = Some issueId then i\<lparr>inb_issue_status := Some status\<rparr> else i) items))
       (as_inbox old))"

section \<open>Applying a change\<close>

definition reconcileList ::
  "string \<Rightarrow> issue_patch \<Rightarrow> issue_changed_dims \<Rightarrow> issue option \<Rightarrow> query_key \<Rightarrow> list_cache
    \<Rightarrow> list_cache option \<times> bool" where
  "reconcileList i patch changed baseIssue key data =
     (case listContractFromKey key of (scope, flt) \<Rightarrow>
      let filterTouched = listFilterDependsOn scope flt changed in
      case findIssueLocation data i of
        Some (_, issue) \<Rightarrow>
          if filterTouched then
            (case issueMatchesListFilter (merge_partial (partial_of issue) patch) scope flt of
               No \<Rightarrow> (Some (removeIssueFromBuckets data i), False)
             | Unknown \<Rightarrow> (Some (patchIssueInBuckets data i patch), True)
             | Yes \<Rightarrow> (Some (patchIssueInBuckets data i patch), False))
          else (Some (patchIssueInBuckets data i patch), False)
      | None \<Rightarrow>
          if \<not> filterTouched \<and> \<not> chg_status changed then (None, False)
          else let wasMember = (case baseIssue of
                     None \<Rightarrow> Unknown
                   | Some b \<Rightarrow> issueMatchesListFilter (partial_of b) scope flt);
                   isMember = issueMatchesListFilter
                     (merge_partial (case baseIssue of None \<Rightarrow> empty_patch | Some b \<Rightarrow> partial_of b) patch)
                     scope flt
            in if wasMember = No \<and> isMember = No then (None, False)
               else (case baseIssue of
                 None \<Rightarrow> (None, True)
               | Some base \<Rightarrow>
                   if wasMember = Yes \<and> isMember = Yes then
                     (case pat_status patch of
                        None \<Rightarrow> (None, False)
                      | Some status \<Rightarrow>
                          if \<not> chg_status changed then (None, False)
                          else if iss_status base = status then (None, False)
                          else (Some (moveBucketTotal data (iss_status base) status), True))
                   else if wasMember = Yes \<and> isMember = No then
                     (Some (decrementBucketTotal data (iss_status base)), False)
                   else (None, True)))"

record 'q change_state =
  st_qc :: 'q
  st_prevLists :: "(query_key \<times> list_cache) list"
  st_staleKeys :: "query_key list"
  st_prevIssue :: "issue option"

definition changeStep ::
  "'q query_client \<Rightarrow> string \<Rightarrow> issue_patch \<Rightarrow> issue_changed_dims \<Rightarrow> issue option
    \<Rightarrow> query_key \<times> list_cache \<Rightarrow> 'q change_state \<Rightarrow> 'q change_state" where
  "changeStep cl i patch changed baseIssue = (\<lambda>(key, data) st.
     case reconcileList i patch changed baseIssue key data of (next, stale) \<Rightarrow>
       \<lparr>st_qc = (case next of None \<Rightarrow> st_qc st | Some l \<Rightarrow> setQueryData cl key (CList l) (st_qc st)),
        st_prevLists = (case next of None \<Rightarrow> st_prevLists st | Some _ \<Rightarrow> st_prevLists st @ [(key, data)]),
        st_staleKeys = (if stale then st_staleKeys st @ [key] else st_staleKeys st),
        st_prevIssue = (case st_prevIssue st of
            Some p \<Rightarrow> Some p
          | None \<Rightarrow> map_option snd (findIssueLocation data i))\<rparr>)"

record change_result =
  res_prevLists :: "(query_key \<times> list_cache) list"
  res_prevDetail :: "issue option"
  res_prevInboxList :: "inbox_item list option"
  res_staleKeys :: "query_key list"
  res_prevIssue :: "issue option"

definition applyIssueChange ::
  "'q query_client \<Rightarrow> string \<Rightarrow> string \<Rightarrow> issue_patch \<Rightarrow> issue_changed_dims \<Rightarrow> issue option
    \<Rightarrow> 'q \<Rightarrow> 'q \<times> change_result" where
  "applyIssueChange cl wsId i patch changed baseIssue qc =
     (let st = fold (changeStep cl i patch changed baseIssue) (bucketedListEntries cl qc wsId)
                 \<lparr>st_qc = qc, st_prevLists = [], st_staleKeys = [], st_prevIssue = baseIssue\<rparr>;
          prevDetail = as_issue (getQueryData cl (st_qc st) (issueKeys_detail wsId i));
          qc1 = (case prevDetail of
              None \<Rightarrow> st_qc st
            | Some d \<Rightarrow> setQueryData cl (issueKeys_detail wsId i) (CIssue (merge_issue d patch)) (st_qc st));
          prevIssue = (case st_prevIssue st of Some p \<Rightarrow> Some p | None \<Rightarrow> prevDetail);
          prevInboxList = (case pat_status patch of
              None \<Rightarrow> None
            | Some _ \<Rightarrow> as_inbox (getQueryData cl qc1 (inboxKeys_list wsId)));
          qc2 = (case (pat_status patch, prevInboxList) of
              (Some status, Some _) \<Rightarrow> patchInboxIssueStatus cl wsId i status qc1
            | _ \<Rightarrow> qc1)
      in (qc2, \<lparr>res_prevLists = st_prevLists st, res_prevDetail = prevDetail,
                res_prevInboxList = prevInboxList, res_staleKeys = st_staleKeys st,
                res_prevIssue = prevIssue\<rparr>))"

definition rollbackIssueChange ::
  "'q query_client \<Rightarrow> string \<Rightarrow> string \<Rightarrow> change_result \<Rightarrow> 'q \<Rightarrow> 'q" where
  "rollbackIssueChange cl wsId i result qc =
     (let qc1 = fold (\<lambda>(key, snapshot). setQueryData cl key (CList snapshot)) (res_prevLists result) qc;
          qc2 = (case res_prevDetail result of
              None \<Rightarrow> qc1 | Some d \<Rightarrow> setQueryData cl (issueKeys_detail wsId i) (CIssue d) qc1)
      in case res_prevInboxList result of
           None \<Rightarrow> qc2 | Some l \<Rightarrow> setQueryData cl (inboxKeys_list wsId) (CInbox l) qc2)"

section \<open>Invalidation\<close>

definition invalidateIssueDerivatives :: "'q query_client \<Rightarrow> string \<Rightarrow> bool \<Rightarrow> 'q \<Rightarrow> 'q" where
  "invalidateIssueDerivatives cl wsId statusOrProjectChanged qc =
     (let qc1 = invalidateQueries cl (by_prefix (issueKeys_assigneeGroupsAll wsId)) qc;
          qc2 = invalidateQueries cl (by_prefix (issueKeys_myAssigneeGroupsAll wsId)) qc1;
          qc3 = invalidateQueries cl (by_prefix (issueKeys_projectGanttAll wsId)) qc2
      in if statusOrProjectChanged then invalidateQueries cl (by_prefix (projectKeys_all wsId)) qc3
         else qc3)"

text \<open>Keys with one hash are one key here, so the set of hashes is the set of keys seen.\<close>

fun invalidateStale :: "'q query_client \<Rightarrow> query_key list \<Rightarrow> query_key set \<Rightarrow> 'q \<Rightarrow> 'q" where
  "invalidateStale cl [] seen qc = qc"
| "invalidateStale cl (key # keys) seen qc =
     (if key \<in> seen then invalidateStale cl keys seen qc
      else invalidateStale cl keys (insert key seen) (invalidateQueries cl (by_key key) qc))"

definition invalidateStaleListKeys :: "'q query_client \<Rightarrow> query_key list \<Rightarrow> 'q \<Rightarrow> 'q" where
  "invalidateStaleListKeys cl staleKeys qc = invalidateStale cl staleKeys {} qc"

section \<open>The loop over the lists\<close>

lemma by_prefix_selects: "filter_selects (by_prefix p) k \<longleftrightarrow> take (length p) k = p"
  by (simp add: filter_selects_def by_prefix_def)

lemma by_key_selects [simp]: "filter_selects (by_key p) k \<longleftrightarrow> k = p"
  by (simp add: filter_selects_def by_key_def)

lemma list_my_disjoint:
  assumes "filter_selects (by_prefix (issueKeys_list wsId)) k"
  shows "\<not> filter_selects (by_prefix (issueKeys_myAll wsId)) k"
proof -
  have "length (issueKeys_list wsId) = length (issueKeys_myAll wsId)"
    "issueKeys_list wsId \<noteq> issueKeys_myAll wsId"
    by (simp_all add: query_key_defs)
  then show ?thesis using assms unfolding by_prefix_selects by metis
qed

lemma special_not_listed [simp]:
  "\<not> filter_selects (by_prefix (issueKeys_list wsId)) (issueKeys_detail wsId' i)"
  "\<not> filter_selects (by_prefix (issueKeys_myAll wsId)) (issueKeys_detail wsId' i)"
  "\<not> filter_selects (by_prefix (issueKeys_list wsId)) (inboxKeys_list wsId')"
  "\<not> filter_selects (by_prefix (issueKeys_myAll wsId)) (inboxKeys_list wsId')"
  by (simp_all add: filter_selects_def by_prefix_def query_key_defs)

context query_cache
begin

lemma bucketed_entries:
  "(k, l) \<in> set (List.map_filter (\<lambda>(k, d). map_option (Pair k) (as_bucketed d)) xs) \<longleftrightarrow>
     (k, Some (CList l)) \<in> set xs"
proof (induction xs)
  case (Cons x xs)
  obtain j d where x: "x = (j, d)" by (cases x)
  show ?case
    using Cons as_bucketed_Some [of d l]
    by (cases "as_bucketed d") (auto simp: x List.map_filter_simps)
qed (simp add: List.map_filter_simps)

lemma entries_iff:
  "(k, l) \<in> set (bucketedListEntries cl qc wsId) \<longleftrightarrow>
     getQueryData cl qc k = Some (CList l) \<and>
     (filter_selects (by_prefix (issueKeys_list wsId)) k \<or>
      filter_selects (by_prefix (issueKeys_myAll wsId)) k)"
proof -
  have "(k, l) \<in> set (bucketedListEntries cl qc wsId) \<longleftrightarrow>
      (k, Some (CList l)) \<in> set (getQueriesData cl qc (by_prefix (issueKeys_list wsId))) \<or>
      (k, Some (CList l)) \<in> set (getQueriesData cl qc (by_prefix (issueKeys_myAll wsId)))"
    by (simp only: bucketedListEntries_def bucketed_entries set_append Un_iff)
  then show ?thesis by (auto simp: queries_iff)
qed

lemma entries_distinct: "distinct (map fst (bucketedListEntries cl qc wsId))"
proof -
  let ?f = "\<lambda>(k, d). map_option (Pair k) (as_bucketed d)"
  have sub: "map fst (List.map_filter ?f xs) = map fst (filter (\<lambda>x. as_bucketed (snd x) \<noteq> None) xs)" for xs
    by (induction xs) (auto simp: List.map_filter_simps split: option.splits)
  let ?a = "getQueriesData cl qc (by_prefix (issueKeys_list wsId))"
    and ?b = "getQueriesData cl qc (by_prefix (issueKeys_myAll wsId))"
  have "fst ` set ?a \<inter> fst ` set ?b = {}"
    using queries_sound list_my_disjoint by fastforce
  then have "distinct (map fst (?a @ ?b))" using queries_distinct by simp
  then show ?thesis
    unfolding bucketedListEntries_def sub by (rule distinct_map_filter)
qed

lemma entries_not_special:
  "(k, l) \<in> set (bucketedListEntries cl qc wsId) \<Longrightarrow>
     k \<noteq> issueKeys_detail wsId'' i \<and> k \<noteq> inboxKeys_list wsId'"
  using entries_iff special_not_listed by blast

lemma fold_changeStep_get:
  assumes "distinct (map fst es)"
  shows "getQueryData cl (st_qc (fold (changeStep cl i patch changed base) es st)) k =
    (case map_of es k of
       None \<Rightarrow> getQueryData cl (st_qc st) k
     | Some l \<Rightarrow> (case fst (reconcileList i patch changed base k l) of
         None \<Rightarrow> getQueryData cl (st_qc st) k | Some l' \<Rightarrow> Some (CList l')))"
  using assms
proof (induction es arbitrary: st)
  case (Cons e es)
  obtain j d where e: "e = (j, d)" by (cases e)
  have "getQueryData cl (st_qc (changeStep cl i patch changed base e st)) k' =
      (if k' = j then case fst (reconcileList i patch changed base j d) of
          None \<Rightarrow> getQueryData cl (st_qc st) j | Some l' \<Rightarrow> Some (CList l')
       else getQueryData cl (st_qc st) k')" for k'
    by (auto simp: e changeStep_def get_set split: prod.split option.split)
  moreover have "map_of es j = None" using Cons.prems by (auto simp: e map_of_eq_None_iff)
  ultimately show ?case using Cons by (auto simp: e split: option.split)
qed simp

lemma fold_changeStep_prev:
  "st_prevLists (fold (changeStep cl i patch changed base) es st) = st_prevLists st @
     filter (\<lambda>(k, l). fst (reconcileList i patch changed base k l) \<noteq> None) es"
  by (induction es arbitrary: st) (auto simp: changeStep_def split: prod.splits option.split)

lemma fold_changeStep_stale:
  "st_staleKeys (fold (changeStep cl i patch changed base) es st) = st_staleKeys st @
     map fst (filter (\<lambda>(k, l). snd (reconcileList i patch changed base k l)) es)"
  by (induction es arbitrary: st) (auto simp: changeStep_def split: prod.splits)

lemma fold_set_get:
  assumes "distinct (map fst es)"
  shows "getQueryData cl (fold (\<lambda>(key, l). setQueryData cl key (CList l)) es qc) k =
    (case map_of es k of None \<Rightarrow> getQueryData cl qc k | Some l \<Rightarrow> Some (CList l))"
  using assms
proof (induction es arbitrary: qc)
  case (Cons e es)
  obtain j d where e: "e = (j, d)" by (cases e)
  have "map_of es j = None" using Cons.prems by (auto simp: e map_of_eq_None_iff)
  with Cons show ?case by (auto simp: e get_set split: option.split)
qed simp

end

end
