(* ===== verification/Issue_Soundness.thy ===== *)
theory Issue_Soundness
  imports Issue_Coordinator
begin

text \<open>
  What the coordinator guarantees: a failed change is rolled back exactly, and a change the server
  has made leaves every loaded list either agreeing with the server or reported as stale.  The
  server is a set of issues; \<open>list_accurate\<close> says that a cached list is what the server would
  answer: totals that count the members of each status, loaded cards that are current members.
\<close>

section \<open>What a change and a rollback write\<close>

context query_cache
begin

lemma map_of_entries:
  "map_of (bucketedListEntries cl qc wsId) k = Some l \<longleftrightarrow>
     (k, l) \<in> set (bucketedListEntries cl qc wsId)"
  using entries_distinct by simp

lemma map_of_entries_special [simp]:
  "map_of (bucketedListEntries cl qc wsId) (issueKeys_detail wsId' i) = None"
  "map_of (bucketedListEntries cl qc wsId) (inboxKeys_list wsId') = None"
  using entries_not_special by (force simp: map_of_eq_None_iff)+

lemma detail_not_inbox [simp]:
  "issueKeys_detail wsId i \<noteq> inboxKeys_list wsId'" "inboxKeys_list wsId' \<noteq> issueKeys_detail wsId i"
  by (simp_all add: query_key_defs)

lemma fold_changeStep_special:
  assumes "k = issueKeys_detail wsId' j \<or> k = inboxKeys_list wsId'"
  shows "getQueryData cl (st_qc (fold (changeStep cl i patch changed base)
      (bucketedListEntries cl qc wsId) st)) k = getQueryData cl (st_qc st) k"
  using assms by (auto simp: fold_changeStep_get [OF entries_distinct])

lemma apply_get:
  "getQueryData cl (fst (applyIssueChange cl wsId i patch changed base qc)) k =
    (if k = issueKeys_detail wsId i then
       (case as_issue (getQueryData cl qc k) of None \<Rightarrow> getQueryData cl qc k
        | Some d \<Rightarrow> Some (CIssue (merge_issue d patch)))
     else if k = inboxKeys_list wsId then
       (case (pat_status patch, as_inbox (getQueryData cl qc k)) of
          (Some status, Some items) \<Rightarrow> Some (CInbox
            (map (\<lambda>x. if inb_issue_id x = Some i then x\<lparr>inb_issue_status := Some status\<rparr> else x) items))
        | _ \<Rightarrow> getQueryData cl qc k)
     else (case map_of (bucketedListEntries cl qc wsId) k of
         None \<Rightarrow> getQueryData cl qc k
       | Some l \<Rightarrow> (case fst (reconcileList i patch changed base k l) of
           None \<Rightarrow> getQueryData cl qc k | Some l' \<Rightarrow> Some (CList l'))))"
proof -
  let ?st = "fold (changeStep cl i patch changed base) (bucketedListEntries cl qc wsId)
    \<lparr>st_qc = qc, st_prevLists = [], st_staleKeys = [], st_prevIssue = base\<rparr>"
  have special: "getQueryData cl (st_qc ?st) (issueKeys_detail wsId i) =
      getQueryData cl qc (issueKeys_detail wsId i)"
    "getQueryData cl (st_qc ?st) (inboxKeys_list wsId) = getQueryData cl qc (inboxKeys_list wsId)"
    by (simp_all add: fold_changeStep_special)
  have lists: "getQueryData cl (st_qc ?st) k = (case map_of (bucketedListEntries cl qc wsId) k of
         None \<Rightarrow> getQueryData cl qc k
       | Some l \<Rightarrow> (case fst (reconcileList i patch changed base k l) of
           None \<Rightarrow> getQueryData cl qc k | Some l' \<Rightarrow> Some (CList l')))"
    by (simp add: fold_changeStep_get [OF entries_distinct] split: option.split)
  show ?thesis
    unfolding applyIssueChange_def Let_def fst_conv
    using special lists
    by (auto simp: get_set get_update patchInboxIssueStatus_def split: option.split)
qed

lemma apply_result:
  "snd (applyIssueChange cl wsId i patch changed base qc) =
    \<lparr>res_prevLists = filter (\<lambda>(k, l). fst (reconcileList i patch changed base k l) \<noteq> None)
        (bucketedListEntries cl qc wsId),
     res_prevDetail = as_issue (getQueryData cl qc (issueKeys_detail wsId i)),
     res_prevInboxList = (case pat_status patch of None \<Rightarrow> None
       | Some _ \<Rightarrow> as_inbox (getQueryData cl qc (inboxKeys_list wsId))),
     res_staleKeys = map fst (filter (\<lambda>(k, l). snd (reconcileList i patch changed base k l))
        (bucketedListEntries cl qc wsId)),
     res_prevIssue = res_prevIssue (snd (applyIssueChange cl wsId i patch changed base qc))\<rparr>"
  unfolding applyIssueChange_def Let_def snd_conv
  by (simp add: fold_changeStep_prev fold_changeStep_stale fold_changeStep_special get_set
      split: option.split)

lemma map_of_filter_distinct:
  "distinct (map fst es) \<Longrightarrow> map_of (filter (\<lambda>(k, l). p k l) es) k =
     (case map_of es k of None \<Rightarrow> None | Some l \<Rightarrow> if p k l then Some l else None)"
  by (induction es) (auto simp: map_of_eq_None_iff split: option.split)

lemma rollback_get:
  "getQueryData cl (rollbackIssueChange cl wsId i
      (snd (applyIssueChange cl wsId i patch changed base qc))
      (fst (applyIssueChange cl wsId i patch changed base qc))) k = getQueryData cl qc k"
proof -
  let ?es = "bucketedListEntries cl qc wsId"
    and ?r = "snd (applyIssueChange cl wsId i patch changed base qc)"
    and ?qc = "fst (applyIssueChange cl wsId i patch changed base qc)"
    and ?p = "\<lambda>k l. fst (reconcileList i patch changed base k l) \<noteq> None"
  define snaps where "snaps = filter (\<lambda>(k, l). ?p k l) ?es"
  have r: "res_prevLists ?r = snaps"
    "res_prevDetail ?r = as_issue (getQueryData cl qc (issueKeys_detail wsId i))"
    "res_prevInboxList ?r = (case pat_status patch of None \<Rightarrow> None
       | Some _ \<Rightarrow> as_inbox (getQueryData cl qc (inboxKeys_list wsId)))"
    unfolding snaps_def by (subst apply_result, simp)+
  have d: "distinct (map fst snaps)"
    unfolding snaps_def using entries_distinct by (rule distinct_map_filter)
  have lists: "getQueryData cl (fold (\<lambda>(key, l). setQueryData cl key (CList l)) snaps ?qc) j =
      (case map_of ?es j of None \<Rightarrow> getQueryData cl ?qc j
       | Some l \<Rightarrow> if ?p j l then Some (CList l) else getQueryData cl ?qc j)" for j
    unfolding fold_set_get [OF d] unfolding snaps_def map_of_filter_distinct [OF entries_distinct]
    by (simp split: option.split)
  have entry: "map_of ?es j = Some l \<Longrightarrow> getQueryData cl qc j = Some (CList l)" for j l
    using map_of_entries entries_iff by blast
  show ?thesis
  proof (cases "map_of ?es k")
    case (Some l)
    then have k: "k \<noteq> issueKeys_detail wsId i" "k \<noteq> inboxKeys_list wsId"
      using map_of_entries entries_not_special by blast+
    then show ?thesis
      using Some entry [OF Some]
      by (auto simp: rollbackIssueChange_def Let_def r get_set lists apply_get split: option.split)
  next
    case None
    then show ?thesis
      by (auto simp: rollbackIssueChange_def Let_def r get_set lists apply_get split: option.split)
  qed
qed

end

text \<open>
  An optimistic change that fails is undone exactly: rolling back with the snapshots a
  change returned restores the data of every query, whatever lists, detail and inbox rows it had
  written.
\<close>
theorem rollback_restores:
  assumes "query_cache cl"
  shows "(let (qc', result) = applyIssueChange cl wsId i patch changed base qc in
      \<forall>k. getQueryData cl (rollbackIssueChange cl wsId i result qc') k = getQueryData cl qc k)"
  using query_cache.rollback_get [OF assms] by (simp add: case_prod_beta Let_def)

lemma rollback_restores_witness:
  "(let (qc', result) = applyIssueChange memory_client ''w'' ''i1''
        (empty_patch\<lparr>pat_status := Some Done\<rparr>) \<lparr>chg_assignee = False, chg_project = False, chg_status = True\<rparr>
        None [(issueKeys_detail ''w'' ''i1'', CIssue (example_issue ''i1'' Todo 1), False)] in
      \<forall>k. getQueryData memory_client (rollbackIssueChange memory_client ''w'' ''i1'' result qc') k =
        getQueryData memory_client
          [(issueKeys_detail ''w'' ''i1'', CIssue (example_issue ''i1'' Todo 1), False)] k)"
  by (rule rollback_restores [OF memory.query_cache_axioms])

section \<open>Agreement with the server\<close>

definition list_accurate :: "(issue \<Rightarrow> bool) \<Rightarrow> issue set \<Rightarrow> list_cache \<Rightarrow> bool" where
  "list_accurate member db l \<longleftrightarrow> (\<forall>s.
     server_total l s = int (card {x \<in> db. member x \<and> iss_status x = s})
     \<and> set (loaded l s) \<subseteq> {x \<in> db. member x \<and> iss_status x = s}
     \<and> distinct (map iss_id (loaded l s)))"

definition replace_issue :: "issue set \<Rightarrow> issue \<Rightarrow> issue \<Rightarrow> issue set" where
  "replace_issue db old new = insert new (db - {old})"

lemma accurate_ok:
  assumes fin: "finite db" and inj: "inj_on iss_id db" and acc: "list_accurate member db l"
  shows "buckets_ok l"
proof -
  have sub: "set (loaded l s) \<subseteq> {x \<in> db. member x \<and> iss_status x = s}" for s
    using acc by (simp add: list_accurate_def)
  have dist: "distinct (map iss_id (loaded l s))" for s using acc by (simp add: list_accurate_def)
  have "length (loaded l s) \<le> card {x \<in> db. member x \<and> iss_status x = s}" for s
    using card_mono [OF _ sub [of s]] fin dist [of s] distinct_card [of "loaded l s"]
    by (simp add: distinct_map)
  then have "int (length (loaded l s)) \<le> server_total l s" for s
    using acc by (simp add: list_accurate_def)
  moreover have "s = s'" if "x \<in> set (loaded l s)" "y \<in> set (loaded l s')" "iss_id x = iss_id y"
    for x y s s'
    using that sub inj unfolding inj_on_def by blast
  moreover have "iss_status x = s" if "x \<in> set (loaded l s)" for x s using sub that by blast
  ultimately show ?thesis using dist unfolding buckets_ok_def by blast
qed

lemma card_replace:
  assumes fin: "finite db" and old: "old \<in> db" and new: "new \<notin> db - {old}"
  shows "int (card {x \<in> replace_issue db old new. p x}) =
    int (card {x \<in> db. p x}) - (if p old then 1 else 0) + (if p new then 1 else 0)"
proof -
  let ?rest = "{x \<in> db - {old}. p x}"
  have fr: "finite ?rest" using fin by simp
  have "{x \<in> db. p x} = (if p old then insert old ?rest else ?rest)" using old by auto
  then have c: "int (card {x \<in> db. p x}) = int (card ?rest) + (if p old then 1 else 0)"
    using fr by (simp add: card_insert_if)
  have "{x \<in> replace_issue db old new. p x} = (if p new then insert new ?rest else ?rest)"
    by (auto simp: replace_issue_def)
  moreover have "new \<notin> ?rest" using new by auto
  ultimately have "int (card {x \<in> replace_issue db old new. p x}) =
      int (card ?rest) + (if p new then 1 else 0)"
    using fr by (simp add: card_insert_if) blast
  with c show ?thesis by simp
qed

text \<open>A list that follows the issue: the counts move by what the change moves, the loaded cards
  are the others and possibly the new one.\<close>

lemma accurate_step:
  assumes fin: "finite db" and inj: "inj_on iss_id db" and old: "old \<in> db"
    and same: "iss_id new = iss_id old" and acc: "list_accurate member db l"
    and tot: "\<And>s. server_total l' s = server_total l s
        - (if member old \<and> iss_status old = s then 1 else 0)
        + (if member new \<and> iss_status new = s then 1 else 0)"
    and load: "\<And>s. set (loaded l' s) \<subseteq> {x \<in> set (loaded l s). iss_id x \<noteq> iss_id old} \<union>
        (if member new \<and> iss_status new = s then {new} else {})"
    and dist: "\<And>s. distinct (map iss_id (loaded l' s))"
  shows "list_accurate member (replace_issue db old new) l'"
proof -
  have new: "new \<notin> db - {old}" using inj old same unfolding inj_on_def by blast
  have sub: "set (loaded l s) \<subseteq> {x \<in> db. member x \<and> iss_status x = s}"
    and t: "server_total l s = int (card {x \<in> db. member x \<and> iss_status x = s})" for s
    using acc by (simp_all add: list_accurate_def)
  have "server_total l' s = int (card {x \<in> replace_issue db old new. member x \<and> iss_status x = s})" for s
    unfolding card_replace [OF fin old new] tot t ..
  moreover have "set (loaded l' s) \<subseteq> {x \<in> replace_issue db old new. member x \<and> iss_status x = s}" for s
    using load [of s] sub [of s] by (auto simp: replace_issue_def split: if_splits)
  ultimately show ?thesis using dist by (simp add: list_accurate_def)
qed

lemma accurate_loaded:
  assumes fin: "finite db" and inj: "inj_on iss_id db" and acc: "list_accurate member db l"
    and old: "old \<in> db" and loc: "findIssueLocation l (iss_id old) = Some (st, c)"
  shows "c = old" "st = iss_status old" "member old"
proof -
  have c: "c \<in> set (loaded l st)" "iss_id c = iss_id old" using findIssueLocation_Some [OF loc] by auto
  have "set (loaded l st) \<subseteq> {x \<in> db. member x \<and> iss_status x = st}"
    using acc by (simp add: list_accurate_def)
  with c have m: "c \<in> db" "member c" "iss_status c = st" by auto
  with c old inj show "c = old" by (simp add: inj_on_def)
  with m show "st = iss_status old" "member old" by auto
qed

lemma accurate_patch:
  assumes fin: "finite db" and inj: "inj_on iss_id db" and acc: "list_accurate member db l"
    and old: "old \<in> db" and loc: "findIssueLocation l (iss_id old) = Some (st, c)"
    and pid: "iss_id (merge_issue old p) = iss_id old" and mem: "member (merge_issue old p)"
  shows "list_accurate member (replace_issue db old (merge_issue old p))
    (patchIssueInBuckets l (iss_id old) p)"
proof -
  note c = accurate_loaded [OF fin inj acc old loc]
  note loc' = loc [unfolded c]
  note pl = patch_loaded [OF accurate_ok [OF fin inj acc] loc' pid]
  show ?thesis
  proof (rule accurate_step [OF fin inj old pid acc])
    fix s
    show "server_total (patchIssueInBuckets l (iss_id old) p) s = server_total l s
        - (if member old \<and> iss_status old = s then 1 else 0)
        + (if member (merge_issue old p) \<and> iss_status (merge_issue old p) = s then 1 else 0)"
      using c(3) mem by (simp add: pl(2) eq_commute [of s])
    show "set (loaded (patchIssueInBuckets l (iss_id old) p) s) \<subseteq>
        {x \<in> set (loaded l s). iss_id x \<noteq> iss_id old} \<union>
        (if member (merge_issue old p) \<and> iss_status (merge_issue old p) = s
         then {merge_issue old p} else {})"
      using mem by (simp add: pl(1) eq_commute [of s])
    show "distinct (map iss_id (loaded (patchIssueInBuckets l (iss_id old) p) s))" by (rule pl(3))
  qed
qed

lemma accurate_remove:
  assumes fin: "finite db" and inj: "inj_on iss_id db" and acc: "list_accurate member db l"
    and old: "old \<in> db" and loc: "findIssueLocation l (iss_id old) = Some (st, c)"
    and pid: "iss_id new = iss_id old" and mem: "\<not> member new"
  shows "list_accurate member (replace_issue db old new) (removeIssueFromBuckets l (iss_id old))"
proof -
  note c = accurate_loaded [OF fin inj acc old loc]
  note rl = remove_loaded [OF accurate_ok [OF fin inj acc] loc]
  show ?thesis
  proof (rule accurate_step [OF fin inj old pid acc])
    fix s
    show "server_total (removeIssueFromBuckets l (iss_id old)) s = server_total l s
        - (if member old \<and> iss_status old = s then 1 else 0)
        + (if member new \<and> iss_status new = s then 1 else 0)"
      using c mem by (simp add: rl(2) eq_commute [of s])
    show "set (loaded (removeIssueFromBuckets l (iss_id old)) s) \<subseteq>
        {x \<in> set (loaded l s). iss_id x \<noteq> iss_id old} \<union>
        (if member new \<and> iss_status new = s then {new} else {})"
      by (simp add: rl(1))
    have "distinct (map iss_id (loaded l s))" using acc by (simp add: list_accurate_def)
    then show "distinct (map iss_id (loaded (removeIssueFromBuckets l (iss_id old)) s))"
      by (simp add: rl(1) distinct_map_filter)
  qed
qed

lemma accurate_absent:
  assumes fin: "finite db" and inj: "inj_on iss_id db" and acc: "list_accurate member db l"
    and old: "old \<in> db" and absent: "findIssueLocation l (iss_id old) = None"
    and pid: "iss_id new = iss_id old"
    and load: "\<And>s. loaded l' s = loaded l s"
    and tot: "\<And>s. server_total l' s = server_total l s
        - (if member old \<and> iss_status old = s then 1 else 0)
        + (if member new \<and> iss_status new = s then 1 else 0)"
  shows "list_accurate member (replace_issue db old new) l'"
proof (rule accurate_step [OF fin inj old pid acc tot])
  fix s
  show "set (loaded l' s) \<subseteq> {x \<in> set (loaded l s). iss_id x \<noteq> iss_id old} \<union>
      (if member new \<and> iss_status new = s then {new} else {})"
    using absent by (auto simp: load findIssueLocation_None)
  show "distinct (map iss_id (loaded l' s))" using acc by (simp add: load list_accurate_def)
qed

lemma accurate_total_pos:
  assumes "finite db" "list_accurate member db l" "old \<in> db" "member old"
  shows "1 \<le> server_total l (iss_status old)"
proof -
  have "0 < card {x \<in> db. member x \<and> iss_status x = iss_status old}"
    using assms by (simp add: card_gt_0_iff) blast
  then show ?thesis using assms(2) by (simp add: list_accurate_def)
qed

text \<open>One list of the loop, against the server's set of issues.\<close>

lemma reconcile_accurate:
  fixes key :: query_key
  assumes contract: "listContractFromKey key = (scope, flt)"
    and fin: "finite db" and inj: "inj_on iss_id db" and old: "old \<in> db"
    and base: "base = None \<or> base = Some old"
    and pid: "iss_id (merge_issue old p) = iss_id old"
    and creator: "iss_creator_id (merge_issue old p) = iss_creator_id old"
    and reads: "\<forall>u. reads_actors (involves u)" "reads_actors related"
    and cover: "dims_cover changed old (merge_issue old p)"
    and acc: "list_accurate (server_member involves related scope flt) db data"
  shows "snd (reconcileList (iss_id old) p changed base key data) \<or>
    list_accurate (server_member involves related scope flt) (replace_issue db old (merge_issue old p))
      (case fst (reconcileList (iss_id old) p changed base key data) of None \<Rightarrow> data | Some l \<Rightarrow> l)"
proof -
  let ?M = "server_member involves related scope flt" and ?new = "merge_issue old p"
  let ?rec = "reconcileList (iss_id old) p changed base key data"
  let ?db = "replace_issue db old ?new"
  have keep: "?M ?new = ?M old" if "\<not> listFilterDependsOn scope flt changed"
    by (rule listFilterDependsOn_False [OF that cover creator reads])
  have new_says: "says (merge_partial (partial_of old) p) ?new"
    by (metis partial_of_merge says_partial_of)
  show ?thesis
  proof (cases "findIssueLocation data (iss_id old)")
    case (Some loc)
    obtain st c where "loc = (st, c)" by (cases loc)
    with Some have loc: "findIssueLocation data (iss_id old) = Some (st, c)" by simp
    note c = accurate_loaded [OF fin inj acc old loc]
    note patch = accurate_patch [OF fin inj acc old loc pid]
      and rem = accurate_remove [OF fin inj acc old loc pid]
    show ?thesis
    proof (cases "listFilterDependsOn scope flt changed")
      case False
      then show ?thesis
        using patch keep c(3) by (simp add: reconcileList_def contract loc)
    next
      case True
      show ?thesis
      proof (cases "issueMatchesListFilter (merge_partial (partial_of old) p) scope flt")
        case Yes
        then show ?thesis
          using patch matches_sound(1) [OF new_says] True
          by (simp add: reconcileList_def contract loc c(1))
      next
        case No
        then show ?thesis
          using rem matches_sound(2) [OF new_says] True
          by (simp add: reconcileList_def contract loc c(1))
      qed (simp add: reconcileList_def contract loc c(1) True)
    qed
  next
    case absent: None
    note absent_acc = accurate_absent [OF fin inj acc old absent pid]
    have unchanged: "list_accurate ?M ?db data"
      if "?M ?new = ?M old" "?M old \<Longrightarrow> iss_status ?new = iss_status old"
      by (rule absent_acc) (use that in auto)
    show ?thesis
    proof (cases "listFilterDependsOn scope flt changed \<or> chg_status changed")
      case False
      then have "iss_status ?new = iss_status old" using cover by (simp add: dims_cover_def)
      then show ?thesis
        using unchanged keep False by (simp add: reconcileList_def contract absent)
    next
      case touched: True
      show ?thesis
      proof (cases base)
        case None
        then show ?thesis using touched by (auto simp: reconcileList_def contract absent Let_def)
      next
        case (Some b)
        with base have b: "base = Some old" by simp
        let ?was = "issueMatchesListFilter (partial_of old) scope flt"
          and ?is = "issueMatchesListFilter (merge_partial (partial_of old) p) scope flt"
        note was = matches_sound [OF says_partial_of, of old scope flt involves related]
          and now = matches_sound [OF new_says, of scope flt involves related]
        have t: "(\<not> listFilterDependsOn scope flt changed \<and> \<not> chg_status changed) = False"
          using touched by blast
        have rec: "?rec = (if ?was = No \<and> ?is = No then (None, False)
            else if ?was = Yes \<and> ?is = Yes then
              (case pat_status p of None \<Rightarrow> (None, False)
               | Some status \<Rightarrow> if \<not> chg_status changed then (None, False)
                   else if iss_status old = status then (None, False)
                   else (Some (moveBucketTotal data (iss_status old) status), True))
            else if ?was = Yes \<and> ?is = No then
              (Some (decrementBucketTotal data (iss_status old)), False)
            else (None, True))"
          unfolding reconcileList_def contract absent b Let_def prod.case option.case t if_False ..
        consider "?was = No" "?is = No" | "?was = Yes" "?is = Yes" | "?was = Yes" "?is = No"
          | "snd ?rec" unfolding rec by (cases ?was; cases ?is) auto
        then show ?thesis
        proof cases
          case 1
          with was(2) now(2) have "list_accurate ?M ?db data" by (intro unchanged) auto
          with 1 show ?thesis by (simp add: rec)
        next
          case 2
          with was(1) now(1) have m: "?M old" "?M ?new" by auto
          have stay: "list_accurate ?M ?db data" if "iss_status ?new = iss_status old"
            using m that by (intro unchanged) auto
          have "pat_status p = None \<Longrightarrow> iss_status ?new = iss_status old"
            by (simp add: merge_issue_def)
          moreover have "pat_status p = Some s \<Longrightarrow> iss_status ?new = s" for s
            by (simp add: merge_issue_def)
          moreover have "\<not> chg_status changed \<Longrightarrow> iss_status ?new = iss_status old"
            using cover by (simp add: dims_cover_def)
          ultimately show ?thesis using 2 stay by (auto simp: rec split: option.split)
        next
          case 3
          with was(1) now(2) have m: "?M old" "\<not> ?M ?new" by auto
          note dt = decrement_total [OF accurate_total_pos [OF fin acc old m(1)]]
          have "list_accurate ?M ?db (decrementBucketTotal data (iss_status old))"
            by (rule absent_acc) (use m dt in \<open>auto simp: eq_commute\<close>)
          with 3 show ?thesis by (simp add: rec)
        qed simp
      qed
    qed
  qed
qed

text \<open>The server's predicate of a list, read off its key.\<close>

definition key_member :: "(string \<Rightarrow> issue \<Rightarrow> bool) \<Rightarrow> (issue \<Rightarrow> bool) \<Rightarrow> query_key \<Rightarrow> issue \<Rightarrow> bool" where
  "key_member involves related key =
     (case listContractFromKey key of (scope, flt) \<Rightarrow> server_member involves related scope flt)"

context query_cache
begin

lemma apply_stale:
  "res_staleKeys (snd (applyIssueChange cl wsId i p changed base qc)) =
     map fst (filter (\<lambda>(k, l). snd (reconcileList i p changed base k l)) (bucketedListEntries cl qc wsId))"
  by (subst apply_result) simp

text \<open>What one list holds afterwards.\<close>

lemma apply_list:
  assumes "(key, l) \<in> set (bucketedListEntries cl (fst (applyIssueChange cl wsId i p changed base qc)) wsId)"
  obtains l0 where "(key, l0) \<in> set (bucketedListEntries cl qc wsId)"
    "l = (case fst (reconcileList i p changed base key l0) of None \<Rightarrow> l0 | Some l' \<Rightarrow> l')"
    "snd (reconcileList i p changed base key l0) \<Longrightarrow>
       key \<in> set (res_staleKeys (snd (applyIssueChange cl wsId i p changed base qc)))"
proof -
  let ?qc' = "fst (applyIssueChange cl wsId i p changed base qc)"
  have now: "getQueryData cl ?qc' key = Some (CList l)"
    and sel: "filter_selects (by_prefix (issueKeys_list wsId)) key \<or>
      filter_selects (by_prefix (issueKeys_myAll wsId)) key"
    using assms entries_iff by blast+
  have special: "key \<noteq> issueKeys_detail wsId i" "key \<noteq> inboxKeys_list wsId"
    using entries_not_special [OF assms] by blast+
  show ?thesis
  proof (cases "map_of (bucketedListEntries cl qc wsId) key")
    case None
    then have "(key, l) \<in> set (bucketedListEntries cl qc wsId)"
      using now special sel by (simp add: apply_get entries_iff)
    with None show ?thesis by (force simp: map_of_eq_None_iff)
  next
    case (Some l0)
    then have e: "(key, l0) \<in> set (bucketedListEntries cl qc wsId)" using map_of_entries by blast
    then have "getQueryData cl qc key = Some (CList l0)" using entries_iff by blast
    then have "l = (case fst (reconcileList i p changed base key l0) of None \<Rightarrow> l0 | Some l' \<Rightarrow> l')"
      using now special Some by (auto simp: apply_get split: option.splits)
    with e that show ?thesis by (force simp: apply_stale)
  qed
qed

lemma apply_accurate:
  assumes fin: "finite db" and inj: "inj_on iss_id db" and old: "old \<in> db"
    and base: "base = None \<or> base = Some old"
    and pid: "iss_id (merge_issue old p) = iss_id old"
    and creator: "iss_creator_id (merge_issue old p) = iss_creator_id old"
    and reads: "\<forall>u. reads_actors (involves u)" "reads_actors related"
    and cover: "dims_cover changed old (merge_issue old p)"
    and acc: "\<forall>(key, l) \<in> set (bucketedListEntries cl qc wsId).
      list_accurate (key_member involves related key) db l"
  shows "(let (qc', result) = applyIssueChange cl wsId (iss_id old) p changed base qc in
    (\<forall>(key, l) \<in> set (bucketedListEntries cl qc' wsId).
       key \<in> set (res_staleKeys result)
       \<or> list_accurate (key_member involves related key) (replace_issue db old (merge_issue old p)) l)
    \<and> (\<forall>(key, l) \<in> set (bucketedListEntries cl qc wsId).
         findIssueLocation l (iss_id old) \<noteq> None
         \<and> \<not> listFilterDependsOn (fst (listContractFromKey key)) (snd (listContractFromKey key)) changed
         \<longrightarrow> key \<notin> set (res_staleKeys result)))"
proof -
  let ?qc' = "fst (applyIssueChange cl wsId (iss_id old) p changed base qc)"
    and ?r = "snd (applyIssueChange cl wsId (iss_id old) p changed base qc)"
  let ?rec = "reconcileList (iss_id old) p changed base"
  have "key \<in> set (res_staleKeys ?r)
       \<or> list_accurate (key_member involves related key) (replace_issue db old (merge_issue old p)) l"
    if "(key, l) \<in> set (bucketedListEntries cl ?qc' wsId)" for key l
  proof -
    note now = that
    obtain l0 where e: "(key, l0) \<in> set (bucketedListEntries cl qc wsId)"
      and l: "l = (case fst (?rec key l0) of None \<Rightarrow> l0 | Some l' \<Rightarrow> l')"
      and st: "snd (?rec key l0) \<Longrightarrow> key \<in> set (res_staleKeys ?r)"
      using apply_list [OF now] by blast
    obtain scope flt where c: "listContractFromKey key = (scope, flt)" by (cases "listContractFromKey key")
    have "list_accurate (server_member involves related scope flt) db l0"
      using acc e c by (auto simp: key_member_def)
    from reconcile_accurate [OF c fin inj old base pid creator reads cover this] st show ?thesis
      by (auto simp: l key_member_def c)
  qed
  moreover have "key \<notin> set (res_staleKeys ?r)"
    if e: "(key, l) \<in> set (bucketedListEntries cl qc wsId)"
      and f: "findIssueLocation l (iss_id old) \<noteq> None"
      and d: "\<not> listFilterDependsOn (fst (listContractFromKey key)) (snd (listContractFromKey key)) changed"
    for key l
  proof
    assume "key \<in> set (res_staleKeys ?r)"
    then obtain l' where "(key, l') \<in> set (bucketedListEntries cl qc wsId)" "snd (?rec key l')"
      by (auto simp: apply_stale)
    with e have "snd (?rec key l)" using map_of_entries by (metis option.inject)
    with f d show False
      by (auto simp: reconcileList_def split: prod.splits option.splits)
  qed
  ultimately show ?thesis by (auto simp: case_prod_beta Let_def)
qed

end


text \<open>The worked example: one list with one of the server's two issues loaded.\<close>

definition example_db :: "issue set" where
  "example_db = {example_issue ''i1'' Todo 1, example_issue ''i2'' Todo 2}"

definition example_list :: list_cache where
  "example_list = \<lparr>byStatus = (\<lambda>s. if s = Todo
     then Some \<lparr>bucket_issues = [example_issue ''i1'' Todo 1], bucket_total = 2\<rparr> else None)\<rparr>"

definition example_cache :: memory_cache where
  "example_cache = [(issueKeys_listSorted ''w'' None, CList example_list, False)]"

lemma example_buckets [simp]:
  "loaded example_list s = (if s = Todo then [example_issue ''i1'' Todo 1] else [])"
  "server_total example_list s = (if s = Todo then 2 else 0)"
  by (simp_all add: loaded_def server_total_def getBucket_def example_list_def EMPTY_BUCKET_def)

lemma example_db_members:
  assumes "\<forall>x\<in>example_db. member x"
  shows "{x \<in> example_db. member x \<and> iss_status x = s} = (if s = Todo then example_db else {})"
proof -
  have "\<forall>x\<in>example_db. iss_status x = Todo" by (simp add: example_db_def example_issue_def)
  with assms show ?thesis by auto
qed

lemma card_example_db: "card example_db = 2"
  by (simp add: example_db_def example_issue_def)

lemma example_accurate:
  assumes "\<forall>x\<in>example_db. member x"
  shows "list_accurate member example_db example_list"
  unfolding list_accurate_def example_db_members [OF assms]
  by (simp add: card_example_db) (simp add: example_db_def)

lemma example_entries:
  "bucketedListEntries memory_client example_cache ''w'' = [(issueKeys_listSorted ''w'' None, example_list)]"
  by (simp add: bucketedListEntries_def memory_client_def example_cache_def by_prefix_selects
      query_key_defs List.map_filter_simps)

definition example_change :: issue_patch where
  "example_change = empty_patch\<lparr>pat_status := Some Done\<rparr>"

definition example_dims :: issue_changed_dims where
  "example_dims = \<lparr>chg_assignee = False, chg_project = False, chg_status = True\<rparr>"

lemma example_change_result:
  "merge_issue (example_issue ''i1'' Todo 1) example_change = example_issue ''i1'' Done 1"
  by (simp add: merge_issue_def empty_patch_def example_issue_def example_change_def)


section \<open>Lists with a window\<close>

text \<open>
  A list whose key also carries a date or property window is not covered: when an issue
  that belongs to the list's filter but lies outside its window is moved out of the filter, the
  list loses one from a total the issue was never counted in, the key is not reported stale, and
  the list disagrees with the server.
\<close>
theorem windowed_list_drifts:
  assumes contract: "listContractFromKey key = (scope, flt)"
    and fin: "finite db" and inj: "inj_on iss_id db" and old: "old \<in> db"
    and pid: "iss_id (merge_issue old p) = iss_id old"
    and touched: "listFilterDependsOn scope flt changed"
    and was: "issueMatchesListFilter (partial_of old) scope flt = Yes"
    and isnt: "issueMatchesListFilter (partial_of (merge_issue old p)) scope flt = No"
    and outside: "\<not> window old"
    and acc: "list_accurate (\<lambda>x. server_member involves related scope flt x \<and> window x) db data"
    and some: "0 < server_total data (iss_status old)"
  shows "(\<exists>l. reconcileList (iss_id old) p changed (Some old) key data = (Some l, False)
    \<and> server_total l (iss_status old) = server_total data (iss_status old) - 1
    \<and> \<not> list_accurate (\<lambda>x. server_member involves related scope flt x \<and> window x)
          (replace_issue db old (merge_issue old p)) l)"
proof -
  let ?M = "\<lambda>x. server_member involves related scope flt x \<and> window x" and ?new = "merge_issue old p"
  let ?l = "decrementBucketTotal data (iss_status old)"
  have "findIssueLocation data (iss_id old) = None"
  proof (rule ccontr)
    assume "findIssueLocation data (iss_id old) \<noteq> None"
    then obtain st c where "findIssueLocation data (iss_id old) = Some (st, c)" by auto
    from accurate_loaded(3) [OF fin inj acc old this] outside show False by simp
  qed
  then have rec: "reconcileList (iss_id old) p changed (Some old) key data = (Some ?l, False)"
    using touched was isnt by (simp add: reconcileList_def contract partial_of_merge)
  have "1 \<le> server_total data (iss_status old)" using some by simp
  note dt = decrement_total [OF this]
  have new: "\<not> ?M ?new" using matches_sound(2) [OF says_partial_of isnt] by simp
  have "?new \<notin> db - {old}" using inj old pid unfolding inj_on_def by blast
  then have "int (card {x \<in> replace_issue db old ?new. ?M x \<and> iss_status x = iss_status old}) =
      int (card {x \<in> db. ?M x \<and> iss_status x = iss_status old})"
    using card_replace [OF fin old, of ?new "\<lambda>x. ?M x \<and> iss_status x = iss_status old"] outside new
    by simp
  also have "\<dots> = server_total data (iss_status old)" using acc by (simp add: list_accurate_def)
  finally have "server_total ?l (iss_status old) \<noteq>
      int (card {x \<in> replace_issue db old ?new. ?M x \<and> iss_status x = iss_status old})"
    by (simp add: dt)
  then have "\<not> list_accurate ?M (replace_issue db old ?new) ?l"
    unfolding list_accurate_def by blast
  with rec dt show ?thesis by simp
qed

text \<open>Two issues of one user, the second created outside the window of the list.\<close>

definition windowed_key :: query_key where
  "windowed_key = issueKeys_myListSorted ''w'' ''assigned'' (empty_filter\<lparr>mif_assignee_id := Some ''u1''\<rparr>)
     (Some (empty_sort\<lparr>srt_date_field := Some ''created_at'',
        srt_date_start := Some ''2026-01-01'', srt_date_end := Some ''2026-02-01''\<rparr>))"

definition outside_issue :: issue where
  "outside_issue = (example_issue ''i2'' Todo 2)\<lparr>iss_created_at := ''2025-01-01T00:00:00Z''\<rparr>"

definition windowed_list :: list_cache where
  "windowed_list = \<lparr>byStatus = (\<lambda>s. if s = Todo
     then Some \<lparr>bucket_issues = [example_issue ''i1'' Todo 1], bucket_total = 1\<rparr> else None)\<rparr>"

lemma windowed_list_drifts_witness:
  "\<exists>l. reconcileList ''i2'' (empty_patch\<lparr>pat_assignee_id := Some (Some ''u2'')\<rparr>)
      \<lparr>chg_assignee = True, chg_project = False, chg_status = False\<rparr> (Some outside_issue)
      windowed_key windowed_list = (Some l, False) \<and> server_total l Todo = 0"
proof -
  let ?flt = "empty_filter\<lparr>mif_assignee_id := Some ''u1''\<rparr>" and ?scope = "Some ''assigned''"
    and ?p = "empty_patch\<lparr>pat_assignee_id := Some (Some ''u2'')\<rparr>"
    and ?ch = "\<lparr>chg_assignee = True, chg_project = False, chg_status = False\<rparr>"
    and ?w = "\<lambda>x. iss_created_at x = ''2026-01-01T00:00:00Z''"
    and ?db = "{example_issue ''i1'' Todo 1, outside_issue}"
  let ?M = "\<lambda>x. server_member (\<lambda>u i. False) (\<lambda>i. False) ?scope ?flt x \<and> ?w x"
  have o: "iss_id outside_issue = ''i2''" "iss_status outside_issue = Todo" "\<not> ?w outside_issue"
    "iss_assignee_id outside_issue = Some ''u1''"
    by (simp_all add: outside_issue_def example_issue_def)
  have m1: "?M (example_issue ''i1'' Todo 1)"
    by (simp add: server_member_def empty_filter_def example_issue_def)
  have c: "listContractFromKey windowed_key = (?scope, ?flt)"
    by (simp add: listContractFromKey_def windowed_key_def query_key_defs)
  have mem: "{x \<in> ?db. ?M x \<and> iss_status x = s} = (if s = Todo then {example_issue ''i1'' Todo 1} else {})" for s
    using o m1 by (auto simp: example_issue_def)
  have b: "loaded windowed_list s = (if s = Todo then [example_issue ''i1'' Todo 1] else [])"
    "server_total windowed_list s = (if s = Todo then 1 else 0)" for s
    by (simp_all add: loaded_def server_total_def getBucket_def windowed_list_def EMPTY_BUCKET_def)
  have "finite ?db" "inj_on iss_id ?db" "outside_issue \<in> ?db"
    using o by (auto simp: example_issue_def)
  moreover have "iss_id (merge_issue outside_issue ?p) = iss_id outside_issue"
    by (simp add: merge_issue_def empty_patch_def)
  moreover have "listFilterDependsOn ?scope ?flt ?ch" by (simp add: listFilterDependsOn_def)
  moreover have "issueMatchesListFilter (partial_of outside_issue) ?scope ?flt = Yes"
    using o by (simp add: matches_Yes check_field_def empty_filter_def partial_of_def)
  moreover have "issueMatchesListFilter (partial_of (merge_issue outside_issue ?p)) ?scope ?flt = No"
    by (simp add: matches_No check_field_def empty_filter_def partial_of_def merge_issue_def empty_patch_def)
  moreover have "list_accurate ?M ?db windowed_list"
    unfolding list_accurate_def mem b by simp
  moreover have "0 < server_total windowed_list (iss_status outside_issue)" using o b by simp
  ultimately obtain l where "reconcileList (iss_id outside_issue) ?p ?ch (Some outside_issue)
      windowed_key windowed_list = (Some l, False)"
    "server_total l (iss_status outside_issue) = server_total windowed_list (iss_status outside_issue) - 1"
    using windowed_list_drifts [OF c, of ?db outside_issue ?p ?ch ?w "\<lambda>u i. False" "\<lambda>i. False"
        windowed_list] o(3) by blast
  then show ?thesis using o b by simp
qed

end
