(* ===== verification/Recent_Issues.thy ===== *)
theory Recent_Issues
  imports Js_Object
begin

text \<open>
  The recent issues of the command bar (\<open>packages/core/issues/stores/recent-issues-store.ts\<close>): per
  workspace the last visited issues, newest first.  The clock is an argument of \<open>recordVisit\<close>.
\<close>

record recent_entry =
  rec_id :: string
  rec_visitedAt :: rat

record recent_state =
  rec_byWorkspace :: "recent_entry list js_object"

definition MAX_RECENT_ISSUES :: nat where
  "MAX_RECENT_ISSUES = 20"

definition MAX_WORKSPACES :: nat where
  "MAX_WORKSPACES = 50"

text \<open>\<open>next[wsId]?.[0]?.visitedAt ?? 0\<close>.\<close>

definition latest_visit :: "recent_entry list js_object \<Rightarrow> string \<Rightarrow> rat" where
  "latest_visit byWs wsId = (case js_get byWs wsId of Some (e # _) \<Rightarrow> rec_visitedAt e | _ \<Rightarrow> 0)"

definition oldest_workspace :: "recent_entry list js_object \<Rightarrow> string list \<Rightarrow> string" where
  "oldest_workspace byWs ids = fold (\<lambda>candidateId oldestId.
     if latest_visit byWs candidateId < latest_visit byWs oldestId then candidateId else oldestId)
     (tl ids) (hd ids)"

definition recordVisit :: "rat \<Rightarrow> string \<Rightarrow> string \<Rightarrow> recent_state \<Rightarrow> recent_state" where
  "recordVisit now wsId i state =
     (let bucket = (case js_get (rec_byWorkspace state) wsId of None \<Rightarrow> [] | Some b \<Rightarrow> b);
          filtered = filter (\<lambda>e. rec_id e \<noteq> i) bucket;
          nextBucket = take MAX_RECENT_ISSUES (\<lparr>rec_id = i, rec_visitedAt = now\<rparr> # filtered);
          nextByWorkspace = js_put wsId nextBucket (rec_byWorkspace state);
          ids = js_keys nextByWorkspace
      in if length ids > MAX_WORKSPACES then
           \<lparr>rec_byWorkspace =
              filter (\<lambda>(k, _). k \<noteq> oldest_workspace nextByWorkspace ids) nextByWorkspace\<rparr>
         else \<lparr>rec_byWorkspace = nextByWorkspace\<rparr>)"

definition forgetIssue :: "string \<Rightarrow> string \<Rightarrow> recent_state \<Rightarrow> recent_state" where
  "forgetIssue wsId i state =
     (case js_get (rec_byWorkspace state) wsId of
        None \<Rightarrow> state
      | Some bucket \<Rightarrow>
          let nextBucket = filter (\<lambda>e. rec_id e \<noteq> i) bucket in
          if length nextBucket = length bucket then state
          else if nextBucket = [] then
            \<lparr>rec_byWorkspace = filter (\<lambda>(k, _). k \<noteq> wsId) (rec_byWorkspace state)\<rparr>
          else \<lparr>rec_byWorkspace = js_put wsId nextBucket (rec_byWorkspace state)\<rparr>)"

definition pruneWorkspaces :: "string list \<Rightarrow> recent_state \<Rightarrow> recent_state" where
  "pruneWorkspaces activeWsIds state =
     (let kept = filter (\<lambda>(k, _). k \<in> set activeWsIds) (rec_byWorkspace state);
          changed = list_ex (\<lambda>(k, _). k \<notin> set activeWsIds) (rec_byWorkspace state)
      in if changed then \<lparr>rec_byWorkspace = js_from_entries kept\<rparr> else state)"

definition selectRecentIssues :: "string option \<Rightarrow> recent_state \<Rightarrow> recent_entry list" where
  "selectRecentIssues wsId state =
     (if falsy wsId then []
      else case js_get (rec_byWorkspace state) (the wsId) of None \<Rightarrow> [] | Some b \<Rightarrow> b)"

section \<open>Invariant\<close>

definition bucket_bounded :: "recent_entry list \<Rightarrow> bool" where
  "bucket_bounded b \<longleftrightarrow> b \<noteq> [] \<and> length b \<le> MAX_RECENT_ISSUES \<and> distinct (map rec_id b)"

definition recent_ok :: "recent_state \<Rightarrow> bool" where
  "recent_ok state \<longleftrightarrow> js_ok (rec_byWorkspace state)
     \<and> length (rec_byWorkspace state) \<le> MAX_WORKSPACES
     \<and> (\<forall>k b. js_get (rec_byWorkspace state) k = Some b \<longrightarrow> bucket_bounded b)"

datatype recent_action = Visit rat string string | Forget string string | Prune "string list"

fun recent_step :: "recent_action \<Rightarrow> recent_state \<Rightarrow> recent_state" where
  "recent_step (Visit now ws i) = recordVisit now ws i"
| "recent_step (Forget ws i) = forgetIssue ws i"
| "recent_step (Prune ws) = pruneWorkspaces ws"

lemma length_insert_index: "length (insert_index n k v ob) = Suc (length ob)"
  by (induction n k v ob rule: insert_index.induct) (auto split: option.split)

lemma length_put:
  "length (js_put k v ob) = (if js_get ob k = None then Suc (length ob) else length ob)"
proof -
  have "length (js_update k v ob) = length ob"
    using arg_cong [where f = length, OF js_keys_update [of k v ob]] by (simp add: js_keys_def)
  then show ?thesis
    by (auto simp: js_put_def length_insert_index js_get_None_iff split: option.split)
qed

lemma fold_min_in:
  "fold (\<lambda>c a. if f c < (f a :: rat) then c else a) xs a \<in> insert a (set xs)"
proof (induction xs arbitrary: a)
  case (Cons x xs)
  show ?case using Cons [of "if f x < f a then x else a"] by auto
qed simp

lemma fold_min_le:
  "y \<in> insert a (set xs) \<Longrightarrow> f (fold (\<lambda>c a. if f c < (f a :: rat) then c else a) xs a) \<le> f y"
proof (induction xs arbitrary: a y)
  case (Cons x xs)
  let ?a = "if f x < f a then x else a"
  have "f (fold (\<lambda>c a. if f c < f a then c else a) xs ?a) \<le> f ?a" by (rule Cons.IH) simp
  moreover have "f ?a \<le> f a" "f ?a \<le> f x" by auto
  ultimately show ?case
    using Cons.prems Cons.IH [of y ?a] by auto
qed simp

lemma oldest_in: "ids \<noteq> [] \<Longrightarrow> oldest_workspace byWs ids \<in> set ids"
  using fold_min_in [of "latest_visit byWs" "tl ids" "hd ids"]
  by (cases ids) (auto simp: oldest_workspace_def)

lemma oldest_le: "w \<in> set ids \<Longrightarrow> latest_visit byWs (oldest_workspace byWs ids) \<le> latest_visit byWs w"
  using fold_min_le [of w "hd ids" "tl ids" "latest_visit byWs"]
  by (cases ids) (auto simp: oldest_workspace_def)

lemma bucket_bounded_visit:
  assumes "b = [] \<or> bucket_bounded b"
  shows "bucket_bounded (take MAX_RECENT_ISSUES (\<lparr>rec_id = i, rec_visitedAt = now\<rparr> #
    filter (\<lambda>e. rec_id e \<noteq> i) b))"
proof -
  have "distinct (map rec_id (\<lparr>rec_id = i, rec_visitedAt = now\<rparr> # filter (\<lambda>e. rec_id e \<noteq> i) b))"
    using assms by (auto simp: bucket_bounded_def distinct_map_filter)
  then have "distinct (take MAX_RECENT_ISSUES (map rec_id
      (\<lparr>rec_id = i, rec_visitedAt = now\<rparr> # filter (\<lambda>e. rec_id e \<noteq> i) b)))"
    by (rule distinct_take)
  then show ?thesis by (simp add: bucket_bounded_def take_map MAX_RECENT_ISSUES_def)
qed

lemma recent_ok_filter:
  "recent_ok st \<Longrightarrow> recent_ok \<lparr>rec_byWorkspace = filter (\<lambda>(k, _). p k) (rec_byWorkspace st)\<rparr>"
  by (auto simp: recent_ok_def js_ok_filter js_get_filter_key split: if_splits
      intro: le_trans [OF length_filter_le])

lemma recordVisit_ok:
  assumes ok: "recent_ok st"
  shows "recent_ok (recordVisit now ws i st)"
proof -
  let ?old = "case js_get (rec_byWorkspace st) ws of None \<Rightarrow> [] | Some b \<Rightarrow> b"
  define nb where "nb = take MAX_RECENT_ISSUES (\<lparr>rec_id = i, rec_visitedAt = now\<rparr> #
    filter (\<lambda>e. rec_id e \<noteq> i) ?old)"
  define byWs where "byWs = js_put ws nb (rec_byWorkspace st)"
  have nb: "bucket_bounded nb"
    unfolding nb_def using ok by (intro bucket_bounded_visit) (auto simp: recent_ok_def split: option.split)
  have js: "js_ok byWs" using ok by (simp add: byWs_def recent_ok_def js_ok_put)
  have get: "js_get byWs k = Some b \<Longrightarrow> bucket_bounded b" for k b
    using ok nb by (auto simp: byWs_def js_get_put recent_ok_def split: if_splits)
  have len: "length byWs \<le> Suc MAX_WORKSPACES"
    using ok by (simp add: byWs_def length_put recent_ok_def)
  have v: "recordVisit now ws i st =
      (if length byWs > MAX_WORKSPACES
       then \<lparr>rec_byWorkspace = filter (\<lambda>(k, _). k \<noteq> oldest_workspace byWs (js_keys byWs)) byWs\<rparr>
       else \<lparr>rec_byWorkspace = byWs\<rparr>)"
    by (simp add: recordVisit_def Let_def nb_def byWs_def js_keys_def)
  show ?thesis
  proof (cases "length byWs > MAX_WORKSPACES")
    case True
    then have "js_keys byWs \<noteq> []" by (auto simp: js_keys_def)
    then have "oldest_workspace byWs (js_keys byWs) \<in> set (js_keys byWs)" by (rule oldest_in)
    then have "\<exists>e\<in>set byWs. fst e = oldest_workspace byWs (js_keys byWs)" by (force simp: js_keys_def)
    then have "length (filter (\<lambda>(k, _). k \<noteq> oldest_workspace byWs (js_keys byWs)) byWs) < length byWs"
      by (auto intro!: length_filter_less)
    with True len js get show ?thesis
      by (auto simp: v recent_ok_def js_ok_filter js_get_filter_key split: if_splits)
  next
    case False
    with js get show ?thesis by (simp add: v recent_ok_def)
  qed
qed

lemma forgetIssue_ok:
  assumes ok: "recent_ok st"
  shows "recent_ok (forgetIssue ws i st)"
proof (cases "js_get (rec_byWorkspace st) ws")
  case None
  with ok show ?thesis by (simp add: forgetIssue_def)
next
  case (Some b)
  let ?nb = "filter (\<lambda>e. rec_id e \<noteq> i) b"
  have b: "bucket_bounded b" using ok Some by (auto simp: recent_ok_def)
  have len: "length ?nb \<le> length b" by (rule length_filter_le)
  have nb: "?nb \<noteq> [] \<Longrightarrow> bucket_bounded ?nb"
    using b le_trans [OF len] by (simp add: bucket_bounded_def distinct_map_filter)
  have "recent_ok \<lparr>rec_byWorkspace = js_put ws ?nb (rec_byWorkspace st)\<rparr>" if "?nb \<noteq> []"
    using ok nb [OF that] Some
    by (auto simp: recent_ok_def js_ok_put js_get_put length_put split: if_splits)
  then show ?thesis
    using ok recent_ok_filter [OF ok, of "\<lambda>k. k \<noteq> ws"] Some
    by (auto simp: forgetIssue_def Let_def)
qed

lemma pruneWorkspaces_ok:
  assumes ok: "recent_ok st"
  shows "recent_ok (pruneWorkspaces ws st)"
  using recent_ok_filter [OF ok, of "\<lambda>k. k \<in> set ws"] ok
  by (simp add: pruneWorkspaces_def Let_def recent_ok_def js_ok_filter js_from_entries_id)

lemma forget_absent: "i \<notin> rec_id ` set (selectRecentIssues (Some ws) (forgetIssue ws i st))"
proof (cases "js_get (rec_byWorkspace st) ws")
  case (Some b)
  let ?nb = "filter (\<lambda>e. rec_id e \<noteq> i) b"
  show ?thesis
  proof (cases "length ?nb = length b")
    case True
    then have "\<forall>e\<in>set b. rec_id e \<noteq> i"
      using length_filter_less [of _ b "\<lambda>e. rec_id e \<noteq> i"] by fastforce
    moreover have "forgetIssue ws i st = st"
      using Some True by (simp add: forgetIssue_def)
    ultimately show ?thesis using Some by (auto simp: selectRecentIssues_def)
  next
    case False
    then have "set (selectRecentIssues (Some ws) (forgetIssue ws i st)) \<subseteq> set ?nb"
      using Some by (simp add: forgetIssue_def selectRecentIssues_def Let_def js_get_put js_get_filter_key)
    then show ?thesis by auto
  qed
qed (simp add: forgetIssue_def selectRecentIssues_def)

section \<open>Properties\<close>

text \<open>
  The recent-issues store stays bounded and duplicate-free under every sequence of visits,
  deletions and workspace removals: at most fifty workspaces, each with one to twenty distinct
  issues.
\<close>
theorem recent_issues_bounded:
  assumes "recent_ok st"
  shows "recent_ok (fold recent_step acts st)"
  using assms
proof (induction acts arbitrary: st)
  case (Cons a acts)
  have "recent_ok (recent_step a st)"
    using Cons.prems recordVisit_ok forgetIssue_ok pruneWorkspaces_ok by (cases a) auto
  with Cons.IH show ?case by simp
qed simp

lemma recent_issues_bounded_witness:
  "recent_ok (fold recent_step [Visit 1 ''w'' ''a'', Visit 2 ''w'' ''b'', Forget ''w'' ''a''] \<lparr>rec_byWorkspace = []\<rparr>)"
  by (rule recent_issues_bounded) (simp add: recent_ok_def)

text \<open>
  What a visit and a deletion leave behind: after a visit the issue heads its workspace's
  list unless the cap evicted that workspace, the other issues keep their order, and the evicted
  workspace is one whose latest visit is oldest; after forgetting an issue it is not in its
  workspace's list, and the lists of other workspaces are untouched.
\<close>
theorem recordVisit_forget_spec:
  assumes ok: "recent_ok st" and w: "ws \<noteq> []"
  shows "(let st' = recordVisit now ws i st in
      selectRecentIssues (Some ws) st' = []
      \<and> (\<forall>w. js_get (rec_byWorkspace st') w \<noteq> None \<longrightarrow> now \<le> latest_visit (rec_byWorkspace st) w)
      \<or> selectRecentIssues (Some ws) st' = take MAX_RECENT_ISSUES (\<lparr>rec_id = i, rec_visitedAt = now\<rparr> #
          filter (\<lambda>e. rec_id e \<noteq> i) (selectRecentIssues (Some ws) st)))
    \<and> i \<notin> rec_id ` set (selectRecentIssues (Some ws) (forgetIssue ws i st))
    \<and> (\<forall>w. w \<noteq> ws \<longrightarrow>
         selectRecentIssues (Some w) (forgetIssue ws i st) = selectRecentIssues (Some w) st)"
proof -
  let ?old = "case js_get (rec_byWorkspace st) ws of None \<Rightarrow> [] | Some b \<Rightarrow> b"
  define nb where "nb = take MAX_RECENT_ISSUES (\<lparr>rec_id = i, rec_visitedAt = now\<rparr> #
    filter (\<lambda>e. rec_id e \<noteq> i) ?old)"
  define byWs where "byWs = js_put ws nb (rec_byWorkspace st)"
  define victim where "victim = oldest_workspace byWs (js_keys byWs)"
  have v: "recordVisit now ws i st =
      (if length byWs > MAX_WORKSPACES
       then \<lparr>rec_byWorkspace = filter (\<lambda>(k, _). k \<noteq> victim) byWs\<rparr>
       else \<lparr>rec_byWorkspace = byWs\<rparr>)"
    by (simp add: recordVisit_def Let_def nb_def byWs_def victim_def js_keys_def)
  have old: "?old = selectRecentIssues (Some ws) st" using w by (simp add: selectRecentIssues_def)
  have latest: "latest_visit byWs ws = now"
    by (simp add: latest_visit_def byWs_def js_get_put nb_def MAX_RECENT_ISSUES_def)
  have sel: "js_get byWs ws = Some nb" by (simp add: byWs_def js_get_put)
  have "selectRecentIssues (Some ws) (recordVisit now ws i st) = []
      \<and> (\<forall>w. js_get (rec_byWorkspace (recordVisit now ws i st)) w \<noteq> None \<longrightarrow>
           now \<le> latest_visit (rec_byWorkspace st) w)
    \<or> selectRecentIssues (Some ws) (recordVisit now ws i st) = nb"
  proof (cases "length byWs > MAX_WORKSPACES \<and> victim = ws")
    case True
    have "now \<le> latest_visit (rec_byWorkspace st) u"
      if "js_get (filter (\<lambda>(k, _). k \<noteq> victim) byWs) u \<noteq> None" for u
    proof -
      have u: "u \<noteq> ws" "js_get byWs u \<noteq> None"
        using that True by (auto simp: js_get_filter_key split: if_splits)
      then have "u \<in> set (js_keys byWs)" by (simp add: js_get_None_iff)
      from oldest_le [OF this, of byWs] have "now \<le> latest_visit byWs u"
        using True latest by (simp add: victim_def)
      with u show ?thesis by (simp add: latest_visit_def byWs_def js_get_put)
    qed
    with True show ?thesis
      by (auto simp: v selectRecentIssues_def js_get_filter_key)
  next
    case False
    then show ?thesis using w sel by (auto simp: v selectRecentIssues_def js_get_filter_key)
  qed
  moreover have "i \<notin> rec_id ` set (selectRecentIssues (Some ws) (forgetIssue ws i st))"
    by (rule forget_absent)
  moreover have "selectRecentIssues (Some u) (forgetIssue ws i st) = selectRecentIssues (Some u) st"
    if "u \<noteq> ws" for u
    using that by (auto simp: forgetIssue_def selectRecentIssues_def Let_def js_get_put js_get_filter_key
        split: option.split)
  ultimately show ?thesis unfolding Let_def nb_def old by blast
qed

lemma recordVisit_forget_spec_witness:
  "''a'' \<notin> rec_id ` set (selectRecentIssues (Some ''w'') (forgetIssue ''w'' ''a''
     \<lparr>rec_byWorkspace = [(''w'', [\<lparr>rec_id = ''a'', rec_visitedAt = 3\<rparr>])]\<rparr>))"
proof -
  have "recent_ok \<lparr>rec_byWorkspace = js_put ''w'' [\<lparr>rec_id = ''a'', rec_visitedAt = 3\<rparr>] []\<rparr>"
    by (simp add: recent_ok_def js_ok_put js_get_put bucket_bounded_def MAX_RECENT_ISSUES_def
        MAX_WORKSPACES_def length_put)
  moreover have "js_put ''w'' [\<lparr>rec_id = ''a'', rec_visitedAt = (3 :: rat)\<rparr>] [] =
      [(''w'', [\<lparr>rec_id = ''a'', rec_visitedAt = 3\<rparr>])]" by code_simp
  ultimately have "recent_ok \<lparr>rec_byWorkspace = [(''w'', [\<lparr>rec_id = ''a'', rec_visitedAt = 3\<rparr>])]\<rparr>"
    by simp
  from recordVisit_forget_spec [OF this, of "''w''"] show ?thesis by blast
qed

end
