(* ===== verification/Issue_Events.thy ===== *)
theory Issue_Events
  imports Issue_Soundness Recent_Issues
begin

text \<open>
  The cache updates of the realtime events and of a deletion (\<open>packages/core/issues/ws-updaters.ts\<close>,
  \<open>issues/delete-cache.ts\<close>, \<open>inbox/ws-updaters.ts\<close>).  A run returns the exception it raised, if
  it raised one, and the cache it left behind.  Reading \<open>byStatus\<close> of data that has none raises a
  \<open>TypeError\<close>, which is \<open>read_list\<close>.
\<close>

section \<open>Runs that may raise\<close>

datatype js_error = TypeError

type_synonym 'q run = "js_error option \<times> 'q"

definition and_then :: "'q run \<Rightarrow> ('q \<Rightarrow> 'q run) \<Rightarrow> 'q run" where
  "and_then r f = (case r of (Some e, qc) \<Rightarrow> (Some e, qc) | (None, qc) \<Rightarrow> f qc)"

fun read_list :: "cache_value option \<Rightarrow> js_error + list_cache option" where
  "read_list None = Inr None"
| "read_list (Some (CList l)) = Inr (Some l)"
| "read_list (Some _) = Inl TypeError"

text \<open>\<open>for (const [key, data] of entries) if (data) setQueryData(key, f(data))\<close>.\<close>

fun write_lists ::
  "'q query_client \<Rightarrow> (list_cache \<Rightarrow> list_cache) \<Rightarrow> (query_key \<times> cache_value option) list \<Rightarrow> 'q \<Rightarrow> 'q run"
where
  "write_lists cl f [] qc = (None, qc)"
| "write_lists cl f ((key, data) # rest) qc =
     (case read_list data of
        Inl e \<Rightarrow> (Some e, qc)
      | Inr None \<Rightarrow> write_lists cl f rest qc
      | Inr (Some l) \<Rightarrow> write_lists cl f rest (setQueryData cl key (CList (f l)) qc))"

section \<open>Deleted issues\<close>

definition collectParentId :: "string option \<Rightarrow> string list \<Rightarrow> string list" where
  "collectParentId parentId ps =
     (if falsy parentId then ps else if the parentId \<in> set ps then ps else ps @ [the parentId])"

fun collect_from_lists ::
  "string \<Rightarrow> (query_key \<times> cache_value option) list \<Rightarrow> string list \<Rightarrow> js_error + string list" where
  "collect_from_lists i [] ps = Inr ps"
| "collect_from_lists i ((key, data) # rest) ps =
     (case read_list data of
        Inl e \<Rightarrow> Inl e
      | Inr None \<Rightarrow> collect_from_lists i rest ps
      | Inr (Some l) \<Rightarrow> collect_from_lists i rest (collectParentId
          (Option.bind (findIssueLocation l i) (\<lambda>(_, x). iss_parent_issue_id x)) ps))"

definition parentIdFromChildrenKey :: "query_key \<Rightarrow> string option" where
  "parentIdFromChildrenKey key =
     (if key = [] then None else case last key of KStr s \<Rightarrow> Some s | _ \<Rightarrow> None)"

definition collect_from_children ::
  "string \<Rightarrow> query_key \<times> cache_value option \<Rightarrow> string list \<Rightarrow> string list" where
  "collect_from_children i = (\<lambda>(key, data) ps.
     case Option.bind (as_issues data) (List.find (\<lambda>x. iss_id x = i)) of
       None \<Rightarrow> ps
     | Some child \<Rightarrow> collectParentId (parentIdFromChildrenKey key)
         (collectParentId (iss_parent_issue_id child) ps))"

definition collectDeletedIssueCacheMetadata ::
  "'q query_client \<Rightarrow> string \<Rightarrow> string \<Rightarrow> 'q \<Rightarrow> js_error + string list" where
  "collectDeletedIssueCacheMetadata cl wsId issueId qc =
     (let ps0 = collectParentId (Option.bind
            (as_issue (getQueryData cl qc (issueKeys_detail wsId issueId))) iss_parent_issue_id) [] in
      case collect_from_lists issueId (getQueriesData cl qc (by_prefix (issueKeys_list wsId))) ps0 of
        Inl e \<Rightarrow> Inl e
      | Inr ps1 \<Rightarrow>
          (case collect_from_lists issueId (getQueriesData cl qc (by_prefix (issueKeys_myAll wsId))) ps1 of
             Inl e \<Rightarrow> Inl e
           | Inr ps2 \<Rightarrow> Inr (fold (collect_from_children issueId)
               (getQueriesData cl qc (by_prefix (issueKeys_all wsId @ [KStr ''children'']))) ps2)))"

fun prune_keys :: "'q query_client \<Rightarrow> string \<Rightarrow> query_key list \<Rightarrow> 'q \<Rightarrow> 'q run" where
  "prune_keys cl i [] qc = (None, qc)"
| "prune_keys cl i (key # keys) qc =
     (case read_list (getQueryData cl qc key) of
        Inl e \<Rightarrow> (Some e, qc)
      | Inr None \<Rightarrow> prune_keys cl i keys qc
      | Inr (Some l) \<Rightarrow> prune_keys cl i keys (setQueryData cl key (CList (removeIssueFromBuckets l i)) qc))"

definition pruneDeletedIssueFromListCaches ::
  "'q query_client \<Rightarrow> string \<Rightarrow> string \<Rightarrow> 'q \<Rightarrow> 'q run" where
  "pruneDeletedIssueFromListCaches cl wsId issueId qc =
     and_then (prune_keys cl issueId (map fst (getQueriesData cl qc (by_prefix (issueKeys_list wsId)))) qc)
       (\<lambda>qc1. prune_keys cl issueId (map fst (getQueriesData cl qc1 (by_prefix (issueKeys_myAll wsId)))) qc1)"

definition pruneDeletedIssueFromParentChildrenCaches ::
  "'q query_client \<Rightarrow> string \<Rightarrow> string \<Rightarrow> string list \<Rightarrow> 'q \<Rightarrow> 'q" where
  "pruneDeletedIssueFromParentChildrenCaches cl wsId issueId parentIssueIds =
     fold (\<lambda>parentId. updateQueryData cl (issueKeys_children wsId parentId)
       (\<lambda>old. map_option (\<lambda>xs. CIssues (filter (\<lambda>x. iss_id x \<noteq> issueId) xs)) (as_issues old)))
       parentIssueIds"

definition invalidateDeletedIssueParentCaches ::
  "'q query_client \<Rightarrow> string \<Rightarrow> string list \<Rightarrow> 'q \<Rightarrow> 'q" where
  "invalidateDeletedIssueParentCaches cl wsId parentIssueIds qc =
     (if parentIssueIds = [] then qc
      else invalidateQueries cl (by_prefix (issueKeys_childrenByParentsAll wsId))
        (invalidateQueries cl (by_prefix (issueKeys_childProgress wsId))
          (fold (\<lambda>parentId. invalidateQueries cl (by_prefix (issueKeys_children wsId parentId)))
             parentIssueIds qc)))"

definition invalidateDeletedIssueDependentCaches :: "'q query_client \<Rightarrow> string \<Rightarrow> 'q \<Rightarrow> 'q" where
  "invalidateDeletedIssueDependentCaches cl wsId = fold (\<lambda>k. invalidateQueries cl (by_prefix k))
     [agentTaskSnapshotKeys_list wsId, agentActivityKeys_last30d wsId,
      agentRunCountsKeys_last30d wsId, agentTasksKeys_all wsId]"

definition invalidateIssueScopedCaches :: "'q query_client \<Rightarrow> string \<Rightarrow> string \<Rightarrow> 'q \<Rightarrow> 'q" where
  "invalidateIssueScopedCaches cl wsId issueId = fold (\<lambda>k. invalidateQueries cl (by_prefix k))
     [issueKeys_timeline issueId, issueKeys_reactions issueId, issueKeys_subscribers issueId,
      issueKeys_usage issueId, issueKeys_attachments issueId, issueKeys_tasks issueId,
      issueKeys_children wsId issueId, labelKeys_byIssue wsId issueId]"

text \<open>The queries a deletion removes, and the ones it marks stale at the end.\<close>

definition removed_keys :: "string \<Rightarrow> string \<Rightarrow> query_key list" where
  "removed_keys wsId issueId =
     [issueKeys_detail wsId issueId, issueKeys_timeline issueId, issueKeys_reactions issueId,
      issueKeys_subscribers issueId, issueKeys_usage issueId, issueKeys_attachments issueId,
      issueKeys_tasks issueId, issueKeys_children wsId issueId, labelKeys_byIssue wsId issueId]"

definition stale_after_delete :: "string \<Rightarrow> query_key list" where
  "stale_after_delete wsId =
     [issueKeys_childProgress wsId, issueKeys_list wsId, issueKeys_myAll wsId,
      issueKeys_projectGanttAll wsId]"

definition cleanupDeletedIssueCaches ::
  "'q query_client \<Rightarrow> string \<Rightarrow> string \<Rightarrow> string list option \<Rightarrow> 'q \<times> recent_state
    \<Rightarrow> ('q \<times> recent_state) run" where
  "cleanupDeletedIssueCaches cl wsId issueId metadata = (\<lambda>(qc, recents).
     case (case metadata of
             Some ps \<Rightarrow> Inr ps | None \<Rightarrow> collectDeletedIssueCacheMetadata cl wsId issueId qc) of
       Inl e \<Rightarrow> (Some e, (qc, recents))
     | Inr parents \<Rightarrow>
         (case pruneDeletedIssueFromListCaches cl wsId issueId qc of
            (Some e, qc1) \<Rightarrow> (Some e, (qc1, recents))
          | (None, qc1) \<Rightarrow>
              let qc2 = pruneDeletedIssueFromParentChildrenCaches cl wsId issueId parents qc1;
                  qc3 = invalidateDeletedIssueParentCaches cl wsId parents qc2;
                  qc4 = fold (\<lambda>k. removeQueries cl (by_prefix k)) (removed_keys wsId issueId) qc3;
                  qc5 = fold (\<lambda>k. invalidateQueries cl (by_prefix k)) (stale_after_delete wsId) qc4;
                  qc6 = invalidateDeletedIssueDependentCaches cl wsId qc5
              in (None, (qc6, forgetIssue wsId issueId recents))))"

section \<open>Events\<close>

definition onIssueCreated :: "'q query_client \<Rightarrow> string \<Rightarrow> issue \<Rightarrow> 'q \<Rightarrow> 'q run" where
  "onIssueCreated cl wsId issue qc =
     and_then (write_lists cl (\<lambda>l. addIssueToBuckets l issue)
         (getQueriesData cl qc (by_prefix (issueKeys_list wsId))) qc)
       (\<lambda>qc0.
          let qc1 = invalidateQueries cl (by_prefix (issueKeys_myAll wsId)) qc0;
              qc2 = invalidateQueries cl (by_prefix (issueKeys_assigneeGroupsAll wsId)) qc1;
              qc3 = invalidateQueries cl (by_prefix (issueKeys_myAssigneeGroupsAll wsId)) qc2;
              qc4 = (if falsy (iss_project_id issue) then qc3
                else invalidateQueries cl (by_prefix (projectKeys_all wsId)) qc3);
              qc5 = invalidateQueries cl (by_prefix (issueKeys_projectGanttAll wsId)) qc4
          in (None, if falsy (iss_parent_issue_id issue) then qc5
            else invalidateQueries cl (by_prefix (issueKeys_childProgress wsId))
              (invalidateQueries cl (by_prefix
                 (issueKeys_children wsId (the (iss_parent_issue_id issue)))) qc5)))"

text \<open>The server's flags of an update; an older server sends none.\<close>

record update_meta =
  meta_assigneeChanged :: "bool option"
  meta_statusChanged :: "bool option"
  meta_projectChanged :: "bool option"

definition updated_dims :: "issue_patch \<Rightarrow> update_meta \<Rightarrow> issue option \<Rightarrow> issue_changed_dims" where
  "updated_dims patch meta cachedIssue =
     \<lparr>chg_assignee = (case meta_assigneeChanged meta of
          Some b \<Rightarrow> b
        | None \<Rightarrow> (case cachedIssue of None \<Rightarrow> False
            | Some c \<Rightarrow> field_changed (pat_assignee_id patch) (Some (iss_assignee_id c))
                \<or> field_changed (pat_assignee_type patch) (Some (iss_assignee_type c)))),
      chg_project = (case meta_projectChanged meta of
          Some b \<Rightarrow> b
        | None \<Rightarrow> (case pat_project_id patch of None \<Rightarrow> False
            | Some p \<Rightarrow> p \<noteq> Option.bind cachedIssue iss_project_id)),
      chg_status = (case meta_statusChanged meta of
          Some b \<Rightarrow> b
        | None \<Rightarrow> (case cachedIssue of None \<Rightarrow> False
            | Some c \<Rightarrow> field_changed (pat_status patch) (Some (iss_status c))))\<rparr>"

text \<open>The children caches of the old and the new parent.\<close>

definition update_children ::
  "'q query_client \<Rightarrow> string \<Rightarrow> string \<Rightarrow> issue_patch \<Rightarrow> string option \<Rightarrow> 'q \<Rightarrow> 'q" where
  "update_children cl wsId i patch oldParentId qc =
     (let newParentId = (case pat_parent_issue_id patch of None \<Rightarrow> None | Some p \<Rightarrow> p);
          parentChanged = (pat_parent_issue_id patch \<noteq> None \<and> newParentId \<noteq> oldParentId);
          qc1 = (if falsy oldParentId then qc
            else if parentChanged
              then invalidateQueries cl (by_prefix (issueKeys_children wsId (the oldParentId))) qc
            else updateQueryData cl (issueKeys_children wsId (the oldParentId))
              (\<lambda>old. map_option (\<lambda>xs. CIssues (map (\<lambda>c. if iss_id c = i then merge_issue c patch else c) xs))
                 (as_issues old)) qc);
          qc2 = (if \<not> falsy newParentId \<and> parentChanged
            then invalidateQueries cl (by_prefix (issueKeys_children wsId (the newParentId))) qc1
            else qc1)
      in if \<not> falsy oldParentId \<or> \<not> falsy newParentId then
           invalidateQueries cl (by_prefix (issueKeys_childrenByParentsAll wsId))
             (if pat_status patch \<noteq> None \<or> pat_parent_issue_id patch \<noteq> None
              then invalidateQueries cl (by_prefix (issueKeys_childProgress wsId)) qc2 else qc2)
         else qc2)"

definition onIssueUpdated ::
  "'q query_client \<Rightarrow> string \<Rightarrow> string \<Rightarrow> issue_patch \<Rightarrow> update_meta \<Rightarrow> 'q \<Rightarrow> 'q run" where
  "onIssueUpdated cl wsId i patch meta qc =
     (let listQueries = getQueriesData cl qc (by_prefix (issueKeys_list wsId));
          firstListData = (case listQueries of [] \<Rightarrow> None | (_, d) # _ \<Rightarrow> d);
          detailData = as_issue (getQueryData cl qc (issueKeys_detail wsId i))
      in case (case detailData of
                 Some d \<Rightarrow> Inr (Some d)
               | None \<Rightarrow> (case read_list firstListData of
                   Inl e \<Rightarrow> Inl e
                 | Inr l \<Rightarrow> Inr (map_option snd (Option.bind l (\<lambda>l. findIssueLocation l i))))) of
           Inl e \<Rightarrow> (Some e, qc)
         | Inr cachedIssue \<Rightarrow>
             let oldParentId = Option.bind cachedIssue iss_parent_issue_id;
                 changed = updated_dims patch meta cachedIssue;
                 (qc1, change) = applyIssueChange cl wsId i patch changed cachedIssue qc;
                 qc2 = invalidateStaleListKeys cl (res_staleKeys change) qc1;
                 qc3 = invalidateIssueDerivatives cl wsId
                   (pat_status patch \<noteq> None \<or> pat_project_id patch \<noteq> None) qc2
             in (None, update_children cl wsId i patch oldParentId qc3))"

definition onIssueLabelsChanged ::
  "'q query_client \<Rightarrow> string \<Rightarrow> string \<Rightarrow> label list \<Rightarrow> 'q \<Rightarrow> 'q run" where
  "onIssueLabelsChanged cl wsId issueId labels qc =
     and_then (write_lists cl
         (\<lambda>l. patchIssueInBuckets l issueId (empty_patch\<lparr>pat_labels := Some labels\<rparr>))
         (getQueriesData cl qc (by_prefix (issueKeys_list wsId))) qc)
       (\<lambda>qc0.
          let qc1 = updateQueryData cl (issueKeys_detail wsId issueId)
                (\<lambda>old. map_option (\<lambda>i. CIssue (i\<lparr>iss_labels := Some labels\<rparr>)) (as_issue old)) qc0;
              qc2 = updateQueryData cl (labelKeys_byIssue wsId issueId)
                (\<lambda>old. map_option (\<lambda>_. CLabels labels) (as_labels old)) qc1;
              qc3 = fold (\<lambda>(key, data) qc. case as_issues data of
                    None \<Rightarrow> qc
                  | Some issues \<Rightarrow> setQueryData cl key (CIssues (map (\<lambda>i.
                      if iss_id i = issueId then i\<lparr>iss_labels := Some labels\<rparr> else i) issues)) qc)
                (getQueriesData cl qc2 (by_prefix (issueKeys_projectGanttAll wsId))) qc2
          in (None, fold (\<lambda>k. invalidateQueries cl (by_prefix k))
            [issueKeys_myAll wsId, issueKeys_assigneeGroupsAll wsId, issueKeys_myAssigneeGroupsAll wsId] qc3))"

definition onIssueMetadataChanged ::
  "'q query_client \<Rightarrow> string \<Rightarrow> string \<Rightarrow> issue_metadata \<Rightarrow> 'q \<Rightarrow> 'q run" where
  "onIssueMetadataChanged cl wsId issueId metadata qc =
     and_then (write_lists cl
         (\<lambda>l. patchIssueInBuckets l issueId (empty_patch\<lparr>pat_metadata := Some metadata\<rparr>))
         (getQueriesData cl qc (by_prefix (issueKeys_list wsId))) qc)
       (\<lambda>qc0. (None, invalidateQueries cl (by_prefix (issueKeys_myAll wsId))
         (updateQueryData cl (issueKeys_detail wsId issueId)
           (\<lambda>old. map_option (\<lambda>i. CIssue (i\<lparr>iss_metadata := metadata\<rparr>)) (as_issue old)) qc0)))"

text \<open>A part of a key that filters by a property or sorts by one.\<close>

definition sort_on_property :: "issue_sort \<Rightarrow> bool" where
  "sort_on_property s \<longleftrightarrow>
     (case srt_properties s of None \<Rightarrow> False | Some ps \<Rightarrow> js_keys ps \<noteq> [])
     \<or> (case srt_sort_by s of None \<Rightarrow> False | Some by \<Rightarrow> starts_with by ''property:'')"

fun property_part :: "key_part \<Rightarrow> bool" where
  "property_part (KSort s) = sort_on_property s"
| "property_part (KGrouped g) = sort_on_property (gf_sort g)"
| "property_part _ = False"

definition invalidatePropertyWindowQueries :: "'q query_client \<Rightarrow> string \<Rightarrow> 'q \<Rightarrow> 'q" where
  "invalidatePropertyWindowQueries cl wsId = invalidateQueries cl
     \<lparr>flt_queryKey = issueKeys_all wsId, flt_exact = False, flt_predicate = list_ex property_part\<rparr>"

definition onIssuePropertiesChanged ::
  "'q query_client \<Rightarrow> string \<Rightarrow> string \<Rightarrow> property_values \<Rightarrow> 'q \<Rightarrow> 'q run" where
  "onIssuePropertiesChanged cl wsId issueId properties qc =
     and_then (write_lists cl
         (\<lambda>l. patchIssueInBuckets l issueId (empty_patch\<lparr>pat_properties := Some properties\<rparr>))
         (getQueriesData cl qc (by_prefix (issueKeys_list wsId))) qc)
       (\<lambda>qc0.
          let qc1 = updateQueryData cl (issueKeys_detail wsId issueId)
                (\<lambda>old. map_option (\<lambda>i. CIssue (i\<lparr>iss_properties := properties\<rparr>)) (as_issue old)) qc0
          in (None, invalidatePropertyWindowQueries cl wsId
            (fold (\<lambda>k. invalidateQueries cl (by_prefix k))
              [issueKeys_myAll wsId, issueKeys_assigneeGroupsAll wsId, issueKeys_myAssigneeGroupsAll wsId] qc1)))"

definition onIssueDeleted ::
  "'q query_client \<Rightarrow> string \<Rightarrow> string \<Rightarrow> 'q \<times> recent_state \<Rightarrow> ('q \<times> recent_state) run" where
  "onIssueDeleted cl wsId issueId st =
     and_then (cleanupDeletedIssueCaches cl wsId issueId None st)
       (\<lambda>(qc, recents). (None, (fold (\<lambda>k. invalidateQueries cl (by_prefix k))
          [issueKeys_assigneeGroupsAll wsId, issueKeys_myAssigneeGroupsAll wsId, projectKeys_all wsId] qc,
          recents)))"

section \<open>Inbox events\<close>

definition onInboxNew :: "'q query_client \<Rightarrow> string \<Rightarrow> inbox_item \<Rightarrow> 'q \<Rightarrow> 'q" where
  "onInboxNew cl wsId item = invalidateQueries cl (by_prefix (inboxKeys_list wsId))"

definition onInboxIssueStatusChanged ::
  "'q query_client \<Rightarrow> string \<Rightarrow> string \<Rightarrow> issue_status \<Rightarrow> 'q \<Rightarrow> 'q" where
  "onInboxIssueStatusChanged cl wsId issueId status = patchInboxIssueStatus cl wsId issueId status"

definition onInboxIssueDeleted :: "'q query_client \<Rightarrow> string \<Rightarrow> string \<Rightarrow> 'q \<Rightarrow> 'q" where
  "onInboxIssueDeleted cl wsId issueId = updateQueryData cl (inboxKeys_list wsId)
     (\<lambda>old. map_option (\<lambda>items. CInbox (filter (\<lambda>i. inb_issue_id i \<noteq> Some issueId) items)) (as_inbox old))"

definition onInboxInvalidate :: "'q query_client \<Rightarrow> string \<Rightarrow> 'q \<Rightarrow> 'q" where
  "onInboxInvalidate cl wsId = invalidateQueries cl (by_prefix (inboxKeys_list wsId))"

definition onInboxSummaryInvalidate :: "'q query_client \<Rightarrow> 'q \<Rightarrow> 'q" where
  "onInboxSummaryInvalidate cl = invalidateQueries cl (by_prefix inboxKeys_unreadSummary)"

end
