(* ===== verification/Issue_Event_Properties.thy ===== *)
theory Issue_Event_Properties
  imports Issue_Events
begin

text \<open>
  What the realtime events guarantee: after an update each loaded list is right or marked stale,
  a created issue is counted, a deleted issue leaves no trace, and a deletion raises when a board
  grouped by assignee is cached under the prefix of the user's lists.
\<close>

section \<open>Chains of invalidations\<close>

text \<open>The keys of the bucketed lists of a workspace.\<close>

definition list_key :: "string \<Rightarrow> query_key \<Rightarrow> bool" where
  "list_key wsId k \<longleftrightarrow> filter_selects (by_prefix (issueKeys_list wsId)) k
     \<or> filter_selects (by_prefix (issueKeys_myAll wsId)) k"

lemma list_key_not_other [simp]:
  "\<not> list_key wsId (issueKeys_children wsId' i)" "\<not> list_key wsId (issueKeys_detail wsId' i)"
  "\<not> list_key wsId (labelKeys_byIssue wsId' i)" "\<not> list_key wsId (inboxKeys_list wsId')"
  by (simp_all add: list_key_def by_prefix_selects query_key_defs)

context query_cache
begin

lemma entries_list_key:
  "(k, l) \<in> set (bucketedListEntries cl qc wsId) \<longleftrightarrow>
     getQueryData cl qc k = Some (CList l) \<and> list_key wsId k"
  by (simp add: entries_iff list_key_def)

lemma get_invalidate_all:
  "getQueryData cl (fold (\<lambda>k. invalidateQueries cl (by_prefix k)) ks qc) j = getQueryData cl qc j"
  by (induction ks arbitrary: qc) (simp_all add: get_invalidate)

lemma invalid_invalidate_all:
  "getQueryData cl qc j \<noteq> None \<Longrightarrow>
     isInvalidated cl (fold (\<lambda>k. invalidateQueries cl (by_prefix k)) ks qc) j =
     ((\<exists>k\<in>set ks. filter_selects (by_prefix k) j) \<or> isInvalidated cl qc j)"
  by (induction ks arbitrary: qc) (auto simp: get_invalidate invalid_invalidate)

lemma get_invalidateStale:
  "getQueryData cl (invalidateStale cl keys seen qc) j = getQueryData cl qc j"
  by (induction keys arbitrary: seen qc) (simp_all add: get_invalidate)

lemma invalid_invalidateStale:
  "getQueryData cl qc j \<noteq> None \<Longrightarrow> isInvalidated cl (invalidateStale cl keys seen qc) j =
     (j \<in> set keys \<and> j \<notin> seen \<or> isInvalidated cl qc j)"
  by (induction keys arbitrary: seen qc) (auto simp: get_invalidate invalid_invalidate)

lemma get_derivatives: "getQueryData cl (invalidateIssueDerivatives cl wsId b qc) j = getQueryData cl qc j"
  by (simp add: invalidateIssueDerivatives_def Let_def get_invalidate)

lemma invalid_derivatives:
  "getQueryData cl qc j \<noteq> None \<Longrightarrow> isInvalidated cl qc j \<Longrightarrow>
     isInvalidated cl (invalidateIssueDerivatives cl wsId b qc) j"
  by (simp add: invalidateIssueDerivatives_def Let_def get_invalidate invalid_invalidate)

lemma update_children_lists:
  assumes "list_key wsId j"
  shows "getQueryData cl (update_children cl wsId' i p par qc) j = getQueryData cl qc j"
    and "getQueryData cl qc j \<noteq> None \<Longrightarrow> isInvalidated cl qc j \<Longrightarrow>
      isInvalidated cl (update_children cl wsId' i p par qc) j"
proof -
  have ne: "j \<noteq> issueKeys_children wsId' x" for x using assms by auto
  show "getQueryData cl (update_children cl wsId' i p par qc) j = getQueryData cl qc j"
    using ne by (simp add: update_children_def Let_def get_invalidate get_update)
  show "isInvalidated cl (update_children cl wsId' i p par qc) j"
    if "getQueryData cl qc j \<noteq> None" "isInvalidated cl qc j"
    using that ne by (simp add: update_children_def Let_def get_invalidate get_update
        invalid_invalidate invalid_update)
qed

end

section \<open>Updates\<close>

text \<open>Every query under the workspace's list prefix holds a bucketed list.\<close>

definition lists_shaped :: "'q query_client \<Rightarrow> 'q \<Rightarrow> query_key \<Rightarrow> bool" where
  "lists_shaped cl qc prefix \<longleftrightarrow>
     (\<forall>(k, d) \<in> set (getQueriesData cl qc (by_prefix prefix)). \<forall>v. d = Some v \<longrightarrow> (\<exists>l. v = CList l))"

lemma read_list_shaped: "\<forall>v. d = Some v \<longrightarrow> (\<exists>l. v = CList l) \<Longrightarrow> read_list d = Inr (as_bucketed d)"
  by (cases d) auto

lemma read_list_Some: "read_list d = Inr (Some l) \<longleftrightarrow> d = Some (CList l)"
  by (cases d rule: read_list.cases) auto

text \<open>The copy of the issue an update event starts from.\<close>

definition cached_copy :: "'q query_client \<Rightarrow> string \<Rightarrow> string \<Rightarrow> 'q \<Rightarrow> issue option" where
  "cached_copy cl wsId i qc =
     (case as_issue (getQueryData cl qc (issueKeys_detail wsId i)) of
        Some d \<Rightarrow> Some d
      | None \<Rightarrow> (case getQueriesData cl qc (by_prefix (issueKeys_list wsId)) of
          [] \<Rightarrow> None
        | (_, d) # _ \<Rightarrow> map_option snd (Option.bind (as_bucketed d) (\<lambda>l. findIssueLocation l i))))"

context query_cache
begin

lemma updated_unfold:
  assumes "lists_shaped cl qc (issueKeys_list wsId)"
  shows "onIssueUpdated cl wsId i p meta qc =
    (let cachedIssue = cached_copy cl wsId i qc;
         (qc1, change) = applyIssueChange cl wsId i p (updated_dims p meta cachedIssue) cachedIssue qc
     in (None, update_children cl wsId i p (Option.bind cachedIssue iss_parent_issue_id)
       (invalidateIssueDerivatives cl wsId (pat_status p \<noteq> None \<or> pat_project_id p \<noteq> None)
         (invalidateStaleListKeys cl (res_staleKeys change) qc1))))"
proof (cases "as_issue (getQueryData cl qc (issueKeys_detail wsId i))")
  case None
  show ?thesis
  proof (cases "getQueriesData cl qc (by_prefix (issueKeys_list wsId))")
    case Nil
    with None show ?thesis by (simp add: onIssueUpdated_def cached_copy_def Let_def)
  next
    case (Cons e es)
    obtain k d where e: "e = (k, d)" by (cases e)
    then have "read_list d = Inr (as_bucketed d)"
      using assms Cons by (intro read_list_shaped) (auto simp: lists_shaped_def)
    with None Cons e show ?thesis by (simp add: onIssueUpdated_def cached_copy_def Let_def)
  qed
qed (simp add: onIssueUpdated_def cached_copy_def Let_def)

lemma updated_accurate:
  assumes fin: "finite db" and inj: "inj_on iss_id db" and old: "old \<in> db"
    and shaped: "lists_shaped cl qc (issueKeys_list wsId)"
    and cached: "cached_copy cl wsId (iss_id old) qc \<in> {None, Some old}"
    and pid: "iss_id (merge_issue old p) = iss_id old"
    and creator: "iss_creator_id (merge_issue old p) = iss_creator_id old"
    and reads: "\<forall>u. reads_actors (involves u)" "reads_actors related"
    and cover: "dims_cover (updated_dims p meta (cached_copy cl wsId (iss_id old) qc)) old (merge_issue old p)"
    and acc: "\<forall>(key, l) \<in> set (bucketedListEntries cl qc wsId).
      list_accurate (key_member involves related key) db l"
  shows "(let (raised, qc') = onIssueUpdated cl wsId (iss_id old) p meta qc in
    raised = None \<and> (\<forall>(key, l) \<in> set (bucketedListEntries cl qc' wsId).
       isInvalidated cl qc' key
       \<or> list_accurate (key_member involves related key) (replace_issue db old (merge_issue old p)) l))"
proof -
  let ?c = "cached_copy cl wsId (iss_id old) qc"
  let ?ap = "applyIssueChange cl wsId (iss_id old) p (updated_dims p meta ?c) ?c qc"
  let ?q1 = "fst ?ap" and ?stale = "res_staleKeys (snd ?ap)"
  let ?q2 = "invalidateStaleListKeys cl ?stale ?q1"
  let ?q3 = "invalidateIssueDerivatives cl wsId (pat_status p \<noteq> None \<or> pat_project_id p \<noteq> None) ?q2"
  let ?q4 = "update_children cl wsId (iss_id old) p (Option.bind ?c iss_parent_issue_id) ?q3"
  have run: "onIssueUpdated cl wsId (iss_id old) p meta qc = (None, ?q4)"
    unfolding updated_unfold [OF shaped] by (simp add: Let_def case_prod_beta)
  have base: "?c = None \<or> ?c = Some old" using cached by auto
  note app = apply_accurate [OF fin inj old base pid creator reads cover acc, unfolded Let_def case_prod_beta]
  have "isInvalidated cl ?q4 key
       \<or> list_accurate (key_member involves related key) (replace_issue db old (merge_issue old p)) l"
    if e: "(key, l) \<in> set (bucketedListEntries cl ?q4 wsId)" for key l
  proof -
    have lk: "list_key wsId key" and d4: "getQueryData cl ?q4 key = Some (CList l)"
      using e entries_list_key by blast+
    note up = update_children_lists [OF lk]
    have d3: "getQueryData cl ?q3 key = Some (CList l)" using d4 up(1) by simp
    have d2: "getQueryData cl ?q2 key = Some (CList l)" using d3 by (simp add: get_derivatives)
    have d1: "getQueryData cl ?q1 key = Some (CList l)"
      using d2 by (simp add: invalidateStaleListKeys_def get_invalidateStale)
    have "(key, l) \<in> set (bucketedListEntries cl ?q1 wsId)" using d1 lk entries_list_key by blast
    with app have "key \<in> set ?stale \<or> list_accurate (key_member involves related key)
        (replace_issue db old (merge_issue old p)) l" by auto
    moreover have "isInvalidated cl ?q4 key" if "key \<in> set ?stale"
    proof -
      have "isInvalidated cl ?q2 key"
        using that d1 by (simp add: invalidateStaleListKeys_def invalid_invalidateStale)
      then have "isInvalidated cl ?q3 key" using d2 by (simp add: invalid_derivatives)
      then show ?thesis using d3 up(2) by simp
    qed
    ultimately show ?thesis by blast
  qed
  then show ?thesis by (auto simp: run)
qed

end


definition example_meta :: update_meta where
  "example_meta = \<lparr>meta_assigneeChanged = Some False, meta_statusChanged = Some True,
     meta_projectChanged = Some False\<rparr>"

lemma example_list_queries:
  "getQueriesData memory_client example_cache (by_prefix (issueKeys_list ''w'')) =
     [(issueKeys_listSorted ''w'' None, Some (CList example_list))]"
  "getQueryData memory_client example_cache (issueKeys_detail ''w'' i) = None"
  by (simp_all add: memory_client_def example_cache_def by_prefix_selects query_key_defs)

lemma example_cached_copy:
  "cached_copy memory_client ''w'' ''i1'' example_cache = Some (example_issue ''i1'' Todo 1)"
proof -
  have ok: "buckets_ok example_list" by (simp add: buckets_ok_def)
  have "findIssueLocation example_list ''i1'' = Some (Todo, example_issue ''i1'' Todo 1)"
    unfolding findIssueLocation_iff [OF ok] by simp
  then show ?thesis by (simp add: cached_copy_def example_list_queries)
qed


section \<open>Deletions\<close>

context query_cache
begin

lemma prune_keys_run:
  assumes "\<forall>k\<in>set ks. \<forall>v. getQueryData cl qc k = Some v \<longrightarrow> (\<exists>l. v = CList l)" "distinct ks"
  shows "fst (prune_keys cl i ks qc) = None"
    and "getQueryData cl (snd (prune_keys cl i ks qc)) j =
      (case as_bucketed (getQueryData cl qc j) of
         Some l \<Rightarrow> if j \<in> set ks then Some (CList (removeIssueFromBuckets l i)) else Some (CList l)
       | None \<Rightarrow> getQueryData cl qc j)"
proof -
  have "fst (prune_keys cl i ks qc) = None \<and> getQueryData cl (snd (prune_keys cl i ks qc)) j =
      (case as_bucketed (getQueryData cl qc j) of
         Some l \<Rightarrow> if j \<in> set ks then Some (CList (removeIssueFromBuckets l i)) else Some (CList l)
       | None \<Rightarrow> getQueryData cl qc j)"
    using assms
  proof (induction ks arbitrary: qc)
    case (Cons k ks)
    have r: "read_list (getQueryData cl qc k) = Inr (as_bucketed (getQueryData cl qc k))"
      using Cons.prems by (intro read_list_shaped) simp
    show ?case
    proof (cases "as_bucketed (getQueryData cl qc k)")
      case None
      then show ?thesis using Cons.IH [of qc] Cons.prems r by (auto split: option.split)
    next
      case (Some l)
      let ?q = "setQueryData cl k (CList (removeIssueFromBuckets l i)) qc"
      have "\<forall>k'\<in>set ks. \<forall>v. getQueryData cl ?q k' = Some v \<longrightarrow> (\<exists>l. v = CList l)"
        using Cons.prems by (auto simp: get_set)
      with Cons.IH [of ?q] Cons.prems show ?thesis
        using r Some by (auto simp: get_set split: option.splits)
    qed
  qed (auto split: option.split)
  then show "fst (prune_keys cl i ks qc) = None"
    and "getQueryData cl (snd (prune_keys cl i ks qc)) j =
      (case as_bucketed (getQueryData cl qc j) of
         Some l \<Rightarrow> if j \<in> set ks then Some (CList (removeIssueFromBuckets l i)) else Some (CList l)
       | None \<Rightarrow> getQueryData cl qc j)"
    by blast+
qed

lemma selected_keys:
  "j \<in> set (map fst (getQueriesData cl qc f)) \<Longrightarrow> filter_selects f j"
  "getQueryData cl qc j = Some v \<Longrightarrow> filter_selects f j \<Longrightarrow>
     j \<in> set (map fst (getQueriesData cl qc f))"
  using queries_sound queries_complete by force+

lemma shaped_keys:
  assumes "\<forall>k v. list_key wsId k \<and> getQueryData cl qc k = Some v \<longrightarrow> (\<exists>l. v = CList l)"
    and "prefix = issueKeys_list wsId \<or> prefix = issueKeys_myAll wsId"
  shows "\<forall>k\<in>set (map fst (getQueriesData cl qc (by_prefix prefix))).
    \<forall>v. getQueryData cl qc k = Some v \<longrightarrow> (\<exists>l. v = CList l)"
  using assms selected_keys(1) by (fastforce simp: list_key_def)

lemma prune_lists_run:
  assumes shaped: "\<forall>k v. list_key wsId k \<and> getQueryData cl qc k = Some v \<longrightarrow> (\<exists>l. v = CList l)"
  shows "fst (pruneDeletedIssueFromListCaches cl wsId i qc) = None"
    and "getQueryData cl (snd (pruneDeletedIssueFromListCaches cl wsId i qc)) j =
      (case as_bucketed (getQueryData cl qc j) of
         Some l \<Rightarrow> if list_key wsId j then Some (CList (removeIssueFromBuckets l i)) else Some (CList l)
       | None \<Rightarrow> getQueryData cl qc j)"
proof -
  let ?k1 = "map fst (getQueriesData cl qc (by_prefix (issueKeys_list wsId)))"
  let ?q1 = "snd (prune_keys cl i ?k1 qc)"
  let ?k2 = "map fst (getQueriesData cl ?q1 (by_prefix (issueKeys_myAll wsId)))"
  have s1: "\<forall>k\<in>set ?k1. \<forall>v. getQueryData cl qc k = Some v \<longrightarrow> (\<exists>l. v = CList l)"
    by (rule shaped_keys [OF shaped]) simp
  note p1 = prune_keys_run [OF s1 queries_distinct, of i]
  have "\<forall>k v. list_key wsId k \<and> getQueryData cl ?q1 k = Some v \<longrightarrow> (\<exists>l. v = CList l)"
    using shaped by (auto simp: p1(2) split: option.splits if_splits)
  then have s2: "\<forall>k\<in>set ?k2. \<forall>v. getQueryData cl ?q1 k = Some v \<longrightarrow> (\<exists>l. v = CList l)"
    by (rule shaped_keys) simp
  note p2 = prune_keys_run [OF s2 queries_distinct, of i]
  have run: "pruneDeletedIssueFromListCaches cl wsId i qc = prune_keys cl i ?k2 ?q1"
    using p1(1) by (simp add: pruneDeletedIssueFromListCaches_def and_then_def case_prod_beta)
  show "fst (pruneDeletedIssueFromListCaches cl wsId i qc) = None"
    unfolding run by (rule p2(1))
  have in1: "j \<in> set ?k1 \<longleftrightarrow> filter_selects (by_prefix (issueKeys_list wsId)) j"
    if "getQueryData cl qc j = Some v" for v
    using selected_keys that by blast
  have in2: "j \<in> set ?k2 \<longleftrightarrow> filter_selects (by_prefix (issueKeys_myAll wsId)) j"
    if "getQueryData cl ?q1 j = Some v" for v
    using selected_keys that by blast
  show "getQueryData cl (snd (pruneDeletedIssueFromListCaches cl wsId i qc)) j =
      (case as_bucketed (getQueryData cl qc j) of
         Some l \<Rightarrow> if list_key wsId j then Some (CList (removeIssueFromBuckets l i)) else Some (CList l)
       | None \<Rightarrow> getQueryData cl qc j)"
  proof (cases "as_bucketed (getQueryData cl qc j)")
    case None
    then have "getQueryData cl ?q1 j = getQueryData cl qc j" by (simp add: p1(2))
    with None show ?thesis unfolding run p2(2) by simp
  next
    case (Some l)
    then have d: "getQueryData cl qc j = Some (CList l)" by simp
    have d1: "getQueryData cl ?q1 j =
        Some (CList (if j \<in> set ?k1 then removeIssueFromBuckets l i else l))"
      using d by (simp add: p1(2))
    show ?thesis
      unfolding run p2(2) using d d1 in1 [OF d] in2 [OF d1] list_my_disjoint [of wsId j]
      by (auto simp: list_key_def)
  qed
qed

lemma get_remove_all:
  "getQueryData cl (fold (\<lambda>k. removeQueries cl (by_prefix k)) ks qc) j =
     (if \<exists>k\<in>set ks. filter_selects (by_prefix k) j then None else getQueryData cl qc j)"
  by (induction ks arbitrary: qc) (auto simp: get_remove)

lemma get_prune_children:
  assumes "list_key wsId j"
  shows "getQueryData cl (pruneDeletedIssueFromParentChildrenCaches cl wsId' i ps qc) j = getQueryData cl qc j"
proof -
  have ne: "j \<noteq> issueKeys_children wsId' x" for x using assms by auto
  show ?thesis
    by (induction ps arbitrary: qc)
      (simp_all add: pruneDeletedIssueFromParentChildrenCaches_def get_update ne)
qed

lemma get_invalidate_parents:
  "getQueryData cl (invalidateDeletedIssueParentCaches cl wsId ps qc) j = getQueryData cl qc j"
proof -
  have "getQueryData cl (fold (\<lambda>p. invalidateQueries cl (by_prefix (issueKeys_children wsId p))) ps q) j =
      getQueryData cl q j" for q
    by (induction ps arbitrary: q) (simp_all add: get_invalidate)
  then show ?thesis by (simp add: invalidateDeletedIssueParentCaches_def get_invalidate)
qed

lemma collect_lists_run:
  assumes "\<forall>k\<in>set (map fst es). \<forall>v. getQueryData cl qc k = Some v \<longrightarrow> (\<exists>l. v = CList l)"
    and "\<forall>(k, d)\<in>set es. getQueryData cl qc k = d"
  shows "\<exists>ps'. collect_from_lists i es ps = Inr ps'"
  using assms
proof (induction es arbitrary: ps)
  case (Cons e es)
  obtain k d where e: "e = (k, d)" by (cases e)
  have "read_list d = Inr (as_bucketed d)"
    using Cons.prems by (intro read_list_shaped) (auto simp: e)
  with Cons show ?case by (auto simp: e split: option.split)
qed simp

end

lemma collectParentId_set:
  "set (collectParentId p ps) = set ps \<union> (if falsy p then {} else {the p})"
  by (auto simp: collectParentId_def)

lemma collect_children_mono: "set ps \<subseteq> set (fold (collect_from_children i) es ps)"
proof (induction es arbitrary: ps)
  case (Cons e es)
  have "set ps \<subseteq> set (collect_from_children i e ps)"
    by (auto simp: collect_from_children_def collectParentId_set split: prod.split option.split)
  with Cons.IH [of "collect_from_children i e ps"] show ?case by simp
qed simp

lemma collect_children_parent:
  assumes "(issueKeys_children wsId parent, Some (CIssues xs)) \<in> set es"
    and "x \<in> set xs" "iss_id x = i" "parent \<noteq> []"
  shows "parent \<in> set (fold (collect_from_children i) es ps)"
  using assms(1)
proof (induction es arbitrary: ps)
  case (Cons e es)
  show ?case
  proof (cases "e = (issueKeys_children wsId parent, Some (CIssues xs))")
    case True
    obtain c where "List.find (\<lambda>x. iss_id x = i) xs = Some c"
      using assms(2,3) by (cases "List.find (\<lambda>x. iss_id x = i) xs") (auto simp: find_None_iff)
    then have "parent \<in> set (collect_from_children i e ps)"
      using True assms(4) by (simp add: collect_from_children_def collectParentId_set
          parentIdFromChildrenKey_def query_key_defs)
    then show ?thesis using collect_children_mono by force
  next
    case False
    then show ?thesis using Cons by auto
  qed
qed simp

context query_cache
begin

lemma collect_run:
  assumes shaped: "\<forall>k v. list_key wsId k \<and> getQueryData cl qc k = Some v \<longrightarrow> (\<exists>l. v = CList l)"
  obtains ps where "collectDeletedIssueCacheMetadata cl wsId i qc = Inr ps"
    and "\<And>parent xs x. getQueryData cl qc (issueKeys_children wsId parent) = Some (CIssues xs) \<Longrightarrow>
      x \<in> set xs \<Longrightarrow> iss_id x = i \<Longrightarrow> parent \<noteq> [] \<Longrightarrow> parent \<in> set ps"
proof -
  have data: "\<forall>(k, d)\<in>set (getQueriesData cl qc f). getQueryData cl qc k = d" for f
    using queries_sound by blast
  obtain ps1 where p1: "collect_from_lists i (getQueriesData cl qc (by_prefix (issueKeys_list wsId)))
      (collectParentId (Option.bind (as_issue (getQueryData cl qc (issueKeys_detail wsId i)))
        iss_parent_issue_id) []) = Inr ps1"
    using collect_lists_run [OF shaped_keys [OF shaped] data] by blast
  obtain ps2 where p2: "collect_from_lists i (getQueriesData cl qc (by_prefix (issueKeys_myAll wsId))) ps1 = Inr ps2"
    using collect_lists_run [OF shaped_keys [OF shaped] data] by blast
  let ?es = "getQueriesData cl qc (by_prefix (issueKeys_all wsId @ [KStr ''children'']))"
  let ?ps = "fold (collect_from_children i) ?es ps2"
  have run: "collectDeletedIssueCacheMetadata cl wsId i qc = Inr ?ps"
    using p1 p2 by (simp add: collectDeletedIssueCacheMetadata_def Let_def)
  have "parent \<in> set ?ps"
    if "getQueryData cl qc (issueKeys_children wsId parent) = Some (CIssues xs)"
      "x \<in> set xs" "iss_id x = i" "parent \<noteq> []" for parent xs x
  proof -
    have "filter_selects (by_prefix (issueKeys_all wsId @ [KStr ''children''])) (issueKeys_children wsId parent)"
      by (simp add: by_prefix_selects query_key_defs)
    then have "(issueKeys_children wsId parent, Some (CIssues xs)) \<in> set ?es"
      using that(1) by (rule queries_complete [rotated])
    then show ?thesis using that collect_children_parent by blast
  qed
  with run show thesis by (rule that)
qed

lemma get_prune_children_at:
  "getQueryData cl (pruneDeletedIssueFromParentChildrenCaches cl wsId i ps qc) (issueKeys_children wsId parent) =
    (case as_issues (getQueryData cl qc (issueKeys_children wsId parent)) of
       None \<Rightarrow> getQueryData cl qc (issueKeys_children wsId parent)
     | Some xs \<Rightarrow> Some (CIssues (if parent \<in> set ps then filter (\<lambda>x. iss_id x \<noteq> i) xs else xs)))"
proof (induction ps arbitrary: qc)
  case Nil
  then show ?case by (simp add: pruneDeletedIssueFromParentChildrenCaches_def split: option.split)
next
  case (Cons p ps)
  have inj: "issueKeys_children wsId parent = issueKeys_children wsId p \<longleftrightarrow> parent = p"
    by (simp add: query_key_defs)
  let ?q = "updateQueryData cl (issueKeys_children wsId p)
      (\<lambda>old. map_option (\<lambda>xs. CIssues (filter (\<lambda>x. iss_id x \<noteq> i) xs)) (as_issues old)) qc"
  have "pruneDeletedIssueFromParentChildrenCaches cl wsId i (p # ps) qc =
      pruneDeletedIssueFromParentChildrenCaches cl wsId i ps ?q"
    by (simp add: pruneDeletedIssueFromParentChildrenCaches_def)
  then show ?case
    using Cons.IH [of ?q] by (auto simp: get_update inj split: option.splits)
qed

lemma get_prune_lists_other:
  assumes shaped: "\<forall>k v. list_key wsId k \<and> getQueryData cl qc k = Some v \<longrightarrow> (\<exists>l. v = CList l)"
    and "\<not> list_key wsId j"
  shows "getQueryData cl (snd (pruneDeletedIssueFromListCaches cl wsId i qc)) j = getQueryData cl qc j"
  using assms(2) as_bucketed_Some [of "getQueryData cl qc j"]
  by (auto simp: prune_lists_run(2) [OF shaped] split: option.split)

lemma deleted_clean:
  assumes shaped: "\<forall>k v. list_key wsId k \<and> getQueryData cl qc k = Some v \<longrightarrow> (\<exists>l. v = CList l)"
    and ok: "\<forall>(key, l) \<in> set (bucketedListEntries cl qc wsId). buckets_ok l"
  shows "(let (raised, qc', recents') = onIssueDeleted cl wsId i (qc, recents) in
    raised = None
    \<and> (\<forall>(key, l) \<in> set (bucketedListEntries cl qc' wsId).
         findIssueLocation l i = None \<and> isInvalidated cl qc' key)
    \<and> (\<forall>parent xs. parent \<noteq> [] \<longrightarrow>
         getQueryData cl qc' (issueKeys_children wsId parent) = Some (CIssues xs) \<longrightarrow> i \<notin> iss_id ` set xs)
    \<and> (\<forall>k\<in>set (removed_keys wsId i). getQueryData cl qc' k = None)
    \<and> i \<notin> rec_id ` set (selectRecentIssues (Some wsId) recents'))"
proof -
  obtain ps where collect: "collectDeletedIssueCacheMetadata cl wsId i qc = Inr ps"
    and parents: "\<And>parent xs x. getQueryData cl qc (issueKeys_children wsId parent) = Some (CIssues xs) \<Longrightarrow>
      x \<in> set xs \<Longrightarrow> iss_id x = i \<Longrightarrow> parent \<noteq> [] \<Longrightarrow> parent \<in> set ps"
    using collect_run [OF shaped] by metis
  let ?prune = "pruneDeletedIssueFromListCaches cl wsId i qc"
  let ?q1 = "snd ?prune"
  let ?q2 = "pruneDeletedIssueFromParentChildrenCaches cl wsId i ps ?q1"
  let ?q3 = "invalidateDeletedIssueParentCaches cl wsId ps ?q2"
  let ?q4 = "fold (\<lambda>k. removeQueries cl (by_prefix k)) (removed_keys wsId i) ?q3"
  define last_keys where "last_keys = [agentTaskSnapshotKeys_list wsId, agentActivityKeys_last30d wsId,
      agentRunCountsKeys_last30d wsId, agentTasksKeys_all wsId]"
  define board_keys where "board_keys = [issueKeys_assigneeGroupsAll wsId,
      issueKeys_myAssigneeGroupsAll wsId, projectKeys_all wsId]"
  let ?inv = "\<lambda>ks. fold (\<lambda>k. invalidateQueries cl (by_prefix k)) ks"
  let ?q7 = "?inv board_keys (?inv last_keys (?inv (stale_after_delete wsId) ?q4))"
  have run: "onIssueDeleted cl wsId i (qc, recents) = (None, (?q7, forgetIssue wsId i recents))"
    using prune_lists_run(1) [OF shaped, of i] collect
    by (simp add: onIssueDeleted_def cleanupDeletedIssueCaches_def and_then_def Let_def case_prod_beta
        invalidateDeletedIssueDependentCaches_def last_keys_def board_keys_def del: fold.simps)
  have get: "getQueryData cl ?q7 j = (if \<exists>k\<in>set (removed_keys wsId i). filter_selects (by_prefix k) j
      then None else getQueryData cl ?q2 j)" for j
    unfolding get_invalidate_all get_remove_all get_invalidate_parents ..
  have inv: "isInvalidated cl ?q7 j"
    if "getQueryData cl ?q7 j \<noteq> None" "list_key wsId j" for j
  proof -
    have d: "getQueryData cl ?q4 j \<noteq> None" using that(1) unfolding get_invalidate_all .
    have "isInvalidated cl (?inv (stale_after_delete wsId) ?q4) j"
      using that(2) unfolding invalid_invalidate_all [OF d]
      by (auto simp: stale_after_delete_def list_key_def)
    moreover have "getQueryData cl (?inv ks ?q4) j \<noteq> None" for ks
      using d unfolding get_invalidate_all .
    moreover have "getQueryData cl (?inv ks' (?inv ks ?q4)) j \<noteq> None" for ks ks'
      using d unfolding get_invalidate_all .
    ultimately show ?thesis using invalid_invalidate_all by blast
  qed
  have lists: "findIssueLocation l i = None \<and> isInvalidated cl ?q7 key"
    if e: "(key, l) \<in> set (bucketedListEntries cl ?q7 wsId)" for key l
  proof -
    have d: "getQueryData cl ?q7 key = Some (CList l)" and lk: "list_key wsId key"
      using e entries_list_key by blast+
    have "getQueryData cl ?q2 key = Some (CList l)" using d get by (metis option.distinct(1))
    then have d1: "getQueryData cl ?q1 key = Some (CList l)" by (simp add: get_prune_children [OF lk])
    obtain l0 where l0: "getQueryData cl qc key = Some (CList l0)" "l = removeIssueFromBuckets l0 i"
      using d1 lk by (auto simp: prune_lists_run(2) [OF shaped] split: option.splits)
    then have "(key, l0) \<in> set (bucketedListEntries cl qc wsId)" using lk entries_list_key by blast
    then have ok0: "buckets_ok l0" using ok by auto
    have "findIssueLocation l i = None"
    proof (cases "findIssueLocation l0 i")
      case None
      then show ?thesis by (simp add: l0(2) removeIssueFromBuckets_def)
    next
      case (Some loc)
      obtain st c where "loc = (st, c)" by (cases loc)
      with Some have "findIssueLocation l0 i = Some (st, c)" by simp
      then show ?thesis
        unfolding findIssueLocation_None l0(2) by (simp add: remove_loaded [OF ok0])
    qed
    with inv d lk show ?thesis by simp
  qed
  have children: "i \<notin> iss_id ` set xs"
    if p: "parent \<noteq> []" and d: "getQueryData cl ?q7 (issueKeys_children wsId parent) = Some (CIssues xs)"
    for parent xs
  proof
    assume "i \<in> iss_id ` set xs"
    then obtain x where x: "x \<in> set xs" "iss_id x = i" by auto
    have d2: "getQueryData cl ?q2 (issueKeys_children wsId parent) = Some (CIssues xs)"
      using d get by (metis option.distinct(1))
    have same: "getQueryData cl ?q1 (issueKeys_children wsId parent) =
        getQueryData cl qc (issueKeys_children wsId parent)"
      by (rule get_prune_lists_other [OF shaped]) simp
    obtain ys where ys: "getQueryData cl qc (issueKeys_children wsId parent) = Some (CIssues ys)"
      and xs: "xs = (if parent \<in> set ps then filter (\<lambda>x. iss_id x \<noteq> i) ys else ys)"
      using d2 by (auto simp: get_prune_children_at same split: option.splits)
    from xs x have "x \<in> set ys" by (auto split: if_splits)
    from parents [OF ys this x(2) p] xs x show False by simp
  qed
  have removed: "getQueryData cl ?q7 k = None" if "k \<in> set (removed_keys wsId i)" for k
    using that get by (auto simp: by_prefix_selects)
  show ?thesis
    unfolding run Let_def prod.case
    using lists children removed forget_absent by blast
qed

lemma collect_lists_raise:
  assumes "(k, Some v) \<in> set es" "\<nexists>l. v = CList l"
  shows "collect_from_lists i es ps = Inl TypeError"
  using assms(1)
proof (induction es arbitrary: ps)
  case (Cons e es)
  obtain j d where e: "e = (j, d)" by (cases e)
  have "read_list (Some v) = Inl TypeError" using assms(2) by (cases v) auto
  moreover have "r = Inl TypeError \<or> (\<exists>x. r = Inr x)" for r :: "js_error + list_cache option"
    by (cases r) (auto intro: js_error.exhaust)
  ultimately show ?case
    using Cons by (cases "read_list d") (auto simp: e intro: js_error.exhaust split: option.split)
qed simp

lemma deleted_raises:
  assumes "getQueryData cl qc (issueKeys_myAssigneeGroups wsId scope flt) = Some (CGrouped g)"
  shows "onIssueDeleted cl wsId i (qc, recents) = (Some TypeError, (qc, recents))"
proof -
  let ?k = "issueKeys_myAssigneeGroups wsId scope flt"
  have "filter_selects (by_prefix (issueKeys_myAll wsId)) ?k"
    by (simp add: by_prefix_selects query_key_defs)
  then have "(?k, Some (CGrouped g)) \<in> set (getQueriesData cl qc (by_prefix (issueKeys_myAll wsId)))"
    using assms by (rule queries_complete [rotated])
  then have my: "collect_from_lists i (getQueriesData cl qc (by_prefix (issueKeys_myAll wsId))) ps =
      Inl TypeError" for ps by (rule collect_lists_raise) simp
  have "collectDeletedIssueCacheMetadata cl wsId i qc = Inl TypeError"
    using my by (auto simp: collectDeletedIssueCacheMetadata_def Let_def
        intro: js_error.exhaust split: sum.split)
  then show ?thesis
    by (simp add: onIssueDeleted_def cleanupDeletedIssueCaches_def and_then_def)
qed

end



text \<open>
  A cached board grouped by assignee makes every deletion fail: its key lies under the prefix
  of the user's lists, its data has no buckets, and collecting the parents reads a bucket of it, so
  the handler raises a \<open>TypeError\<close> before it has changed anything: the deleted issue stays in
  every cache and in the recent issues.
\<close>
theorem onIssueDeleted_raises:
  assumes "query_cache cl"
    and "getQueryData cl qc (issueKeys_myAssigneeGroups wsId scope flt) = Some (CGrouped g)"
  shows "onIssueDeleted cl wsId i (qc, recents) = (Some TypeError, (qc, recents))"
  by (rule query_cache.deleted_raises [OF assms])

lemma onIssueDeleted_raises_witness:
  "\<forall>flt. \<exists>e st. onIssueDeleted memory_client ''w'' ''i1''
     ([(issueKeys_myAssigneeGroups ''w'' ''assigned'' flt, CGrouped \<lparr>resp_groups = []\<rparr>, False)],
      \<lparr>rec_byWorkspace = []\<rparr>) = (Some e, st)"
proof
  fix flt
  have "getQueryData memory_client
      [(issueKeys_myAssigneeGroups ''w'' ''assigned'' flt, CGrouped \<lparr>resp_groups = []\<rparr>, False)]
      (issueKeys_myAssigneeGroups ''w'' ''assigned'' flt) = Some (CGrouped \<lparr>resp_groups = []\<rparr>)"
    by (simp add: memory_client_def)
  from onIssueDeleted_raises [OF memory.query_cache_axioms this]
  show "\<exists>e st. onIssueDeleted memory_client ''w'' ''i1''
     ([(issueKeys_myAssigneeGroups ''w'' ''assigned'' flt, CGrouped \<lparr>resp_groups = []\<rparr>, False)],
      \<lparr>rec_byWorkspace = []\<rparr>) = (Some e, st)" by blast
qed

end
