(* ===== verification/Permissions.thy ===== *)
theory Permissions
  imports Prelude
begin

text \<open>
  Permission rules (\<open>packages/core/permissions/rules.ts\<close>, \<open>types.ts\<close>) and the access scope shown in
  the agent list (\<open>agents/effective-access.ts\<close>).  Resources carry the fields the rules read.  A
  field that an older server may omit is an \<open>option\<close>.
\<close>

section \<open>Decisions\<close>

datatype member_role = Owner | Admin | Plain_member

record permission_context =
  ctx_userId :: "string option"
  ctx_role :: "member_role option"

datatype decision_reason = Allowed | Not_authenticated | Not_member | Not_owner_role
  | Not_admin_role | Not_resource_owner | Last_owner | Private_visibility | Unknown_reason

record decision =
  dec_allowed :: bool
  dec_reason :: decision_reason
  dec_message :: string

definition ALLOW :: decision where
  "ALLOW = \<lparr>dec_allowed = True, dec_reason = Allowed, dec_message = []\<rparr>"

definition deny :: "decision_reason \<Rightarrow> string \<Rightarrow> decision" where
  "deny reason message = \<lparr>dec_allowed = False, dec_reason = reason, dec_message = message\<rparr>"

definition isAdminLike :: "member_role option \<Rightarrow> bool" where
  "isAdminLike role \<longleftrightarrow> role = Some Owner \<or> role = Some Admin"

text \<open>The dash of the messages, U+2014, as its UTF-8 bytes.\<close>

definition em_dash :: string where
  "em_dash = [CHR 0xE2, CHR 0x80, CHR 0x94]"

lemma deny_fields [simp]:
  "dec_allowed (deny r m) = False" "dec_reason (deny r m) = r" "dec_allowed ALLOW" "dec_reason ALLOW = Allowed"
  by (simp_all add: deny_def ALLOW_def)

section \<open>Resources\<close>

datatype permission_mode = Private | Public_to

datatype target_type = Target_workspace | Target_member | Target_team

record invocation_target =
  tgt_type :: target_type
  tgt_id :: "string option"

record agent =
  agt_id :: string
  agt_runtime_id :: string
  agt_permission_mode :: "permission_mode option"
  agt_invocation_targets :: "invocation_target list option"
  agt_max_concurrent_tasks :: int
  agt_owner_id :: "string option"
  agt_archived_at :: "string option"

record skill =
  skl_id :: string
  skl_created_by :: "string option"

datatype comment_author = Author_member | Author_agent | Author_system

record comment =
  com_id :: string
  com_author_type :: comment_author
  com_author_id :: string

section \<open>Rules\<close>

definition canEditAgent :: "agent \<Rightarrow> permission_context \<Rightarrow> decision" where
  "canEditAgent agent ctx =
     (if ctx_userId ctx = None then deny Not_authenticated ''Sign in to edit this agent.''
      else if isAdminLike (ctx_role ctx) then ALLOW
      else if agt_owner_id agent \<noteq> None \<and> agt_owner_id agent = ctx_userId ctx then ALLOW
      else deny Not_resource_owner ''Only the agent owner and workspace admins can edit this agent.'')"

definition canAssignAgentToIssue :: "agent \<Rightarrow> permission_context \<Rightarrow> decision" where
  "canAssignAgentToIssue agent ctx =
     (if ctx_userId ctx = None then deny Not_authenticated ''Sign in to assign agents.''
      else if agt_owner_id agent \<noteq> None \<and> agt_owner_id agent = ctx_userId ctx then ALLOW
      else if agt_permission_mode agent = Some Private
        then deny Private_visibility
          (''Personal agent '' @ em_dash @ '' only the owner can assign work.'')
      else let targets = (case agt_invocation_targets agent of None \<Rightarrow> [] | Some ts \<Rightarrow> ts) in
        if list_ex (\<lambda>t. tgt_type t = Target_workspace) targets then
          if ctx_role ctx = None then deny Not_member ''Join this workspace to assign agents.''
          else ALLOW
        else if list_ex (\<lambda>t. tgt_type t = Target_member \<and> tgt_id t = ctx_userId ctx) targets then ALLOW
        else deny Private_visibility
          (''Restricted agent '' @ em_dash @ '' you don't have access to assign work to it.''))"

definition canEditSkill :: "skill \<Rightarrow> permission_context \<Rightarrow> decision" where
  "canEditSkill skill ctx =
     (if ctx_userId ctx = None then deny Not_authenticated ''Sign in to edit this skill.''
      else if isAdminLike (ctx_role ctx) then ALLOW
      else if skl_created_by skill \<noteq> None \<and> skl_created_by skill = ctx_userId ctx then ALLOW
      else deny Not_resource_owner ''Only the creator and workspace admins can edit this skill.'')"

definition canDeleteSkill :: "skill \<Rightarrow> permission_context \<Rightarrow> decision" where
  "canDeleteSkill skill ctx = canEditSkill skill ctx"

definition canEditComment :: "comment \<Rightarrow> permission_context \<Rightarrow> decision" where
  "canEditComment comment ctx =
     (if ctx_userId ctx = None then deny Not_authenticated ''Sign in to edit comments.''
      else if com_author_type comment \<noteq> Author_member
        then deny Not_resource_owner ''Agent-authored comments cannot be edited.''
      else if Some (com_author_id comment) = ctx_userId ctx then ALLOW
      else if isAdminLike (ctx_role ctx) then ALLOW
      else deny Not_resource_owner ''Only the author and workspace admins can edit this comment.'')"

definition canDeleteComment :: "comment \<Rightarrow> permission_context \<Rightarrow> decision" where
  "canDeleteComment comment ctx =
     (if ctx_userId ctx = None then deny Not_authenticated ''Sign in to delete comments.''
      else if com_author_type comment = Author_member \<and> Some (com_author_id comment) = ctx_userId ctx
        then ALLOW
      else if isAdminLike (ctx_role ctx) then ALLOW
      else deny Not_resource_owner ''Only the author and workspace admins can delete this comment.'')"

text \<open>The owner of a runtime is all this rule reads of it.\<close>

definition canDeleteRuntime :: "string option \<Rightarrow> permission_context \<Rightarrow> decision" where
  "canDeleteRuntime owner_id ctx =
     (if ctx_userId ctx = None then deny Not_authenticated ''Sign in to delete runtimes.''
      else if isAdminLike (ctx_role ctx) then ALLOW
      else if owner_id \<noteq> None \<and> owner_id = ctx_userId ctx then ALLOW
      else deny Not_resource_owner
        ''Only the runtime owner and workspace admins can delete this runtime.'')"

definition canUpdateWorkspaceSettings :: "permission_context \<Rightarrow> decision" where
  "canUpdateWorkspaceSettings ctx =
     (if isAdminLike (ctx_role ctx) then ALLOW
      else deny Not_admin_role ''Only workspace owners and admins can update workspace settings.'')"

definition canDeleteWorkspace :: "permission_context \<Rightarrow> decision" where
  "canDeleteWorkspace ctx =
     (if ctx_role ctx = Some Owner then ALLOW
      else deny Not_owner_role ''Only the workspace owner can delete this workspace.'')"

definition canManageMembers :: "permission_context \<Rightarrow> decision" where
  "canManageMembers ctx =
     (if isAdminLike (ctx_role ctx) then ALLOW
      else deny Not_admin_role ''Only workspace owners and admins can manage members.'')"

definition canChangeMemberRole :: "member_role \<Rightarrow> int \<Rightarrow> permission_context \<Rightarrow> decision" where
  "canChangeMemberRole targetRole ownerCount ctx =
     (let manage = canManageMembers ctx in
      if \<not> dec_allowed manage then manage
      else if targetRole = Owner \<and> ctx_role ctx \<noteq> Some Owner
        then deny Not_owner_role ''Only the workspace owner can change another owner's role.''
      else if targetRole = Owner \<and> ownerCount \<le> 1
        then deny Last_owner (''Promote another member to owner first '' @ em_dash @
          '' a workspace must keep at least one owner.'')
      else ALLOW)"

section \<open>The access scope of an agent\<close>

datatype access_scope = Scope_everyone | Specific_people | Owner_only

definition effectiveAccessScope ::
  "permission_mode option \<Rightarrow> invocation_target list option \<Rightarrow> access_scope" where
  "effectiveAccessScope permissionMode invocationTargets =
     (if permissionMode \<noteq> Some Public_to then Owner_only
      else if list_ex (\<lambda>t. tgt_type t = Target_workspace)
        (case invocationTargets of None \<Rightarrow> [] | Some ts \<Rightarrow> ts) then Scope_everyone
      else Specific_people)"

definition ALL_ACCESS_SCOPES :: "access_scope list" where
  "ALL_ACCESS_SCOPES = [Scope_everyone, Specific_people, Owner_only]"

definition isAccessChangeReady :: "(permission_mode \<times> target_type list) option \<Rightarrow> bool" where
  "isAccessChangeReady change =
     (case change of None \<Rightarrow> False
      | Some (mode, targets) \<Rightarrow> if mode = Private then True else length targets > 0)"

section \<open>Properties\<close>

lemmas rule_defs = canEditAgent_def canEditSkill_def canDeleteSkill_def canEditComment_def
  canDeleteComment_def canDeleteRuntime_def canUpdateWorkspaceSettings_def canDeleteWorkspace_def
  canManageMembers_def canChangeMemberRole_def isAdminLike_def

text \<open>The member list of a workspace, and a role change applied to it.\<close>

definition owner_count :: "(string \<times> member_role) list \<Rightarrow> int" where
  "owner_count members = int (length (filter (\<lambda>(_, r). r = Owner) members))"

definition change_role :: "string \<Rightarrow> member_role \<Rightarrow> (string \<times> member_role) list \<Rightarrow> (string \<times> member_role) list" where
  "change_role u new members = map (\<lambda>(v, r). if v = u then (v, new) else (v, r)) members"

lemma owner_count_change:
  assumes "distinct (map fst members)" "(u, r) \<in> set members"
  shows "owner_count members \<le> owner_count (change_role u new members) + (if r = Owner then 1 else 0)"
  using assms
proof (induction members)
  case (Cons m ms)
  obtain v q where m: "m = (v, q)" by (cases m)
  show ?case
  proof (cases "v = u")
    case True
    then have u: "u \<notin> fst ` set ms" using Cons.prems by (simp add: m)
    then have "change_role u new ms = ms"
      unfolding change_role_def by (intro map_idI) (auto simp: image_iff)
    moreover have "q = r" using Cons.prems u True by (auto simp: m image_iff)
    ultimately have "change_role u new ms = ms" "q = r" by auto
    with True show ?thesis by (auto simp: m owner_count_def change_role_def)
  next
    case False
    with Cons show ?thesis by (auto simp: m owner_count_def change_role_def)
  qed
qed simp

text \<open>
  C9. A workspace never loses its last owner through a permitted role change: when the rule
  allows the change of a member's role, the workspace still has an owner afterwards, whatever the
  new role is; only owners are allowed to change an owner's role, and a user who is neither owner
  nor admin is allowed no change at all.
\<close>
theorem canChangeMemberRole_keeps_owner:
  assumes "distinct (map fst members)" and "(u, r) \<in> set members" and "1 \<le> owner_count members"
    and "dec_allowed (canChangeMemberRole r (owner_count members) ctx)"
  shows "1 \<le> owner_count (change_role u new members)
    \<and> (r = Owner \<longrightarrow> ctx_role ctx = Some Owner)
    \<and> (ctx_role ctx = Some Owner \<or> ctx_role ctx = Some Admin)"
proof -
  have "r = Owner \<Longrightarrow> 1 < owner_count members \<and> ctx_role ctx = Some Owner"
    using assms(4) by (auto simp: rule_defs Let_def split: if_splits)
  moreover have "ctx_role ctx = Some Owner \<or> ctx_role ctx = Some Admin"
    using assms(4) by (auto simp: rule_defs Let_def split: if_splits)
  ultimately show ?thesis using owner_count_change [OF assms(1,2), of new] assms(3)
    by (auto split: if_splits)
qed

lemma canChangeMemberRole_keeps_owner_witness:
  "1 \<le> owner_count (change_role ''b'' Plain_member [(''a'', Owner), (''b'', Owner)])"
proof -
  have "dec_allowed (canChangeMemberRole Owner (owner_count [(''a'', Owner), (''b'', Owner)])
      \<lparr>ctx_userId = Some ''a'', ctx_role = Some Owner\<rparr>)"
    by (simp add: rule_defs owner_count_def)
  from canChangeMemberRole_keeps_owner [OF _ _ _ this, of "''b''"] show ?thesis
    by (simp add: owner_count_def)
qed

text \<open>The comment on the rule also bars admins from promoting to owner, which the rule does not see.\<close>

lemma admin_may_promote:
  assumes "ctx_role ctx = Some Admin" "r \<noteq> Owner"
  shows "dec_allowed (canChangeMemberRole r n ctx)"
  using assms by (simp add: rule_defs Let_def)

text \<open>
  C10. The gate on invoking an agent is the access scope the list shows: for an agent whose
  permission mode is known, a signed-in user may assign work exactly when the user owns the agent,
  or the scope is the workspace and the user is a member of it, or the scope is specific people
  and a member grant names the user; a team grant never counts and being an admin does not either.
  When the mode is missing the two part: the list shows an owner-only agent, the gate follows the
  grants.
\<close>
theorem canAssign_iff_scope:
  assumes "ctx_userId ctx = Some u"
  shows "(agt_permission_mode agent \<noteq> None \<longrightarrow>
      (dec_allowed (canAssignAgentToIssue agent ctx) \<longleftrightarrow>
       agt_owner_id agent = Some u \<or>
       (case effectiveAccessScope (agt_permission_mode agent) (agt_invocation_targets agent) of
          Owner_only \<Rightarrow> False
        | Scope_everyone \<Rightarrow> ctx_role ctx \<noteq> None
        | Specific_people \<Rightarrow> (\<exists>ts t. agt_invocation_targets agent = Some ts \<and> t \<in> set ts
            \<and> tgt_type t = Target_member \<and> tgt_id t = Some u))))
    \<and> (agt_permission_mode agent = None \<longrightarrow>
       effectiveAccessScope (agt_permission_mode agent) (agt_invocation_targets agent) = Owner_only
       \<and> canAssignAgentToIssue agent ctx =
           canAssignAgentToIssue (agent\<lparr>agt_permission_mode := Some Public_to\<rparr>) ctx)"
proof (cases "agt_permission_mode agent")
  case None
  then show ?thesis by (simp add: effectiveAccessScope_def canAssignAgentToIssue_def)
next
  case (Some mode)
  show ?thesis
  proof (cases mode)
    case Private
    with Some assms show ?thesis
      by (auto simp: effectiveAccessScope_def canAssignAgentToIssue_def)
  next
    case Public_to
    with Some assms show ?thesis
      by (cases "agt_invocation_targets agent")
        (auto simp: effectiveAccessScope_def canAssignAgentToIssue_def list_ex_iff Let_def)
  qed
qed

lemma canAssign_iff_scope_witness:
  "\<not> dec_allowed (canAssignAgentToIssue
     \<lparr>agt_id = ''a'', agt_runtime_id = ''r'', agt_permission_mode = Some Private,
      agt_invocation_targets = Some [], agt_max_concurrent_tasks = 1, agt_owner_id = Some ''u'',
      agt_archived_at = None\<rparr> \<lparr>ctx_userId = Some ''admin'', ctx_role = Some Admin\<rparr>)"
  using canAssign_iff_scope [of "\<lparr>ctx_userId = Some ''admin'', ctx_role = Some Admin\<rparr>" "''admin''"
      "\<lparr>agt_id = ''a'', agt_runtime_id = ''r'', agt_permission_mode = Some Private,
        agt_invocation_targets = Some [], agt_max_concurrent_tasks = 1, agt_owner_id = Some ''u'',
        agt_archived_at = None\<rparr>"]
  by (simp add: effectiveAccessScope_def)

end
