(* ===== verification/Js_Date.thy ===== *)
theory Js_Date
  imports Prelude "HOL-Library.Monad_Syntax"
begin

text \<open>
  The part of JavaScript's \<open>Date\<close> the client relies on: the day numbers of the proleptic Gregorian
  calendar (ECMA-262, Time Values), \<open>Date.UTC\<close>, the UTC calendar fields of a time value and the
  date-time string format.  A time value is an \<open>int\<close> of milliseconds since the epoch; \<open>NaN\<close> is
  \<open>None\<close>.  Strings outside the standard's format have implementation-defined results and go to a
  parameter \<open>legacy\<close>.
\<close>

section \<open>Days and years\<close>

definition leap :: "int \<Rightarrow> bool" where
  "leap y \<longleftrightarrow> (y mod 4 = 0 \<and> y mod 100 \<noteq> 0) \<or> y mod 400 = 0"

text \<open>\<open>DayFromYear\<close>: the day number of the first day of a year.\<close>

definition day_from_year :: "int \<Rightarrow> int" where
  "day_from_year y =
     365 * (y - 1970) + (y - 1969) div 4 - (y - 1901) div 100 + (y - 1601) div 400"

definition days_in_year :: "int \<Rightarrow> int" where
  "days_in_year y = (if leap y then 366 else 365)"

text \<open>Days of the year before a month, \<open>0\<close> for January.\<close>

definition days_before_month :: "bool \<Rightarrow> int \<Rightarrow> int" where
  "days_before_month lp m =
     [0, 31, 59, 90, 120, 151, 181, 212, 243, 273, 304, 334, 365] ! nat m
       + (if lp \<and> 2 \<le> m then 1 else 0)"

text \<open>\<open>MakeDay\<close>: the month may lie outside \<open>0..11\<close> and the day outside the month.\<close>

definition make_day :: "int \<Rightarrow> int \<Rightarrow> int \<Rightarrow> int" where
  "make_day y m d =
     (let ym = y + m div 12; mn = m mod 12
      in day_from_year ym + days_before_month (leap ym) mn + d - 1)"

definition ms_per_day :: int where "ms_per_day = 86400000"

text \<open>\<open>Date.UTC(y, m, d)\<close>: a year in \<open>0..99\<close> means the twentieth century.\<close>

definition date_UTC :: "int \<Rightarrow> int \<Rightarrow> int \<Rightarrow> int" where
  "date_UTC y m d = make_day (if 0 \<le> y \<and> y \<le> 99 then 1900 + y else y) m d * ms_per_day"

lemma div_succ:
  fixes a n :: int
  assumes "0 < n"
  shows "(a + 1) div n = a div n + (if (a + 1) mod n = 0 then 1 else 0)"
proof -
  have r: "0 \<le> a mod n" "a mod n < n" and a: "a = n * (a div n) + a mod n" using assms by simp_all
  show ?thesis
  proof (cases "a mod n = n - 1")
    case True
    with a have e: "a + 1 = n * (a div n + 1)" by (simp add: algebra_simps)
    with assms show ?thesis by simp
  next
    case False
    with r a have "(a + 1) div n = a div n \<and> (a + 1) mod n = a mod n + 1"
      by (intro conjI int_div_pos_eq [where r = "a mod n + 1"] int_mod_pos_eq [where q = "a div n"])
        (auto simp: algebra_simps)
    with r show ?thesis by simp
  qed
qed

lemma day_from_year_Suc: "day_from_year (y + 1) = day_from_year y + days_in_year y"
proof -
  have 4: "(y - 1968) div 4 = (y - 1969) div 4 + (if y mod 4 = 0 then 1 else 0)"
    using div_succ [of 4 "y - 1969"] mod_mult_self1 [of y "-492" 4] by simp
  have 100: "(y - 1900) div 100 = (y - 1901) div 100 + (if y mod 100 = 0 then 1 else 0)"
    using div_succ [of 100 "y - 1901"] mod_mult_self1 [of y "-19" 100] by simp
  have 400: "(y - 1600) div 400 = (y - 1601) div 400 + (if y mod 400 = 0 then 1 else 0)"
    using div_succ [of 400 "y - 1601"] mod_mult_self1 [of y "-4" 400] by simp
  have d: "y mod 100 = 0 \<Longrightarrow> y mod 4 = 0" "y mod 400 = 0 \<Longrightarrow> y mod 100 = 0"
    by (auto simp: mod_eq_0_iff_dvd intro: dvd_trans [of 4 100 y] dvd_trans [of 100 400 y])
  have e: "y + 1 - 1969 = y - 1968" "y + 1 - 1901 = y - 1900" "y + 1 - 1601 = y - 1600" by simp_all
  show ?thesis unfolding day_from_year_def days_in_year_def leap_def e 4 100 400
    using d by (cases "y mod 4 = 0"; cases "y mod 100 = 0"; cases "y mod 400 = 0") simp_all
qed

lemma days_in_year_bounds: "365 \<le> days_in_year y" "days_in_year y \<le> 366"
  by (simp_all add: days_in_year_def)

lemma day_from_year_mono:
  assumes "y < z"
  shows "day_from_year y + days_in_year y \<le> day_from_year z"
proof -
  have "day_from_year y + days_in_year y \<le> day_from_year (y + 1 + int n)" for n
  proof (induction n)
    case (Suc n)
    have "day_from_year (y + 1 + int (Suc n)) =
        day_from_year (y + 1 + int n) + days_in_year (y + 1 + int n)"
      using day_from_year_Suc [of "y + 1 + int n"] by (simp add: add_ac)
    with Suc days_in_year_bounds(1) [of "y + 1 + int n"] show ?case by linarith
  qed (simp add: day_from_year_Suc)
  from this [of "nat (z - y - 1)"] assms show ?thesis by simp
qed

section \<open>Calendar days\<close>

definition month_length :: "int \<Rightarrow> int \<Rightarrow> int" where
  "month_length y m = days_before_month (leap y) m - days_before_month (leap y) (m - 1)"

definition civil :: "int \<Rightarrow> int \<Rightarrow> int \<Rightarrow> bool" where
  "civil y m d \<longleftrightarrow> 1 \<le> m \<and> m \<le> 12 \<and> 1 \<le> d \<and> d \<le> month_length y m"

lemma month_cases:
  fixes m :: int
  assumes "1 \<le> m" "m \<le> 12"
  shows "m \<in> {1, 2, 3, 4, 5, 6, 7, 8, 9, 10, 11, 12}"
  unfolding insert_iff empty_iff using assms by presburger

lemma days_before_month_mono:
  assumes "0 \<le> m" "m \<le> n" "n \<le> 12"
  shows "days_before_month lp m \<le> days_before_month lp n"
proof -
  have step: "days_before_month lp k \<le> days_before_month lp (k + 1)" if "0 \<le> k" "k \<le> 11" for k
  proof -
    have "k \<in> {0, 1, 2, 3, 4, 5, 6, 7, 8, 9, 10, 11}" using month_cases [of "k + 1"] that by auto
    then show ?thesis by (auto simp: days_before_month_def)
  qed
  have "m + int j \<le> 12 \<Longrightarrow> days_before_month lp m \<le> days_before_month lp (m + int j)" for j
  proof (induction j)
    case (Suc j)
    then show ?case using step [of "m + int j"] assms(1) by (simp add: add_ac)
  qed simp
  from this [of "nat (n - m)"] assms show ?thesis by simp
qed

lemma days_before_month_ends [simp]:
  "days_before_month lp 0 = 0" "days_before_month lp 12 = (if lp then 366 else 365)"
  by (simp_all add: days_before_month_def)

lemma make_day_civil:
  "1 \<le> m \<Longrightarrow> m \<le> 12 \<Longrightarrow> make_day y (m - 1) d = day_from_year y + days_before_month (leap y) (m - 1) + d - 1"
  by (simp add: make_day_def Let_def)

lemma civil_in_month:
  assumes "civil y m d"
  shows "day_from_year y + days_before_month (leap y) (m - 1) \<le> make_day y (m - 1) d"
    and "make_day y (m - 1) d < day_from_year y + days_before_month (leap y) m"
  using assms by (auto simp: civil_def month_length_def make_day_civil)

lemma civil_in_year:
  assumes "civil y m d"
  shows "day_from_year y \<le> make_day y (m - 1) d"
    and "make_day y (m - 1) d < day_from_year y + days_in_year y"
proof -
  have m: "1 \<le> m" "m \<le> 12" using assms by (auto simp: civil_def)
  have "0 \<le> days_before_month (leap y) (m - 1)"
    using days_before_month_mono [of 0 "m - 1" "leap y"] m by simp
  moreover have "days_before_month (leap y) m \<le> days_in_year y"
    using days_before_month_mono [of m 12 "leap y"] m by (simp add: days_in_year_def)
  ultimately show "day_from_year y \<le> make_day y (m - 1) d"
    and "make_day y (m - 1) d < day_from_year y + days_in_year y"
    using civil_in_month [OF assms] by linarith+
qed

text \<open>Day numbers order calendar days as their components do.\<close>

lemma make_day_less:
  assumes "civil y m d" "civil y' m' d'"
  shows "make_day y (m - 1) d < make_day y' (m' - 1) d' \<longleftrightarrow>
    y < y' \<or> (y = y' \<and> (m < m' \<or> (m = m' \<and> d < d')))"
proof -
  have less: "make_day a (b - 1) c < make_day a' (b' - 1) c'"
    if "civil a b c" "civil a' b' c'" "a < a' \<or> (a = a' \<and> (b < b' \<or> (b = b' \<and> c < c')))" for a b c a' b' c'
  proof -
    from that(3) consider "a < a'" | "a = a'" "b < b'" | "a = a'" "b = b'" "c < c'" by auto
    then show ?thesis
    proof cases
      case 1
      then show ?thesis using civil_in_year(2) [OF that(1)] civil_in_year(1) [OF that(2)]
          day_from_year_mono [of a a'] by linarith
    next
      case 2
      have "days_before_month (leap a) b \<le> days_before_month (leap a) (b' - 1)"
        using 2 that(1,2) by (intro days_before_month_mono) (auto simp: civil_def)
      then show ?thesis using civil_in_month(2) [OF that(1)] civil_in_month(1) [OF that(2)] 2 by auto
    next
      case 3
      then show ?thesis using that(1,2) by (simp add: make_day_civil civil_def)
    qed
  qed
  show ?thesis
    using less [OF assms] less [OF assms(2,1)]
    by (metis less_asym less_irrefl linorder_cases)
qed

section \<open>The calendar day of a day number\<close>

definition year_from_day :: "int \<Rightarrow> int" where
  "year_from_day d =
     (let y = 1970 + (400 * d) div 146097 in
      if d < day_from_year y then y - 1
      else if day_from_year (y + 1) \<le> d then y + 1 else y)"

definition month_from_days :: "bool \<Rightarrow> int \<Rightarrow> int" where
  "month_from_days lp k = 1 + int (length (filter (\<lambda>m. days_before_month lp m \<le> k) [1..11]))"

definition civil_from_day :: "int \<Rightarrow> int \<times> int \<times> int" where
  "civil_from_day d =
     (let y = year_from_day d; k = d - day_from_year y; m = month_from_days (leap y) k
      in (y, m, k - days_before_month (leap y) (m - 1) + 1))"

lemma day_from_year_approx:
  "146097 * (y - 1970) - 500 < 400 * day_from_year y" "400 * day_from_year y < 146097 * (y - 1970) + 500"
proof -
  define a b c where "a = (y - 1969) mod 4" and "b = (y - 1901) mod 100" and "c = (y - 1601) mod 400"
  have r: "0 \<le> a" "a \<le> 3" "0 \<le> b" "b \<le> 99" "0 \<le> c" "c \<le> 399"
    unfolding a_def b_def c_def by simp_all
  have "b = (y - 1601 + 100 * (-3)) mod 100" by (simp add: b_def)
  also have "\<dots> = (y - 1601) mod 100" by (rule mod_mult_self2)
  also have "\<dots> = c mod 100" unfolding c_def by (rule mod_mod_cancel [symmetric]) simp
  finally have "b = c mod 100" .
  then have c: "b \<le> c" "c \<le> b + 300" using r by (simp_all add: zmod_le_nonneg_dividend) presburger
  have "4 * ((y - 1969) div 4) = y - 1969 - a" "100 * ((y - 1901) div 100) = y - 1901 - b"
    "400 * ((y - 1601) div 400) = y - 1601 - c"
    unfolding a_def b_def c_def by (simp_all add: minus_mod_eq_mult_div)
  moreover define p q t where "p = (y - 1969) div 4" and "q = (y - 1901) div 100" and "t = (y - 1601) div 400"
  ultimately have "4 * p = y - 1969 - a" "100 * q = y - 1901 - b" "400 * t = y - 1601 - c" by simp_all
  then have "400 * (365 * (y - 1970) + p - q + t) = 146097 * (y - 1970) + 193 - 100 * a + 4 * b - c"
    by simp
  then have "400 * day_from_year y = 146097 * (y - 1970) + 193 - 100 * a + 4 * b - c"
    unfolding day_from_year_def p_def q_def t_def .
  with r c show "146097 * (y - 1970) - 500 < 400 * day_from_year y"
    "400 * day_from_year y < 146097 * (y - 1970) + 500" by linarith+
qed

lemma year_from_day_range:
  "day_from_year (year_from_day d) \<le> d" "d < day_from_year (year_from_day d + 1)"
proof -
  define y where "y = 1970 + (400 * d) div 146097"
  have y: "146097 * (y - 1970) \<le> 400 * d" "400 * d < 146097 * (y - 1970) + 146097"
    unfolding y_def by simp_all
  have "day_from_year (y - 1) \<le> d"
    using day_from_year_approx(2) [of "y - 1"] y(1) by simp
  moreover have "d < day_from_year (y + 2)"
    using day_from_year_approx(1) [of "y + 2"] y(2) by simp
  ultimately show "day_from_year (year_from_day d) \<le> d" "d < day_from_year (year_from_day d + 1)"
    unfolding year_from_day_def Let_def y_def [symmetric] by (auto simp: add.commute [of 2] split: if_splits)
qed

lemma day_from_year_le: "y \<le> z \<Longrightarrow> day_from_year y \<le> day_from_year z"
  using day_from_year_mono [of y z] days_in_year_bounds(1) [of y] by (cases "y = z") auto

lemma year_from_day_unique:
  assumes "day_from_year y \<le> d" "d < day_from_year (y + 1)"
  shows "year_from_day d = y"
proof (rule ccontr)
  assume "year_from_day d \<noteq> y"
  then consider "year_from_day d + 1 \<le> y" | "y + 1 \<le> year_from_day d" by linarith
  then show False
    using day_from_year_le [of "year_from_day d + 1" y] day_from_year_le [of "y + 1" "year_from_day d"]
      year_from_day_range [of d] assms by cases auto
qed

lemma month_from_days_unique:
  assumes "1 \<le> m" "m \<le> 12" "days_before_month lp (m - 1) \<le> k" "k < days_before_month lp m"
  shows "month_from_days lp k = m"
proof -
  have list: "[1..11] = [1, 2, 3, 4, 5, 6, 7, 8, 9, 10, 11 :: int]" by (simp add: upto.simps)
  show ?thesis using month_cases [OF assms(1,2)] assms(3,4)
    by (cases lp) (auto simp: month_from_days_def list days_before_month_def)
qed

text \<open>Reading the calendar fields of a day built from a calendar day gives the day back.\<close>

lemma civil_from_day_make_day:
  assumes "civil y m d"
  shows "civil_from_day (make_day y (m - 1) d) = (y, m, d)"
proof -
  have m: "1 \<le> m" "m \<le> 12" using assms by (auto simp: civil_def)
  have y: "year_from_day (make_day y (m - 1) d) = y"
    using civil_in_year [OF assms] by (intro year_from_day_unique) (auto simp: day_from_year_Suc)
  have k: "month_from_days (leap y) (make_day y (m - 1) d - day_from_year y) = m"
    using civil_in_month [OF assms] m by (intro month_from_days_unique) auto
  show ?thesis unfolding civil_from_day_def y Let_def k by (simp add: make_day_civil m)
qed

lemma month_from_days_range:
  assumes "0 \<le> k" "k < days_before_month lp 12"
  shows "1 \<le> month_from_days lp k" "month_from_days lp k \<le> 12"
    "days_before_month lp (month_from_days lp k - 1) \<le> k" "k < days_before_month lp (month_from_days lp k)"
proof -
  have "\<exists>m. 1 \<le> m \<and> m \<le> 12 \<and> days_before_month lp (m - 1) \<le> k \<and> k < days_before_month lp m"
  proof (rule ccontr)
    assume none: "\<not> ?thesis"
    have "j \<le> 12 \<Longrightarrow> days_before_month lp (int j) \<le> k" for j
    proof (induction j)
      case (Suc j)
      then show ?case using none [simplified, rule_format, of "int j + 1"] by (simp add: add_ac)
    qed (simp add: assms)
    from this [of 12] assms show False by simp
  qed
  then obtain m where m: "1 \<le> m" "m \<le> 12" "days_before_month lp (m - 1) \<le> k" "k < days_before_month lp m"
    by blast
  with month_from_days_unique [OF m]
  show "1 \<le> month_from_days lp k" "month_from_days lp k \<le> 12"
    "days_before_month lp (month_from_days lp k - 1) \<le> k" "k < days_before_month lp (month_from_days lp k)"
    by simp_all
qed

lemma civil_from_day_civil:
  assumes "civil_from_day k = (y, m, d)"
  shows "civil y m d" "make_day y (m - 1) d = k"
proof -
  define r where "r = k - day_from_year (year_from_day k)"
  have y: "y = year_from_day k" and m: "m = month_from_days (leap y) r"
    and d: "d = r - days_before_month (leap y) (m - 1) + 1"
    using assms by (auto simp: civil_from_day_def Let_def r_def)
  have r: "0 \<le> r" "r < days_before_month (leap y) 12"
    using year_from_day_range [of k] by (auto simp: r_def y day_from_year_Suc days_in_year_def)
  note month_from_days_range [OF r, folded m]
  then show "civil y m d" "make_day y (m - 1) d = k"
    by (auto simp: civil_def month_length_def make_day_civil d r_def y)
qed

section \<open>Date-time strings\<close>

definition is_digit :: "char \<Rightarrow> bool" where
  "is_digit c \<longleftrightarrow> c \<in> set ''0123456789''"

definition digit_val :: "char \<Rightarrow> int" where
  "digit_val c = int (of_char c) - 48"

definition num :: "string \<Rightarrow> int" where
  "num s = fold (\<lambda>c n. 10 * n + digit_val c) s 0"

definition take_num :: "nat \<Rightarrow> string \<Rightarrow> (int \<times> string) option" where
  "take_num n s =
     (if length (take n s) = n \<and> list_all is_digit (take n s) then Some (num (take n s), drop n s)
      else None)"

definition expect :: "char \<Rightarrow> string \<Rightarrow> string option" where
  "expect c s = (case s of [] \<Rightarrow> None | x # r \<Rightarrow> if x = c then Some r else None)"

text \<open>\<open>YYYY-MM-DD\<close> and the rest of the string.\<close>

definition iso_day :: "string \<Rightarrow> ((int \<times> int \<times> int) \<times> string) option" where
  "iso_day s = do {
     (y, s) \<leftarrow> take_num 4 s;
     s \<leftarrow> expect CHR ''-'' s;
     (m, s) \<leftarrow> take_num 2 s;
     s \<leftarrow> expect CHR ''-'' s;
     (d, s) \<leftarrow> take_num 2 s;
     Some ((y, m, d), s)
   }"

text \<open>The seconds and the fraction, which may be missing; digits past the millisecond are dropped.\<close>

definition iso_seconds :: "string \<Rightarrow> (int \<times> string) option" where
  "iso_seconds s =
     (case expect CHR '':'' s of
        None \<Rightarrow> Some (0, s)
      | Some s \<Rightarrow> do {
          (sec, s) \<leftarrow> take_num 2 s;
          if sec > 59 then None
          else case expect CHR ''.'' s of
            None \<Rightarrow> Some (1000 * sec, s)
          | Some s \<Rightarrow>
              let f = takeWhile is_digit s in
              if f = [] then None
              else Some (1000 * sec + num (take 3 (f @ ''00'')), drop (length f) s)
        })"

definition iso_offset :: "string \<Rightarrow> int option" where
  "iso_offset s =
     (if s = ''Z'' then Some 0
      else case s of
        [] \<Rightarrow> None
      | c # s \<Rightarrow>
          if c \<noteq> CHR ''+'' \<and> c \<noteq> CHR ''-'' then None
          else do {
            (h, s) \<leftarrow> take_num 2 s;
            s \<leftarrow> expect CHR '':'' s;
            (m, s) \<leftarrow> take_num 2 s;
            if s = [] \<and> h \<le> 23 \<and> m \<le> 59
              then Some ((if c = CHR ''-'' then -1 else 1) * (60 * h + m) * 60000) else None
          })"

definition iso_ms :: "string \<Rightarrow> int option" where
  "iso_ms s = do {
     ((y, m, d), s) \<leftarrow> iso_day s;
     if \<not> civil y m d then None
     else if s = [] then Some (make_day y (m - 1) d * ms_per_day)
     else do {
       s \<leftarrow> expect CHR ''T'' s;
       (h, s) \<leftarrow> take_num 2 s;
       s \<leftarrow> expect CHR '':'' s;
       (mi, s) \<leftarrow> take_num 2 s;
       (ms, s) \<leftarrow> iso_seconds s;
       z \<leftarrow> iso_offset s;
       if h \<le> 23 \<and> mi \<le> 59
         then Some (make_day y (m - 1) d * ms_per_day + (60 * h + mi) * 60000 + ms - z) else None
     }
   }"

text \<open>\<open>new Date(s).getTime()\<close>.\<close>

definition js_date_ms :: "(string \<Rightarrow> int option) \<Rightarrow> string \<Rightarrow> int option" where
  "js_date_ms legacy s = (case iso_ms s of Some t \<Rightarrow> Some t | None \<Rightarrow> legacy s)"

lemma js_date_ms_example: "js_date_ms legacy ''2024-03-01T23:30:00.250-05:00'' = Some 1709353800250"
  by code_simp

section \<open>Digits\<close>

lemma digit_cases: "n < 10 \<Longrightarrow> n \<in> {0, 1, 2, 3, 4, 5, 6, 7, 8, 9 :: nat}"
  by auto

lemma digit_char [simp]:
  assumes "n < 10"
  shows "is_digit (''0123456789'' ! n)" "digit_val (''0123456789'' ! n) = int n"
  using digit_cases [OF assms] by (auto simp: is_digit_def digit_val_def)

lemma num_snoc [simp]: "num (s @ [c]) = 10 * num s + digit_val c"
  by (simp add: num_def)

lemma num_Nil [simp]: "num [] = 0" "num [c] = digit_val c"
  by (simp_all add: num_def)

lemma num_zero [simp]: "num (CHR ''0'' # s) = num s"
  by (simp add: num_def digit_val_def)

lemma nat_digits_digits: "list_all is_digit (nat_digits n)"
proof (induction n rule: nat_digits.induct)
  case (1 n)
  then show ?case by (subst nat_digits.simps) auto
qed

lemma num_nat_digits: "num (nat_digits n) = int n"
proof (induction n rule: nat_digits.induct)
  case (1 n)
  show ?case
  proof (cases "n < 10")
    case False
    with 1 have "num (nat_digits n) = 10 * int (n div 10) + int (n mod 10)"
      by (subst nat_digits.simps) simp
    then show ?thesis by presburger
  qed (subst nat_digits.simps, simp)
qed

lemma nat_digits_length:
  "n < 10 \<Longrightarrow> length (nat_digits n) = 1"
  "10 \<le> n \<Longrightarrow> length (nat_digits n) = Suc (length (nat_digits (n div 10)))"
  by (subst nat_digits.simps, simp)+

lemma nat_digits_length_2: "10 \<le> n \<Longrightarrow> n \<le> 99 \<Longrightarrow> length (nat_digits n) = 2"
  using nat_digits_length(1) [of "n div 10"] by (simp add: nat_digits_length(2) [of n])

lemma nat_digits_length_4:
  assumes "1000 \<le> n" "n \<le> 9999"
  shows "length (nat_digits n) = 4"
proof -
  have "10 \<le> n" "10 \<le> n div 10" "10 \<le> n div 10 div 10" "n div 10 div 10 div 10 < 10"
    using assms by linarith+
  from nat_digits_length(2) [OF this(1)] nat_digits_length(2) [OF this(2)]
    nat_digits_length(2) [OF this(3)] nat_digits_length(1) [OF this(4)]
  show ?thesis by linarith
qed

lemma take_num_append [simp]:
  "length s = n \<Longrightarrow> list_all is_digit s \<Longrightarrow> take_num n (s @ t) = Some (num s, t)"
  by (auto simp: take_num_def)

lemma expect_Cons [simp]: "expect c (c # s) = Some s"
  by (simp add: expect_def)

end
