(* ===== verification/Presence.thy ===== *)
theory Presence
  imports Permissions Js_Date
begin

text \<open>
  Runtime health and agent presence (\<open>packages/core/runtimes/derive-health.ts\<close>,
  \<open>agents/derive-presence.ts\<close>): what the client shows of an agent is computed from the raw rows of
  the server, one agent at a time or for a whole workspace.  A \<open>Map\<close> of the source is a HOL map;
  \<open>date_ms\<close> is \<open>new Date(s).getTime()\<close>.
\<close>

section \<open>Rows of the server\<close>

datatype runtime_status = Rt_online | Rt_offline

record agent_runtime =
  rt_id :: string
  rt_status :: runtime_status
  rt_last_seen_at :: "string option"

datatype task_status = Queued | Dispatched | Waiting_local_directory | Running | Completed | Failed
  | Cancelled

record agent_task =
  tsk_agent_id :: string
  tsk_status :: task_status

section \<open>Runtime health\<close>

datatype runtime_health = Online | Recently_lost | Offline | About_to_gc

definition FIVE_MINUTES_MS :: int where
  "FIVE_MINUTES_MS = 5 * 60 * 1000"

definition ABOUT_TO_GC_THRESHOLD_MS :: int where
  "ABOUT_TO_GC_THRESHOLD_MS = 6 * 24 * 3600 * 1000"

text \<open>A comparison with \<open>NaN\<close> is false, so an unparseable \<open>last_seen_at\<close> falls through both tests.\<close>

definition deriveRuntimeHealth ::
  "(string \<Rightarrow> int option) \<Rightarrow> agent_runtime \<Rightarrow> int \<Rightarrow> runtime_health" where
  "deriveRuntimeHealth date_ms runtime now =
     (if rt_status runtime = Rt_online then Online
      else
        let lastSeen = (if falsy (rt_last_seen_at runtime) then Some 0
                        else date_ms (the (rt_last_seen_at runtime)));
            offlineFor = map_option (\<lambda>t. now - t) lastSeen
        in case offlineFor of
          None \<Rightarrow> Offline
        | Some ms \<Rightarrow>
            if ms < FIVE_MINUTES_MS then Recently_lost
            else if ms > ABOUT_TO_GC_THRESHOLD_MS then About_to_gc
            else Offline)"

section \<open>Agent presence\<close>

datatype agent_availability = Available_online | Unstable | Unavailable | Archived

datatype workload = Working | Has_queued | Idle

record agent_presence =
  prs_availability :: agent_availability
  prs_workload :: workload
  prs_runningCount :: int
  prs_queuedCount :: int
  prs_capacity :: int

definition deriveAgentAvailability ::
  "(string \<Rightarrow> int option) \<Rightarrow> agent_runtime option \<Rightarrow> int \<Rightarrow> agent_availability" where
  "deriveAgentAvailability date_ms runtime now =
     (case runtime of
        None \<Rightarrow> Unavailable
      | Some r \<Rightarrow>
          let health = deriveRuntimeHealth date_ms r now in
          if health = Online then Available_online
          else if health = Recently_lost then Unstable
          else Unavailable)"

definition deriveWorkload :: "int \<Rightarrow> int \<Rightarrow> workload" where
  "deriveWorkload runningCount queuedCount =
     (if runningCount > 0 then Working else if queuedCount > 0 then Has_queued else Idle)"

definition count_task :: "agent_task \<Rightarrow> int \<times> int \<Rightarrow> int \<times> int" where
  "count_task t counts =
     (case counts of (runningCount, queuedCount) \<Rightarrow>
        if tsk_status t = Running then (runningCount + 1, queuedCount)
        else if tsk_status t = Queued \<or> tsk_status t = Dispatched
                \<or> tsk_status t = Waiting_local_directory
          then (runningCount, queuedCount + 1)
        else (runningCount, queuedCount))"

definition deriveWorkloadDetail :: "agent_task list \<Rightarrow> workload \<times> int \<times> int" where
  "deriveWorkloadDetail tasks =
     (case fold count_task tasks (0, 0) of (runningCount, queuedCount) \<Rightarrow>
        (deriveWorkload runningCount queuedCount, runningCount, queuedCount))"

definition deriveAgentPresenceDetail ::
  "(string \<Rightarrow> int option) \<Rightarrow> agent \<Rightarrow> agent_runtime option \<Rightarrow> agent_task list \<Rightarrow> int \<Rightarrow> agent_presence" where
  "deriveAgentPresenceDetail date_ms agent runtime tasks now =
     (if \<not> falsy (agt_archived_at agent) then
        \<lparr>prs_availability = Archived, prs_workload = Idle, prs_runningCount = 0,
         prs_queuedCount = 0, prs_capacity = agt_max_concurrent_tasks agent\<rparr>
      else
        let availability = deriveAgentAvailability date_ms runtime now;
            detail = deriveWorkloadDetail tasks
        in \<lparr>prs_availability = availability, prs_workload = fst detail,
            prs_runningCount = fst (snd detail), prs_queuedCount = snd (snd detail),
            prs_capacity = agt_max_concurrent_tasks agent\<rparr>)"

section \<open>A whole workspace\<close>

definition index_runtimes :: "agent_runtime list \<Rightarrow> (string \<rightharpoonup> agent_runtime)" where
  "index_runtimes runtimes = fold (\<lambda>r byId. byId(rt_id r \<mapsto> r)) runtimes Map.empty"

definition group_task ::
  "agent_task \<Rightarrow> (string \<rightharpoonup> agent_task list) \<Rightarrow> (string \<rightharpoonup> agent_task list)" where
  "group_task t tasksByAgent =
     (case tasksByAgent (tsk_agent_id t) of
        Some ts \<Rightarrow> tasksByAgent(tsk_agent_id t \<mapsto> ts @ [t])
      | None \<Rightarrow> tasksByAgent(tsk_agent_id t \<mapsto> [t]))"

definition buildPresenceMap ::
  "(string \<Rightarrow> int option) \<Rightarrow> agent list \<Rightarrow> agent_runtime list \<Rightarrow> agent_task list \<Rightarrow> int
    \<Rightarrow> (string \<rightharpoonup> agent_presence)" where
  "buildPresenceMap date_ms agents runtimes snapshot now =
     (let runtimesById = index_runtimes runtimes;
          tasksByAgent = fold group_task snapshot Map.empty
      in fold (\<lambda>agent out.
           let runtime = runtimesById (agt_runtime_id agent);
               tasks = (case tasksByAgent (agt_id agent) of None \<Rightarrow> [] | Some ts \<Rightarrow> ts)
           in out(agt_id agent \<mapsto> deriveAgentPresenceDetail date_ms agent runtime tasks now))
         agents Map.empty)"

section \<open>Lemmas\<close>

text \<open>Writing a list into a \<open>Map\<close> keeps the last element of each key.\<close>

lemma fold_map_last:
  "fold (\<lambda>x m. m(key x \<mapsto> val x)) xs m k =
     (case find (\<lambda>x. key x = k) (rev xs) of Some x \<Rightarrow> Some (val x) | None \<Rightarrow> m k)"
proof (induction xs rule: rev_induct)
  case (snoc x xs)
  then show ?case by simp
qed simp

lemma find_rev_unique:
  assumes "distinct (map key xs)" "x \<in> set xs"
  shows "find (\<lambda>y. key y = key x) (rev xs) = Some x"
  using assms
proof (induction xs rule: rev_induct)
  case (snoc y ys)
  then show ?case by (auto simp: image_iff)
qed simp

lemma tasks_of_agent:
  "(case fold group_task ts Map.empty k of None \<Rightarrow> [] | Some us \<Rightarrow> us) = filter (\<lambda>t. tsk_agent_id t = k) ts"
proof (induction ts rule: rev_induct)
  case (snoc t ts)
  then show ?case by (auto simp: group_task_def split: option.splits)
qed simp

lemma count_tasks:
  "fold count_task ts (a, b) =
     (a + int (length (filter (\<lambda>t. tsk_status t = Running) ts)),
      b + int (length (filter (\<lambda>t. tsk_status t \<in> {Queued, Dispatched, Waiting_local_directory}) ts)))"
  by (induction ts arbitrary: a b) (auto simp: count_task_def)

text \<open>The one-pass batch is the per-agent derivation on the rows of each agent.\<close>

lemma buildPresenceMap_lookup:
  "buildPresenceMap date_ms agents runtimes snapshot now k =
     map_option (\<lambda>a. deriveAgentPresenceDetail date_ms a
          (find (\<lambda>r. rt_id r = agt_runtime_id a) (rev runtimes))
          (filter (\<lambda>t. tsk_agent_id t = agt_id a) snapshot) now)
       (find (\<lambda>a. agt_id a = k) (rev agents))"
proof -
  have runtime: "index_runtimes runtimes i = find (\<lambda>r. rt_id r = i) (rev runtimes)" for i
    using fold_map_last [of rt_id "\<lambda>r. r" runtimes Map.empty i]
    by (simp add: index_runtimes_def split: option.splits)
  show ?thesis
    unfolding buildPresenceMap_def Let_def fold_map_last tasks_of_agent runtime
    by (simp split: option.split)
qed

section \<open>Properties\<close>

text \<open>
  C11. The presence map of a workspace, built in one pass over agents, runtimes and tasks, shows
  for every agent what the single-agent derivation gives on the agent's runtime row and the
  agent's own tasks, and nothing for an id that is no agent.  An archived agent reads as archived
  and idle whatever its runtime and tasks say.  Any other agent is online exactly when its runtime
  is there and reports online, unstable exactly when an offline runtime was seen less than five
  minutes ago, and its counts are the numbers of its running and of its waiting tasks.
\<close>
theorem buildPresenceMap_spec:
  assumes "distinct (map agt_id agents)" "distinct (map rt_id runtimes)" "a \<in> set agents"
  shows "\<exists>p. buildPresenceMap date_ms agents runtimes snapshot now (agt_id a) = Some p
    \<and> p = deriveAgentPresenceDetail date_ms a (find (\<lambda>r. rt_id r = agt_runtime_id a) (rev runtimes))
          (filter (\<lambda>t. tsk_agent_id t = agt_id a) snapshot) now
    \<and> (\<not> falsy (agt_archived_at a) \<longrightarrow> prs_availability p = Archived \<and> prs_workload p = Idle
          \<and> prs_runningCount p = 0 \<and> prs_queuedCount p = 0)
    \<and> (falsy (agt_archived_at a) \<longrightarrow>
         prs_runningCount p = int (length (filter (\<lambda>t. tsk_agent_id t = agt_id a \<and> tsk_status t = Running) snapshot))
       \<and> prs_queuedCount p = int (length (filter (\<lambda>t. tsk_agent_id t = agt_id a
            \<and> tsk_status t \<in> {Queued, Dispatched, Waiting_local_directory}) snapshot))
       \<and> (prs_availability p = Available_online \<longleftrightarrow>
            (\<exists>r\<in>set runtimes. rt_id r = agt_runtime_id a \<and> rt_status r = Rt_online))
       \<and> (prs_availability p = Unstable \<longleftrightarrow>
            (\<exists>r\<in>set runtimes. rt_id r = agt_runtime_id a \<and> rt_status r = Rt_offline
               \<and> (\<exists>t. (if falsy (rt_last_seen_at r) then Some 0 else date_ms (the (rt_last_seen_at r))) = Some t
                    \<and> now - t < 300000))))
    \<and> (\<forall>k. k \<notin> agt_id ` set agents \<longrightarrow> buildPresenceMap date_ms agents runtimes snapshot now k = None)"
proof -
  define tasks where "tasks = filter (\<lambda>t. tsk_agent_id t = agt_id a) snapshot"
  define rt where "rt = find (\<lambda>r. rt_id r = agt_runtime_id a) (rev runtimes)"
  define p where "p = deriveAgentPresenceDetail date_ms a rt tasks now"
  have found: "buildPresenceMap date_ms agents runtimes snapshot now (agt_id a) = Some p"
    unfolding buildPresenceMap_lookup find_rev_unique [OF assms(1,3)] p_def rt_def tasks_def by simp
  have archived: "\<not> falsy (agt_archived_at a) \<Longrightarrow> prs_availability p = Archived \<and> prs_workload p = Idle
      \<and> prs_runningCount p = 0 \<and> prs_queuedCount p = 0"
    unfolding p_def deriveAgentPresenceDetail_def by simp
  have runtime: "(\<exists>r\<in>set runtimes. rt_id r = agt_runtime_id a \<and> Q r) \<longleftrightarrow> (\<exists>r. rt = Some r \<and> Q r)" for Q
  proof
    assume "\<exists>r\<in>set runtimes. rt_id r = agt_runtime_id a \<and> Q r"
    then show "\<exists>r. rt = Some r \<and> Q r" using find_rev_unique [OF assms(2)] unfolding rt_def by metis
  next
    assume "\<exists>r. rt = Some r \<and> Q r"
    then show "\<exists>r\<in>set runtimes. rt_id r = agt_runtime_id a \<and> Q r"
      unfolding rt_def find_Some_iff by (metis nth_mem set_rev)
  qed
  have avail: "falsy (agt_archived_at a) \<Longrightarrow> prs_availability p = deriveAgentAvailability date_ms rt now"
    "falsy (agt_archived_at a) \<Longrightarrow> (prs_runningCount p, prs_queuedCount p) = fold count_task tasks (0, 0)"
    unfolding p_def deriveAgentPresenceDetail_def deriveWorkloadDetail_def
    by (simp_all add: case_prod_beta)
  have counts: "falsy (agt_archived_at a) \<Longrightarrow>
      prs_runningCount p = int (length (filter (\<lambda>t. tsk_status t = Running) tasks)) \<and>
      prs_queuedCount p = int (length (filter (\<lambda>t. tsk_status t \<in> {Queued, Dispatched, Waiting_local_directory}) tasks))"
    using avail(2) unfolding count_tasks by simp
  have online: "deriveAgentAvailability date_ms rt now = Available_online \<longleftrightarrow>
      (\<exists>r. rt = Some r \<and> rt_status r = Rt_online)"
    by (auto simp: deriveAgentAvailability_def deriveRuntimeHealth_def Let_def split: option.splits)
  have status: "rt_status r = Rt_offline \<longleftrightarrow> rt_status r \<noteq> Rt_online" for r :: agent_runtime
    by (cases "rt_status r") auto
  have unstable: "deriveAgentAvailability date_ms rt now = Unstable \<longleftrightarrow>
      (\<exists>r. rt = Some r \<and> rt_status r = Rt_offline
         \<and> (\<exists>t. (if falsy (rt_last_seen_at r) then Some 0 else date_ms (the (rt_last_seen_at r))) = Some t
              \<and> now - t < 300000))"
    unfolding status
    by (cases rt) (auto simp: deriveAgentAvailability_def deriveRuntimeHealth_def Let_def
        FIVE_MINUTES_MS_def split: option.splits)
  have none: "k \<notin> agt_id ` set agents \<Longrightarrow> find (\<lambda>a. agt_id a = k) (rev agents) = None" for k
    by (auto simp: find_None_iff)
  have filters: "filter (\<lambda>t. tsk_status t = Running) tasks = filter (\<lambda>t. tsk_agent_id t = agt_id a \<and> tsk_status t = Running) snapshot"
    "filter (\<lambda>t. tsk_status t \<in> {Queued, Dispatched, Waiting_local_directory}) tasks =
      filter (\<lambda>t. tsk_agent_id t = agt_id a \<and> tsk_status t \<in> {Queued, Dispatched, Waiting_local_directory}) snapshot"
    unfolding tasks_def filter_filter by (rule filter_cong; auto)+
  show ?thesis
    by (rule exI [of _ p]) (intro conjI impI allI found archived,
      (simp add: p_def rt_def tasks_def; fail)?, unfold runtime filters [symmetric],
      (simp_all add: counts avail(1) online unstable buildPresenceMap_lookup none)?)
qed

definition example_agent :: agent where
  "example_agent = \<lparr>agt_id = ''a'', agt_runtime_id = ''r'', agt_permission_mode = None,
     agt_invocation_targets = None, agt_max_concurrent_tasks = 2, agt_owner_id = None,
     agt_archived_at = None\<rparr>"

definition example_runtime :: agent_runtime where
  "example_runtime = \<lparr>rt_id = ''r'', rt_status = Rt_offline, rt_last_seen_at = Some ''2024-03-01T10:00:00Z''\<rparr>"

lemma example_fields:
  "agt_id example_agent = ''a''" "agt_runtime_id example_agent = ''r''" "agt_archived_at example_agent = None"
  "rt_id example_runtime = ''r''" "rt_status example_runtime = Rt_offline"
  "rt_last_seen_at example_runtime = Some ''2024-03-01T10:00:00Z''"
  by (simp_all add: example_agent_def example_runtime_def)

lemma example_last_seen: "js_date_ms (\<lambda>_. None) ''2024-03-01T10:00:00Z'' = Some 1709287200000"
  by code_simp

lemma buildPresenceMap_spec_witness:
  "\<exists>p. buildPresenceMap (js_date_ms (\<lambda>_. None)) [example_agent] [example_runtime]
       [\<lparr>tsk_agent_id = ''a'', tsk_status = Queued\<rparr>] 1709287260000 ''a'' = Some p
     \<and> prs_availability p = Unstable \<and> prs_queuedCount p = 1"
  using buildPresenceMap_spec [of "[example_agent]" "[example_runtime]" example_agent
      "js_date_ms (\<lambda>_. None)" "[\<lparr>tsk_agent_id = ''a'', tsk_status = Queued\<rparr>]" 1709287260000]
  by (auto simp: example_fields example_last_seen)

end
