(* ===== verification/Date_Only.thy ===== *)
theory Date_Only
  imports Js_Date
begin

text \<open>
  Calendar days without a time of day (\<open>packages/core/issues/date.ts\<close>).  A \<open>Date\<close> is its time value
  in milliseconds.  What depends on the viewer's time zone is a parameter, the interface
  \<open>local_calendar\<close>: \<open>fields\<close> gives the year, the month from \<open>0\<close> and the day of a time value,
  \<open>midnight\<close> is \<open>new Date(y, m, d)\<close>, \<open>set_date\<close> is \<open>setDate\<close>.  The calendar of UTC is an instance.
\<close>

section \<open>Operations\<close>

definition pad :: "int \<Rightarrow> string" where
  "pad n = (let s = js_int_string n in replicate (2 - length s) CHR ''0'' @ s)"

definition toDateOnly :: "(int \<Rightarrow> int \<times> int \<times> int) \<Rightarrow> int \<Rightarrow> string" where
  "toDateOnly fields date =
     (case fields date of (y, m, d) \<Rightarrow> js_int_string y @ ''-'' @ pad (m + 1) @ ''-'' @ pad d)"

text \<open>The current time \<open>new Date()\<close> is the argument \<open>now\<close>.\<close>

definition todayDateOnly :: "(int \<Rightarrow> int \<times> int \<times> int) \<Rightarrow> int \<Rightarrow> string" where
  "todayDateOnly fields now = toDateOnly fields now"

definition addDaysDateOnly ::
  "(int \<Rightarrow> int \<times> int \<times> int) \<Rightarrow> (int \<Rightarrow> int \<Rightarrow> int) \<Rightarrow> int \<Rightarrow> int \<Rightarrow> string" where
  "addDaysDateOnly fields set_date now days =
     (case fields now of (y, m, d) \<Rightarrow> toDateOnly fields (set_date now (d + days)))"

text \<open>\<open>getUTCFullYear\<close>, \<open>getUTCMonth\<close> and \<open>getUTCDate\<close>.\<close>

definition utc_fields :: "int \<Rightarrow> int \<times> int \<times> int" where
  "utc_fields t = (case civil_from_day (t div ms_per_day) of (y, m, d) \<Rightarrow> (y, m - 1, d))"

text \<open>The match of \<open>DATE_ONLY\<close> is anchored at the start only.\<close>

definition parseParts :: "(string \<Rightarrow> int option) \<Rightarrow> string \<Rightarrow> (int \<times> int \<times> int) option" where
  "parseParts legacy value =
     (case iso_day value of
        Some (parts, _) \<Rightarrow> Some parts
      | None \<Rightarrow>
          (case js_date_ms legacy value of
             None \<Rightarrow> None
           | Some t \<Rightarrow> (case utc_fields t of (y, m, d) \<Rightarrow> Some (y, m + 1, d))))"

definition dateOnlyToUTCDate :: "(string \<Rightarrow> int option) \<Rightarrow> string option \<Rightarrow> int option" where
  "dateOnlyToUTCDate legacy value =
     (if falsy value then None
      else map_option (\<lambda>(y, m, d). date_UTC y (m - 1) d) (parseParts legacy (the value)))"

definition dateOnlyToLocalDate ::
  "(int \<Rightarrow> int \<Rightarrow> int \<Rightarrow> int) \<Rightarrow> (string \<Rightarrow> int option) \<Rightarrow> string option \<Rightarrow> int option" where
  "dateOnlyToLocalDate midnight legacy value =
     (if falsy value then None
      else map_option (\<lambda>(y, m, d). midnight y (m - 1) d) (parseParts legacy (the value)))"

definition formatDateOnly ::
  "(string \<Rightarrow> int option) \<Rightarrow> (int \<Rightarrow> string) \<Rightarrow> string option \<Rightarrow> string" where
  "formatDateOnly legacy to_locale value =
     (case dateOnlyToUTCDate legacy value of None \<Rightarrow> [] | Some d \<Rightarrow> to_locale d)"

definition isPastDateOnly ::
  "(int \<Rightarrow> int \<times> int \<times> int) \<Rightarrow> (string \<Rightarrow> int option) \<Rightarrow> int \<Rightarrow> string option \<Rightarrow> bool" where
  "isPastDateOnly fields legacy now value =
     (case dateOnlyToUTCDate legacy value of
        None \<Rightarrow> False
      | Some d \<Rightarrow>
          (case dateOnlyToUTCDate legacy (Some (todayDateOnly fields now)) of
             None \<Rightarrow> False | Some today \<Rightarrow> d < today))"

section \<open>Printing and reading a day\<close>

definition day_string :: "int \<Rightarrow> int \<Rightarrow> int \<Rightarrow> string" where
  "day_string y m d = js_int_string y @ ''-'' @ pad m @ ''-'' @ pad d"

lemma pad_spec:
  assumes "0 \<le> n" "n \<le> 99"
  shows "length (pad n) = 2" "list_all is_digit (pad n)" "num (pad n) = n"
proof -
  have digits: "is_digit CHR ''0''" by (simp add: is_digit_def)
  have len: "length (nat_digits (nat n)) = (if n < 10 then 1 else 2)"
    using assms nat_digits_length(1) [of "nat n"] nat_digits_length_2 [of "nat n"] by auto
  then have pad: "pad n = (if n < 10 then CHR ''0'' # nat_digits (nat n) else nat_digits (nat n))"
    using assms by (simp add: pad_def js_int_string_def Let_def numeral_2_eq_2)
  show "length (pad n) = 2" "list_all is_digit (pad n)" "num (pad n) = n"
    using assms len by (simp_all add: pad nat_digits_digits num_nat_digits digits)
qed

lemma iso_day_string:
  assumes "1000 \<le> y" "y \<le> 9999" "civil y m d"
  shows "iso_day (day_string y m d @ rest) = Some ((y, m, d), rest)"
proof -
  have "month_length y m \<le> 99"
    using month_cases [of m] assms(3) by (auto simp: civil_def month_length_def days_before_month_def)
  then have md: "0 \<le> m" "m \<le> 99" "0 \<le> d" "d \<le> 99" using assms(3) by (auto simp: civil_def)
  have y: "js_int_string y = nat_digits (nat y)" using assms by (simp add: js_int_string_def)
  have yl: "length (nat_digits (nat y)) = 4" using assms by (intro nat_digits_length_4) auto
  show ?thesis using assms(1)
    by (simp add: iso_day_def day_string_def y yl nat_digits_digits num_nat_digits pad_spec [OF md(1,2)]
        pad_spec [OF md(3,4)])
qed

section \<open>The viewer's calendar\<close>

text \<open>
  What the code relies on of the viewer's calendar: midnight of a day lies in that day, the fields
  of a time value are a calendar day, and \<open>setDate\<close> counts days from the first of the month.
\<close>

locale local_calendar =
  fixes fields :: "int \<Rightarrow> int \<times> int \<times> int"
    and midnight :: "int \<Rightarrow> int \<Rightarrow> int \<Rightarrow> int"
    and set_date :: "int \<Rightarrow> int \<Rightarrow> int"
  assumes fields_midnight: "civil y m d \<Longrightarrow> 100 \<le> y \<Longrightarrow> fields (midnight y (m - 1) d) = (y, m - 1, d)"
    and fields_civil: "fields t = (y, m, d) \<Longrightarrow> civil y (m + 1) d"
    and fields_set_date: "fields t = (y, m, d) \<Longrightarrow>
      fields (set_date t n) = (case civil_from_day (make_day y m n) of (y', m', d') \<Rightarrow> (y', m' - 1, d'))"
begin

lemma toDateOnly_midnight:
  "civil y m d \<Longrightarrow> 100 \<le> y \<Longrightarrow> toDateOnly fields (midnight y (m - 1) d) = day_string y m d"
  by (simp add: toDateOnly_def fields_midnight day_string_def)

lemma todayDateOnly_fields:
  "fields now = (y, m - 1, d) \<Longrightarrow> todayDateOnly fields now = day_string y m d"
  by (simp add: todayDateOnly_def toDateOnly_def day_string_def)

lemma addDaysDateOnly_fields:
  assumes "fields now = (y, m - 1, d)"
  shows "addDaysDateOnly fields set_date now n =
    (case civil_from_day (make_day y (m - 1) d + n) of (a, b, c) \<Rightarrow> day_string a b c)"
proof -
  have "make_day y (m - 1) (d + n) = make_day y (m - 1) d + n" by (simp add: make_day_def Let_def)
  with fields_set_date [OF assms, of "d + n"] show ?thesis
    by (simp add: addDaysDateOnly_def assms toDateOnly_def day_string_def split: prod.splits)
qed

end

text \<open>The calendar of UTC, whose fields and days the code itself uses.\<close>

definition utc_set_date :: "int \<Rightarrow> int \<Rightarrow> int" where
  "utc_set_date t n =
     (case utc_fields t of (y, m, d) \<Rightarrow> make_day y m n * ms_per_day + t mod ms_per_day)"

lemma utc_fields_day: "utc_fields (k * ms_per_day + t mod ms_per_day) =
    (case civil_from_day k of (y, m, d) \<Rightarrow> (y, m - 1, d))"
proof -
  have "(k * ms_per_day + t mod ms_per_day) div ms_per_day = k"
    by (simp add: ms_per_day_def)
  then show ?thesis by (simp add: utc_fields_def)
qed

lemma utc_fields_date_UTC:
  assumes "civil y m d" "100 \<le> y"
  shows "utc_fields (date_UTC y (m - 1) d) = (y, m - 1, d)"
proof -
  have "date_UTC y (m - 1) d = make_day y (m - 1) d * ms_per_day + 0 mod ms_per_day"
    using assms(2) by (simp add: date_UTC_def)
  then show ?thesis by (simp only: utc_fields_day) (simp add: civil_from_day_make_day [OF assms(1)])
qed

interpretation utc: local_calendar utc_fields date_UTC utc_set_date
proof
  fix y m d t n :: int
  show "civil y m d \<Longrightarrow> 100 \<le> y \<Longrightarrow> utc_fields (date_UTC y (m - 1) d) = (y, m - 1, d)"
    by (rule utc_fields_date_UTC)
  show "utc_fields t = (y, m, d) \<Longrightarrow> civil y (m + 1) d"
    by (auto simp: utc_fields_def split: prod.splits dest: civil_from_day_civil(1))
  show "utc_fields t = (y, m, d) \<Longrightarrow> utc_fields (utc_set_date t n) =
      (case civil_from_day (make_day y m n) of (y', m', d') \<Rightarrow> (y', m' - 1, d'))"
    by (simp add: utc_set_date_def utc_fields_day)
qed

section \<open>Properties\<close>

lemma dateOnlyToUTCDate_day:
  assumes "1000 \<le> y" "y \<le> 9999" "civil y m d"
  shows "dateOnlyToUTCDate legacy (Some (day_string y m d)) = Some (make_day y (m - 1) d * ms_per_day)"
    and "dateOnlyToLocalDate midnight legacy (Some (day_string y m d)) = Some (midnight y (m - 1) d)"
  using iso_day_string [OF assms, of "[]"] assms(1)
  by (auto simp: dateOnlyToUTCDate_def dateOnlyToLocalDate_def parseParts_def date_UTC_def day_string_def)

text \<open>
  C12. A day picked in a calendar keeps its meaning in every time zone: the stored string is read
  back as the same local day and prints as the same string again, its UTC date has the same
  calendar fields, a day is past exactly when it comes before the viewer's today in year, month and
  day, and adding days to today moves the day number by exactly that many days.
\<close>
theorem date_only_roundtrip:
  assumes "local_calendar fields midnight set_date"
    and "1000 \<le> y" "y \<le> 9999" "civil y m d"
  shows "dateOnlyToLocalDate midnight legacy (Some (day_string y m d)) = Some (midnight y (m - 1) d)
    \<and> toDateOnly fields (midnight y (m - 1) d) = day_string y m d
    \<and> map_option utc_fields (dateOnlyToUTCDate legacy (Some (day_string y m d))) = Some (y, m - 1, d)
    \<and> (\<forall>now y' m' d' n. fields now = (y', m' - 1, d') \<and> 1000 \<le> y' \<and> y' \<le> 9999 \<longrightarrow>
         (isPastDateOnly fields legacy now (Some (day_string y m d)) \<longleftrightarrow>
            y < y' \<or> (y = y' \<and> (m < m' \<or> (m = m' \<and> d < d'))))
         \<and> addDaysDateOnly fields set_date now n =
            (case civil_from_day (make_day y' (m' - 1) d' + n) of (a, b, c) \<Rightarrow> day_string a b c))"
proof -
  note day = dateOnlyToUTCDate_day [OF assms(2-4)]
  have local: "toDateOnly fields (midnight y (m - 1) d) = day_string y m d"
    using assms by (intro local_calendar.toDateOnly_midnight [OF assms(1)]) auto
  have utc: "utc_fields (make_day y (m - 1) d * ms_per_day) = (y, m - 1, d)"
    using utc_fields_date_UTC [OF assms(4)] assms(2) by (simp add: date_UTC_def)
  have past: "isPastDateOnly fields legacy now (Some (day_string y m d)) \<longleftrightarrow>
      y < y' \<or> (y = y' \<and> (m < m' \<or> (m = m' \<and> d < d')))"
    if "fields now = (y', m' - 1, d')" "1000 \<le> y'" "y' \<le> 9999" for now y' m' d'
  proof -
    have c: "civil y' m' d'" using local_calendar.fields_civil [OF assms(1) that(1)] by simp
    have "isPastDateOnly fields legacy now (Some (day_string y m d)) \<longleftrightarrow>
        make_day y (m - 1) d * ms_per_day < make_day y' (m' - 1) d' * ms_per_day"
      by (simp add: isPastDateOnly_def day local_calendar.todayDateOnly_fields [OF assms(1) that(1)]
          dateOnlyToUTCDate_day [OF that(2,3) c])
    then show ?thesis unfolding make_day_less [OF assms(4) c, symmetric] by (simp add: ms_per_day_def)
  qed
  show ?thesis using day local utc past local_calendar.addDaysDateOnly_fields [OF assms(1)] by auto
qed

lemma date_only_roundtrip_witness:
  "dateOnlyToLocalDate date_UTC (\<lambda>_. None) (Some (day_string 2024 2 29)) = Some (date_UTC 2024 1 29)
   \<and> toDateOnly utc_fields (date_UTC 2024 1 29) = day_string 2024 2 29"
proof -
  have "civil 2024 2 29" by (simp add: civil_def month_length_def days_before_month_def leap_def)
  from date_only_roundtrip [OF utc.local_calendar_axioms _ _ this, of "\<lambda>_. None"] show ?thesis by simp
qed

text \<open>
  A full timestamp is read by its literal day, also where its UTC day is another: the comment on
  \<open>parseParts\<close> promises the UTC calendar day.
\<close>

lemma legacy_timestamp_literal_day:
  "parseParts legacy ''2024-03-01T23:30:00-05:00'' = Some (2024, 3, 1)
   \<and> map_option utc_fields (js_date_ms legacy ''2024-03-01T23:30:00-05:00'') = Some (2024, 2, 2)"
  by code_simp

end
