(* ===== verification/Js_Json.thy ===== *)
theory Js_Json
  imports Prelude
begin

text \<open>
  JSON values as \<open>JSON.parse\<close> returns them.  Numbers are exact; an object is the list of its own
  members, a member that occurs twice counting with its last value.
\<close>

datatype json = JNull | JBool bool | JNum rat | JStr string | JArr "json list"
  | JObj "(string \<times> json) list"

text \<open>\<open>v[k]\<close> for an own member; \<open>None\<close> is \<open>undefined\<close>.\<close>

definition obj_get :: "string \<Rightarrow> json \<Rightarrow> json option" where
  "obj_get k v = (case v of JObj ms \<Rightarrow> map_of (rev ms) k | _ \<Rightarrow> None)"

text \<open>\<open>!v\<close> is \<open>\<not> truthy v\<close>.\<close>

definition truthy :: "json \<Rightarrow> bool" where
  "truthy v \<longleftrightarrow> v \<noteq> JNull \<and> v \<noteq> JBool False \<and> v \<noteq> JNum 0 \<and> v \<noteq> JStr []"

text \<open>\<open>typeof v === "object"\<close>; \<open>null\<close> and arrays are objects too.\<close>

definition typeof_object :: "json \<Rightarrow> bool" where
  "typeof_object v \<longleftrightarrow> (case v of JNull \<Rightarrow> True | JArr _ \<Rightarrow> True | JObj _ \<Rightarrow> True | _ \<Rightarrow> False)"

lemma obj_get_simps [simp]:
  "obj_get k JNull = None" "obj_get k (JBool b) = None" "obj_get k (JNum n) = None"
  "obj_get k (JStr s) = None" "obj_get k (JArr vs) = None" "obj_get k (JObj ms) = map_of (rev ms) k"
  by (simp_all add: obj_get_def)

lemma typeof_object_simps [simp]:
  "typeof_object JNull" "typeof_object (JArr vs)" "typeof_object (JObj ms)"
  "\<not> typeof_object (JBool b)" "\<not> typeof_object (JNum n)" "\<not> typeof_object (JStr s)"
  by (simp_all add: typeof_object_def)

text \<open>A value with a member is an object, and an object is truthy.\<close>

lemma obj_get_Some: "obj_get k v = Some x \<Longrightarrow> truthy v"
  by (cases v) (auto simp: truthy_def)

end
