(* ===== verification/Ws_Client.thy ===== *)
theory Ws_Client
  imports Js_Json
begin

text \<open>
  The WebSocket client of web and desktop (\<open>packages/core/api/ws-client.ts\<close>, class \<open>WSClient\<close>).
  The client's fields are a record; the sockets and timers it created live in a \<open>ws_world\<close>, in which
  the browser delivers events.  Handlers and callbacks are numbers; \<open>raises h\<close> says that a handler
  throws when called.  What the client does to the outside is the list \<open>wld_log\<close>, newest last.
\<close>

section \<open>State\<close>

datatype ready_state = Connecting | Opened | Closing | Closed

text \<open>A URL, parsed: what comes before the query, and the query parameters.\<close>

type_synonym url = "string \<times> (string \<times> string) list"

record ws_socket =
  sck_url :: url
  sck_state :: ready_state
  sck_onclose :: bool

record ws_identity =
  idn_platform :: "string option"
  idn_version :: "string option"
  idn_os :: "string option"

record ws_client =
  wsc_ws :: "nat option"
  wsc_baseUrl :: url
  wsc_token :: "string option"
  wsc_workspaceSlug :: "string option"
  wsc_cookieAuth :: bool
  wsc_identity :: "ws_identity option"
  wsc_handlers :: "string \<rightharpoonup> nat list"
  wsc_reconnectTimer :: "nat option"
  wsc_reconnectAttempt :: nat
  wsc_hasConnectedBefore :: bool
  wsc_badFrameLogged :: bool
  wsc_onReconnectCallbacks :: "nat list"
  wsc_anyHandlers :: "nat list"

datatype ws_effect =
  Sent nat json
  | Called nat "json option" "json option" "json option"
  | Called_any nat json
  | Called_reconnect nat
  | Warned string string
  | Debugged string
  | Informed string
  | Uncaught

record ws_world =
  wld_client :: ws_client
  wld_sockets :: "nat \<rightharpoonup> ws_socket"
  wld_timers :: "(nat \<times> int) list"
  wld_next :: nat
  wld_log :: "ws_effect list"

abbreviation client_update :: "(ws_client \<Rightarrow> ws_client) \<Rightarrow> ws_world \<Rightarrow> ws_world" where
  "client_update f w \<equiv> w\<lparr>wld_client := f (wld_client w)\<rparr>"

definition effects :: "ws_effect list \<Rightarrow> ws_world \<Rightarrow> ws_world" where
  "effects es w = w\<lparr>wld_log := wld_log w @ es\<rparr>"

section \<open>Constants and helpers\<close>

definition UNPARSEABLE_LOG_MAX_CHARS :: nat where "UNPARSEABLE_LOG_MAX_CHARS = 200"

definition RECONNECT_BASE_DELAY_MS :: rat where "RECONNECT_BASE_DELAY_MS = 1000"

definition RECONNECT_MAX_DELAY_MS :: rat where "RECONNECT_MAX_DELAY_MS = 30000"

text \<open>The ellipsis, U+2026, is written as its UTF-8 bytes.\<close>

definition summarizeUnparseable :: "string \<Rightarrow> string" where
  "summarizeUnparseable text =
     (if length text \<le> UNPARSEABLE_LOG_MAX_CHARS then text
      else take UNPARSEABLE_LOG_MAX_CHARS text @ [CHR 0xE2, CHR 0x80, CHR 0xA6]
        @ '' (truncated, '' @ nat_digits (length text) @ '' chars total)'')"

text \<open>\<open>url.searchParams.set(k, v)\<close>.\<close>

definition search_set :: "string \<Rightarrow> string \<Rightarrow> url \<Rightarrow> url" where
  "search_set k v url =
     (case url of (base, ps) \<Rightarrow>
        (base, case find_index (\<lambda>p. fst p = k) ps of
           None \<Rightarrow> ps @ [(k, v)]
         | Some i \<Rightarrow> take i ps @ (k, v) # filter (\<lambda>p. fst p \<noteq> k) (drop (Suc i) ps)))"

definition set_unless_falsy :: "string \<Rightarrow> string option \<Rightarrow> url \<Rightarrow> url" where
  "set_unless_falsy k v url = (if falsy v then url else search_set k (the v) url)"

section \<open>Connecting\<close>

definition new_client :: "url \<Rightarrow> bool \<Rightarrow> ws_identity option \<Rightarrow> ws_client" where
  "new_client url cookieAuth identity =
     \<lparr>wsc_ws = None, wsc_baseUrl = url, wsc_token = None, wsc_workspaceSlug = None,
      wsc_cookieAuth = cookieAuth, wsc_identity = identity, wsc_handlers = Map.empty,
      wsc_reconnectTimer = None, wsc_reconnectAttempt = 0, wsc_hasConnectedBefore = False,
      wsc_badFrameLogged = False, wsc_onReconnectCallbacks = [], wsc_anyHandlers = []\<rparr>"

definition setAuth :: "string option \<Rightarrow> string \<Rightarrow> ws_world \<Rightarrow> ws_world" where
  "setAuth token workspaceSlug w =
     client_update (\<lambda>c. c\<lparr>wsc_token := token, wsc_workspaceSlug := Some workspaceSlug\<rparr>) w"

definition connect_url :: "ws_client \<Rightarrow> url" where
  "connect_url c =
     (let part = (\<lambda>f. case wsc_identity c of None \<Rightarrow> None | Some i \<Rightarrow> f i);
          url1 = set_unless_falsy ''workspace_slug'' (wsc_workspaceSlug c) (wsc_baseUrl c);
          url2 = set_unless_falsy ''client_platform'' (part idn_platform) url1;
          url3 = set_unless_falsy ''client_version'' (part idn_version) url2
      in set_unless_falsy ''client_os'' (part idn_os) url3)"

definition connect :: "ws_world \<Rightarrow> ws_world" where
  "connect w =
     (let c = (wld_client w)\<lparr>wsc_badFrameLogged := False\<rparr>; s = wld_next w
      in w\<lparr>wld_client := c\<lparr>wsc_ws := Some s\<rparr>,
           wld_sockets := (wld_sockets w)(s \<mapsto> \<lparr>sck_url = connect_url c, sck_state = Connecting, sck_onclose = True\<rparr>),
           wld_next := Suc s\<rparr>)"

text \<open>\<open>send\<close> of a socket raises while it connects and drops the text when it closes or has closed.\<close>

definition socket_send :: "nat \<Rightarrow> json \<Rightarrow> ws_world \<Rightarrow> ws_world" where
  "socket_send s v w =
     (case wld_sockets w s of
        None \<Rightarrow> w
      | Some sk \<Rightarrow>
          (case sck_state sk of
             Connecting \<Rightarrow> effects [Uncaught] w
           | Opened \<Rightarrow> effects [Sent s v] w
           | _ \<Rightarrow> w))"

definition auth_frame :: "string \<Rightarrow> json" where
  "auth_frame token = JObj [(''type'', JStr ''auth''), (''payload'', JObj [(''token'', JStr token)])]"

text \<open>An exception of a reconnect callback is caught, so every callback runs.\<close>

definition onAuthenticated :: "ws_world \<Rightarrow> ws_world" where
  "onAuthenticated w =
     (let w1 = client_update (\<lambda>c. c\<lparr>wsc_reconnectAttempt := 0\<rparr>) (effects [Informed ''connected''] w);
          w2 = (if wsc_hasConnectedBefore (wld_client w1)
                then effects (map Called_reconnect (wsc_onReconnectCallbacks (wld_client w1))) w1 else w1)
      in client_update (\<lambda>c. c\<lparr>wsc_hasConnectedBefore := True\<rparr>) w2)"

definition onopen :: "ws_world \<Rightarrow> ws_world" where
  "onopen w =
     (let c = wld_client w in
      if \<not> wsc_cookieAuth c \<and> \<not> falsy (wsc_token c) then
        case wsc_ws c of
          None \<Rightarrow> effects [Uncaught] w
        | Some s \<Rightarrow> socket_send s (auth_frame (the (wsc_token c))) w
      else onAuthenticated w)"

section \<open>Frames\<close>

text \<open>A frame: its text and what \<open>JSON.parse\<close> makes of it, \<open>None\<close> when it throws.\<close>

type_synonym frame = "string \<times> json option"

text \<open>The calls of a loop over handlers: the first that throws ends the loop.\<close>

fun calls_until :: "(nat \<Rightarrow> bool) \<Rightarrow> nat list \<Rightarrow> nat list" where
  "calls_until raises [] = []"
| "calls_until raises (h # hs) = h # (if raises h then [] else calls_until raises hs)"

definition dispatch :: "(nat \<Rightarrow> bool) \<Rightarrow> string \<Rightarrow> json \<Rightarrow> ws_world \<Rightarrow> ws_world" where
  "dispatch raises ty msg w =
     (let c = wld_client w;
          hs = (case wsc_handlers c ty of None \<Rightarrow> [] | Some hs \<Rightarrow> hs);
          call = (\<lambda>h. Called h (obj_get ''payload'' msg) (obj_get ''actor_id'' msg) (obj_get ''actor_type'' msg));
          w1 = effects (map call (calls_until raises hs)) w
      in if list_ex raises hs then effects [Uncaught] w1
         else
           let w2 = effects (map (\<lambda>h. Called_any h msg) (calls_until raises (wsc_anyHandlers c))) w1
           in if list_ex raises (wsc_anyHandlers c) then effects [Uncaught] w2 else w2)"

definition frame_type :: "json \<Rightarrow> string option" where
  "frame_type msg =
     (if \<not> truthy msg then None
      else case obj_get ''type'' msg of Some (JStr ty) \<Rightarrow> Some ty | _ \<Rightarrow> None)"

definition onmessage :: "(nat \<Rightarrow> bool) \<Rightarrow> frame \<Rightarrow> ws_world \<Rightarrow> ws_world" where
  "onmessage raises frame w =
     (case frame of
        (text, None) \<Rightarrow> effects [Warned ''ws: received unparseable message'' (summarizeUnparseable text)] w
      | (text, Some msg) \<Rightarrow>
          (case frame_type msg of
             None \<Rightarrow>
               if wsc_badFrameLogged (wld_client w) then w
               else effects [Warned ''ws: dropping frame without a string type'' (summarizeUnparseable text)]
                 (client_update (\<lambda>c. c\<lparr>wsc_badFrameLogged := True\<rparr>) w)
           | Some ty \<Rightarrow>
               if ty = ''auth_ack'' then onAuthenticated w
               else dispatch raises ty msg (effects [Debugged ty] w)))"

section \<open>Reconnecting\<close>

definition backoff_base :: "nat \<Rightarrow> rat" where
  "backoff_base attempt = min (RECONNECT_BASE_DELAY_MS * 2 ^ attempt) RECONNECT_MAX_DELAY_MS"

text \<open>\<open>random\<close> is the value of \<open>Math.random()\<close>, in \<open>[0, 1)\<close>.\<close>

definition reconnect_delay :: "nat \<Rightarrow> rat \<Rightarrow> int" where
  "reconnect_delay attempt random =
     (let base = backoff_base attempt;
          jitter = base * (2 / 10) * (random * 2 - 1)
      in \<lfloor>min (base + jitter) RECONNECT_MAX_DELAY_MS + 1 / 2\<rfloor>)"

definition scheduleReconnect :: "rat \<Rightarrow> ws_world \<Rightarrow> ws_world" where
  "scheduleReconnect random w =
     (let c = wld_client w;
          delay = reconnect_delay (wsc_reconnectAttempt c) random;
          attempt = Suc (wsc_reconnectAttempt c);
          t = wld_next w;
          w1 = effects [Warned (''ws: disconnected, reconnecting in '' @ nat_digits (nat delay)
                  @ ''ms (attempt '' @ nat_digits attempt @ '')'') []] w
      in w1\<lparr>wld_client := c\<lparr>wsc_reconnectAttempt := attempt, wsc_reconnectTimer := Some t\<rparr>,
            wld_timers := wld_timers w @ [(t, delay)], wld_next := Suc t\<rparr>)"

definition close_socket :: "nat \<Rightarrow> ws_world \<Rightarrow> ws_world" where
  "close_socket s w =
     (case wld_sockets w s of
        None \<Rightarrow> w
      | Some sk \<Rightarrow> w\<lparr>wld_sockets := (wld_sockets w)(s \<mapsto>
          sk\<lparr>sck_onclose := False,
             sck_state := (if sck_state sk = Closed then Closed else Closing)\<rparr>)\<rparr>)"

definition disconnect :: "ws_world \<Rightarrow> ws_world" where
  "disconnect w =
     (let c = wld_client w;
          w1 = (case wsc_reconnectTimer c of
                  None \<Rightarrow> w
                | Some t \<Rightarrow> w\<lparr>wld_timers := filter (\<lambda>p. fst p \<noteq> t) (wld_timers w),
                              wld_client := c\<lparr>wsc_reconnectTimer := None\<rparr>\<rparr>);
          w2 = (case wsc_ws c of
                  None \<Rightarrow> w1
                | Some s \<Rightarrow> client_update (\<lambda>c. c\<lparr>wsc_ws := None\<rparr>) (close_socket s w1))
      in client_update (\<lambda>c. c\<lparr>wsc_hasConnectedBefore := False, wsc_reconnectAttempt := 0,
           wsc_handlers := Map.empty, wsc_anyHandlers := [], wsc_onReconnectCallbacks := []\<rparr>) w2)"

section \<open>Subscriptions\<close>

text \<open>\<open>Set.add\<close> and \<open>Set.delete\<close> on a set in insertion order.\<close>

definition set_add :: "nat \<Rightarrow> nat list \<Rightarrow> nat list" where
  "set_add h hs = (if h \<in> set hs then hs else hs @ [h])"

definition set_delete :: "nat \<Rightarrow> nat list \<Rightarrow> nat list" where
  "set_delete h hs = filter (\<lambda>k. k \<noteq> h) hs"

definition on_event :: "string \<Rightarrow> nat \<Rightarrow> ws_client \<Rightarrow> ws_client" where
  "on_event event handler c =
     (let hs = (case wsc_handlers c event of None \<Rightarrow> [] | Some hs \<Rightarrow> hs)
      in c\<lparr>wsc_handlers := (wsc_handlers c)(event \<mapsto> set_add handler hs)\<rparr>)"

definition off_event :: "string \<Rightarrow> nat \<Rightarrow> ws_client \<Rightarrow> ws_client" where
  "off_event event handler c =
     (case wsc_handlers c event of
        None \<Rightarrow> c
      | Some hs \<Rightarrow> c\<lparr>wsc_handlers := (wsc_handlers c)(event \<mapsto> set_delete handler hs)\<rparr>)"

definition onAny :: "nat \<Rightarrow> ws_client \<Rightarrow> ws_client" where
  "onAny handler c = c\<lparr>wsc_anyHandlers := set_add handler (wsc_anyHandlers c)\<rparr>"

definition offAny :: "nat \<Rightarrow> ws_client \<Rightarrow> ws_client" where
  "offAny handler c = c\<lparr>wsc_anyHandlers := set_delete handler (wsc_anyHandlers c)\<rparr>"

definition onReconnect :: "nat \<Rightarrow> ws_client \<Rightarrow> ws_client" where
  "onReconnect callback c =
     c\<lparr>wsc_onReconnectCallbacks := set_add callback (wsc_onReconnectCallbacks c)\<rparr>"

definition offReconnect :: "nat \<Rightarrow> ws_client \<Rightarrow> ws_client" where
  "offReconnect callback c =
     c\<lparr>wsc_onReconnectCallbacks := set_delete callback (wsc_onReconnectCallbacks c)\<rparr>"

definition client_send :: "json \<Rightarrow> ws_world \<Rightarrow> ws_world" where
  "client_send message w =
     (case wsc_ws (wld_client w) of
        None \<Rightarrow> w
      | Some s \<Rightarrow>
          if (case wld_sockets w s of None \<Rightarrow> False | Some sk \<Rightarrow> sck_state sk = Opened)
            then socket_send s message w else w)"

end
