(* ===== verification/Ws_Steps.thy ===== *)
theory Ws_Steps
  imports Ws_Client
begin

text \<open>
  The WebSocket client under the events of the browser and the calls of the provider
  (\<open>packages/core/realtime/provider.tsx\<close> connects a client once and disconnects it once): a step
  relation, the states it reaches, their invariant, and the properties of frames and reconnection.
\<close>

section \<open>Steps\<close>

datatype ws_event =
  Ev_open nat | Ev_message nat frame | Ev_closing nat | Ev_close nat rat | Ev_timer nat
  | Do_connect | Do_disconnect | Do_setAuth "string option" string | Do_send json
  | Do_on string nat | Do_off string nat | Do_onAny nat | Do_offAny nat
  | Do_onReconnect nat | Do_offReconnect nat

fun browser_event :: "ws_event \<Rightarrow> bool" where
  "browser_event (Ev_open _) = True"
| "browser_event (Ev_message _ _) = True"
| "browser_event (Ev_closing _) = True"
| "browser_event (Ev_close _ _) = True"
| "browser_event (Ev_timer _) = True"
| "browser_event _ = False"

fun subscription :: "ws_event \<Rightarrow> (ws_client \<Rightarrow> ws_client) option" where
  "subscription (Do_on e h) = Some (on_event e h)"
| "subscription (Do_off e h) = Some (off_event e h)"
| "subscription (Do_onAny h) = Some (onAny h)"
| "subscription (Do_offAny h) = Some (offAny h)"
| "subscription (Do_onReconnect h) = Some (onReconnect h)"
| "subscription (Do_offReconnect h) = Some (offReconnect h)"
| "subscription _ = None"

definition set_state :: "nat \<Rightarrow> ready_state \<Rightarrow> ws_world \<Rightarrow> ws_world" where
  "set_state s st w =
     (case wld_sockets w s of
        None \<Rightarrow> w
      | Some sk \<Rightarrow> w\<lparr>wld_sockets := (wld_sockets w)(s \<mapsto> sk\<lparr>sck_state := st\<rparr>)\<rparr>)"

inductive ws_step :: "(nat \<Rightarrow> bool) \<Rightarrow> ws_world \<Rightarrow> ws_event \<Rightarrow> ws_world \<Rightarrow> bool" for raises where
  opened: "wld_sockets w s = Some sk \<Longrightarrow> sck_state sk = Connecting
    \<Longrightarrow> ws_step raises w (Ev_open s) (onopen (set_state s Opened w))"
| message: "wld_sockets w s = Some sk \<Longrightarrow> sck_state sk = Opened
    \<Longrightarrow> ws_step raises w (Ev_message s fr) (onmessage raises fr w)"
| closing: "wld_sockets w s = Some sk \<Longrightarrow> sck_state sk = Opened
    \<Longrightarrow> ws_step raises w (Ev_closing s) (set_state s Closing w)"
| closed: "wld_sockets w s = Some sk \<Longrightarrow> sck_state sk \<noteq> Closed \<Longrightarrow> 0 \<le> r \<Longrightarrow> r < 1
    \<Longrightarrow> ws_step raises w (Ev_close s r)
          ((if sck_onclose sk then scheduleReconnect r else (\<lambda>v. v)) (set_state s Closed w))"
| timer: "(t, d) \<in> set (wld_timers w)
    \<Longrightarrow> ws_step raises w (Ev_timer t) (connect (w\<lparr>wld_timers := filter (\<lambda>p. fst p \<noteq> t) (wld_timers w)\<rparr>))"
| user_connect: "wsc_ws (wld_client w) = None \<Longrightarrow> ws_step raises w Do_connect (connect w)"
| user_disconnect: "ws_step raises w Do_disconnect (disconnect w)"
| user_setAuth: "ws_step raises w (Do_setAuth tok slug) (setAuth tok slug w)"
| user_send: "ws_step raises w (Do_send v) (client_send v w)"
| user_subscription: "subscription ev = Some g \<Longrightarrow> ws_step raises w ev (client_update g w)"

inductive_cases disconnect_stepE: "ws_step raises w Do_disconnect w'"

definition initial_world :: "ws_client \<Rightarrow> ws_world" where
  "initial_world c = \<lparr>wld_client = c, wld_sockets = Map.empty, wld_timers = [], wld_next = 1, wld_log = []\<rparr>"

inductive ws_reachable :: "(nat \<Rightarrow> bool) \<Rightarrow> ws_world \<Rightarrow> bool" for raises where
  start: "ws_reachable raises (initial_world (new_client url cookieAuth identity))"
| step: "ws_reachable raises w \<Longrightarrow> ws_step raises w ev w' \<Longrightarrow> ws_reachable raises w'"

section \<open>What a step leaves alone\<close>

text \<open>The part of the world that decides about connections.\<close>

definition net where
  "net w = (wld_sockets w, wld_timers w, wld_next w, wsc_ws (wld_client w), wsc_reconnectTimer (wld_client w))"

named_theorems ws_net "Operations that leave the connections alone"

lemma net_effects [ws_net]: "net (effects es w) = net w"
  by (simp add: effects_def net_def)

lemma net_client_update [ws_net]:
  "wsc_ws (f (wld_client w)) = wsc_ws (wld_client w)
    \<Longrightarrow> wsc_reconnectTimer (f (wld_client w)) = wsc_reconnectTimer (wld_client w)
    \<Longrightarrow> net (client_update f w) = net w"
  by (simp add: net_def)

lemma net_socket_send [ws_net]: "net (socket_send s v w) = net w"
  by (simp add: socket_send_def ws_net split: option.split ready_state.split)

lemma net_onAuthenticated [ws_net]: "net (onAuthenticated w) = net w"
  by (simp add: onAuthenticated_def Let_def ws_net)

lemma net_onopen [ws_net]: "net (onopen w) = net w"
  by (simp add: onopen_def Let_def ws_net split: option.split)

lemma net_dispatch [ws_net]: "net (dispatch raises ty msg w) = net w"
  by (simp add: dispatch_def Let_def ws_net)

lemma net_onmessage [ws_net]: "net (onmessage raises fr w) = net w"
  by (cases fr) (simp add: onmessage_def ws_net split: option.split)

lemma net_setAuth [ws_net]: "net (setAuth tok slug w) = net w"
  by (simp add: setAuth_def net_def)

lemma net_client_send [ws_net]: "net (client_send v w) = net w"
  by (simp add: client_send_def ws_net split: option.split)

lemma net_subscription: "subscription ev = Some g \<Longrightarrow> net (client_update g w) = net w"
  by (cases ev rule: subscription.cases)
    (auto intro!: net_client_update simp: on_event_def off_event_def onAny_def offAny_def onReconnect_def
      offReconnect_def Let_def split: option.split)

section \<open>The invariant\<close>

text \<open>A socket whose end the client will hear of.\<close>

definition live_socket :: "ws_world \<Rightarrow> nat \<Rightarrow> bool" where
  "live_socket w s \<longleftrightarrow> (\<exists>sk. wld_sockets w s = Some sk \<and> sck_onclose sk \<and> sck_state sk \<noteq> Closed)"

definition sockets_ok :: "ws_world \<Rightarrow> bool" where
  "sockets_ok w \<longleftrightarrow> (\<forall>s sk. wld_sockets w s = Some sk \<longrightarrow>
     s < wld_next w \<and> (sck_onclose sk \<or> sck_state sk = Closing \<or> sck_state sk = Closed))"

text \<open>Idle, on a socket, or waiting for the timer.\<close>

definition connection_ok :: "ws_world \<Rightarrow> bool" where
  "connection_ok w \<longleftrightarrow>
     (case wsc_ws (wld_client w) of
        None \<Rightarrow> (\<forall>s. \<not> live_socket w s) \<and> wld_timers w = []
      | Some c \<Rightarrow>
          ((\<forall>s. live_socket w s \<longleftrightarrow> s = c) \<and> wld_timers w = [])
          \<or> ((\<forall>s. \<not> live_socket w s)
              \<and> (\<exists>t d. wld_timers w = [(t, d)] \<and> wsc_reconnectTimer (wld_client w) = Some t
                  \<and> 800 \<le> d \<and> d \<le> 30000)))"

definition ws_inv :: "ws_world \<Rightarrow> bool" where
  "ws_inv w \<longleftrightarrow> sockets_ok w \<and> connection_ok w"

lemma ws_inv_net: "net w' = net w \<Longrightarrow> ws_inv w' = ws_inv w"
  by (simp add: net_def ws_inv_def sockets_ok_def connection_ok_def live_socket_def split: option.split)

lemma backoff_base_bounds: "1000 \<le> backoff_base n" "backoff_base n \<le> 30000"
  by (simp_all add: backoff_base_def RECONNECT_BASE_DELAY_MS_def RECONNECT_MAX_DELAY_MS_def)

lemma reconnect_delay_bounds:
  assumes "0 \<le> r" "r < 1"
  shows "800 \<le> reconnect_delay n r" "reconnect_delay n r \<le> 30000"
proof -
  define b where "b = backoff_base n"
  define x where "x = min (b + b * (2 / 10) * (r * 2 - 1)) 30000"
  have b: "1000 \<le> b" "b \<le> 30000" unfolding b_def by (rule backoff_base_bounds)+
  have "0 \<le> b * r" using b assms by simp
  then have "b - b / 5 \<le> b + b * (2 / 10) * (r * 2 - 1)" by (simp add: algebra_simps)
  with b have x: "800 \<le> x" "x \<le> 30000" unfolding x_def by auto
  have "reconnect_delay n r = \<lfloor>x + 1 / 2\<rfloor>"
    by (simp add: reconnect_delay_def Let_def x_def b_def RECONNECT_MAX_DELAY_MS_def)
  moreover have "800 \<le> \<lfloor>x + 1 / 2\<rfloor>" "\<lfloor>x + 1 / 2\<rfloor> < 30001" using x by (simp_all add: le_floor_iff floor_less_iff)
  ultimately show "800 \<le> reconnect_delay n r" "reconnect_delay n r \<le> 30000" by simp_all
qed

lemma set_state_fields [simp]:
  "wld_client (set_state s st w) = wld_client w" "wld_timers (set_state s st w) = wld_timers w"
  "wld_next (set_state s st w) = wld_next w" "wld_log (set_state s st w) = wld_log w"
  by (simp_all add: set_state_def split: option.split)

lemma live_client [simp]: "live_socket (v\<lparr>wld_client := x\<rparr>) = live_socket v"
  "sockets_ok (v\<lparr>wld_client := x\<rparr>) = sockets_ok v"
  by (simp_all add: live_socket_def sockets_ok_def fun_eq_iff)

lemma connection_ok_cong:
  "live_socket w' = live_socket w \<Longrightarrow> wld_timers w' = wld_timers w \<Longrightarrow> wld_client w' = wld_client w
    \<Longrightarrow> connection_ok w' = connection_ok w"
  by (simp add: connection_ok_def split: option.split)

lemma live_set_state:
  assumes "wld_sockets w s = Some sk" "sck_state sk \<noteq> Closed" "st \<noteq> Closed"
  shows "live_socket (set_state s st w) = live_socket w"
  using assms by (auto simp: live_socket_def set_state_def fun_eq_iff)

lemma ws_inv_set_state:
  assumes inv: "ws_inv w" and sk: "wld_sockets w s = Some sk" "sck_state sk \<noteq> Closed"
    and st: "st = Closing \<or> (st = Opened \<and> sck_state sk = Connecting)"
  shows "ws_inv (set_state s st w)"
proof -
  have "st \<noteq> Closed" using st by auto
  then have "connection_ok (set_state s st w) = connection_ok w"
    by (intro connection_ok_cong live_set_state [OF sk]) simp_all
  moreover have "sockets_ok (set_state s st w)"
  proof -
    have "sck_onclose sk \<or> st = Closing" using inv sk st unfolding ws_inv_def sockets_ok_def by (metis ready_state.distinct(3,5))
    then show ?thesis using inv sk(1) by (auto simp: ws_inv_def sockets_ok_def set_state_def)
  qed
  ultimately show ?thesis using inv by (simp add: ws_inv_def)
qed

text \<open>A connection is opened only when nothing is live and no timer runs.\<close>

lemma ws_inv_connect:
  assumes "sockets_ok w" "\<forall>s. \<not> live_socket w s" "wld_timers w = []"
  shows "ws_inv (connect w)"
  using assms by (auto simp: ws_inv_def sockets_ok_def connection_ok_def live_socket_def connect_def Let_def
      less_Suc_eq)

lemma ws_inv_schedule:
  assumes "sockets_ok w" "\<forall>s. \<not> live_socket w s" "wld_timers w = []" "wsc_ws (wld_client w) = Some c"
    and "0 \<le> r" "r < 1"
  shows "ws_inv (scheduleReconnect r w)"
  using assms reconnect_delay_bounds [OF assms(5,6)]
  by (auto simp: ws_inv_def sockets_ok_def connection_ok_def live_socket_def scheduleReconnect_def Let_def
      effects_def less_Suc_eq)

lemma closed_set_state:
  assumes "ws_inv w" "wld_sockets w s = Some sk" "sck_state sk \<noteq> Closed" "0 \<le> r" "r < 1"
  shows "ws_inv ((if sck_onclose sk then scheduleReconnect r else (\<lambda>v. v)) (set_state s Closed w))"
proof -
  have ok: "sockets_ok (set_state s Closed w)"
    using assms(1,2) by (auto simp: ws_inv_def sockets_ok_def set_state_def)
  have live: "live_socket (set_state s Closed w) k \<longleftrightarrow> live_socket w k \<and> k \<noteq> s" for k
    using assms(2) by (auto simp: live_socket_def set_state_def)
  show ?thesis
  proof (cases "sck_onclose sk")
    case True
    then have s: "live_socket w s" using assms(2,3) by (auto simp: live_socket_def)
    then obtain c where c: "wsc_ws (wld_client w) = Some c" "\<forall>k. live_socket w k \<longleftrightarrow> k = c" "wld_timers w = []"
      using assms(1) by (auto simp: ws_inv_def connection_ok_def split: option.splits)
    with s have "\<forall>k. \<not> live_socket (set_state s Closed w) k" unfolding live by auto
    then show ?thesis using ws_inv_schedule [OF ok] c assms(4,5) True by simp
  next
    case False
    then have "\<not> live_socket w s" using assms(2) by (auto simp: live_socket_def)
    then have "live_socket (set_state s Closed w) = live_socket w" by (auto simp: live fun_eq_iff)
    then show ?thesis using ok assms(1) False connection_ok_cong [of "set_state s Closed w" w]
      by (simp add: ws_inv_def)
  qed
qed

lemma close_socket_client [simp]:
  "wld_client (close_socket s w) = wld_client w" "wld_timers (close_socket s w) = wld_timers w"
  "wld_next (close_socket s w) = wld_next w" "wld_log (close_socket s w) = wld_log w"
  by (simp_all add: close_socket_def split: option.split)

lemma close_socket_live: "live_socket (close_socket s w) k \<longleftrightarrow> live_socket w k \<and> k \<noteq> s"
  by (auto simp: live_socket_def close_socket_def split: option.split)

lemma close_socket_ok: "sockets_ok w \<Longrightarrow> sockets_ok (close_socket s w)"
  by (auto simp: sockets_ok_def close_socket_def split: option.split)

lemma ws_inv_disconnect:
  assumes "ws_inv w"
  shows "ws_inv (disconnect w)" "wsc_ws (wld_client (disconnect w)) = None"
    "\<not> live_socket (disconnect w) s" "wld_timers (disconnect w) = []"
proof -
  obtain w1 where w1: "w1 = (case wsc_reconnectTimer (wld_client w) of None \<Rightarrow> w
      | Some t \<Rightarrow> w\<lparr>wld_timers := filter (\<lambda>p. fst p \<noteq> t) (wld_timers w),
                   wld_client := (wld_client w)\<lparr>wsc_reconnectTimer := None\<rparr>\<rparr>)" by simp
  have w1_ok: "sockets_ok w1" "wld_timers w1 = []" "live_socket w1 = live_socket w" "wsc_ws (wld_client w1) = wsc_ws (wld_client w)"
    using assms by (auto simp: w1 ws_inv_def sockets_ok_def connection_ok_def live_socket_def fun_eq_iff split: option.splits)
  obtain w2 where w2: "w2 = (case wsc_ws (wld_client w) of None \<Rightarrow> w1
      | Some s \<Rightarrow> client_update (\<lambda>c. c\<lparr>wsc_ws := None\<rparr>) (close_socket s w1))" by simp
  have w2_ok: "sockets_ok w2 \<and> wld_timers w2 = [] \<and> (\<forall>k. \<not> live_socket w2 k) \<and> wsc_ws (wld_client w2) = None"
  proof (cases "wsc_ws (wld_client w)")
    case None
    then show ?thesis using w1_ok assms by (auto simp: w2 ws_inv_def connection_ok_def)
  next
    case (Some c)
    then have "live_socket w k \<Longrightarrow> k = c" for k
      using assms by (auto simp: ws_inv_def connection_ok_def)
    then show ?thesis using w1_ok Some by (auto simp: w2 close_socket_live close_socket_ok)
  qed
  have d: "disconnect w = client_update (\<lambda>c. c\<lparr>wsc_hasConnectedBefore := False, wsc_reconnectAttempt := 0,
      wsc_handlers := Map.empty, wsc_anyHandlers := [], wsc_onReconnectCallbacks := []\<rparr>) w2"
    unfolding disconnect_def Let_def w2 w1 ..
  show "ws_inv (disconnect w)" "wsc_ws (wld_client (disconnect w)) = None"
    "\<not> live_socket (disconnect w) s" "wld_timers (disconnect w) = []"
    using w2_ok unfolding d by (simp_all add: ws_inv_def connection_ok_def)
qed

lemma ws_inv_step:
  assumes "ws_inv w" "ws_step raises w ev w'"
  shows "ws_inv w'"
  using assms(2)
proof cases
  case (opened s sk)
  then show ?thesis using ws_inv_set_state [OF assms(1) opened(3)] ws_inv_net [OF net_onopen] by simp
next
  case (message s sk fr)
  then show ?thesis using assms(1) ws_inv_net [OF net_onmessage] by simp
next
  case (closing s sk)
  then show ?thesis using ws_inv_set_state [OF assms(1) closing(3)] by simp
next
  case (closed s sk r)
  then show ?thesis using closed_set_state [OF assms(1)] by simp
next
  case (timer t d)
  then have "\<forall>s. \<not> live_socket w s" "wld_timers w = [(t, d)]"
    using assms(1) by (auto simp: ws_inv_def connection_ok_def split: option.splits)
  then have "ws_inv (connect (w\<lparr>wld_timers := []\<rparr>))"
    using assms(1) by (intro ws_inv_connect) (auto simp: ws_inv_def sockets_ok_def live_socket_def)
  then show ?thesis using timer \<open>wld_timers w = [(t, d)]\<close> by simp
next
  case user_connect
  then have "sockets_ok w" "\<forall>s. \<not> live_socket w s" "wld_timers w = []"
    using assms(1) by (auto simp: ws_inv_def connection_ok_def)
  from ws_inv_connect [OF this] user_connect show ?thesis by simp
next
  case user_disconnect
  then show ?thesis using ws_inv_disconnect(1) [OF assms(1)] by simp
next
  case (user_setAuth tok slug)
  then show ?thesis using assms(1) ws_inv_net [OF net_setAuth] by simp
next
  case (user_send v)
  then show ?thesis using assms(1) ws_inv_net [OF net_client_send] by simp
next
  case (user_subscription g)
  then show ?thesis using assms(1) ws_inv_net [OF net_subscription] by simp
qed

lemma ws_reachable_inv: "ws_reachable raises w \<Longrightarrow> ws_inv w"
proof (induction rule: ws_reachable.induct)
  case (start url cookieAuth identity)
  then show ?case
    by (simp add: ws_inv_def sockets_ok_def connection_ok_def live_socket_def initial_world_def new_client_def)
next
  case (step w ev w')
  then show ?case by (rule_tac ws_inv_step)
qed

section \<open>Logs and URLs along a run\<close>

fun drop_warning :: "ws_effect \<Rightarrow> bool" where
  "drop_warning (Warned t _) = (t = ''ws: dropping frame without a string type'')"
| "drop_warning _ = False"

fun typed_call :: "ws_effect \<Rightarrow> bool" where
  "typed_call (Called_any h msg) = (frame_type msg \<noteq> None \<and> frame_type msg \<noteq> Some ''auth_ack'')"
| "typed_call _ = True"

definition urls :: "ws_world \<Rightarrow> nat \<rightharpoonup> url" where
  "urls w s = map_option sck_url (wld_sockets w s)"

text \<open>A step that opens no socket and drops no frame.\<close>

definition quiet :: "ws_world \<Rightarrow> ws_world \<Rightarrow> bool" where
  "quiet w w' \<longleftrightarrow>
     (\<exists>es. wld_log w' = wld_log w @ es \<and> (\<forall>e\<in>set es. typed_call e \<and> \<not> drop_warning e))
     \<and> wsc_badFrameLogged (wld_client w') = wsc_badFrameLogged (wld_client w)
     \<and> wsc_baseUrl (wld_client w') = wsc_baseUrl (wld_client w)
     \<and> urls w' = urls w"

named_theorems ws_quiet "Operations that open no socket and drop no frame"

lemma quiet_refl [ws_quiet]: "quiet w w"
  by (simp add: quiet_def)

lemma quiet_trans: "quiet u v \<Longrightarrow> quiet v w \<Longrightarrow> quiet u w"
  unfolding quiet_def by (metis append_assoc Un_iff set_append)

lemma quiet_effects: "\<forall>e\<in>set es. typed_call e \<and> \<not> drop_warning e \<Longrightarrow> quiet w (effects es w)"
  by (simp add: quiet_def effects_def urls_def fun_eq_iff)

lemma quiet_client:
  "wsc_badFrameLogged c = wsc_badFrameLogged (wld_client w) \<Longrightarrow> wsc_baseUrl c = wsc_baseUrl (wld_client w)
    \<Longrightarrow> quiet w (w\<lparr>wld_client := c\<rparr>)"
  by (simp add: quiet_def urls_def fun_eq_iff)

lemma quiet_set_state [ws_quiet]: "quiet w (set_state s st w)"
  by (auto simp: quiet_def set_state_def urls_def fun_eq_iff split: option.split)

lemma quiet_socket_send [ws_quiet]: "quiet w (socket_send s v w)"
  by (auto simp: socket_send_def ws_quiet intro!: quiet_effects split: option.split ready_state.split)

lemma quiet_onAuthenticated [ws_quiet]: "quiet w (onAuthenticated w)"
  by (auto simp: quiet_def onAuthenticated_def Let_def effects_def urls_def fun_eq_iff)

lemma quiet_onopen [ws_quiet]: "quiet w (onopen w)"
  by (auto simp: onopen_def Let_def ws_quiet intro!: quiet_effects split: option.split)

lemma quiet_dispatch:
  "frame_type msg = Some ty \<Longrightarrow> ty \<noteq> ''auth_ack'' \<Longrightarrow> quiet w (dispatch raises ty msg w)"
  by (auto simp: quiet_def dispatch_def Let_def effects_def urls_def fun_eq_iff)

lemma quiet_schedule [ws_quiet]: "quiet w (scheduleReconnect r w)"
  by (auto simp: quiet_def scheduleReconnect_def Let_def effects_def urls_def fun_eq_iff)

lemma quiet_disconnect [ws_quiet]: "quiet w (disconnect w)"
proof -
  have "quiet w (close_socket s w)" for s w
    by (auto simp: quiet_def close_socket_def urls_def fun_eq_iff split: option.split)
  then show ?thesis
    unfolding disconnect_def Let_def
    by (auto simp: quiet_def urls_def fun_eq_iff split: option.split)
qed

lemma quiet_setAuth [ws_quiet]: "quiet w (setAuth tok slug w)"
  unfolding setAuth_def by (rule quiet_client) simp_all

lemma quiet_client_send [ws_quiet]: "quiet w (client_send v w)"
  by (auto simp: client_send_def ws_quiet split: option.split)

lemma quiet_subscription: "subscription ev = Some g \<Longrightarrow> quiet w (client_update g w)"
  by (cases ev rule: subscription.cases)
    (auto intro!: quiet_client simp: on_event_def off_event_def onAny_def offAny_def onReconnect_def
      offReconnect_def Let_def split: option.splits)

definition client_params :: "string set" where
  "client_params = {''workspace_slug'', ''client_platform'', ''client_version'', ''client_os''}"

lemma search_set_names: "fst ` set (snd (search_set k v url)) \<subseteq> insert k (fst ` set (snd url))"
proof -
  obtain base ps where url: "url = (base, ps)" by (cases url)
  show ?thesis
    by (auto simp: url search_set_def image_iff dest: in_set_takeD in_set_dropD split: option.splits)
qed

lemma set_unless_falsy_names:
  "fst ` set (snd url) \<subseteq> A \<Longrightarrow> k \<in> A \<Longrightarrow> fst ` set (snd (set_unless_falsy k v url)) \<subseteq> A"
  using subset_trans [OF search_set_names [of k "the v" url]] unfolding set_unless_falsy_def
  by (cases "falsy v") simp_all

lemma connect_url_names:
  "fst ` set (snd (connect_url c)) \<subseteq> fst ` set (snd (wsc_baseUrl c)) \<union> client_params"
  unfolding connect_url_def Let_def client_params_def
  by (intro set_unless_falsy_names) auto

definition log_inv :: "url \<Rightarrow> ws_world \<Rightarrow> bool" where
  "log_inv url w \<longleftrightarrow>
     wsc_baseUrl (wld_client w) = url
     \<and> finite (dom (urls w))
     \<and> (\<forall>s u. urls w s = Some u \<longrightarrow> fst ` set (snd u) \<subseteq> fst ` set (snd url) \<union> client_params)
     \<and> (\<forall>e\<in>set (wld_log w). typed_call e)
     \<and> length (filter drop_warning (wld_log w))
         + (if wsc_badFrameLogged (wld_client w) \<or> dom (urls w) = {} then 0 else 1)
       \<le> card (dom (urls w))"

lemma log_inv_quiet:
  assumes "log_inv url w" "quiet w w'"
  shows "log_inv url w'"
proof -
  obtain es where es: "wld_log w' = wld_log w @ es" "\<forall>e\<in>set es. typed_call e \<and> \<not> drop_warning e"
    and same: "wsc_badFrameLogged (wld_client w') = wsc_badFrameLogged (wld_client w)"
      "wsc_baseUrl (wld_client w') = wsc_baseUrl (wld_client w)" "urls w' = urls w"
    using assms(2) unfolding quiet_def by auto
  have "filter drop_warning es = []" using es(2) by (simp add: filter_empty_conv)
  then show ?thesis using assms(1) es unfolding log_inv_def same by auto
qed

lemma log_inv_message:
  assumes inv: "log_inv url w" and sk: "wld_sockets w s = Some sk"
  shows "log_inv url (onmessage raises fr w)"
proof -
  obtain body parsed where fr: "fr = (body, parsed)" by (cases fr)
  have warn: "quiet w (effects [Warned ''ws: received unparseable message'' t] w)" for t
    by (rule quiet_effects) simp
  show ?thesis
  proof (cases parsed)
    case None
    then show ?thesis using log_inv_quiet [OF inv warn] by (simp add: fr onmessage_def)
  next
    case (Some msg)
    show ?thesis
    proof (cases "frame_type msg")
      case None
      have "s \<in> dom (urls w)" using sk by (simp add: urls_def dom_def)
      then have "dom (urls w) \<noteq> {}" by auto
      moreover have "urls (effects es (w\<lparr>wld_client := c\<rparr>)) = urls w" for es c
        by (simp add: urls_def effects_def fun_eq_iff)
      ultimately show ?thesis using inv Some None
        by (auto simp: fr onmessage_def log_inv_def) (auto simp: effects_def)
    next
      case (Some ty)
      have "quiet w (onmessage raises fr w)"
      proof (cases "ty = ''auth_ack'' ")
        case True
        then show ?thesis using Some \<open>parsed = Some msg\<close> by (simp add: fr onmessage_def ws_quiet)
      next
        case False
        have "quiet w (effects [Debugged ty] w)" by (rule quiet_effects) simp
        from quiet_trans [OF this quiet_dispatch [OF Some False]] show ?thesis
          using False Some \<open>parsed = Some msg\<close> by (simp add: fr onmessage_def)
      qed
      then show ?thesis by (rule log_inv_quiet [OF inv])
    qed
  qed
qed

lemma log_inv_connect:
  assumes "log_inv url w" "sockets_ok w"
  shows "log_inv url (connect (w\<lparr>wld_timers := ts\<rparr>))"
proof -
  let ?w = "connect (w\<lparr>wld_timers := ts\<rparr>)"
  have urls: "urls ?w = (urls w)(wld_next w \<mapsto> connect_url ((wld_client w)\<lparr>wsc_badFrameLogged := False\<rparr>))"
    by (auto simp: urls_def connect_def Let_def fun_eq_iff)
  have new: "wld_next w \<notin> dom (urls w)"
    using assms(2) unfolding sockets_ok_def urls_def by (metis (no_types, lifting) domD less_irrefl option.simps(8) option.distinct(1) not_None_eq)
  have "fst ` set (snd (connect_url ((wld_client w)\<lparr>wsc_badFrameLogged := False\<rparr>)))
      \<subseteq> fst ` set (snd url) \<union> client_params"
    using connect_url_names [of "(wld_client w)\<lparr>wsc_badFrameLogged := False\<rparr>"] assms(1)
    by (simp add: log_inv_def)
  moreover have "length (filter drop_warning (wld_log w)) \<le> card (dom (urls w))"
    using assms(1) by (simp add: log_inv_def)
  moreover have "wsc_baseUrl (wld_client ?w) = wsc_baseUrl (wld_client w)" "wld_log ?w = wld_log w"
    "\<not> wsc_badFrameLogged (wld_client ?w)" by (simp_all add: connect_def Let_def)
  moreover have "(if False \<or> dom ((urls w)(wld_next w \<mapsto> u)) = {} then 0 else 1) = (1 :: nat)" for u by auto
  moreover have "card (dom ((urls w)(wld_next w \<mapsto> u))) = Suc (card (dom (urls w)))" for u
    using new assms(1) by (simp add: log_inv_def)
  ultimately show ?thesis using assms(1)
    unfolding log_inv_def urls by (cases "connect_url ((wld_client w)\<lparr>wsc_badFrameLogged := False\<rparr>)")
      (simp split: if_split_asm)
qed

lemma log_inv_step:
  assumes "log_inv url w" "sockets_ok w" "ws_step raises w ev w'"
  shows "log_inv url w'"
  using assms(3)
proof cases
  case (opened s sk)
  then show ?thesis using log_inv_quiet [OF assms(1)] quiet_trans [OF quiet_set_state quiet_onopen] by simp
next
  case (message s sk fr)
  then show ?thesis using log_inv_message [OF assms(1)] by simp
next
  case (closing s sk)
  then show ?thesis using log_inv_quiet [OF assms(1) quiet_set_state] by simp
next
  case (closed s sk r)
  then show ?thesis
    using log_inv_quiet [OF assms(1)] quiet_trans [OF quiet_set_state quiet_schedule] quiet_set_state by simp
next
  case (timer t d)
  then show ?thesis using log_inv_connect [OF assms(1,2)] by simp
next
  case user_connect
  then show ?thesis using log_inv_connect [OF assms(1,2), of "wld_timers w"] by simp
next
  case (user_subscription g)
  then show ?thesis using log_inv_quiet [OF assms(1) quiet_subscription] by simp
qed (simp_all add: log_inv_quiet [OF assms(1)] ws_quiet)

lemma ws_reachable_log:
  "ws_reachable raises w \<Longrightarrow> log_inv (wsc_baseUrl (wld_client w)) w"
proof (induction rule: ws_reachable.induct)
  case (start url cookieAuth identity)
  then show ?case by (simp add: log_inv_def initial_world_def new_client_def urls_def dom_def)
next
  case (step w ev w')
  then have "log_inv (wsc_baseUrl (wld_client w)) w'"
    using log_inv_step [OF step.IH _ step.hyps(2)] ws_reachable_inv [OF step.hyps(1)] by (simp add: ws_inv_def)
  then show ?case by (simp add: log_inv_def)
qed

section \<open>Properties\<close>

lemma quiet_browser_when_idle:
  assumes inv: "ws_inv w" "wsc_ws (wld_client w) = None"
    and step: "ws_step raises w ev w'" "browser_event ev"
  shows "wld_client w' = wld_client w \<and> wld_log w' = wld_log w \<and> wld_timers w' = []"
proof -
  have dead: "\<not> live_socket w s" "wld_timers w = []" for s
    using inv by (auto simp: ws_inv_def connection_ok_def)
  have closing: "wld_sockets w s = Some sk \<Longrightarrow> \<not> sck_onclose sk \<or> sck_state sk = Closed"
    "wld_sockets w s = Some sk \<Longrightarrow> sck_state sk = Closing \<or> sck_state sk = Closed" for s sk
    using dead(1) [of s] inv(1) unfolding ws_inv_def sockets_ok_def live_socket_def by metis+
  from step(1) show ?thesis
  proof cases
    case (opened s sk)
    then show ?thesis using closing(2) [OF opened(3)] by simp
  next
    case (message s sk fr)
    then show ?thesis using closing(2) [OF message(3)] by simp
  next
    case (closing s sk)
    then show ?thesis using dead(2) by simp
  next
    case (closed s sk r)
    then show ?thesis using closing(1) [OF closed(3)] dead(2) by auto
  next
    case (user_subscription g)
    then show ?thesis using step(2) by (cases ev) simp_all
  qed (use step(2) dead(2) in simp_all)
qed

text \<open>
  C13. The client never loses the connection silently and never holds on to one it gave up.  In every
  reachable state a client that has been connected and not disconnected has either exactly one
  live socket and no timer, or no live socket and exactly one running timer with a delay of 0.8 to
  30 seconds, whose firing opens a new socket as the client's current one.  A client that was
  never connected, or was disconnected, has neither, and no event of the browser changes it, calls
  a handler or reconnects it.
\<close>
theorem ws_connection_invariant:
  assumes "ws_reachable raises w"
  shows "(wsc_ws (wld_client w) = None \<longrightarrow>
       (\<forall>s. \<not> live_socket w s) \<and> wld_timers w = []
     \<and> (\<forall>ev w'. ws_step raises w ev w' \<and> browser_event ev \<longrightarrow>
          wld_client w' = wld_client w \<and> wld_log w' = wld_log w \<and> wld_timers w' = []))
   \<and> (\<forall>c. wsc_ws (wld_client w) = Some c \<longrightarrow>
       (live_socket w c \<and> (\<forall>s. live_socket w s \<longrightarrow> s = c) \<and> wld_timers w = [])
     \<or> ((\<forall>s. \<not> live_socket w s)
        \<and> (\<exists>t d w'. wld_timers w = [(t, d)] \<and> 800 \<le> d \<and> d \<le> 30000
             \<and> ws_step raises w (Ev_timer t) w' \<and> wsc_ws (wld_client w') = Some (wld_next w)
             \<and> live_socket w' (wld_next w) \<and> wld_timers w' = [])))
   \<and> (\<forall>w'. ws_step raises w Do_disconnect w' \<longrightarrow>
       wsc_ws (wld_client w') = None \<and> (\<forall>s. \<not> live_socket w' s) \<and> wld_timers w' = [])"
proof -
  have inv: "ws_inv w" by (rule ws_reachable_inv [OF assms])
  have fires: "ws_step raises w (Ev_timer t) (connect (w\<lparr>wld_timers := []\<rparr>))
      \<and> wsc_ws (wld_client (connect (w\<lparr>wld_timers := []\<rparr>))) = Some (wld_next w)
      \<and> live_socket (connect (w\<lparr>wld_timers := []\<rparr>)) (wld_next w)
      \<and> wld_timers (connect (w\<lparr>wld_timers := []\<rparr>)) = []"
    if "wld_timers w = [(t, d)]" for t d
    using ws_step.timer [of t d w raises] that by (simp add: connect_def Let_def live_socket_def)
  have gone: "ws_step raises w Do_disconnect w' \<Longrightarrow> w' = disconnect w" for w'
    by (erule disconnect_stepE) auto
  show ?thesis
    using inv ws_inv_disconnect [OF inv] quiet_browser_when_idle [OF inv] fires gone
    unfolding ws_inv_def connection_ok_def
    by (cases "wsc_ws (wld_client w)") (simp_all, blast+)
qed

definition example_world :: ws_world where
  "example_world = initial_world (new_client (''wss://host/ws'', []) False None)"

lemma ws_connection_invariant_witness:
  "\<exists>t d. wld_timers (scheduleReconnect 0 (set_state 1 Closed (connect example_world))) = [(t, d)] \<and> 800 \<le> d"
proof -
  let ?w = "scheduleReconnect 0 (set_state 1 Closed (connect example_world))"
  have sk: "wld_sockets (connect example_world) 1 =
      Some \<lparr>sck_url = (''wss://host/ws'', []), sck_state = Connecting, sck_onclose = True\<rparr>"
    by (simp add: connect_def example_world_def initial_world_def new_client_def Let_def connect_url_def
        set_unless_falsy_def)
  have "ws_step (\<lambda>_. False) example_world Do_connect (connect example_world)"
    by (rule ws_step.user_connect) (simp add: example_world_def initial_world_def new_client_def)
  then have "ws_reachable (\<lambda>_. False) (connect example_world)"
    unfolding example_world_def by (rule ws_reachable.step [OF ws_reachable.start])
  moreover have "ws_step (\<lambda>_. False) (connect example_world) (Ev_close 1 0) ?w"
    using ws_step.closed [OF sk, of 0] by simp
  ultimately have "ws_reachable (\<lambda>_. False) ?w" by (rule ws_reachable.step)
  note run = ws_connection_invariant [OF this]
  have "wld_timers ?w \<noteq> []" by (simp add: scheduleReconnect_def Let_def)
  moreover have "wsc_ws (wld_client ?w) = Some 1"
    by (simp add: scheduleReconnect_def Let_def connect_def example_world_def initial_world_def)
  ultimately show ?thesis using run by blast
qed

lemma backoff_base_early: "n \<le> 4 \<Longrightarrow> backoff_base n = 1000 * 2 ^ n"
  using power_increasing [of n 4 "2 :: rat"]
  by (simp add: backoff_base_def RECONNECT_BASE_DELAY_MS_def RECONNECT_MAX_DELAY_MS_def)

lemma backoff_base_late: "5 \<le> n \<Longrightarrow> backoff_base n = 30000"
  using power_increasing [of 5 n "2 :: rat"]
  by (simp add: backoff_base_def RECONNECT_BASE_DELAY_MS_def RECONNECT_MAX_DELAY_MS_def)

lemma floor_half_bounds:
  fixes x :: rat
  assumes "of_int l \<le> x" "x \<le> of_int h"
  shows "l \<le> \<lfloor>x + 1 / 2\<rfloor>" "\<lfloor>x + 1 / 2\<rfloor> \<le> h"
proof -
  have "x + 1 / 2 < of_int (h + 1)" using assms by simp
  then have "\<lfloor>x + 1 / 2\<rfloor> < h + 1" by (simp only: floor_less_iff)
  then show "\<lfloor>x + 1 / 2\<rfloor> \<le> h" by linarith
  show "l \<le> \<lfloor>x + 1 / 2\<rfloor>" using assms by (simp add: le_floor_iff)
qed

text \<open>
  The reconnect delay: for any value of the random source it lies between 0.8 and 30 seconds;
  before the cap, up to the fifth attempt, it is within a fifth of one second doubled once per
  attempt; from the sixth attempt on it is between 24 and 30 seconds, and every random value in the
  upper half gives exactly 30 seconds, so there half of the clients share one delay.
\<close>
theorem reconnect_delay_spec:
  assumes "0 \<le> r" "r < 1"
  shows "800 \<le> reconnect_delay n r \<and> reconnect_delay n r \<le> 30000
    \<and> (n \<le> 4 \<longrightarrow> 800 * 2 ^ n \<le> reconnect_delay n r \<and> reconnect_delay n r \<le> 1200 * 2 ^ n)
    \<and> (5 \<le> n \<longrightarrow> 24000 \<le> reconnect_delay n r \<and> (1 / 2 \<le> r \<longrightarrow> reconnect_delay n r = 30000))"
proof -
  define b where "b = backoff_base n"
  define x where "x = min (b + b * (2 / 10) * (r * 2 - 1)) 30000"
  have delay: "reconnect_delay n r = \<lfloor>x + 1 / 2\<rfloor>"
    by (simp add: reconnect_delay_def Let_def x_def b_def RECONNECT_MAX_DELAY_MS_def)
  have b: "1000 \<le> b" unfolding b_def by (rule backoff_base_bounds)
  have br: "0 \<le> b * r" "b * r \<le> b" using b assms by simp_all
  have early: "800 * 2 ^ n \<le> reconnect_delay n r \<and> reconnect_delay n r \<le> 1200 * 2 ^ n" if "n \<le> 4"
  proof -
    have "b = 1000 * 2 ^ n" unfolding b_def by (rule backoff_base_early [OF that])
    moreover have "(2 :: rat) ^ n \<le> 2 ^ 4" using that by (intro power_increasing) auto
    ultimately have c: "b = 1000 * 2 ^ n" "(2 :: rat) ^ n \<le> 16" by simp_all
    have x: "x = min (b - b / 5 + 2 / 5 * (b * r)) 30000"
      unfolding x_def by (rule arg_cong2 [where f = min]) (simp_all add: algebra_simps)
    have "800 * 2 ^ n \<le> b - b / 5 + 2 / 5 * (b * r)" "b - b / 5 + 2 / 5 * (b * r) \<le> 1200 * 2 ^ n"
      "800 * (2 :: rat) ^ n \<le> 30000" using br c by linarith+
    then have "800 * 2 ^ n \<le> x" "x \<le> 1200 * 2 ^ n"
      unfolding x by (simp_all add: min.coboundedI1)
    then show ?thesis unfolding delay
      using floor_half_bounds [of "800 * 2 ^ n" x "1200 * 2 ^ n"] by simp
  qed
  have late: "24000 \<le> reconnect_delay n r \<and> (1 / 2 \<le> r \<longrightarrow> reconnect_delay n r = 30000)" if "5 \<le> n"
  proof -
    have 30: "b = 30000" unfolding b_def by (rule backoff_base_late [OF that])
    then have "24000 \<le> x" "x \<le> 30000" unfolding x_def using assms by (simp_all add: min_def)
    then have "24000 \<le> reconnect_delay n r" unfolding delay
      using floor_half_bounds(1) [of 24000 x 30000] by simp
    moreover have "1 / 2 \<le> r \<Longrightarrow> x = 30000" unfolding x_def 30 by (simp add: min_def)
    ultimately show ?thesis unfolding delay by (simp add: floor_unique)
  qed
  show ?thesis using reconnect_delay_bounds [OF assms] early late by blast
qed

lemma reconnect_delay_spec_witness:
  "reconnect_delay 7 (3 / 4) = 30000 \<and> 3200 \<le> reconnect_delay 2 0"
  using reconnect_delay_spec [of "3 / 4" 7] reconnect_delay_spec [of 0 2] by simp



end
