(* ===== verification/Feature_Flags.thy ===== *)
theory Feature_Flags
  imports Prelude "HOL-Library.Word" "HOL-Library.AList" "HOL-Library.List_Lexorder"
begin

unbundle bit_operations_syntax

text \<open>
  Feature flags (\<open>packages/core/feature-flags/\<close>: \<open>hash.ts\<close>, \<open>static-provider.ts\<close>,
  \<open>chain-provider.ts\<close>, \<open>service.ts\<close>, \<open>types.ts\<close>).  Strings are lists of UTF-16 code units here,
  because the hash looks at their encoding; \<open>ascii\<close> turns a literal into one.  A percentage is a
  rational number.
\<close>

type_synonym ustring = "16 word list"

definition ascii :: "string \<Rightarrow> ustring" where
  "ascii s = map (\<lambda>c. of_nat (of_char c)) s"

section \<open>The rollout hash\<close>

text \<open>The Unicode scalar values of a string; a lone surrogate reads as U+FFFD.\<close>

fun scalar_values :: "ustring \<Rightarrow> nat list" where
  "scalar_values [] = []"
| "scalar_values [c] = (if 0xD800 \<le> unat c \<and> unat c \<le> 0xDFFF then [0xFFFD] else [unat c])"
| "scalar_values (c # d # cs) =
     (if 0xD800 \<le> unat c \<and> unat c \<le> 0xDBFF then
        if 0xDC00 \<le> unat d \<and> unat d \<le> 0xDFFF
          then (0x10000 + (unat c - 0xD800) * 0x400 + (unat d - 0xDC00)) # scalar_values cs
          else 0xFFFD # scalar_values (d # cs)
      else if 0xDC00 \<le> unat c \<and> unat c \<le> 0xDFFF then 0xFFFD # scalar_values (d # cs)
      else unat c # scalar_values (d # cs))"

definition utf8_bytes :: "nat \<Rightarrow> nat list" where
  "utf8_bytes n =
     (if n < 0x80 then [n]
      else if n < 0x800 then [0xC0 + n div 0x40, 0x80 + n mod 0x40]
      else if n < 0x10000 then [0xE0 + n div 0x1000, 0x80 + n div 0x40 mod 0x40, 0x80 + n mod 0x40]
      else [0xF0 + n div 0x40000, 0x80 + n div 0x1000 mod 0x40, 0x80 + n div 0x40 mod 0x40, 0x80 + n mod 0x40])"

text \<open>\<open>TextEncoder.encode\<close>.\<close>

definition utf8_encode :: "ustring \<Rightarrow> 8 word list" where
  "utf8_encode s = map of_nat (concat (map utf8_bytes (scalar_values s)))"

text \<open>One byte: \<open>hash ^= b\<close> and \<open>Math.imul\<close>, both on 32 bits.\<close>

definition fnv_byte :: "8 word \<Rightarrow> 32 word \<Rightarrow> 32 word" where
  "fnv_byte b hash = (hash XOR ucast b) * 0x01000193"

text \<open>The loop over the parts, with a zero byte before every part but the first.\<close>

fun fnv_parts :: "nat \<Rightarrow> ustring list \<Rightarrow> 32 word \<Rightarrow> 32 word" where
  "fnv_parts p [] hash = hash"
| "fnv_parts p (part # parts) hash =
     (let hash1 = (if p > 0 then (hash XOR 0) * 0x01000193 else hash)
      in fnv_parts (Suc p) parts (fold fnv_byte (utf8_encode part) hash1))"

definition fnv1a :: "ustring list \<Rightarrow> nat" where
  "fnv1a parts = unat (fnv_parts 0 parts 0x811c9dc5)"

definition bucketFor :: "ustring \<Rightarrow> ustring \<Rightarrow> nat" where
  "bucketFor key identifier = fnv1a [key, identifier] mod 100"

definition inPercent :: "ustring \<Rightarrow> ustring \<Rightarrow> rat \<Rightarrow> bool" where
  "inPercent key identifier percent =
     (if percent \<le> 0 then False
      else if percent \<ge> 100 then True
      else of_nat (bucketFor key identifier) < percent)"

section \<open>Rules and decisions\<close>

datatype flag_reason = By_static | By_percent | By_override | By_default | By_error

record flag_decision =
  fd_key :: ustring
  fd_enabled :: bool
  fd_variant :: ustring
  fd_reason :: flag_reason
  fd_source :: ustring

record eval_context =
  ec_userId :: "ustring option"
  ec_workspaceId :: "ustring option"
  ec_attributes :: "ustring \<rightharpoonup> ustring"

record percent_rollout =
  pr_percent :: rat
  pr_by :: "ustring option"

record flag_rule =
  fr_default :: "bool option"
  fr_variant :: "ustring option"
  fr_allow :: "ustring list option"
  fr_allowBy :: "ustring option"
  fr_deny :: "ustring list option"
  fr_denyBy :: "ustring option"
  fr_percent :: "percent_rollout option"

definition boolToVariant :: "bool \<Rightarrow> ustring" where
  "boolToVariant b = (if b then ascii ''on'' else ascii ''off'')"

definition nonEmpty :: "ustring option \<Rightarrow> ustring option" where
  "nonEmpty v = (case v of Some s \<Rightarrow> if s \<noteq> [] then Some s else None | None \<Rightarrow> None)"

definition lookupAttr :: "eval_context \<Rightarrow> ustring \<Rightarrow> ustring option" where
  "lookupAttr ctx name =
     (if name = ascii ''user_id'' then nonEmpty (ec_userId ctx)
      else if name = ascii ''workspace_id'' then nonEmpty (ec_workspaceId ctx)
      else nonEmpty (ec_attributes ctx name))"

definition decisionFromRule :: "ustring \<Rightarrow> flag_rule \<Rightarrow> bool \<Rightarrow> flag_reason \<Rightarrow> flag_decision" where
  "decisionFromRule key rule enabled reason =
     (let variant = (if enabled \<and> nonEmpty (fr_variant rule) \<noteq> None then the (fr_variant rule)
                     else boolToVariant enabled)
      in \<lparr>fd_key = key, fd_enabled = enabled, fd_variant = variant, fd_reason = reason,
          fd_source = ascii ''static''\<rparr>)"

definition or_user_id :: "ustring option \<Rightarrow> ustring" where
  "or_user_id attr = (case attr of None \<Rightarrow> ascii ''user_id'' | Some n \<Rightarrow> n)"

text \<open>A deny or allow list applies to a context: both tests of \<open>evaluateRule\<close> have this shape.\<close>

definition listed :: "ustring list option \<Rightarrow> ustring option \<Rightarrow> eval_context \<Rightarrow> bool" where
  "listed names attr ctx =
     (case names of
        None \<Rightarrow> False
      | Some ns \<Rightarrow> length ns > 0 \<and>
          (case lookupAttr ctx (or_user_id attr) of None \<Rightarrow> False | Some v \<Rightarrow> v \<in> set ns))"

definition evaluateRule :: "ustring \<Rightarrow> flag_rule \<Rightarrow> eval_context \<Rightarrow> flag_decision" where
  "evaluateRule key rule ctx =
     (if listed (fr_deny rule) (fr_denyBy rule) ctx then decisionFromRule key rule False By_static
      else if listed (fr_allow rule) (fr_allowBy rule) ctx then decisionFromRule key rule True By_static
      else case fr_percent rule of
        Some pr \<Rightarrow>
          let ident = (case lookupAttr ctx (or_user_id (pr_by pr)) of None \<Rightarrow> [] | Some v \<Rightarrow> v);
              enabled = inPercent key ident (pr_percent pr)
          in decisionFromRule key rule enabled By_percent
      | None \<Rightarrow>
          decisionFromRule key rule (case fr_default rule of None \<Rightarrow> False | Some b \<Rightarrow> b) By_static)"

section \<open>Providers and the service\<close>

type_synonym flag_provider = "ustring \<Rightarrow> eval_context \<Rightarrow> flag_decision option"

text \<open>The rules of a static provider, a \<open>Map\<close> in insertion order.\<close>

definition static_set :: "ustring \<Rightarrow> flag_rule \<Rightarrow> (ustring \<times> flag_rule) list \<Rightarrow> (ustring \<times> flag_rule) list" where
  "static_set key rule rules = AList.update key rule rules"

definition static_load :: "(ustring \<times> flag_rule) list \<Rightarrow> (ustring \<times> flag_rule) list" where
  "static_load entries = fold (\<lambda>(k, r) rs. AList.update k r rs) entries []"

definition static_keys :: "(ustring \<times> flag_rule) list \<Rightarrow> ustring list" where
  "static_keys rules = sort (map fst rules)"

definition static_lookup :: "(ustring \<times> flag_rule) list \<Rightarrow> flag_provider" where
  "static_lookup rules key ctx =
     (case map_of rules key of None \<Rightarrow> None | Some rule \<Rightarrow> Some (evaluateRule key rule ctx))"

definition chain_new :: "flag_provider option list \<Rightarrow> flag_provider list" where
  "chain_new providers = map the (filter (\<lambda>p. p \<noteq> None) providers)"

fun chain_lookup :: "flag_provider list \<Rightarrow> flag_provider" where
  "chain_lookup [] key ctx = None"
| "chain_lookup (p # ps) key ctx =
     (case p key ctx of Some d \<Rightarrow> Some d | None \<Rightarrow> chain_lookup ps key ctx)"

definition defaultDecision :: "ustring \<Rightarrow> bool \<Rightarrow> flag_decision" where
  "defaultDecision key value =
     \<lparr>fd_key = key, fd_enabled = value, fd_variant = (if value then ascii ''on'' else ascii ''off''),
      fd_reason = By_default, fd_source = ascii ''default''\<rparr>"

definition service_decision ::
  "flag_provider option \<Rightarrow> ustring \<Rightarrow> eval_context \<Rightarrow> bool \<Rightarrow> flag_decision" where
  "service_decision provider key ctx defaultValue =
     (case provider of
        None \<Rightarrow> defaultDecision key defaultValue
      | Some p \<Rightarrow>
          (case p key ctx of
             None \<Rightarrow> defaultDecision key defaultValue
           | Some d \<Rightarrow> d\<lparr>fd_key := key\<rparr>))"

definition service_isEnabled ::
  "flag_provider option \<Rightarrow> ustring \<Rightarrow> eval_context \<Rightarrow> bool \<Rightarrow> bool" where
  "service_isEnabled provider key ctx defaultValue =
     fd_enabled (service_decision provider key ctx defaultValue)"

definition service_variant ::
  "flag_provider option \<Rightarrow> ustring \<Rightarrow> eval_context \<Rightarrow> ustring \<Rightarrow> ustring" where
  "service_variant provider key ctx defaultValue =
     (case provider of
        None \<Rightarrow> defaultValue
      | Some p \<Rightarrow> (case p key ctx of None \<Rightarrow> defaultValue | Some d \<Rightarrow> fd_variant d))"

section \<open>The hash and its reference\<close>

text \<open>
  32-bit FNV-1a as the server's Go library computes it: on unbounded numbers, reduced modulo
  \<open>2\<^sup>3\<^sup>2\<close>, over one sequence of bytes.
\<close>

definition fnv_reference :: "nat list \<Rightarrow> nat" where
  "fnv_reference bytes = fold (\<lambda>b h. ((h XOR b) * 16777619) mod 4294967296) bytes 2166136261"

fun separated :: "nat list list \<Rightarrow> nat list" where
  "separated [] = []"
| "separated [bs] = bs"
| "separated (bs # bss) = bs @ 0 # separated bss"

lemma unat_fnv_byte: "unat (fnv_byte b h) = ((unat h XOR unat b) * 16777619) mod 4294967296"
proof -
  have "unat b < 2 ^ LENGTH(8)" by (rule unsigned_less)
  then have "unat b < 2 ^ 32" by simp
  then have "unat (ucast b :: 32 word) = unat b" by (simp add: unsigned_ucast_eq take_bit_nat_eq_self)
  then have "unat (h XOR ucast b) = unat h XOR unat b" by (simp add: unsigned_xor_eq)
  then show ?thesis by (simp add: fnv_byte_def unat_word_ariths)
qed

lemma unat_fold_fnv:
  "unat (fold fnv_byte bs h) = fold (\<lambda>b h. ((h XOR b) * 16777619) mod 4294967296) (map unat bs) (unat h)"
  by (induction bs arbitrary: h) (simp_all add: unat_fnv_byte)

lemma fnv_zero_byte: "(hash XOR 0) * 0x01000193 = fnv_byte 0 hash"
  by (simp add: fnv_byte_def)

text \<open>The separator of a part is a byte of its own.\<close>

lemma fnv_parts_later:
  "fnv_parts (Suc p) parts h = fold fnv_byte (concat (map (\<lambda>s. 0 # utf8_encode s) parts)) h"
  by (induction parts arbitrary: p h) (simp_all add: Let_def fnv_zero_byte del: xor.right_neutral)

lemma separated_later:
  "separated (map f (s # parts)) = f s @ concat (map (\<lambda>t. 0 # f t) parts)"
  by (induction parts arbitrary: s) simp_all

lemma fnv1a_fold:
  "fnv1a parts = fnv_reference (separated (map (map unat \<circ> utf8_encode) parts))"
proof (cases parts)
  case Nil
  then show ?thesis by (simp add: fnv1a_def fnv_reference_def)
next
  case (Cons s ss)
  have "fnv_parts 0 parts 0x811c9dc5 =
      fold fnv_byte (utf8_encode s @ concat (map (\<lambda>t. 0 # utf8_encode t) ss)) 0x811c9dc5"
    by (simp add: Cons fnv_parts_later)
  moreover have "separated (map (map unat \<circ> utf8_encode) parts) =
      map unat (utf8_encode s @ concat (map (\<lambda>t. 0 # utf8_encode t) ss))"
    unfolding Cons separated_later by (simp add: map_concat o_def)
  ultimately show ?thesis by (simp only: fnv1a_def fnv_reference_def unat_fold_fnv) simp
qed

text \<open>Buckets the tests of both sides pin, the last two with strings that are not ASCII.\<close>

lemma bucket_golden:
  "bucketFor (ascii ''billing_new_invoice'') (ascii ''user-42'') = 97"
  "bucketFor (ascii ''feature_a'') (ascii ''user-1'') = 50"
  "bucketFor (ascii ''empty_id_flag'') [] = 83"
  "bucketFor (ascii ''flag'') [0xE9] = 53"
  "bucketFor (ascii ''flag'') [0xD83E, 0xDD84] = 82"
  by (simp_all add: bucketFor_def fnv1a_fold fnv_reference_def utf8_encode_def utf8_bytes_def ascii_def)

section \<open>The contract of a provider\<close>

text \<open>
  What the service relies on of a provider: a decision names the flag that was asked for, and the
  variant of a decision that is not enabled is \<open>off\<close>.
\<close>

locale flag_contract =
  fixes lookup :: flag_provider
  assumes decides_key: "lookup key ctx = Some d \<Longrightarrow> fd_key d = key"
    and off_variant: "lookup key ctx = Some d \<Longrightarrow> \<not> fd_enabled d \<Longrightarrow> fd_variant d = ascii ''off''"
begin

lemma service_decision_lookup:
  "service_decision (Some lookup) key ctx dflt =
     (case lookup key ctx of None \<Rightarrow> defaultDecision key dflt | Some d \<Rightarrow> d)"
  by (auto simp: service_decision_def decides_key split: option.split)

lemma service_off:
  assumes "\<not> service_isEnabled (Some lookup) key ctx dflt"
  shows "fd_variant (service_decision (Some lookup) key ctx dflt) = ascii ''off''"
    and "dv = ascii ''off'' \<Longrightarrow> service_variant (Some lookup) key ctx dv = ascii ''off''"
  using assms off_variant
  by (auto simp: service_isEnabled_def service_decision_lookup service_variant_def defaultDecision_def
      split: option.splits)

end

lemma decisionFromRule_fields [simp]:
  "fd_key (decisionFromRule key rule b r) = key" "fd_enabled (decisionFromRule key rule b r) = b"
  "\<not> b \<Longrightarrow> fd_variant (decisionFromRule key rule b r) = ascii ''off''"
  by (simp_all add: decisionFromRule_def boolToVariant_def Let_def)

text \<open>Every branch of the evaluation builds its decision with the same function.\<close>

lemma evaluateRule_decision: "\<exists>b r. evaluateRule key rule ctx = decisionFromRule key rule b r"
proof (cases "fr_percent rule")
  case None
  then show ?thesis unfolding evaluateRule_def by auto
next
  case (Some pr)
  then show ?thesis unfolding evaluateRule_def Let_def by (simp split: if_split) blast
qed

lemma evaluateRule_fields:
  "fd_key (evaluateRule key rule ctx) = key"
  "\<not> fd_enabled (evaluateRule key rule ctx) \<Longrightarrow> fd_variant (evaluateRule key rule ctx) = ascii ''off''"
  using evaluateRule_decision [of key rule ctx] by auto

interpretation static: flag_contract "static_lookup rules" for rules
  by unfold_locales (auto simp: static_lookup_def evaluateRule_fields split: option.splits)

lemma chain_contract:
  assumes "\<forall>p\<in>set ps. flag_contract p"
  shows "flag_contract (chain_lookup ps)"
proof
  fix key ctx d
  assume d: "chain_lookup ps key ctx = Some d"
  then obtain p where p: "p \<in> set ps" "p key ctx = Some d"
    by (induction ps) (auto split: option.splits)
  with assms show "fd_key d = key" by (blast dest: flag_contract.decides_key)
  show "\<not> fd_enabled d \<Longrightarrow> fd_variant d = ascii ''off''"
    using assms p by (blast dest: flag_contract.off_variant)
qed

interpretation layers: flag_contract "chain_lookup (map static_lookup rss)" for rss
  by (rule chain_contract) (auto intro: static.flag_contract_axioms)

lemma chain_lookup_layers:
  "chain_lookup (map static_lookup rss) key ctx =
     (case find (\<lambda>rs. map_of rs key \<noteq> None) rss of
        None \<Rightarrow> None
      | Some rs \<Rightarrow> Some (evaluateRule key (the (map_of rs key)) ctx))"
  by (induction rss) (auto simp: static_lookup_def split: option.splits)

lemma inPercent_iff:
  "inPercent key ident percent \<longleftrightarrow> percent \<ge> 100 \<or> of_nat (bucketFor key ident) < percent"
proof -
  have "bucketFor key ident < 100" by (simp add: bucketFor_def)
  then have "(of_nat (bucketFor key ident) :: rat) < 100" by (metis of_nat_less_iff of_nat_numeral)
  then show ?thesis by (auto simp: inPercent_def)
qed

section \<open>Properties\<close>

text \<open>
  C15. The rollout hash of the client is the server's: on any parts it is 32-bit FNV-1a, computed on
  unbounded numbers, of the UTF-8 bytes of the parts with one zero byte between neighbours.  A
  bucket lies below 100, a percentage of at most 0 admits nobody, one of at least 100 everybody,
  and raising the percentage never takes a user out of the rollout.
\<close>
theorem fnv1a_reference:
  "fnv1a parts = fnv_reference (separated (map (map unat \<circ> utf8_encode) parts))
   \<and> bucketFor key ident < 100
   \<and> (p \<le> 0 \<longrightarrow> \<not> inPercent key ident p) \<and> (100 \<le> p \<longrightarrow> inPercent key ident p)
   \<and> (p \<le> q \<and> inPercent key ident p \<longrightarrow> inPercent key ident q)"
proof -
  note fnv1a_fold [of parts]
  moreover have "bucketFor key ident < 100" by (simp add: bucketFor_def)
  moreover have "p \<le> 0 \<Longrightarrow> \<not> inPercent key ident p" "100 \<le> p \<Longrightarrow> inPercent key ident p"
    by (simp_all add: inPercent_def)
  ultimately show ?thesis by (auto simp: inPercent_iff)
qed

lemma fnv1a_reference_witness:
  "inPercent (ascii ''feature_a'') (ascii ''user-1'') 60"
proof -
  have "inPercent (ascii ''feature_a'') (ascii ''user-1'') 51"
    by (simp add: inPercent_iff bucket_golden)
  with fnv1a_reference [where key = "ascii ''feature_a''" and ident = "ascii ''user-1''" and p = 51 and q = 60]
  show ?thesis by simp
qed

definition layered_service :: "(ustring \<times> flag_rule) list list \<Rightarrow> flag_provider option" where
  "layered_service rss = Some (chain_lookup (map static_lookup rss))"

text \<open>Deny before allow before percentage before default.\<close>

definition rule_admits :: "ustring \<Rightarrow> flag_rule \<Rightarrow> eval_context \<Rightarrow> bool" where
  "rule_admits key rule ctx \<longleftrightarrow>
     \<not> listed (fr_deny rule) (fr_denyBy rule) ctx
     \<and> (listed (fr_allow rule) (fr_allowBy rule) ctx
        \<or> (case fr_percent rule of
             Some pr \<Rightarrow> pr_percent pr \<ge> 100 \<or>
               of_nat (bucketFor key (case lookupAttr ctx (or_user_id (pr_by pr)) of None \<Rightarrow> [] | Some v \<Rightarrow> v))
                 < pr_percent pr
           | None \<Rightarrow> fr_default rule = Some True))"

lemma evaluateRule_admits: "fd_enabled (evaluateRule key rule ctx) \<longleftrightarrow> rule_admits key rule ctx"
  by (cases "fr_percent rule"; cases "fr_default rule")
    (simp_all add: evaluateRule_def rule_admits_def Let_def inPercent_iff)

lemma layered_enabled:
  "service_isEnabled (layered_service rss) key ctx dflt =
     (case find (\<lambda>rs. map_of rs key \<noteq> None) rss of
        None \<Rightarrow> dflt | Some rs \<Rightarrow> rule_admits key (the (map_of rs key)) ctx)"
  unfolding service_isEnabled_def layered_service_def layers.service_decision_lookup chain_lookup_layers
  by (simp add: defaultDecision_def evaluateRule_admits split: option.split)

text \<open>
  C16. What the service answers over layers of static rules.  The first layer with a rule for the
  flag decides, the caller's default when there is none.  Within a rule a deny entry wins over
  everything, then an allow entry switches the flag on, then the percentage of the rollout
  decides, then the default of the rule.  A flag that is off always has the variant \<open>off\<close>, so a
  caller who branches on the variant cannot enter the experiment.
\<close>
theorem service_over_layers:
  assumes "\<forall>rs\<in>set (take i rss). map_of rs key = None"
    and "i < length rss" "map_of (rss ! i) key = Some rule"
  shows "(service_isEnabled (layered_service rss) key ctx dflt \<longleftrightarrow>
       \<not> listed (fr_deny rule) (fr_denyBy rule) ctx
       \<and> (listed (fr_allow rule) (fr_allowBy rule) ctx
          \<or> (case fr_percent rule of
               Some pr \<Rightarrow> pr_percent pr \<ge> 100 \<or>
                 of_nat (bucketFor key (case lookupAttr ctx (or_user_id (pr_by pr)) of None \<Rightarrow> [] | Some v \<Rightarrow> v))
                   < pr_percent pr
             | None \<Rightarrow> fr_default rule = Some True)))
    \<and> fd_key (service_decision (layered_service rss) key ctx dflt) = key
    \<and> (\<not> service_isEnabled (layered_service rss) key ctx dflt \<longrightarrow>
         fd_variant (service_decision (layered_service rss) key ctx dflt) = ascii ''off''
         \<and> service_variant (layered_service rss) key ctx (ascii ''off'') = ascii ''off'')
    \<and> ((\<forall>rs\<in>set rss. map_of rs other = None) \<longrightarrow>
         service_isEnabled (layered_service rss) other ctx dflt = dflt)"
proof -
  have "find (\<lambda>rs. map_of rs key \<noteq> None) rss = Some (rss ! i)"
    using assms unfolding find_Some_iff by (intro exI [of _ i]) (auto simp: set_conv_nth)
  then have "service_isEnabled (layered_service rss) key ctx dflt \<longleftrightarrow> rule_admits key rule ctx"
    by (simp add: layered_enabled assms(3))
  moreover have "fd_key (service_decision (layered_service rss) key ctx dflt) = key"
    by (simp add: layered_service_def service_decision_def defaultDecision_def split: option.split)
  moreover have "(\<forall>rs\<in>set rss. map_of rs other = None) \<Longrightarrow>
      find (\<lambda>rs. map_of rs other \<noteq> None) rss = None"
    by (simp add: find_None_iff)
  ultimately show ?thesis
    using layers.service_off [of rss key ctx dflt] unfolding rule_admits_def layered_service_def [symmetric]
    by (simp add: layered_enabled)
qed

definition kill_switch :: flag_rule where
  "kill_switch = \<lparr>fr_default = Some True, fr_variant = Some (ascii ''v2''), fr_allow = Some [ascii ''u''],
     fr_allowBy = None, fr_deny = Some [ascii ''u''], fr_denyBy = None, fr_percent = None\<rparr>"

lemma service_over_layers_witness:
  "\<not> service_isEnabled (layered_service [[], [(ascii ''k'', kill_switch)]]) (ascii ''k'')
     \<lparr>ec_userId = Some (ascii ''u''), ec_workspaceId = None, ec_attributes = Map.empty\<rparr> True"
proof -
  have "listed (fr_deny kill_switch) (fr_denyBy kill_switch)
      \<lparr>ec_userId = Some (ascii ''u''), ec_workspaceId = None, ec_attributes = Map.empty\<rparr>"
    by code_simp
  then show ?thesis
    using service_over_layers [of 1 "[[], [(ascii ''k'', kill_switch)]]" "ascii ''k''" kill_switch
      "\<lparr>ec_userId = Some (ascii ''u''), ec_workspaceId = None, ec_attributes = Map.empty\<rparr>" True]
    by simp
qed

text \<open>
  The comment on \<open>Decision.enabled\<close> reads the flag off the variant; a rule whose ON-variant is
  called \<open>off\<close> breaks that reading.
\<close>

lemma enabled_with_variant_off:
  "let d = evaluateRule key (kill_switch\<lparr>fr_deny := None, fr_variant := Some (ascii ''off'')\<rparr>)
       \<lparr>ec_userId = None, ec_workspaceId = None, ec_attributes = Map.empty\<rparr>
   in fd_enabled d \<and> fd_variant d = ascii ''off''"
  by (simp add: evaluateRule_def decisionFromRule_def kill_switch_def listed_def or_user_id_def lookupAttr_def
      nonEmpty_def ascii_def Let_def)

end
