(* ===== verification/Exception_Dedupe.thy ===== *)
theory Exception_Dedupe
  imports Js_Json "HOL-Library.Word" "HOL-Library.AList"
begin

unbundle bit_operations_syntax

text \<open>
  The fuse for repeated exceptions (\<open>packages/core/analytics/exception-dedupe.ts\<close>) and the filter for
  benign ones (\<open>benign-exceptions.ts\<close>).  The properties of an event are JSON values.  The storage
  keeps what \<open>JSON.parse\<close> makes of the item; \<open>getItem\<close> and \<open>setItem\<close> may throw at any time.
  \<open>num_string\<close> prints the numbers that are no integers below \<open>10\<^sup>2\<^sup>1\<close>.
\<close>

section \<open>The fingerprint\<close>

definition EXCEPTION_SAMPLE_LIMIT :: rat where "EXCEPTION_SAMPLE_LIMIT = 3"

definition MAX_FINGERPRINTS :: nat where "MAX_FINGERPRINTS = 50"

definition readString :: "json option \<Rightarrow> string option" where
  "readString v = (case v of Some (JStr s) \<Rightarrow> if s \<noteq> [] then Some s else None | _ \<Rightarrow> None)"

definition js_num_string :: "(rat \<Rightarrow> string) \<Rightarrow> rat \<Rightarrow> string" where
  "js_num_string num_string n =
     (if n = of_int \<lfloor>n\<rfloor> \<and> \<bar>n\<bar> < 10 ^ 21 then js_int_string \<lfloor>n\<rfloor> else num_string n)"

definition readNumberAsString :: "(rat \<Rightarrow> string) \<Rightarrow> json option \<Rightarrow> string option" where
  "readNumberAsString num_string v =
     (case v of Some (JNum n) \<Rightarrow> Some (js_num_string num_string n) | _ \<Rightarrow> None)"

definition or_empty :: "string option \<Rightarrow> string" where
  "or_empty s = (case s of None \<Rightarrow> [] | Some t \<Rightarrow> t)"

definition member_of :: "string \<Rightarrow> json option \<Rightarrow> json option" where
  "member_of k v = (case v of None \<Rightarrow> None | Some x \<Rightarrow> obj_get k x)"

record top_frame =
  tf_filename :: string
  tf_fn :: string
  tf_lineno :: string
  tf_colno :: string

definition topFrame :: "(rat \<Rightarrow> string) \<Rightarrow> json option \<Rightarrow> top_frame option" where
  "topFrame num_string entry =
     (case entry of
        None \<Rightarrow> None
      | Some e \<Rightarrow>
          (case member_of ''frames'' (obj_get ''stacktrace'' e) of
             Some (JArr frames) \<Rightarrow>
               if length frames = 0 then None
               else let f = last frames in
                 if \<not> truthy f \<or> \<not> typeof_object f then None
                 else Some \<lparr>tf_filename = or_empty (readString (obj_get ''filename'' f)),
                            tf_fn = or_empty (readString (obj_get ''function'' f)),
                            tf_lineno = or_empty (readNumberAsString num_string (obj_get ''lineno'' f)),
                            tf_colno = or_empty (readNumberAsString num_string (obj_get ''colno'' f))\<rparr>
           | _ \<Rightarrow> None))"

text \<open>\<open>h = ((h << 5) + h) ^ code\<close>: the shift and the exclusive or work on 32 bits.\<close>

definition djb2_step :: "char \<Rightarrow> 32 word \<Rightarrow> 32 word" where
  "djb2_step c h = (push_bit 5 h + h) XOR of_nat (of_char c)"

text \<open>\<open>toString(36)\<close>.\<close>

fun base36 :: "nat \<Rightarrow> string" where
  "base36 n = (if n < 36 then [''0123456789abcdefghijklmnopqrstuvwxyz'' ! n]
     else base36 (n div 36) @ [''0123456789abcdefghijklmnopqrstuvwxyz'' ! (n mod 36)])"

declare base36.simps [simp del]

definition djb2_hash :: "string \<Rightarrow> string" where
  "djb2_hash input = base36 (unat (fold djb2_step input 5381))"

text \<open>\<open>parts.join("\\u0001")\<close>.\<close>

fun join_parts :: "string list \<Rightarrow> string" where
  "join_parts [] = []"
| "join_parts [s] = s"
| "join_parts (s # ss) = s @ CHR 0x01 # join_parts ss"

definition first_string :: "json option \<Rightarrow> json option \<Rightarrow> string" where
  "first_string a b = (case readString a of Some s \<Rightarrow> s | None \<Rightarrow> or_empty (readString b))"

definition buildFingerprint :: "(rat \<Rightarrow> string) \<Rightarrow> json option \<Rightarrow> string option" where
  "buildFingerprint num_string properties =
     (case properties of
        None \<Rightarrow> None
      | Some p \<Rightarrow>
          if \<not> truthy p \<or> \<not> typeof_object p then None
          else
            let entry = (case obj_get ''$exception_list'' p of
                           Some (JArr (e # es)) \<Rightarrow> if truthy e \<and> typeof_object e then Some e else None
                         | _ \<Rightarrow> None);
                ty = first_string (member_of ''type'' entry) (obj_get ''$exception_type'' p);
                val = first_string (member_of ''value'' entry) (obj_get ''$exception_message'' p);
                frame = topFrame num_string entry
            in if ty = [] \<and> val = [] \<and> frame = None then None
               else
                 let parts = [ty, val]
                   @ (case frame of None \<Rightarrow> []
                      | Some f \<Rightarrow> [tf_filename f, tf_fn f, tf_lineno f, tf_colno f])
                 in Some (djb2_hash (join_parts parts)))"

section \<open>The decision\<close>

datatype stored_item = No_item | Unparsable | Parsed json

record session_storage =
  sst_item :: stored_item
  sst_get_raises :: bool
  sst_set_raises :: bool

definition readCounts :: "stored_item \<Rightarrow> (string \<times> json) list" where
  "readCounts item =
     (case item of Parsed (JObj ms) \<Rightarrow> rev (AList.clearjunk (rev ms)) | _ \<Rightarrow> [])"

definition count_of :: "(string \<times> json) list \<Rightarrow> string \<Rightarrow> rat" where
  "count_of counts fp = (case map_of counts fp of Some (JNum n) \<Rightarrow> n | _ \<Rightarrow> 0)"

text \<open>\<open>None\<close> for the storage is an environment without one, or one that denies access.\<close>

definition shouldDropException ::
  "(rat \<Rightarrow> string) \<Rightarrow> json option \<Rightarrow> session_storage option \<Rightarrow> bool \<times> session_storage option" where
  "shouldDropException num_string properties storage =
     (case buildFingerprint num_string properties of
        None \<Rightarrow> (False, storage)
      | Some fp \<Rightarrow>
          (case storage of
             None \<Rightarrow> (False, None)
           | Some st \<Rightarrow>
               if sst_get_raises st then (False, storage)
               else
                 let counts = readCounts (sst_item st); current = count_of counts fp in
                 if current \<ge> EXCEPTION_SAMPLE_LIMIT then (True, storage)
                 else if current = 0 \<and> length counts \<ge> MAX_FINGERPRINTS then (False, storage)
                 else if sst_set_raises st then (False, storage)
                 else (False, Some (st\<lparr>sst_item :=
                   Parsed (JObj (AList.update fp (JNum (current + 1)) counts))\<rparr>))))"

section \<open>Benign exceptions\<close>

text \<open>\<open>/ResizeObserver loop/i.test(s)\<close>.\<close>

definition matches_resize_loop :: "string \<Rightarrow> bool" where
  "matches_resize_loop s =
     list_ex (\<lambda>i. starts_with (drop i (map lower s)) ''resizeobserver loop'') [0..<Suc (length s)]"

definition isBenignException :: "json option \<Rightarrow> bool" where
  "isBenignException properties =
     (case properties of
        None \<Rightarrow> False
      | Some p \<Rightarrow>
          if \<not> truthy p \<or> \<not> typeof_object p then False
          else
            let values = (case obj_get ''$exception_list'' p of
                            Some (JArr es) \<Rightarrow>
                              map (obj_get ''value'') (filter (\<lambda>e. truthy e \<and> typeof_object e
                                \<and> obj_get ''value'' e \<noteq> None) es)
                          | _ \<Rightarrow> [])
            in list_ex (\<lambda>m. case m of Some (JStr s) \<Rightarrow> matches_resize_loop s | _ \<Rightarrow> False)
                 (obj_get ''$exception_message'' p # values))"

section \<open>A session\<close>

text \<open>An event of a session: its properties, and how the storage behaves when it is handled.\<close>

record exc_event =
  exc_properties :: "json option"
  exc_available :: bool
  exc_get_raises :: bool
  exc_set_raises :: bool

definition storage_at :: "exc_event \<Rightarrow> stored_item \<Rightarrow> session_storage option" where
  "storage_at e item = (if exc_available e
     then Some \<lparr>sst_item = item, sst_get_raises = exc_get_raises e, sst_set_raises = exc_set_raises e\<rparr>
     else None)"

definition session_step ::
  "(rat \<Rightarrow> string) \<Rightarrow> exc_event \<Rightarrow> bool list \<times> stored_item \<Rightarrow> bool list \<times> stored_item" where
  "session_step num_string e st =
     (case st of (drops, item) \<Rightarrow>
       (case shouldDropException num_string (exc_properties e) (storage_at e item) of
          (d, storage) \<Rightarrow> (drops @ [d], case storage of None \<Rightarrow> item | Some s \<Rightarrow> sst_item s)))"

definition session :: "(rat \<Rightarrow> string) \<Rightarrow> exc_event list \<Rightarrow> bool list \<times> stored_item" where
  "session num_string es = fold (session_step num_string) es ([], No_item)"

definition fp_of :: "(rat \<Rightarrow> string) \<Rightarrow> exc_event \<Rightarrow> string option" where
  "fp_of num_string e = buildFingerprint num_string (exc_properties e)"

definition healthy :: "exc_event \<Rightarrow> bool" where
  "healthy e \<longleftrightarrow> exc_available e \<and> \<not> exc_get_raises e \<and> \<not> exc_set_raises e"

text \<open>How many events of a fingerprint came, and how many of them were kept.\<close>

definition seen :: "(rat \<Rightarrow> string) \<Rightarrow> exc_event list \<Rightarrow> string \<Rightarrow> nat" where
  "seen num_string es fp = length (filter (\<lambda>e. fp_of num_string e = Some fp) es)"

definition kept :: "(rat \<Rightarrow> string) \<Rightarrow> exc_event list \<Rightarrow> bool list \<Rightarrow> string \<Rightarrow> nat" where
  "kept num_string es drops fp =
     length (filter (\<lambda>(e, d). fp_of num_string e = Some fp \<and> \<not> d) (zip es drops))"

definition fingerprints :: "(rat \<Rightarrow> string) \<Rightarrow> exc_event list \<Rightarrow> string set" where
  "fingerprints num_string es = {fp. Some fp \<in> set (map (fp_of num_string) es)}"

text \<open>What the fuse does, on the counts.\<close>

definition fuse :: "string option \<Rightarrow> exc_event \<Rightarrow> (string \<times> json) list \<Rightarrow> bool \<times> (string \<times> json) list" where
  "fuse fp e counts =
     (case fp of
        None \<Rightarrow> (False, counts)
      | Some f \<Rightarrow>
          if \<not> exc_available e \<or> exc_get_raises e then (False, counts)
          else if count_of counts f \<ge> 3 then (True, counts)
          else if (count_of counts f = 0 \<and> length counts \<ge> 50) \<or> exc_set_raises e then (False, counts)
          else (False, AList.update f (JNum (count_of counts f + 1)) counts))"

definition counts_ok :: "(string \<times> json) list \<Rightarrow> bool" where
  "counts_ok counts \<longleftrightarrow> distinct (map fst counts) \<and> length counts \<le> 50
     \<and> (\<forall>fp v. map_of counts fp = Some v \<longrightarrow> (\<exists>n \<in> {1, 2, 3}. v = JNum n))"

lemma count_of_values:
  assumes "counts_ok counts"
  shows "count_of counts fp \<in> {0, 1, 2, 3}" "count_of counts fp = 0 \<longleftrightarrow> fp \<notin> fst ` set counts"
proof -
  have "count_of counts fp \<in> {0, 1, 2, 3} \<and> (count_of counts fp = 0 \<longleftrightarrow> fp \<notin> fst ` set counts)"
  proof (cases "map_of counts fp")
    case None
    moreover from None have "fp \<notin> fst ` set counts" by (simp add: map_of_eq_None_iff)
    ultimately show ?thesis by (simp add: count_of_def)
  next
    case (Some v)
    then obtain n where "n \<in> {1, 2, 3}" "v = JNum n" using assms unfolding counts_ok_def by blast
    moreover have "fp \<in> fst ` set counts" using Some by (metis map_of_eq_None_iff option.distinct(1))
    ultimately show ?thesis using Some by (auto simp: count_of_def)
  qed
  then show "count_of counts fp \<in> {0, 1, 2, 3}" "count_of counts fp = 0 \<longleftrightarrow> fp \<notin> fst ` set counts"
    by blast+
qed

lemma clearjunk_distinct_keys: "distinct (map fst al) \<Longrightarrow> AList.clearjunk al = al"
proof (induction al rule: clearjunk.induct)
  case (2 p ps)
  then have "AList.delete (fst p) ps = ps" by (intro delete_id) (auto simp: dom_map_of_conv_image_fst)
  with 2 show ?case by simp
qed simp

lemma readCounts_distinct: "distinct (map fst counts) \<Longrightarrow> readCounts (Parsed (JObj counts)) = counts"
  by (simp add: readCounts_def clearjunk_distinct_keys rev_map [symmetric])

lemma counts_ok_update:
  assumes "counts_ok counts" "count_of counts f < 3" "count_of counts f \<noteq> 0 \<or> length counts < 50"
  shows "counts_ok (AList.update f (JNum (count_of counts f + 1)) counts)"
proof -
  have val: "count_of counts f + 1 \<in> {1, 2, 3}"
    using count_of_values(1) [OF assms(1), of f] assms(2) by auto
  have "length (AList.update f v counts) \<le> 50" for v
  proof (cases "f \<in> fst ` set counts")
    case True
    then have "map fst (AList.update f v counts) = map fst counts" by (simp add: update_keys)
    then show ?thesis using assms(1) unfolding counts_ok_def by (metis length_map)
  next
    case False
    then have "map fst (AList.update f v counts) = map fst counts @ [f]" by (simp add: update_keys)
    then have "length (AList.update f v counts) = Suc (length counts)" by (metis length_map length_append_singleton)
    then show ?thesis using False assms(3) count_of_values(2) [OF assms(1)] by auto
  qed
  then show ?thesis using assms(1) val
    by (auto simp: counts_ok_def update_conv' distinct_update)
qed

lemma counts_ok_fuse: "counts_ok counts \<Longrightarrow> counts_ok (snd (fuse fp e counts))"
  by (auto simp: fuse_def counts_ok_update split: option.split)

lemma session_step_fuse:
  assumes "counts_ok (readCounts item)"
  shows "fst (session_step num_string e (drops, item)) =
      drops @ [fst (fuse (fp_of num_string e) e (readCounts item))]"
    and "readCounts (snd (session_step num_string e (drops, item))) =
      snd (fuse (fp_of num_string e) e (readCounts item))"
proof -
  have upd: "fuse (Some f) e (readCounts item) = (False, AList.update f (JNum (count_of (readCounts item) f + 1)) (readCounts item))
      \<Longrightarrow> readCounts (Parsed (JObj (AList.update f (JNum (count_of (readCounts item) f + 1)) (readCounts item))))
        = AList.update f (JNum (count_of (readCounts item) f + 1)) (readCounts item)" for f
    using assms by (intro readCounts_distinct distinct_update) (auto simp: counts_ok_def)
  show "fst (session_step num_string e (drops, item)) =
      drops @ [fst (fuse (fp_of num_string e) e (readCounts item))]"
    by (auto simp: session_step_def shouldDropException_def fuse_def fp_of_def storage_at_def Let_def
        EXCEPTION_SAMPLE_LIMIT_def MAX_FINGERPRINTS_def split: option.split)
  show "readCounts (snd (session_step num_string e (drops, item))) =
      snd (fuse (fp_of num_string e) e (readCounts item))"
  proof (cases "fp_of num_string e")
    case None
    then show ?thesis
      by (auto simp: session_step_def shouldDropException_def fuse_def fp_of_def storage_at_def)
  next
    case (Some f)
    then show ?thesis using upd [of f]
      by (auto simp: session_step_def shouldDropException_def fuse_def fp_of_def storage_at_def Let_def
        EXCEPTION_SAMPLE_LIMIT_def MAX_FINGERPRINTS_def)
  qed
qed

lemma session_snoc:
  "session num_string (es @ [e]) = session_step num_string e (session num_string es)"
  by (simp add: session_def)

lemma session_ok: "counts_ok (readCounts (snd (session num_string es)))"
proof (induction es rule: rev_induct)
  case Nil
  then show ?case by (simp add: session_def readCounts_def counts_ok_def)
next
  case (snoc e es)
  obtain drops item where s: "session num_string es = (drops, item)" by (cases "session num_string es")
  with snoc show ?case by (simp add: session_snoc session_step_fuse counts_ok_fuse)
qed

lemma session_length: "length (fst (session num_string es)) = length es"
proof (induction es rule: rev_induct)
  case (snoc e es)
  obtain drops item where s: "session num_string es = (drops, item)" by (cases "session num_string es")
  with snoc session_ok [of num_string es] show ?case by (simp add: session_snoc session_step_fuse)
qed (simp add: session_def)

section \<open>Properties\<close>

lemma kept_snoc:
  "length drops = length es \<Longrightarrow> kept num_string (es @ [e]) (drops @ [d]) fp =
     kept num_string es drops fp + (if fp_of num_string e = Some fp \<and> \<not> d then 1 else 0)"
  by (simp add: kept_def)

lemma seen_snoc:
  "seen num_string (es @ [e]) fp = seen num_string es fp + (if fp_of num_string e = Some fp then 1 else 0)"
  by (simp add: seen_def)

lemma count_of_update:
  "count_of (AList.update f (JNum n) counts) fp = (if fp = f then n else count_of counts fp)"
  by (simp add: count_of_def update_conv')

text \<open>Never more is recorded than was kept, whatever the storage does.\<close>

lemma fuse_count:
  "count_of (snd (fuse g e counts)) fp \<le> count_of counts fp + (if g = Some fp \<and> \<not> fst (fuse g e counts) then 1 else 0)"
  by (auto simp: fuse_def count_of_update split: option.split)

lemma session_recorded:
  "count_of (readCounts (snd (session num_string es))) fp \<le> of_nat (kept num_string es (fst (session num_string es)) fp)"
proof (induction es rule: rev_induct)
  case Nil
  then show ?case by (simp add: session_def readCounts_def count_of_def)
next
  case (snoc e es)
  obtain drops item where s: "session num_string es = (drops, item)" by (cases "session num_string es")
  have len: "length drops = length es" using session_length [of num_string es] s by simp
  have ok: "counts_ok (readCounts item)" using session_ok [of num_string es] s by simp
  show ?case unfolding session_snoc s session_step_fuse [OF ok] kept_snoc [OF len]
    using fuse_count [of "fp_of num_string e" e "readCounts item" fp] snoc s
    by (auto split: if_splits)
qed

lemma session_dropped:
  "i < length es \<Longrightarrow> fst (session num_string es) ! i \<Longrightarrow>
    \<exists>fp. fp_of num_string (es ! i) = Some fp
      \<and> 3 \<le> kept num_string (take i es) (take i (fst (session num_string es))) fp"
proof (induction es arbitrary: i rule: rev_induct)
  case (snoc e es)
  obtain drops item where s: "session num_string es = (drops, item)" by (cases "session num_string es")
  have len: "length drops = length es" using session_length [of num_string es] s by simp
  have ok: "counts_ok (readCounts item)" using session_ok [of num_string es] s by simp
  have drops: "fst (session num_string (es @ [e])) = drops @ [fst (fuse (fp_of num_string e) e (readCounts item))]"
    by (simp add: session_snoc s session_step_fuse [OF ok])
  show ?case
  proof (cases "i < length es")
    case True
    then show ?thesis using snoc.IH [of i] snoc.prems(2) len s by (simp add: drops nth_append)
  next
    case False
    then have i: "i = length es" using snoc.prems(1) by simp
    then have "fst (fuse (fp_of num_string e) e (readCounts item))"
      using snoc.prems(2) len by (simp add: drops nth_append)
    then obtain fp where fp: "fp_of num_string e = Some fp" "3 \<le> count_of (readCounts item) fp"
      by (auto simp: fuse_def split: option.splits if_splits)
    with session_recorded [of num_string es fp] s have "(3 :: rat) \<le> of_nat (kept num_string es drops fp)" by simp
    then have "3 \<le> kept num_string es drops fp" by (metis of_nat_le_iff of_nat_numeral)
    with fp(1) show ?thesis using len by (auto simp: i drops)
  qed
qed simp

lemma fingerprints_snoc:
  "fingerprints num_string (es @ [e]) =
     (case fp_of num_string e of None \<Rightarrow> fingerprints num_string es | Some fp \<Rightarrow> insert fp (fingerprints num_string es))"
  by (auto simp: fingerprints_def split: option.split)

lemma finite_fingerprints: "finite (fingerprints num_string es)"
proof -
  have "fingerprints num_string es \<subseteq> the ` set (map (fp_of num_string) es)"
    unfolding fingerprints_def by (metis (no_types, lifting) image_eqI mem_Collect_eq option.sel subsetI)
  then show ?thesis by (rule finite_subset) simp
qed

lemma seen_zero: "fp \<notin> fingerprints num_string es \<Longrightarrow> seen num_string es fp = 0"
  by (force simp: seen_def fingerprints_def filter_empty_conv image_iff)

text \<open>With a working storage and room for the fingerprints the counts are exact.\<close>

lemma session_exact:
  assumes "\<forall>e\<in>set es. healthy e" "card (fingerprints num_string es) \<le> 50"
  shows "(\<forall>fp. count_of (readCounts (snd (session num_string es))) fp = of_nat (min 3 (seen num_string es fp)))
    \<and> fst ` set (readCounts (snd (session num_string es))) = fingerprints num_string es
    \<and> (\<forall>i<length es. fst (session num_string es) ! i \<longleftrightarrow>
        (\<exists>fp. fp_of num_string (es ! i) = Some fp \<and> 3 \<le> seen num_string (take i es) fp))"
  using assms
proof (induction es rule: rev_induct)
  case Nil
  then show ?case by (simp add: session_def readCounts_def count_of_def seen_def fingerprints_def)
next
  case (snoc e es)
  obtain drops item where s: "session num_string es = (drops, item)" by (cases "session num_string es")
  have len: "length drops = length es" using session_length [of num_string es] s by simp
  have ok: "counts_ok (readCounts item)" using session_ok [of num_string es] s by simp
  have "fingerprints num_string es \<subseteq> fingerprints num_string (es @ [e])"
    by (auto simp: fingerprints_snoc split: option.split)
  then have "card (fingerprints num_string es) \<le> 50"
    using snoc.prems(2) card_mono [OF finite_fingerprints] le_trans by blast
  with snoc have IH: "\<forall>fp. count_of (readCounts item) fp = of_nat (min 3 (seen num_string es fp))"
    "fst ` set (readCounts item) = fingerprints num_string es"
    "\<forall>i<length es. drops ! i \<longleftrightarrow> (\<exists>fp. fp_of num_string (es ! i) = Some fp \<and> 3 \<le> seen num_string (take i es) fp)"
    by (simp_all add: s)
  have e: "exc_available e" "\<not> exc_get_raises e" "\<not> exc_set_raises e"
    using snoc.prems(1) by (auto simp: healthy_def)
  have keys: "length (readCounts item) = card (fingerprints num_string es)"
    using ok IH(2) unfolding counts_ok_def by (metis distinct_card length_map set_map)
  define F where "F = fuse (fp_of num_string e) e (readCounts item)"
  have fuse: "fst F \<longleftrightarrow> (\<exists>fp. fp_of num_string e = Some fp \<and> 3 \<le> seen num_string es fp)"
    "\<forall>fp. count_of (snd F) fp = of_nat (min 3 (seen num_string (es @ [e]) fp))"
    "fst ` set (snd F) = fingerprints num_string (es @ [e])"
  proof -
    show "fst F \<longleftrightarrow> (\<exists>fp. fp_of num_string e = Some fp \<and> 3 \<le> seen num_string es fp)"
      using e IH(1) by (cases "fp_of num_string e") (auto simp: F_def fuse_def min_def)
    show "\<forall>fp. count_of (snd F) fp = of_nat (min 3 (seen num_string (es @ [e]) fp))"
      "fst ` set (snd F) = fingerprints num_string (es @ [e])"
    proof -
      have "(\<forall>fp. count_of (snd F) fp = of_nat (min 3 (seen num_string (es @ [e]) fp)))
        \<and> fst ` set (snd F) = fingerprints num_string (es @ [e])"
      proof (cases "fp_of num_string e")
        case None
        then show ?thesis using IH by (simp add: F_def fuse_def seen_snoc fingerprints_snoc)
      next
        case (Some f)
        define c where "c = seen num_string es f"
        have count: "count_of (readCounts item) f = of_nat (min 3 c)" using IH(1) by (simp add: c_def)
        show ?thesis
        proof (cases "3 \<le> c")
          case True
          then have "f \<in> fingerprints num_string es" using seen_zero [of f num_string es] by (auto simp: c_def)
          moreover have "F = (True, readCounts item)" using Some e True count by (simp add: F_def fuse_def)
          ultimately show ?thesis using IH Some True
            by (auto simp: seen_snoc fingerprints_snoc insert_absorb c_def)
        next
          case False
          then have count': "count_of (readCounts item) f = of_nat c" using count by simp
          have "c = 0 \<Longrightarrow> card (fingerprints num_string es) < 50"
            using count_of_values(2) [OF ok, of f] count' IH(2) snoc.prems(2) finite_fingerprints [of num_string es]
            by (simp add: fingerprints_snoc Some)
          then have "F = (False, AList.update f (JNum (of_nat c + 1)) (readCounts item))"
            using Some e False by (auto simp: F_def fuse_def count' keys)
          then show ?thesis using IH Some False
            by (auto simp: seen_snoc fingerprints_snoc count_of_update dom_update c_def)
        qed
      qed
      then show "\<forall>fp. count_of (snd F) fp = of_nat (min 3 (seen num_string (es @ [e]) fp))"
        "fst ` set (snd F) = fingerprints num_string (es @ [e])" by blast+
    qed
  qed
  have drops: "fst (session num_string (es @ [e])) = drops @ [fst F]"
    by (simp add: F_def session_snoc s session_step_fuse(1) [OF ok])
  have item: "readCounts (snd (session num_string (es @ [e]))) = snd F"
    by (simp add: F_def session_snoc s session_step_fuse(2) [OF ok])
  have verdicts: "(drops @ [fst F]) ! i \<longleftrightarrow>
      (\<exists>fp. fp_of num_string ((es @ [e]) ! i) = Some fp \<and> 3 \<le> seen num_string (take i (es @ [e])) fp)"
    if "i < Suc (length es)" for i
    using that IH(3) fuse(1) len by (cases "i = length es") (simp_all add: nth_append)
  show ?case using fuse(2,3) verdicts by (simp add: drops item)
qed

text \<open>
  C17. The exception fuse fails open.  However the storage behaves, an event is dropped only when at
  least three earlier events of the session with the same fingerprint were kept, so a first
  occurrence is never lost; an event without a fingerprint is never dropped; and at most 50
  fingerprints are ever stored.  With a working storage and at most 50 different fingerprints the
  fuse is exact: the first three events of each fingerprint are kept and all later ones dropped.
\<close>
theorem exception_fuse:
  "(\<forall>i<length es. fst (session num_string es) ! i \<longrightarrow>
      (\<exists>fp. buildFingerprint num_string (exc_properties (es ! i)) = Some fp
        \<and> 3 \<le> kept num_string (take i es) (take i (fst (session num_string es))) fp))
   \<and> length (readCounts (snd (session num_string es))) \<le> 50
   \<and> ((\<forall>e\<in>set es. healthy e) \<and> card (fingerprints num_string es) \<le> 50 \<longrightarrow>
       (\<forall>i<length es. fst (session num_string es) ! i \<longleftrightarrow>
         (\<exists>fp. buildFingerprint num_string (exc_properties (es ! i)) = Some fp
           \<and> 3 \<le> seen num_string (take i es) fp)))"
proof -
  have "length (readCounts (snd (session num_string es))) \<le> 50"
    using session_ok [of num_string es] by (simp add: counts_ok_def)
  then show ?thesis
    using session_dropped [of _ es num_string] session_exact [of es num_string] unfolding fp_of_def by blast
qed

definition example_exception :: exc_event where
  "example_exception = \<lparr>exc_properties = Some (JObj [(''$exception_type'', JStr ''TypeError'')]),
     exc_available = True, exc_get_raises = False, exc_set_raises = False\<rparr>"

lemma exception_fuse_witness:
  "fst (session (\<lambda>_. []) [example_exception, example_exception, example_exception, example_exception]) ! 3"
proof -
  let ?e = example_exception
  have "buildFingerprint (\<lambda>_. []) (exc_properties ?e) \<noteq> None"
    by (simp add: example_exception_def buildFingerprint_def Let_def truthy_def first_string_def member_of_def
        readString_def or_empty_def)
  then obtain fp where fp: "buildFingerprint (\<lambda>_. []) (exc_properties ?e) = Some fp" by blast
  have "fingerprints (\<lambda>_. []) [?e, ?e, ?e, ?e] = {fp}"
    by (auto simp: fingerprints_def fp_of_def fp)
  moreover have "healthy ?e" by (simp add: healthy_def example_exception_def)
  moreover have "seen (\<lambda>_. []) [?e, ?e, ?e] fp = 3" by (simp add: seen_def fp_of_def fp)
  ultimately show ?thesis
    using exception_fuse [of "[?e, ?e, ?e, ?e]" "\<lambda>_. []"] fp by (simp add: numeral_3_eq_3)
qed

end
