(* ===== verification/Recent_Contexts.thy ===== *)
theory Recent_Contexts
  imports Recent_Issues Issue_Types
begin

text \<open>
  The recent contexts offered in the chat (\<open>packages/core/chat/recent-context-store.ts\<close>): issues and
  projects a user has visited.  The store repeats the code of the recent issues with entries keyed
  by type and id; the refinement lemmas say so, and give it the invariant of the recent issues.
\<close>

datatype recent_context_type = Ctx_issue | Ctx_project

datatype project_status = Project_planned | Project_in_progress | Project_paused
  | Project_completed | Project_cancelled

record recent_context_entry =
  rcx_type :: recent_context_type
  rcx_id :: string
  rcx_label :: "string option"
  rcx_subtitle :: "string option"
  rcx_status :: "issue_status option"
  rcx_projectStatus :: "project_status option"
  rcx_icon :: "string option option"
  rcx_visitedAt :: rat

record context_state =
  rcx_byWorkspace :: "recent_context_entry list js_object"

definition MAX_RECENT_CONTEXTS :: nat where
  "MAX_RECENT_CONTEXTS = 20"

definition CONTEXT_MAX_WORKSPACES :: nat where
  "CONTEXT_MAX_WORKSPACES = 50"

definition entryKey :: "recent_context_type \<Rightarrow> string \<Rightarrow> string" where
  "entryKey t i = (case t of Ctx_issue \<Rightarrow> ''issue'' | Ctx_project \<Rightarrow> ''project'') @ '':'' @ i"

definition context_latest :: "recent_context_entry list js_object \<Rightarrow> string \<Rightarrow> rat" where
  "context_latest byWs wsId = (case js_get byWs wsId of Some (e # _) \<Rightarrow> rcx_visitedAt e | _ \<Rightarrow> 0)"

definition oldest_context_workspace :: "recent_context_entry list js_object \<Rightarrow> string list \<Rightarrow> string" where
  "oldest_context_workspace byWs ids = fold (\<lambda>candidateId oldestId.
     if context_latest byWs candidateId < context_latest byWs oldestId then candidateId else oldestId)
     (tl ids) (hd ids)"

text \<open>The entry of a visit; the clock's reading replaces its \<open>visitedAt\<close>.\<close>

definition recordContext ::
  "rat \<Rightarrow> string \<Rightarrow> recent_context_entry \<Rightarrow> context_state \<Rightarrow> context_state" where
  "recordContext now wsId entry state =
     (let bucket = (case js_get (rcx_byWorkspace state) wsId of None \<Rightarrow> [] | Some b \<Rightarrow> b);
          key = entryKey (rcx_type entry) (rcx_id entry);
          filtered = filter (\<lambda>item. entryKey (rcx_type item) (rcx_id item) \<noteq> key) bucket;
          nextBucket = take MAX_RECENT_CONTEXTS (entry\<lparr>rcx_visitedAt := now\<rparr> # filtered);
          nextByWorkspace = js_put wsId nextBucket (rcx_byWorkspace state);
          ids = js_keys nextByWorkspace
      in if length ids > CONTEXT_MAX_WORKSPACES then
           \<lparr>rcx_byWorkspace =
              filter (\<lambda>(k, _). k \<noteq> oldest_context_workspace nextByWorkspace ids) nextByWorkspace\<rparr>
         else \<lparr>rcx_byWorkspace = nextByWorkspace\<rparr>)"

definition forgetContext ::
  "string \<Rightarrow> recent_context_type \<Rightarrow> string \<Rightarrow> context_state \<Rightarrow> context_state" where
  "forgetContext wsId t i state =
     (case js_get (rcx_byWorkspace state) wsId of
        None \<Rightarrow> state
      | Some bucket \<Rightarrow>
          let nextBucket = filter (\<lambda>item. entryKey (rcx_type item) (rcx_id item) \<noteq> entryKey t i) bucket in
          if length nextBucket = length bucket then state
          else if nextBucket = [] then
            \<lparr>rcx_byWorkspace = filter (\<lambda>(k, _). k \<noteq> wsId) (rcx_byWorkspace state)\<rparr>
          else \<lparr>rcx_byWorkspace = js_put wsId nextBucket (rcx_byWorkspace state)\<rparr>)"

definition pruneContextWorkspaces :: "string list \<Rightarrow> context_state \<Rightarrow> context_state" where
  "pruneContextWorkspaces activeWsIds state =
     (let kept = filter (\<lambda>(k, _). k \<in> set activeWsIds) (rcx_byWorkspace state);
          changed = list_ex (\<lambda>(k, _). k \<notin> set activeWsIds) (rcx_byWorkspace state)
      in if changed then \<lparr>rcx_byWorkspace = js_from_entries kept\<rparr> else state)"

definition selectRecentContexts :: "string option \<Rightarrow> context_state \<Rightarrow> recent_context_entry list" where
  "selectRecentContexts wsId state =
     (if falsy wsId then []
      else case js_get (rcx_byWorkspace state) (the wsId) of None \<Rightarrow> [] | Some b \<Rightarrow> b)"

section \<open>Refinement of the recent issues\<close>

definition abs_entry :: "recent_context_entry \<Rightarrow> recent_entry" where
  "abs_entry e = \<lparr>rec_id = entryKey (rcx_type e) (rcx_id e), rec_visitedAt = rcx_visitedAt e\<rparr>"

definition abs_contexts :: "context_state \<Rightarrow> recent_state" where
  "abs_contexts s = \<lparr>rec_byWorkspace = map (\<lambda>(k, b). (k, map abs_entry b)) (rcx_byWorkspace s)\<rparr>"

lemma entryKey_eq: "entryKey t i = entryKey t' i' \<longleftrightarrow> t = t' \<and> i = i'"
  by (cases t; cases t') (auto simp: entryKey_def)

lemma map_values_put:
  "map (\<lambda>(k, b). (k, f b)) (js_put w v ob) = js_put w (f v) (map (\<lambda>(k, b). (k, f b)) ob)"
proof -
  have keys: "js_keys (map (\<lambda>(k, b). (k, f b)) ob) = js_keys ob"
    by (induction ob) (auto simp: js_keys_def)
  have "map (\<lambda>(k, b). (k, f b)) (js_update w v ob) = js_update w (f v) (map (\<lambda>(k, b). (k, f b)) ob)"
    by (induction ob) auto
  moreover have "map (\<lambda>(k, b). (k, f b)) (insert_index n w v ob)
      = insert_index n w (f v) (map (\<lambda>(k, b). (k, f b)) ob)" for n
    by (induction ob) (auto split: option.split)
  ultimately show ?thesis by (simp add: js_put_def keys split: option.split)
qed

lemma map_values_filter:
  "map (\<lambda>(k, b). (k, f b)) (filter (\<lambda>(k, _). p k) ob) = filter (\<lambda>(k, _). p k) (map (\<lambda>(k, b). (k, f b)) ob)"
  by (induction ob) auto

lemma map_values_keys: "js_keys (map (\<lambda>(k, b). (k, f b)) ob) = js_keys ob"
  by (induction ob) (auto simp: js_keys_def)

lemma map_values_from_entries:
  "map (\<lambda>(k, b). (k, f b)) (js_from_entries kvs) = js_from_entries (map (\<lambda>(k, b). (k, f b)) kvs)"
proof -
  have "map (\<lambda>(k, b). (k, f b)) (fold (\<lambda>(k, v) ob. js_put k v ob) kvs ob)
      = fold (\<lambda>(k, v) ob. js_put k v ob) (map (\<lambda>(k, b). (k, f b)) kvs) (map (\<lambda>(k, b). (k, f b)) ob)" for ob
    by (induction kvs arbitrary: ob) (auto simp: map_values_put)
  from this [of "[]"] show ?thesis by (simp add: js_from_entries_def)
qed

lemma abs_get: "js_get (rec_byWorkspace (abs_contexts s)) w = map_option (map abs_entry) (js_get (rcx_byWorkspace s) w)"
  by (simp add: abs_contexts_def js_get_map_values)

lemma abs_oldest:
  "oldest_context_workspace byWs ids = oldest_workspace (map (\<lambda>(k, b). (k, map abs_entry b)) byWs) ids"
proof -
  have "context_latest byWs w = latest_visit (map (\<lambda>(k, b). (k, map abs_entry b)) byWs) w" for w
    by (auto simp: context_latest_def latest_visit_def js_get_map_values abs_entry_def
        split: option.split list.split)
  then show ?thesis by (simp add: oldest_context_workspace_def oldest_workspace_def)
qed

lemma abs_entry_key: "rec_id (abs_entry e) = entryKey (rcx_type e) (rcx_id e)"
  by (simp add: abs_entry_def)

lemma abs_filter:
  "map abs_entry (filter (\<lambda>e. entryKey (rcx_type e) (rcx_id e) \<noteq> k) b) = filter (\<lambda>e. rec_id e \<noteq> k) (map abs_entry b)"
  by (induction b) (simp_all add: abs_entry_key)

lemma recordContext_refines:
  "abs_contexts (recordContext now w e s) =
     recordVisit now w (entryKey (rcx_type e) (rcx_id e)) (abs_contexts s)"
proof -
  let ?k = "entryKey (rcx_type e) (rcx_id e)"
  let ?b = "case js_get (rcx_byWorkspace s) w of None \<Rightarrow> [] | Some b \<Rightarrow> b"
  define nb where "nb = take MAX_RECENT_CONTEXTS (e\<lparr>rcx_visitedAt := now\<rparr> #
    filter (\<lambda>item. entryKey (rcx_type item) (rcx_id item) \<noteq> ?k) ?b)"
  have nb: "map abs_entry nb = take MAX_RECENT_ISSUES (\<lparr>rec_id = ?k, rec_visitedAt = now\<rparr> #
      filter (\<lambda>x. rec_id x \<noteq> ?k) (case js_get (rec_byWorkspace (abs_contexts s)) w of None \<Rightarrow> [] | Some b \<Rightarrow> b))"
    by (auto simp: nb_def take_map [symmetric] abs_filter abs_get MAX_RECENT_CONTEXTS_def
        MAX_RECENT_ISSUES_def abs_entry_def split: option.split)
  have put: "map (\<lambda>(k, b). (k, map abs_entry b)) (js_put w nb (rcx_byWorkspace s)) =
      js_put w (map abs_entry nb) (rec_byWorkspace (abs_contexts s))"
    by (simp add: map_values_put abs_contexts_def)
  have keys: "js_keys (js_put w nb (rcx_byWorkspace s)) =
      js_keys (js_put w (map abs_entry nb) (rec_byWorkspace (abs_contexts s)))"
    using map_values_keys [of "map abs_entry" "js_put w nb (rcx_byWorkspace s)"] put by simp
  have old: "oldest_context_workspace (js_put w nb (rcx_byWorkspace s)) ids =
      oldest_workspace (js_put w (map abs_entry nb) (rec_byWorkspace (abs_contexts s))) ids" for ids
    by (simp add: abs_oldest put)
  have "recordContext now w e s =
      (let byWs = js_put w nb (rcx_byWorkspace s); ids = js_keys byWs in
       if length ids > CONTEXT_MAX_WORKSPACES
       then \<lparr>rcx_byWorkspace = filter (\<lambda>(k, _). k \<noteq> oldest_context_workspace byWs ids) byWs\<rparr>
       else \<lparr>rcx_byWorkspace = byWs\<rparr>)"
    by (simp add: recordContext_def nb_def Let_def)
  then show ?thesis
    unfolding recordVisit_def Let_def nb [symmetric]
    by (simp add: abs_contexts_def [of "\<lparr>rcx_byWorkspace = _\<rparr>"] map_values_filter put keys old
        CONTEXT_MAX_WORKSPACES_def MAX_WORKSPACES_def)
qed

lemma forgetContext_refines:
  "abs_contexts (forgetContext w t i s) = forgetIssue w (entryKey t i) (abs_contexts s)"
proof (cases "js_get (rcx_byWorkspace s) w")
  case None
  then show ?thesis by (simp add: forgetContext_def forgetIssue_def abs_get)
next
  case (Some b)
  let ?nb = "filter (\<lambda>item. entryKey (rcx_type item) (rcx_id item) \<noteq> entryKey t i) b"
  have nb: "filter (\<lambda>e. rec_id e \<noteq> entryKey t i) (map abs_entry b) = map abs_entry ?nb"
    by (simp add: abs_filter)
  have "js_get (rec_byWorkspace (abs_contexts s)) w = Some (map abs_entry b)"
    using Some by (simp add: abs_get)
  then show ?thesis
    using Some by (simp add: forgetContext_def forgetIssue_def Let_def nb)
      (simp add: abs_contexts_def map_values_put map_values_filter)
qed

lemma pruneContext_refines:
  "abs_contexts (pruneContextWorkspaces ws s) = pruneWorkspaces ws (abs_contexts s)"
proof -
  have "list_ex (\<lambda>(k, _). k \<notin> set ws) (map (\<lambda>(k, b). (k, map abs_entry b)) ob)
      = list_ex (\<lambda>(k, _). k \<notin> set ws) ob" for ob :: "recent_context_entry list js_object"
    by (induction ob) auto
  then show ?thesis
    by (simp add: pruneContextWorkspaces_def pruneWorkspaces_def Let_def abs_contexts_def
        map_values_from_entries map_values_filter)
qed

datatype context_action = Visit_context rat string recent_context_entry
  | Forget_context string recent_context_type string | Prune_contexts "string list"

fun context_step :: "context_action \<Rightarrow> context_state \<Rightarrow> context_state" where
  "context_step (Visit_context now w e) = recordContext now w e"
| "context_step (Forget_context w t i) = forgetContext w t i"
| "context_step (Prune_contexts ws) = pruneContextWorkspaces ws"

fun abs_action :: "context_action \<Rightarrow> recent_action" where
  "abs_action (Visit_context now w e) = Visit now w (entryKey (rcx_type e) (rcx_id e))"
| "abs_action (Forget_context w t i) = Forget w (entryKey t i)"
| "abs_action (Prune_contexts ws) = Prune ws"

lemma context_step_refines: "abs_contexts (context_step a s) = recent_step (abs_action a) (abs_contexts s)"
  by (cases a) (simp_all add: recordContext_refines forgetContext_refines pruneContext_refines)

lemma context_run_refines:
  "abs_contexts (fold context_step as s) = fold recent_step (map abs_action as) (abs_contexts s)"
  by (induction as arbitrary: s) (simp_all add: context_step_refines)

lemma forget_context_absent:
  assumes "e \<in> set (selectRecentContexts (Some w) (forgetContext w t i s))"
  shows "\<not> (rcx_type e = t \<and> rcx_id e = i)"
proof -
  have "rec_id (abs_entry e) \<in> rec_id ` set (selectRecentIssues (Some w) (abs_contexts (forgetContext w t i s)))"
    using assms by (auto simp: selectRecentContexts_def selectRecentIssues_def abs_get split: if_splits option.splits)
  then show ?thesis
    using forget_absent [of "entryKey t i" w "abs_contexts s"]
    by (auto simp: forgetContext_refines abs_entry_key)
qed

end
