(* ===== verification/Js_Sort.thy ===== *)
theory Js_Sort
  imports Prelude "HOL-Library.Multiset"
begin

text \<open>
  \<open>Array.prototype.sort\<close> with a comparator, and the order of strings.  A comparator returns a number;
  \<open>None\<close> is \<open>NaN\<close>, which the sort takes for zero.
\<close>

section \<open>Sorting\<close>

text \<open>\<open>Array.prototype.sort\<close>: stable, for a consistent comparator.\<close>

definition cmp_le :: "('a \<Rightarrow> 'a \<Rightarrow> rat option) \<Rightarrow> 'a \<Rightarrow> 'a \<Rightarrow> bool" where
  "cmp_le cmp x y \<longleftrightarrow> (case cmp x y of None \<Rightarrow> True | Some r \<Rightarrow> r \<le> 0)"

fun insert_sorted :: "('a \<Rightarrow> 'a \<Rightarrow> rat option) \<Rightarrow> 'a \<Rightarrow> 'a list \<Rightarrow> 'a list" where
  "insert_sorted cmp x [] = [x]"
| "insert_sorted cmp x (y # ys) = (if cmp_le cmp x y then x # y # ys else y # insert_sorted cmp x ys)"

definition js_sort :: "('a \<Rightarrow> 'a \<Rightarrow> rat option) \<Rightarrow> 'a list \<Rightarrow> 'a list" where
  "js_sort cmp xs = foldr (insert_sorted cmp) xs []"

lemma mset_insert_sorted [simp]: "mset (insert_sorted cmp x xs) = add_mset x (mset xs)"
  by (induction xs) auto

lemma mset_js_sort [simp]: "mset (js_sort cmp xs) = mset xs"
  by (induction xs) (simp_all add: js_sort_def)

lemma set_js_sort [simp]: "set (js_sort cmp xs) = set xs"
  by (metis mset_js_sort set_mset_mset)

lemma length_js_sort [simp]: "length (js_sort cmp xs) = length xs"
  by (metis mset_js_sort size_mset)

text \<open>For a comparator that orders every two different elements and is transitive, the result is in order.\<close>

lemma set_insert_sorted [simp]: "set (insert_sorted cmp x xs) = insert x (set xs)"
  by (metis mset_insert_sorted set_mset_add_mset_insert set_mset_mset)

lemma sorted_insert_sorted:
  assumes "sorted_wrt (cmp_le cmp) xs"
    and "\<And>y. y \<in> set xs \<Longrightarrow> cmp_le cmp x y \<or> cmp_le cmp y x"
    and "\<And>a b c. cmp_le cmp a b \<Longrightarrow> cmp_le cmp b c \<Longrightarrow> cmp_le cmp a c"
  shows "sorted_wrt (cmp_le cmp) (insert_sorted cmp x xs)"
  using assms(1,2)
proof (induction xs)
  case (Cons y ys)
  show ?case
  proof (cases "cmp_le cmp x y")
    case True
    with Cons.prems(1) assms(3) show ?thesis by auto
  next
    case False
    with Cons.prems have "cmp_le cmp y x" by auto
    with False Cons show ?thesis by auto
  qed
qed simp

lemma sorted_js_sort:
  assumes "distinct xs"
    and "\<And>a b. a \<in> set xs \<Longrightarrow> b \<in> set xs \<Longrightarrow> a \<noteq> b \<Longrightarrow> cmp_le cmp a b \<or> cmp_le cmp b a"
    and "\<And>a b c. cmp_le cmp a b \<Longrightarrow> cmp_le cmp b c \<Longrightarrow> cmp_le cmp a c"
  shows "sorted_wrt (cmp_le cmp) (js_sort cmp xs)"
  using assms(1,2)
proof (induction xs)
  case (Cons x xs)
  have "set (js_sort cmp xs) = set xs" by simp
  then have total: "cmp_le cmp x y \<or> cmp_le cmp y x" if "y \<in> set (js_sort cmp xs)" for y
    using Cons.prems that by (metis distinct.simps(2) list.set_intros(1,2))
  have "sorted_wrt (cmp_le cmp) (js_sort cmp xs)" using Cons by simp
  from sorted_insert_sorted [OF this total assms(3)] show ?case by (simp add: js_sort_def)
qed (simp add: js_sort_def)

text \<open>A list in a strict order is determined by its elements, so the order of insertion is lost.\<close>

lemma sorted_wrt_unique:
  assumes "sorted_wrt R xs" "sorted_wrt R ys" "mset xs = mset ys"
    and irrefl: "\<And>a. \<not> R a a" and trans: "\<And>a b c. R a b \<Longrightarrow> R b c \<Longrightarrow> R a c"
  shows "xs = ys"
  using assms(1-3)
proof (induction xs arbitrary: ys)
  case (Cons x xs)
  then obtain y zs where ys: "ys = y # zs" by (cases ys) auto
  have "x = y"
  proof (rule ccontr)
    assume "x \<noteq> y"
    have sets: "set (x # xs) = set (y # zs)" using Cons.prems(3) ys by (metis set_mset_mset)
    then have "x \<in> set zs" "y \<in> set xs" using \<open>x \<noteq> y\<close> by auto
    then have "R y x" "R x y" using Cons.prems(1,2) ys by auto
    then show False using irrefl trans by blast
  qed
  with Cons ys show ?case by simp
qed simp

text \<open>Without repetitions, a list in order is in strict order.\<close>

lemma sorted_wrt_strict:
  "sorted_wrt P xs \<Longrightarrow> distinct xs \<Longrightarrow> (\<And>a b. P a b \<Longrightarrow> a \<noteq> b \<Longrightarrow> Q a b) \<Longrightarrow> sorted_wrt Q xs"
  by (induction xs) auto

section \<open>The order of strings\<close>

text \<open>\<open>s < t\<close>: by code units.\<close>

fun str_less :: "string \<Rightarrow> string \<Rightarrow> bool" where
  "str_less s [] = False"
| "str_less [] (d # t) = True"
| "str_less (c # s) (d # t) =
     (if (of_char c :: nat) < of_char d then True else if c = d then str_less s t else False)"

lemma str_less_irrefl [simp]: "\<not> str_less s s"
  by (induction s) auto

lemma str_less_trans: "str_less s t \<Longrightarrow> str_less t u \<Longrightarrow> str_less s u"
proof (induction s t arbitrary: u rule: str_less.induct)
  case (2 d t)
  then show ?case by (cases u) auto
next
  case (3 c s d t)
  then show ?case by (cases u) (auto split: if_splits)
qed simp

lemma str_less_total: "s = t \<or> str_less s t \<or> str_less t s"
proof (induction s t rule: str_less.induct)
  case (1 s)
  then show ?case by (cases s) auto
next
  case (3 c s d t)
  then show ?case by (metis nat_neq_iff of_char_eq_iff str_less.simps(3))
qed simp

end
