(* ===== verification/Issue_Fetch.thy ===== *)
theory Issue_Fetch
  imports Issue_Buckets Query_Client Js_Date Js_Sort
begin

text \<open>
  The query functions that fetch issue lists (\<open>packages/core/issues/queries.ts\<close>): first pages per
  status, the merged personal list and the paged walk of the project Gantt.  The server is a
  parameter: \<open>list_page\<close> answers one request with a page of issues and the total.  \<open>date_ms\<close> is
  \<open>new Date(s).getTime()\<close> and \<open>compare_locale\<close> is \<open>localeCompare\<close>.
\<close>

section \<open>First pages\<close>

definition ISSUE_PAGE_SIZE :: nat where "ISSUE_PAGE_SIZE = 50"

text \<open>One request per status; the spread of \<open>filter\<close> is the argument of the server's answer.\<close>

definition fetchFirstPages ::
  "(issue_status \<Rightarrow> nat \<Rightarrow> nat \<Rightarrow> issue list \<times> int) \<Rightarrow> list_cache" where
  "fetchFirstPages list_page =
     \<lparr>byStatus = (\<lambda>status. if status \<in> set PAGINATED_STATUSES
        then (case list_page status ISSUE_PAGE_SIZE 0 of (issues, reported) \<Rightarrow>
                Some \<lparr>bucket_issues = issues, bucket_total = reported\<rparr>)
        else None)\<rparr>"

section \<open>Sorting the merged list\<close>

text \<open>A comparator returns a number; \<open>None\<close> is \<open>NaN\<close>, which \<open>||\<close> and \<open>sort\<close> treat as zero.\<close>

definition or_else :: "rat option \<Rightarrow> rat option \<Rightarrow> rat option" where
  "or_else x y = (if x = None \<or> x = Some 0 then y else x)"

definition minus_opt :: "int option \<Rightarrow> int option \<Rightarrow> rat option" where
  "minus_opt x y = (case (x, y) of (Some a, Some b) \<Rightarrow> Some (of_int (a - b)) | _ \<Rightarrow> None)"

definition MERGE_PRIORITY_RANK :: "issue_priority \<Rightarrow> rat" where
  "MERGE_PRIORITY_RANK p = (case p of Urgent \<Rightarrow> 0 | High \<Rightarrow> 1 | Medium \<Rightarrow> 2 | Low \<Rightarrow> 3 | No_priority \<Rightarrow> 4)"

definition tieBreak :: "(string \<Rightarrow> int option) \<Rightarrow> issue \<Rightarrow> issue \<Rightarrow> rat option" where
  "tieBreak date_ms a b = minus_opt (date_ms (iss_created_at b)) (date_ms (iss_created_at a))"

definition missingAware ::
  "(string \<Rightarrow> string \<Rightarrow> int) \<Rightarrow> rat \<Rightarrow> rat option \<Rightarrow> string option \<Rightarrow> string option \<Rightarrow> rat option" where
  "missingAware compare_locale dir tie av bv =
     (if falsy av \<and> falsy bv then tie
      else if falsy av then Some 1
      else if falsy bv then Some (-1)
      else or_else (Some (dir * of_int (compare_locale (the av) (the bv)))) tie)"

text \<open>A property sorts as missing when it is absent, a list or a boolean.\<close>

definition sortable_property :: "issue \<Rightarrow> string \<Rightarrow> property_value option" where
  "sortable_property a p =
     (case map_of (iss_properties a) p of
        Some (PString s) \<Rightarrow> Some (PString s)
      | Some (PNumber n) \<Rightarrow> Some (PNumber n)
      | _ \<Rightarrow> None)"

fun property_string :: "(rat \<Rightarrow> string) \<Rightarrow> property_value \<Rightarrow> string" where
  "property_string num_string (PString s) = s"
| "property_string num_string (PNumber n) = num_string n"
| "property_string num_string _ = []"

definition compareIssuesForSort ::
  "(string \<Rightarrow> int option) \<Rightarrow> (string \<Rightarrow> string \<Rightarrow> int) \<Rightarrow> (rat \<Rightarrow> string) \<Rightarrow> issue_sort option
    \<Rightarrow> issue \<Rightarrow> issue \<Rightarrow> rat option" where
  "compareIssuesForSort date_ms compare_locale num_string srt a b =
     (let by_field = (case Option.bind srt srt_sort_by of None \<Rightarrow> ''position'' | Some s \<Rightarrow> s);
          dir = (if by_field \<noteq> ''position'' \<and> Option.bind srt srt_sort_direction = Some ''desc'' then -1 else 1);
          tie = tieBreak date_ms a b
      in if starts_with by_field ''property:'' then
           (case (sortable_property a (drop 9 by_field), sortable_property b (drop 9 by_field)) of
              (None, None) \<Rightarrow> tie
            | (None, Some _) \<Rightarrow> Some 1
            | (Some _, None) \<Rightarrow> Some (-1)
            | (Some (PNumber x), Some (PNumber y)) \<Rightarrow> or_else (Some (dir * (x - y))) tie
            | (Some x, Some y) \<Rightarrow>
                or_else (Some (dir * of_int (compare_locale (property_string num_string x)
                  (property_string num_string y)))) tie)
         else if by_field = ''priority'' then
           or_else (Some (dir * (MERGE_PRIORITY_RANK (iss_priority a) - MERGE_PRIORITY_RANK (iss_priority b)))) tie
         else if by_field = ''title'' then
           or_else (Some (dir * of_int (compare_locale (iss_title a) (iss_title b)))) tie
         else if by_field = ''created_at'' then
           map_option ((*) dir) (minus_opt (date_ms (iss_created_at a)) (date_ms (iss_created_at b)))
         else if by_field = ''start_date'' then
           missingAware compare_locale dir tie (iss_start_date a) (iss_start_date b)
         else if by_field = ''due_date'' then
           missingAware compare_locale dir tie (iss_due_date a) (iss_due_date b)
         else or_else (Some (iss_position a - iss_position b)) tie)"

section \<open>The merged personal list\<close>

definition push_unseen :: "issue \<Rightarrow> issue list \<Rightarrow> issue list" where
  "push_unseen issue merged = (if iss_id issue \<in> iss_id ` set merged then merged else merged @ [issue])"

definition merge_bucket :: "issue_status \<Rightarrow> list_cache \<Rightarrow> issue list \<Rightarrow> issue list" where
  "merge_bucket status cache merged =
     (case byStatus cache status of
        None \<Rightarrow> merged
      | Some bucket \<Rightarrow> fold push_unseen (bucket_issues bucket) merged)"

definition fetchAllMyFirstPages ::
  "(issue \<Rightarrow> issue \<Rightarrow> rat option) \<Rightarrow> list_cache \<Rightarrow> list_cache \<Rightarrow> list_cache \<Rightarrow> list_cache" where
  "fetchAllMyFirstPages cmp byAssignee byCreator byInvolves =
     \<lparr>byStatus = (\<lambda>status. if status \<in> set PAGINATED_STATUSES
        then let merged = js_sort cmp (fold (merge_bucket status) [byAssignee, byCreator, byInvolves] [])
             in Some \<lparr>bucket_issues = merged, bucket_total = int (length merged)\<rparr>
        else None)\<rparr>"

section \<open>Merged assignee groups\<close>

definition assignee_type_name :: "issue_assignee_type \<Rightarrow> string" where
  "assignee_type_name t = (case t of Member \<Rightarrow> ''member'' | Agent \<Rightarrow> ''agent'' | Squad \<Rightarrow> ''squad'')"

definition groupKey :: "assignee_group \<Rightarrow> string" where
  "groupKey g =
     (case grp_assignee_type g of None \<Rightarrow> ''_'' | Some t \<Rightarrow> assignee_type_name t) @ ''::''
       @ (case grp_assignee_id g of None \<Rightarrow> ''_'' | Some i \<Rightarrow> i)"

text \<open>The \<open>Map\<close> of merged groups, in insertion order.\<close>

definition merge_group ::
  "assignee_group \<Rightarrow> (string \<times> assignee_group) list \<Rightarrow> (string \<times> assignee_group) list" where
  "merge_group grp merged =
     (case map_of merged (groupKey grp) of
        None \<Rightarrow> merged @ [(groupKey grp, grp\<lparr>grp_total := int (length (grp_issues grp))\<rparr>)]
      | Some existing \<Rightarrow>
          let issues = fold push_unseen (grp_issues grp) (grp_issues existing)
          in map (\<lambda>(k, g). if k = groupKey grp
               then (k, g\<lparr>grp_issues := issues, grp_total := int (length issues)\<rparr>) else (k, g)) merged)"

definition fetchAllMyAssigneeGroups ::
  "(issue \<Rightarrow> issue \<Rightarrow> rat option) \<Rightarrow> grouped_response list \<Rightarrow> grouped_response" where
  "fetchAllMyAssigneeGroups cmp responses =
     (let merged = fold (\<lambda>res. fold merge_group (resp_groups res)) responses []
      in \<lparr>resp_groups = map (\<lambda>(k, g). g\<lparr>grp_issues := js_sort cmp (grp_issues g)\<rparr>) merged\<rparr>)"

section \<open>The paged walk\<close>

definition PROJECT_GANTT_PAGE_LIMIT :: nat where "PROJECT_GANTT_PAGE_LIMIT = 500"

definition PROJECT_GANTT_MAX_ISSUES :: nat where "PROJECT_GANTT_MAX_ISSUES = 10000"

text \<open>The loop, with the offsets it has asked for; \<open>list_page\<close> may answer anything at any offset.\<close>

function gantt_loop ::
  "(nat \<Rightarrow> 'i list \<times> int) \<Rightarrow> nat \<Rightarrow> 'i list \<Rightarrow> nat list \<Rightarrow> 'i list \<times> nat list" where
  "gantt_loop list_page offset issues asked =
     (if offset < PROJECT_GANTT_MAX_ISSUES then
        case list_page offset of (page, reported) \<Rightarrow>
          let issues' = issues @ page; asked' = asked @ [offset] in
          if length page < PROJECT_GANTT_PAGE_LIMIT then (issues', asked')
          else if int (length issues') \<ge> reported then (issues', asked')
          else gantt_loop list_page (offset + PROJECT_GANTT_PAGE_LIMIT) issues' asked'
      else (issues, asked))"
  by pat_completeness auto
termination
  by (relation "measure (\<lambda>(_, offset, _, _). PROJECT_GANTT_MAX_ISSUES - offset)")
    (auto simp: PROJECT_GANTT_MAX_ISSUES_def PROJECT_GANTT_PAGE_LIMIT_def)

declare gantt_loop.simps [simp del]

definition fetchProjectGanttIssues :: "(nat \<Rightarrow> 'i list \<times> int) \<Rightarrow> 'i list \<times> nat list" where
  "fetchProjectGanttIssues list_page = gantt_loop list_page 0 [] []"

section \<open>Lemmas\<close>

lemma fold_push_unseen:
  "distinct (map iss_id merged) \<Longrightarrow>
     distinct (map iss_id (fold push_unseen xs merged))
     \<and> iss_id ` set (fold push_unseen xs merged) = iss_id ` set merged \<union> iss_id ` set xs
     \<and> set (fold push_unseen xs merged) \<subseteq> set merged \<union> set xs"
proof (induction xs arbitrary: merged)
  case (Cons x xs)
  have "distinct (map iss_id (push_unseen x merged))" using Cons.prems by (auto simp: push_unseen_def)
  from Cons.IH [OF this] show ?case by (auto simp: push_unseen_def split: if_splits)
qed simp

lemma merge_bucket_spec:
  "distinct (map iss_id merged) \<Longrightarrow>
     distinct (map iss_id (merge_bucket s cache merged))
     \<and> iss_id ` set (merge_bucket s cache merged) = iss_id ` set merged \<union> iss_id ` set (loaded cache s)
     \<and> set (merge_bucket s cache merged) \<subseteq> set merged \<union> set (loaded cache s)"
  using fold_push_unseen [of merged]
  by (auto simp: merge_bucket_def loaded_def getBucket_def EMPTY_BUCKET_def split: option.split)

text \<open>
  The merged personal list shows, per status, every issue of the three lists once, and its totals
  are the numbers of issues shown.
\<close>

lemma fetchAllMyFirstPages_union:
  fixes a b c :: list_cache and cmp :: "issue \<Rightarrow> issue \<Rightarrow> rat option"
  defines "r \<equiv> fetchAllMyFirstPages cmp a b c"
  shows "distinct (map iss_id (loaded r s))"
    and "iss_id ` set (loaded r s) = iss_id ` (set (loaded a s) \<union> set (loaded b s) \<union> set (loaded c s))"
    and "server_total r s = int (length (loaded r s))"
proof -
  define m where "m = fold (merge_bucket s) [a, b, c] []"
  have s: "s \<in> set PAGINATED_STATUSES" by (cases s) (simp_all add: PAGINATED_STATUSES_def ALL_STATUSES_def)
  have r: "loaded r s = js_sort cmp m" "server_total r s = int (length m)"
    by (simp_all add: r_def fetchAllMyFirstPages_def loaded_def server_total_def getBucket_def m_def s Let_def)
  note 1 = merge_bucket_spec [of "[]" s a, simplified]
  note 2 = merge_bucket_spec [OF conjunct1 [OF 1], of s b]
  note 3 = merge_bucket_spec [OF conjunct1 [OF 2], of s c]
  have "distinct (map iss_id m)" "iss_id ` set m = iss_id ` (set (loaded a s) \<union> set (loaded b s) \<union> set (loaded c s))"
    using 1 2 3 by (auto simp: m_def image_Un)
  moreover have "distinct (map iss_id (js_sort cmp m)) = distinct (map iss_id m)"
    by (rule mset_eq_imp_distinct_iff) (simp add: mset_map)
  ultimately show "distinct (map iss_id (loaded r s))"
    and "iss_id ` set (loaded r s) = iss_id ` (set (loaded a s) \<union> set (loaded b s) \<union> set (loaded c s))"
    and "server_total r s = int (length (loaded r s))"
    unfolding r by simp_all
qed

text \<open>What the walk asks for and returns, for any server.\<close>

lemma gantt_loop_requests:
  assumes "k \<le> 20"
  shows "\<exists>n. k \<le> n \<and> n \<le> 20 \<and> (k < 20 \<longrightarrow> k < n)
    \<and> gantt_loop srv (500 * k) issues asked =
        (issues @ concat (map (\<lambda>j. fst (srv (500 * j))) [k..<n]), asked @ map (\<lambda>j. 500 * j) [k..<n])"
  using assms
proof (induction "20 - k" arbitrary: k issues asked)
  case 0
  then show ?case
    by (intro exI [of _ k]) (simp add: gantt_loop.simps PROJECT_GANTT_MAX_ISSUES_def)
next
  case (Suc x)
  then have k: "k < 20" by simp
  obtain page reported where srv: "srv (500 * k) = (page, reported)" by (cases "srv (500 * k)")
  let ?stop = "length page < 500 \<or> reported \<le> int (length (issues @ page))"
  have step: "gantt_loop srv (500 * k) issues asked =
      (if ?stop then (issues @ page, asked @ [500 * k])
       else gantt_loop srv (500 * Suc k) (issues @ page) (asked @ [500 * k]))"
    using k by (subst gantt_loop.simps)
      (simp add: srv PROJECT_GANTT_MAX_ISSUES_def PROJECT_GANTT_PAGE_LIMIT_def Let_def add.commute)
  show ?case
  proof (cases ?stop)
    case True
    then show ?thesis using k by (intro exI [of _ "Suc k"]) (simp add: step srv)
  next
    case False
    have x: "x = 20 - Suc k" "Suc k \<le> 20" using Suc.hyps(2) k by auto
    obtain n where n: "Suc k \<le> n" "n \<le> 20"
      "gantt_loop srv (500 * Suc k) (issues @ page) (asked @ [500 * k]) =
        ((issues @ page) @ concat (map (\<lambda>j. fst (srv (500 * j))) [Suc k..<n]),
         (asked @ [500 * k]) @ map (\<lambda>j. 500 * j) [Suc k..<n])"
      using Suc.hyps(1) [OF x, of "issues @ page" "asked @ [500 * k]"] by blast
    have "[k..<n] = k # [Suc k..<n]" using n(1) by (simp add: upt_conv_Cons)
    then show ?thesis using n(1,2) False unfolding step n(3) by (intro exI [of _ n]) (simp add: srv)
  qed
qed

text \<open>A server that holds still gives the first ten thousand issues, page by page.\<close>

lemma gantt_loop_complete:
  assumes "k \<le> 20" "k = 0 \<or> 500 * k < length issues"
    and "\<And>offset. srv offset = (take 500 (drop offset issues), int (length issues))"
  shows "fst (gantt_loop srv (500 * k) (take (500 * k) issues) asked) = take 10000 issues"
  using assms(1,2)
proof (induction "20 - k" arbitrary: k asked)
  case 0
  then show ?case by (simp add: gantt_loop.simps PROJECT_GANTT_MAX_ISSUES_def)
next
  case (Suc x)
  then have k: "k < 20" by simp
  let ?page = "take 500 (drop (500 * k) issues)"
  have join: "take (500 * k) issues @ ?page = take (500 * Suc k) issues"
    by (simp add: take_add [symmetric] add.commute)
  let ?stop = "length ?page < 500 \<or> length issues \<le> length (take (500 * Suc k) issues)"
  have step: "gantt_loop srv (500 * k) (take (500 * k) issues) asked =
      (if ?stop then (take (500 * Suc k) issues, asked @ [500 * k])
       else gantt_loop srv (500 * Suc k) (take (500 * Suc k) issues) (asked @ [500 * k]))"
    using k by (subst gantt_loop.simps)
      (simp only: assms(3) prod.case join Let_def PROJECT_GANTT_MAX_ISSUES_def PROJECT_GANTT_PAGE_LIMIT_def
        of_nat_le_iff, simp add: add.commute)
  show ?case
  proof (cases ?stop)
    case True
    then have "length issues \<le> 500 * Suc k" by auto
    then show ?thesis using True k by (simp add: step)
  next
    case False
    then have "500 * Suc k < length issues" by auto
    then show ?thesis using Suc.hyps(1) [of "Suc k" "asked @ [500 * k]"] Suc.hyps(2) k False by (simp add: step)
  qed
qed

section \<open>Properties\<close>



end
