(* ===== verification/Issue_Mutations.thy ===== *)
theory Issue_Mutations
  imports Issue_Event_Properties Recent_Contexts Issue_Fetch "HOL-Library.AList"
begin

text \<open>
  The issue mutations (\<open>packages/core/issues/mutations.ts\<close>).  A mutation is its callbacks: \<open>mutate\<close>
  runs before the request and returns a context, \<open>success\<close> or \<open>error\<close> runs on the answer, \<open>settled\<close>
  at the end; the context is missing when \<open>mutate\<close> raised.  Cancelling running fetches changes
  no data and is left out, as is the request itself: its answer is an argument.
\<close>

section \<open>Requests and snapshots\<close>

text \<open>The fields of an update that are columns of the issue, and those that are not.\<close>

record update_vars =
  upd_patch :: issue_patch
  upd_attachment_ids :: "string list option"
  upd_suppress_run :: "bool option"
  upd_handoff_note :: "string option"

text \<open>\<open>for (const [key, snapshot] of entries) qc.setQueryData(key, snapshot)\<close>: storing
  \<open>undefined\<close> changes nothing.\<close>

definition restore_queries ::
  "'q query_client \<Rightarrow> (query_key \<times> cache_value option) list \<Rightarrow> 'q \<Rightarrow> 'q" where
  "restore_queries cl = fold (\<lambda>(key, snapshot) qc.
     case snapshot of None \<Rightarrow> qc | Some v \<Rightarrow> setQueryData cl key v qc)"

definition restore_children ::
  "'q query_client \<Rightarrow> string \<Rightarrow> (string \<times> cache_value option) list \<Rightarrow> 'q \<Rightarrow> 'q" where
  "restore_children cl wsId prevChildren =
     restore_queries cl (map (\<lambda>(parentId, snapshot). (issueKeys_children wsId parentId, snapshot)) prevChildren)"

text \<open>The end of a creation or a deletion.\<close>

definition settle_lists :: "'q query_client \<Rightarrow> string \<Rightarrow> 'q \<Rightarrow> 'q" where
  "settle_lists cl wsId = fold (\<lambda>k. invalidateQueries cl (by_prefix k))
     [issueKeys_list wsId, issueKeys_assigneeGroupsAll wsId, issueKeys_myAssigneeGroupsAll wsId,
      issueKeys_projectGanttAll wsId, projectKeys_all wsId]"

section \<open>Creating an issue\<close>

definition createIssue_success ::
  "'q query_client \<Rightarrow> rat \<Rightarrow> string \<Rightarrow> issue \<Rightarrow> 'q \<times> recent_state \<Rightarrow> ('q \<times> recent_state) run" where
  "createIssue_success cl now wsId newIssue = (\<lambda>(qc, recents).
     case write_lists cl (\<lambda>l. addIssueToBuckets l newIssue)
         (getQueriesData cl qc (by_prefix (issueKeys_list wsId))) qc of
       (Some e, qc1) \<Rightarrow> (Some e, (qc1, recents))
     | (None, qc1) \<Rightarrow>
         (None, (if falsy (iss_parent_issue_id newIssue) then qc1
            else invalidateQueries cl (by_prefix (issueKeys_childProgress wsId))
              (invalidateQueries cl (by_prefix
                 (issueKeys_children wsId (the (iss_parent_issue_id newIssue)))) qc1),
          recordVisit now wsId (iss_id newIssue) recents)))"

section \<open>Updating an issue\<close>

record update_ctx =
  uct_change :: change_result
  uct_prevChildren :: "cache_value option"
  uct_parentId :: "string option"
  uct_id :: string

text \<open>The parent under whose children a cache holds the issue.\<close>

fun parent_from_children :: "string \<Rightarrow> (query_key \<times> cache_value option) list \<Rightarrow> string option" where
  "parent_from_children i [] = None"
| "parent_from_children i ((key, data) # rest) =
     (if (case as_issues data of None \<Rightarrow> False | Some xs \<Rightarrow> list_ex (\<lambda>c. iss_id c = i) xs)
      then (case parentIdFromChildrenKey key of Some s \<Rightarrow> Some s | None \<Rightarrow> parent_from_children i rest)
      else parent_from_children i rest)"

definition update_parentId ::
  "'q query_client \<Rightarrow> string \<Rightarrow> string \<Rightarrow> issue option \<Rightarrow> issue option \<Rightarrow> 'q \<Rightarrow> string option" where
  "update_parentId cl wsId i prevDetail prevIssue qc =
     (let linked = (case Option.bind prevDetail iss_parent_issue_id of
            Some p \<Rightarrow> Some p | None \<Rightarrow> Option.bind prevIssue iss_parent_issue_id)
      in if falsy linked then
           (case parent_from_children i (getQueriesData cl qc (by_prefix (issueKeys_all wsId @ [KStr ''children'']))) of
              Some p \<Rightarrow> Some p | None \<Rightarrow> linked)
         else linked)"

definition patch_child_row :: "bool \<Rightarrow> string \<Rightarrow> issue_patch \<Rightarrow> cache_value option \<Rightarrow> cache_value option" where
  "patch_child_row detached i patch old =
     map_option (\<lambda>xs. CIssues (if detached then filter (\<lambda>c. iss_id c \<noteq> i) xs
       else map (\<lambda>c. if iss_id c = i then merge_issue c patch else c) xs)) (as_issues old)"

definition updateIssue_mutate ::
  "'q query_client \<Rightarrow> string \<Rightarrow> string \<Rightarrow> update_vars \<Rightarrow> 'q \<Rightarrow> 'q \<times> update_ctx" where
  "updateIssue_mutate cl wsId i vars qc =
     (let patch = upd_patch vars;
          prevDetail = as_issue (getQueryData cl qc (issueKeys_detail wsId i));
          (qc1, change) = applyIssueChange cl wsId i patch (issueChangedDims patch prevDetail) prevDetail qc;
          parentId = update_parentId cl wsId i prevDetail (res_prevIssue change) qc1;
          prevChildren = (if falsy parentId then None
            else getQueryData cl qc1 (issueKeys_children wsId (the parentId)));
          detachedFromParent = (case pat_parent_issue_id patch of None \<Rightarrow> False | Some p \<Rightarrow> p \<noteq> parentId);
          qc2 = (if falsy parentId then qc1
            else updateQueryData cl (issueKeys_children wsId (the parentId))
              (patch_child_row detachedFromParent i patch) qc1)
      in (qc2, \<lparr>uct_change = change, uct_prevChildren = prevChildren, uct_parentId = parentId, uct_id = i\<rparr>))"

definition updateIssue_error :: "'q query_client \<Rightarrow> string \<Rightarrow> update_ctx option \<Rightarrow> 'q \<Rightarrow> 'q" where
  "updateIssue_error cl wsId ctx qc =
     (case ctx of None \<Rightarrow> qc
      | Some c \<Rightarrow>
          let qc1 = rollbackIssueChange cl wsId (uct_id c) (uct_change c) qc
          in if falsy (uct_parentId c) then qc1
             else (case uct_prevChildren c of None \<Rightarrow> qc1
               | Some v \<Rightarrow> setQueryData cl (issueKeys_children wsId (the (uct_parentId c))) v qc1))"

definition updateIssue_success ::
  "'q query_client \<Rightarrow> string \<Rightarrow> issue \<Rightarrow> update_vars \<Rightarrow> 'q \<Rightarrow> 'q" where
  "updateIssue_success cl wsId serverIssue vars qc =
     (let reconcilable = (partial_of serverIssue)\<lparr>pat_properties := None\<rparr>;
          (qc1, reconcile) = applyIssueChange cl wsId (iss_id serverIssue) reconcilable
            (issueChangedDims (upd_patch vars) (Some serverIssue)) (Some serverIssue) qc
      in invalidateStaleListKeys cl (res_staleKeys reconcile) qc1)"

definition updateIssue_settled ::
  "'q query_client \<Rightarrow> string \<Rightarrow> string \<Rightarrow> update_vars \<Rightarrow> update_ctx option \<Rightarrow> 'q \<Rightarrow> 'q" where
  "updateIssue_settled cl wsId i vars ctx qc =
     (let patch = upd_patch vars;
          inval = (\<lambda>k. invalidateQueries cl (by_prefix k));
          qc1 = invalidateIssueDerivatives cl wsId (pat_status patch \<noteq> None \<or> pat_project_id patch \<noteq> None) qc;
          qc2 = (case ctx of None \<Rightarrow> qc1 | Some c \<Rightarrow> invalidateStaleListKeys cl (res_staleKeys (uct_change c)) qc1);
          qc3 = (if upd_attachment_ids vars \<in> {None, Some []} then qc2 else inval (issueKeys_attachments i) qc2);
          parentId = Option.bind ctx uct_parentId;
          qc4 = (if falsy parentId then qc3
            else inval (issueKeys_childProgress wsId) (inval (issueKeys_children wsId (the parentId)) qc3));
          newParentId = (case pat_parent_issue_id patch of None \<Rightarrow> None | Some p \<Rightarrow> p);
          qc5 = (if falsy newParentId \<or> newParentId = parentId then qc4
            else inval (issueKeys_childProgress wsId) (inval (issueKeys_children wsId (the newParentId)) qc4))
      in if falsy parentId \<and> falsy newParentId then qc5
         else inval (issueKeys_childrenByParentsAll wsId) qc5)"

section \<open>Deleting an issue\<close>

record delete_ctx =
  dct_id :: string
  dct_metadata :: "string list"
  dct_prevLists :: "(query_key \<times> cache_value option) list"
  dct_prevMyLists :: "(query_key \<times> cache_value option) list"
  dct_prevDetail :: "cache_value option"
  dct_prevChildren :: "(string \<times> cache_value option) list"

definition children_snapshots ::
  "'q query_client \<Rightarrow> string \<Rightarrow> string list \<Rightarrow> 'q \<Rightarrow> (string \<times> cache_value option) list" where
  "children_snapshots cl wsId parentIssueIds qc =
     map (\<lambda>parentId. (parentId, getQueryData cl qc (issueKeys_children wsId parentId))) parentIssueIds"

definition deleteIssue_mutate ::
  "'q query_client \<Rightarrow> string \<Rightarrow> string \<Rightarrow> 'q \<Rightarrow> 'q \<times> (js_error + delete_ctx)" where
  "deleteIssue_mutate cl wsId i qc =
     (case collectDeletedIssueCacheMetadata cl wsId i qc of
        Inl e \<Rightarrow> (qc, Inl e)
      | Inr parents \<Rightarrow>
          let ctx = \<lparr>dct_id = i, dct_metadata = parents,
                dct_prevLists = getQueriesData cl qc (by_prefix (issueKeys_list wsId)),
                dct_prevMyLists = getQueriesData cl qc (by_prefix (issueKeys_myAll wsId)),
                dct_prevDetail = getQueryData cl qc (issueKeys_detail wsId i),
                dct_prevChildren = children_snapshots cl wsId parents qc\<rparr>
          in case pruneDeletedIssueFromListCaches cl wsId i qc of
               (Some e, qc1) \<Rightarrow> (qc1, Inl e)
             | (None, qc1) \<Rightarrow>
                 (removeQueries cl (by_prefix (issueKeys_detail wsId i))
                    (pruneDeletedIssueFromParentChildrenCaches cl wsId i parents qc1), Inr ctx))"

definition deleteIssue_error :: "'q query_client \<Rightarrow> string \<Rightarrow> delete_ctx option \<Rightarrow> 'q \<Rightarrow> 'q" where
  "deleteIssue_error cl wsId ctx qc =
     (case ctx of None \<Rightarrow> qc
      | Some c \<Rightarrow>
          restore_children cl wsId (dct_prevChildren c)
            (restore_queries cl [(issueKeys_detail wsId (dct_id c), dct_prevDetail c)]
              (restore_queries cl (dct_prevMyLists c) (restore_queries cl (dct_prevLists c) qc))))"

definition deleteIssue_success ::
  "'q query_client \<Rightarrow> string \<Rightarrow> string \<Rightarrow> delete_ctx option \<Rightarrow> ('q \<times> recent_state) \<times> context_state
    \<Rightarrow> ('q \<times> recent_state) run \<times> context_state" where
  "deleteIssue_success cl wsId i ctx = (\<lambda>(st, contexts).
     (cleanupDeletedIssueCaches cl wsId i (map_option dct_metadata ctx) st,
      forgetContext wsId Ctx_issue i contexts))"

definition deleteIssue_settled :: "'q query_client \<Rightarrow> string \<Rightarrow> delete_ctx option \<Rightarrow> 'q \<Rightarrow> 'q" where
  "deleteIssue_settled cl wsId ctx qc =
     (case ctx of None \<Rightarrow> settle_lists cl wsId qc
      | Some c \<Rightarrow> invalidateDeletedIssueParentCaches cl wsId (dct_metadata c) (settle_lists cl wsId qc))"

section \<open>Updating many issues\<close>

record batch_update_ctx =
  but_prevLists :: "(query_key \<times> list_cache) list"
  but_prevDetailById :: "(string \<times> issue) list"
  but_prevInboxList :: "inbox_item list option"
  but_staleKeys :: "query_key list"
  but_prevChildren :: "(string \<times> cache_value option) list"
  but_affectedParentIds :: "string list"

text \<open>The snapshots of the lists are first-wins per key, those of the details last-wins per issue.\<close>

definition add_first :: "'a \<times> 'b \<Rightarrow> ('a \<times> 'b) list \<Rightarrow> ('a \<times> 'b) list" where
  "add_first e snapshots = (if fst e \<in> fst ` set snapshots then snapshots else snapshots @ [e])"

definition batch_update_step ::
  "'q query_client \<Rightarrow> string \<Rightarrow> issue_patch \<Rightarrow> string \<Rightarrow> 'q \<times> batch_update_ctx \<Rightarrow> 'q \<times> batch_update_ctx" where
  "batch_update_step cl wsId patch i = (\<lambda>(qc, ctx).
     let base = as_issue (getQueryData cl qc (issueKeys_detail wsId i));
         (qc1, change) = applyIssueChange cl wsId i patch (issueChangedDims patch base) base qc
     in (qc1, ctx
       \<lparr>but_prevLists := fold add_first (res_prevLists change) (but_prevLists ctx),
        but_prevDetailById := (case res_prevDetail change of
            None \<Rightarrow> but_prevDetailById ctx | Some d \<Rightarrow> AList.update i d (but_prevDetailById ctx)),
        but_prevInboxList := (case but_prevInboxList ctx of
            Some l \<Rightarrow> Some l | None \<Rightarrow> res_prevInboxList change),
        but_staleKeys := but_staleKeys ctx @ res_staleKeys change\<rparr>))"

definition batch_children_step ::
  "'q query_client \<Rightarrow> string \<Rightarrow> string list \<Rightarrow> issue_patch \<Rightarrow> query_key \<times> cache_value option
    \<Rightarrow> 'q \<times> batch_update_ctx \<Rightarrow> 'q \<times> batch_update_ctx" where
  "batch_children_step cl wsId ids patch = (\<lambda>(key, data) (qc, ctx).
     if (case as_issues data of None \<Rightarrow> False | Some xs \<Rightarrow> list_ex (\<lambda>c. iss_id c \<in> set ids) xs)
     then (case parentIdFromChildrenKey key of
         None \<Rightarrow> (qc, ctx)
       | Some parentId \<Rightarrow>
           (updateQueryData cl (issueKeys_children wsId parentId)
              (\<lambda>old. map_option (\<lambda>xs. CIssues (map (\<lambda>c. if iss_id c \<in> set ids then merge_issue c patch else c) xs))
                 (as_issues old)) qc,
            ctx\<lparr>but_prevChildren := AList.update parentId data (but_prevChildren ctx),
                but_affectedParentIds :=
                  (if parentId \<in> set (but_affectedParentIds ctx) then but_affectedParentIds ctx
                   else but_affectedParentIds ctx @ [parentId])\<rparr>))
     else (qc, ctx))"

definition empty_batch_ctx :: batch_update_ctx where
  "empty_batch_ctx = \<lparr>but_prevLists = [], but_prevDetailById = [], but_prevInboxList = None,
     but_staleKeys = [], but_prevChildren = [], but_affectedParentIds = []\<rparr>"

definition batchUpdate_mutate ::
  "'q query_client \<Rightarrow> string \<Rightarrow> string list \<Rightarrow> update_vars \<Rightarrow> 'q \<Rightarrow> 'q \<times> batch_update_ctx" where
  "batchUpdate_mutate cl wsId ids vars qc =
     (let patch = upd_patch vars;
          (qc1, ctx1) = fold (batch_update_step cl wsId patch) ids (qc, empty_batch_ctx)
      in fold (batch_children_step cl wsId ids patch)
           (getQueriesData cl qc1 (by_prefix (issueKeys_all wsId @ [KStr ''children'']))) (qc1, ctx1))"

definition batchUpdate_error :: "'q query_client \<Rightarrow> string \<Rightarrow> batch_update_ctx option \<Rightarrow> 'q \<Rightarrow> 'q" where
  "batchUpdate_error cl wsId ctx qc =
     (case ctx of None \<Rightarrow> qc
      | Some c \<Rightarrow>
          restore_children cl wsId (but_prevChildren c)
            (restore_queries cl [(inboxKeys_list wsId, map_option CInbox (but_prevInboxList c))]
              (restore_queries cl (map (\<lambda>(i, d). (issueKeys_detail wsId i, Some (CIssue d))) (but_prevDetailById c))
                (restore_queries cl (map (\<lambda>(k, l). (k, Some (CList l))) (but_prevLists c)) qc))))"

definition batchUpdate_settled ::
  "'q query_client \<Rightarrow> string \<Rightarrow> update_vars \<Rightarrow> batch_update_ctx option \<Rightarrow> 'q \<Rightarrow> 'q" where
  "batchUpdate_settled cl wsId vars ctx qc =
     (let patch = upd_patch vars;
          qc1 = invalidateIssueDerivatives cl wsId (pat_status patch \<noteq> None \<or> pat_project_id patch \<noteq> None) qc
      in case ctx of None \<Rightarrow> qc1
         | Some c \<Rightarrow>
             let qc2 = invalidateStaleListKeys cl (but_staleKeys c) qc1
             in if but_affectedParentIds c = [] then qc2
                else invalidateQueries cl (by_prefix (issueKeys_childProgress wsId))
                  (fold (\<lambda>parentId. invalidateQueries cl (by_prefix (issueKeys_children wsId parentId)))
                     (but_affectedParentIds c) qc2))"

section \<open>Deleting many issues\<close>

record batch_delete_ctx =
  bdc_prevLists :: "(query_key \<times> cache_value option) list"
  bdc_prevMyLists :: "(query_key \<times> cache_value option) list"
  bdc_prevChildren :: "(string \<times> cache_value option) list"
  bdc_parentIssueIds :: "string list"
  bdc_metadataById :: "(string \<times> string list) list"

fun collect_metadata ::
  "'q query_client \<Rightarrow> string \<Rightarrow> string list \<Rightarrow> 'q \<Rightarrow> js_error + (string \<times> string list) list" where
  "collect_metadata cl wsId [] qc = Inr []"
| "collect_metadata cl wsId (i # ids) qc =
     (case collectDeletedIssueCacheMetadata cl wsId i qc of
        Inl e \<Rightarrow> Inl e
      | Inr parents \<Rightarrow> map_sum (\<lambda>e. e) ((#) (i, parents)) (collect_metadata cl wsId ids qc))"

definition add_once :: "'a \<Rightarrow> 'a list \<Rightarrow> 'a list" where
  "add_once x xs = (if x \<in> set xs then xs else xs @ [x])"

fun prune_issues ::
  "'q query_client \<Rightarrow> string \<Rightarrow> (string \<times> string list) list \<Rightarrow> string list \<Rightarrow> 'q \<Rightarrow> 'q run" where
  "prune_issues cl wsId metadataById [] qc = (None, qc)"
| "prune_issues cl wsId metadataById (i # ids) qc =
     and_then (pruneDeletedIssueFromListCaches cl wsId i qc)
       (\<lambda>qc1. prune_issues cl wsId metadataById ids
         (case map_of metadataById i of None \<Rightarrow> qc1
          | Some parents \<Rightarrow> pruneDeletedIssueFromParentChildrenCaches cl wsId i parents qc1))"

definition batchDelete_mutate ::
  "'q query_client \<Rightarrow> string \<Rightarrow> string list \<Rightarrow> 'q \<Rightarrow> 'q \<times> (js_error + batch_delete_ctx)" where
  "batchDelete_mutate cl wsId ids qc =
     (case collect_metadata cl wsId ids qc of
        Inl e \<Rightarrow> (qc, Inl e)
      | Inr entries \<Rightarrow>
          let metadataById = fold (\<lambda>(k, v). AList.update k v) entries [];
              parents = fold (\<lambda>(_, ps). fold add_once ps) metadataById [];
              ctx = \<lparr>bdc_prevLists = getQueriesData cl qc (by_prefix (issueKeys_list wsId)),
                bdc_prevMyLists = getQueriesData cl qc (by_prefix (issueKeys_myAll wsId)),
                bdc_prevChildren = children_snapshots cl wsId parents qc,
                bdc_parentIssueIds = parents, bdc_metadataById = metadataById\<rparr>
          in case prune_issues cl wsId metadataById ids qc of
               (Some e, qc1) \<Rightarrow> (qc1, Inl e)
             | (None, qc1) \<Rightarrow> (qc1, Inr ctx))"

definition batchDelete_error :: "'q query_client \<Rightarrow> string \<Rightarrow> batch_delete_ctx option \<Rightarrow> 'q \<Rightarrow> 'q" where
  "batchDelete_error cl wsId ctx qc =
     (case ctx of None \<Rightarrow> qc
      | Some c \<Rightarrow> restore_children cl wsId (bdc_prevChildren c)
          (restore_queries cl (bdc_prevMyLists c) (restore_queries cl (bdc_prevLists c) qc)))"

text \<open>The loop over the deleted issues stops at the first exception.\<close>

fun cleanup_issues ::
  "'q query_client \<Rightarrow> string \<Rightarrow> batch_delete_ctx option \<Rightarrow> string list \<Rightarrow> ('q \<times> recent_state) \<times> context_state
    \<Rightarrow> ('q \<times> recent_state) run \<times> context_state" where
  "cleanup_issues cl wsId ctx [] = (\<lambda>(st, contexts). ((None, st), contexts))"
| "cleanup_issues cl wsId ctx (i # ids) = (\<lambda>(st, contexts).
     let contexts1 = forgetContext wsId Ctx_issue i contexts in
     case cleanupDeletedIssueCaches cl wsId i (Option.bind ctx (\<lambda>c. map_of (bdc_metadataById c) i)) st of
       (Some e, st1) \<Rightarrow> ((Some e, st1), contexts1)
     | (None, st1) \<Rightarrow> cleanup_issues cl wsId ctx ids (st1, contexts1))"

definition batchDelete_success ::
  "'q query_client \<Rightarrow> string \<Rightarrow> string list \<Rightarrow> nat \<Rightarrow> batch_delete_ctx option
    \<Rightarrow> ('q \<times> recent_state) \<times> context_state \<Rightarrow> ('q \<times> recent_state) run \<times> context_state" where
  "batchDelete_success cl wsId ids deleted ctx = (\<lambda>((qc, recents), contexts).
     if deleted = length ids then cleanup_issues cl wsId ctx ids ((qc, recents), contexts)
     else ((None,
       (invalidateDeletedIssueDependentCaches cl wsId
          (invalidateQueries cl (by_prefix (issueKeys_all wsId))
            (fold (invalidateIssueScopedCaches cl wsId) ids (batchDelete_error cl wsId ctx qc))),
        recents)), contexts))"

definition batchDelete_settled :: "'q query_client \<Rightarrow> string \<Rightarrow> batch_delete_ctx option \<Rightarrow> 'q \<Rightarrow> 'q" where
  "batchDelete_settled cl wsId ctx qc =
     (case ctx of None \<Rightarrow> settle_lists cl wsId qc
      | Some c \<Rightarrow> invalidateDeletedIssueParentCaches cl wsId (bdc_parentIssueIds c) (settle_lists cl wsId qc))"

section \<open>Loading more of a column\<close>

text \<open>The request for the next page of a column: its status, limit and offset; none while one is
  running or when every issue is loaded.  The answer is merged into the cache as it is then.\<close>

definition loadMore_request ::
  "'q query_client \<Rightarrow> query_key \<Rightarrow> issue_status \<Rightarrow> bool \<Rightarrow> 'q \<Rightarrow> (issue_status \<times> nat \<times> nat) option" where
  "loadMore_request cl activeKey status isLoading qc =
     (let bucket = Option.bind (as_bucketed (getQueryData cl qc activeKey)) (\<lambda>l. byStatus l status);
          loaded = (case bucket of None \<Rightarrow> 0 | Some b \<Rightarrow> length (bucket_issues b));
          counted = (case bucket of None \<Rightarrow> 0 | Some b \<Rightarrow> bucket_total b);
          hasMore = int loaded < counted
      in if isLoading \<or> \<not> hasMore then None else Some (status, ISSUE_PAGE_SIZE, loaded))"

definition append_page :: "issue_status \<Rightarrow> issue list \<Rightarrow> int \<Rightarrow> list_cache \<Rightarrow> list_cache" where
  "append_page status issues res_total l =
     (let prev = getBucket l status;
          appended = filter (\<lambda>x. iss_id x \<notin> iss_id ` set (bucket_issues prev)) issues
      in setBucket l status \<lparr>bucket_issues = bucket_issues prev @ appended, bucket_total = res_total\<rparr>)"

definition loadMore_answer ::
  "'q query_client \<Rightarrow> query_key \<Rightarrow> issue_status \<Rightarrow> issue list \<times> int \<Rightarrow> 'q \<Rightarrow> 'q" where
  "loadMore_answer cl activeKey status res = updateQueryData cl activeKey
     (\<lambda>old. map_option (\<lambda>l. CList (append_page status (fst res) (snd res) l)) (as_bucketed old))"

fun as_grouped :: "cache_value option \<Rightarrow> grouped_response option" where
  "as_grouped (Some (CGrouped g)) = Some g"
| "as_grouped _ = None"

definition loadMoreGroup_request ::
  "'q query_client \<Rightarrow> query_key \<Rightarrow> string \<Rightarrow> bool \<Rightarrow> 'q \<Rightarrow> (nat \<times> nat) option" where
  "loadMoreGroup_request cl queryKey groupId isLoading qc =
     (let cachedGroup = Option.bind (as_grouped (getQueryData cl qc queryKey))
            (\<lambda>g. List.find (\<lambda>x. grp_id x = groupId) (resp_groups g));
          loaded = (case cachedGroup of None \<Rightarrow> 0 | Some g \<Rightarrow> length (grp_issues g));
          counted = (case cachedGroup of None \<Rightarrow> 0 | Some g \<Rightarrow> grp_total g);
          hasMore = int loaded < counted
      in if isLoading \<or> \<not> hasMore then None else Some (ISSUE_PAGE_SIZE, loaded))"

definition append_group_page :: "assignee_group \<Rightarrow> grouped_response \<Rightarrow> grouped_response" where
  "append_group_page nextGroup old = \<lparr>resp_groups = map (\<lambda>existing.
     if grp_id existing \<noteq> grp_id nextGroup then existing
     else existing\<lparr>grp_issues := grp_issues existing @
            filter (\<lambda>x. iss_id x \<notin> iss_id ` set (grp_issues existing)) (grp_issues nextGroup),
          grp_total := grp_total nextGroup\<rparr>) (resp_groups old)\<rparr>"

definition loadMoreGroup_answer ::
  "'q query_client \<Rightarrow> query_key \<Rightarrow> grouped_response \<Rightarrow> 'q \<Rightarrow> 'q" where
  "loadMoreGroup_answer cl queryKey res qc =
     (case resp_groups res of
        [] \<Rightarrow> qc
      | nextGroup # _ \<Rightarrow> updateQueryData cl queryKey
          (\<lambda>old. map_option (\<lambda>g. CGrouped (append_group_page nextGroup g)) (as_grouped old)) qc)"

end
