(* ===== verification/Issue_Rollback.thy ===== *)
theory Issue_Rollback
  imports Issue_Mutations
begin

text \<open>
  The rollbacks of the issue mutations.  Each rollback writes a list of snapshots; \<open>restore_get\<close> is the common argument:
  every snapshot is the old data, and every query that changed has one.  The last sections hold the
  run of an update that succeeds and the conditions under which a deletion starts.
\<close>

section \<open>Snapshots\<close>

definition rollback_entries ::
  "string \<Rightarrow> string \<Rightarrow> change_result \<Rightarrow> (query_key \<times> cache_value option) list" where
  "rollback_entries wsId i r =
     map (\<lambda>(k, l). (k, Some (CList l))) (res_prevLists r) @
     [(issueKeys_detail wsId i, map_option CIssue (res_prevDetail r)),
      (inboxKeys_list wsId, map_option CInbox (res_prevInboxList r))]"

text \<open>The snapshots are those of \<open>qc0\<close>, and they cover what \<open>qc\<close> differs in.\<close>

definition snapshots_of ::
  "'q query_client \<Rightarrow> (query_key \<times> cache_value option) list \<Rightarrow> 'q \<Rightarrow> 'q \<Rightarrow> bool" where
  "snapshots_of cl es qc0 qc \<longleftrightarrow>
     (\<forall>k v. (k, Some v) \<in> set es \<longrightarrow> getQueryData cl qc0 k = Some v)
     \<and> (\<forall>k. getQueryData cl qc k \<noteq> getQueryData cl qc0 k \<longrightarrow> (\<exists>v. (k, Some v) \<in> set es))"

lemma restore_queries_append:
  "restore_queries cl (es @ fs) qc = restore_queries cl fs (restore_queries cl es qc)"
  by (simp add: restore_queries_def)

lemma restore_queries_simps [simp]:
  "restore_queries cl [] qc = qc"
  "restore_queries cl ((k, None) # es) qc = restore_queries cl es qc"
  "restore_queries cl ((k, Some v) # es) qc = restore_queries cl es (setQueryData cl k v qc)"
  by (simp_all add: restore_queries_def)

lemma rollback_as_restore:
  "rollbackIssueChange cl wsId i r qc = restore_queries cl (rollback_entries wsId i r) qc"
proof -
  have "fold (\<lambda>(key, snapshot). setQueryData cl key (CList snapshot)) ls qc
      = restore_queries cl (map (\<lambda>(k, l). (k, Some (CList l))) ls) qc" for ls
    by (induction ls arbitrary: qc) auto
  then show ?thesis
    by (cases "res_prevDetail r"; cases "res_prevInboxList r")
      (simp_all add: rollbackIssueChange_def rollback_entries_def restore_queries_append)
qed

lemma children_not_special [simp]:
  "issueKeys_children wsId p \<noteq> issueKeys_detail wsId' i" "issueKeys_detail wsId' i \<noteq> issueKeys_children wsId p"
  "issueKeys_children wsId p \<noteq> inboxKeys_list wsId'" "inboxKeys_list wsId' \<noteq> issueKeys_children wsId p"
  by (simp_all add: query_key_defs)

lemma read_back:
  "Some v = map_option CIssue (as_issue x) \<Longrightarrow> x = Some v"
  "Some v = map_option CInbox (as_inbox x) \<Longrightarrow> x = Some v"
  by (cases x rule: as_issue.cases; auto) (cases x rule: as_inbox.cases; auto)

lemma list_snapshot_iff:
  "(k, Some v) \<in> (\<lambda>(k, l). (k, Some (CList l))) ` S \<longleftrightarrow> (\<exists>l. v = CList l \<and> (k, l) \<in> S)"
  by force

context query_cache
begin

lemma restore_get:
  assumes "snapshots_of cl es qc0 qc"
  shows "getQueryData cl (restore_queries cl es qc) k = getQueryData cl qc0 k"
  using assms
proof (induction es arbitrary: qc)
  case Nil
  then show ?case by (auto simp: snapshots_of_def)
next
  case (Cons e es)
  obtain j d where e: "e = (j, d)" by (cases e)
  have "snapshots_of cl es qc0 (restore_queries cl [e] qc)"
    using Cons.prems by (cases d) (auto simp: e snapshots_of_def get_set)
  from Cons.IH [OF this] show ?case using restore_queries_append [of cl "[e]" es qc] by simp
qed

lemma apply_snapshots:
  "snapshots_of cl (rollback_entries wsId i (snd (applyIssueChange cl wsId i patch changed base qc))) qc
     (fst (applyIssueChange cl wsId i patch changed base qc))"
proof -
  let ?es = "bucketedListEntries cl qc wsId"
    and ?r = "snd (applyIssueChange cl wsId i patch changed base qc)"
    and ?p = "\<lambda>(k, l). fst (reconcileList i patch changed base k l) \<noteq> None"
  have r: "res_prevLists ?r = filter ?p ?es"
    "res_prevDetail ?r = as_issue (getQueryData cl qc (issueKeys_detail wsId i))"
    "res_prevInboxList ?r = (case pat_status patch of None \<Rightarrow> None
       | Some _ \<Rightarrow> as_inbox (getQueryData cl qc (inboxKeys_list wsId)))"
    by (subst apply_result, simp)+
  have "getQueryData cl qc k = Some v" if "(k, Some v) \<in> set (rollback_entries wsId i ?r)" for k v
    using that by (auto simp: rollback_entries_def r entries_iff dest: read_back split: option.splits)
  moreover have "\<exists>v. (k, Some v) \<in> set (rollback_entries wsId i ?r)"
    if "getQueryData cl (fst (applyIssueChange cl wsId i patch changed base qc)) k \<noteq> getQueryData cl qc k" for k
    using that map_of_entries [of qc wsId k]
    by (auto simp: apply_get rollback_entries_def r list_snapshot_iff split: if_splits option.splits)
  ultimately show ?thesis by (auto simp: snapshots_of_def)
qed

lemma apply_get_children [simp]:
  "getQueryData cl (fst (applyIssueChange cl wsId i patch changed base qc)) (issueKeys_children wsId' p) =
     getQueryData cl qc (issueKeys_children wsId' p)"
proof -
  have "map_of (bucketedListEntries cl qc wsId) (issueKeys_children wsId' p) = None"
    using entries_list_key list_key_not_other(1) by (force simp: map_of_eq_None_iff)
  then show ?thesis by (simp add: apply_get)
qed

lemma snapshots_extend:
  assumes "snapshots_of cl es qc0 qc" "\<forall>j. j \<noteq> k \<longrightarrow> getQueryData cl qc' j = getQueryData cl qc j"
    and "getQueryData cl qc k = getQueryData cl qc0 k" "d = getQueryData cl qc0 k"
    and "d = None \<Longrightarrow> getQueryData cl qc' k = None"
  shows "snapshots_of cl (es @ [(k, d)]) qc0 qc'"
  using assms unfolding snapshots_of_def by (auto; metis not_None_eq)

lemma update_restores:
  "getQueryData cl (updateIssue_error cl wsId (Some (snd (updateIssue_mutate cl wsId i vars qc)))
      (fst (updateIssue_mutate cl wsId i vars qc))) k = getQueryData cl qc k"
proof -
  define base where "base = as_issue (getQueryData cl qc (issueKeys_detail wsId i))"
  define ap where "ap = applyIssueChange cl wsId i (upd_patch vars) (issueChangedDims (upd_patch vars) base) base qc"
  define pid where "pid = update_parentId cl wsId i base (res_prevIssue (snd ap)) (fst ap)"
  have snaps: "snapshots_of cl (rollback_entries wsId i (snd ap)) qc (fst ap)"
    unfolding ap_def by (rule apply_snapshots)
  show ?thesis
  proof (cases "falsy pid")
    case True
    then have "updateIssue_mutate cl wsId i vars qc =
        (fst ap, \<lparr>uct_change = snd ap, uct_prevChildren = None, uct_parentId = pid, uct_id = i\<rparr>)"
      by (simp add: updateIssue_mutate_def base_def [symmetric] ap_def [symmetric] pid_def [symmetric]
          case_prod_beta Let_def)
    with True restore_get [OF snaps] show ?thesis
      by (simp add: updateIssue_error_def Let_def rollback_as_restore)
  next
    case False
    let ?key = "issueKeys_children wsId (the pid)"
    define f where "f = patch_child_row
      (case pat_parent_issue_id (upd_patch vars) of None \<Rightarrow> False | Some p \<Rightarrow> p \<noteq> pid) i (upd_patch vars)"
    have mut: "updateIssue_mutate cl wsId i vars qc =
        (updateQueryData cl ?key f (fst ap),
         \<lparr>uct_change = snd ap, uct_prevChildren = getQueryData cl (fst ap) ?key, uct_parentId = pid, uct_id = i\<rparr>)"
      using False by (simp add: f_def updateIssue_mutate_def base_def [symmetric] ap_def [symmetric]
          pid_def [symmetric] case_prod_beta Let_def cong: option.case_cong)
    have "f None = None" by (simp add: f_def patch_child_row_def)
    then have "snapshots_of cl (rollback_entries wsId i (snd ap) @ [(?key, getQueryData cl (fst ap) ?key)]) qc
        (updateQueryData cl ?key f (fst ap))"
      by (intro snapshots_extend [OF snaps]) (auto simp: get_update ap_def)
    from restore_get [OF this] False show ?thesis
      by (cases "getQueryData cl (fst ap) ?key")
        (simp_all add: mut updateIssue_error_def Let_def rollback_as_restore restore_queries_append)
  qed
qed

end

section \<open>Batches\<close>

definition batch_entries :: "string \<Rightarrow> batch_update_ctx \<Rightarrow> (query_key \<times> cache_value option) list" where
  "batch_entries wsId c =
     map (\<lambda>(k, l). (k, Some (CList l))) (but_prevLists c) @
     map (\<lambda>(i, d). (issueKeys_detail wsId i, Some (CIssue d))) (but_prevDetailById c) @
     [(inboxKeys_list wsId, map_option CInbox (but_prevInboxList c))] @
     map (\<lambda>(p, d). (issueKeys_children wsId p, d)) (but_prevChildren c)"

lemma batch_error_as_restore:
  "batchUpdate_error cl wsId (Some c) qc = restore_queries cl (batch_entries wsId c) qc"
  unfolding batchUpdate_error_def option.case batch_entries_def restore_children_def restore_queries_append
  by (rule refl)

definition has_snapshot :: "(query_key \<times> cache_value option) list \<Rightarrow> query_key \<Rightarrow> bool" where
  "has_snapshot es k \<longleftrightarrow> (\<exists>v. (k, Some v) \<in> set es)"

lemma add_first_iff:
  "(k, v) \<in> set (add_first (j, d) old) \<longleftrightarrow>
     (k, v) \<in> set old \<or> (k = j \<and> v = d \<and> (\<forall>u. (k, u) \<notin> set old))"
  by (force simp: add_first_def)

lemma fold_add_first_sound:
  "(k, v) \<in> set (fold add_first new old) \<Longrightarrow> (k, v) \<in> set old \<or> ((k, v) \<in> set new \<and> (\<forall>u. (k, u) \<notin> set old))"
proof (induction new arbitrary: old)
  case (Cons e new)
  obtain j d where e: "e = (j, d)" by (cases e)
  from Cons.prems have "(k, v) \<in> set (fold add_first new (add_first (j, d) old))" by (simp add: e)
  from Cons.IH [OF this] show ?case by (auto simp: e add_first_iff)
qed simp

lemma fold_add_first_keys:
  "(\<exists>v. (k, v) \<in> set (fold add_first new old)) \<longleftrightarrow> (\<exists>v. (k, v) \<in> set old) \<or> (\<exists>v. (k, v) \<in> set new)"
proof (induction new arbitrary: old)
  case (Cons e new)
  obtain j d where e: "e = (j, d)" by (cases e)
  have "(\<exists>v. (k, v) \<in> set (add_first (j, d) old)) \<longleftrightarrow> (\<exists>v. (k, v) \<in> set old) \<or> k = j"
    by (auto simp: add_first_iff)
  then show ?case using Cons.IH [of "add_first (j, d) old"] by (auto simp: e)
qed simp

lemma update_fresh: "k \<notin> fst ` set al \<Longrightarrow> AList.update k v al = al @ [(k, v)]"
  by (induction al) auto

lemma keys_inject [simp]:
  "issueKeys_children wsId p = issueKeys_children wsId q \<longleftrightarrow> p = q"
  "issueKeys_detail wsId i = issueKeys_detail wsId j \<longleftrightarrow> i = j"
  by (simp_all add: query_key_defs)

lemma parent_of_children_key [simp]: "parentIdFromChildrenKey (issueKeys_children wsId p) = Some p"
  by (simp add: parentIdFromChildrenKey_def issueKeys_children_def)

definition batch_ctx_ok :: "string \<Rightarrow> string set \<Rightarrow> batch_update_ctx \<Rightarrow> bool" where
  "batch_ctx_ok wsId seen c \<longleftrightarrow> but_prevChildren c = [] \<and> fst ` set (but_prevDetailById c) \<subseteq> seen
     \<and> (\<forall>k l. (k, l) \<in> set (but_prevLists c) \<longrightarrow> list_key wsId k)"

lemma detail_snapshot_iff:
  "(k, Some v) \<in> (\<lambda>(i, d). (issueKeys_detail wsId i, Some (CIssue d))) ` S \<longleftrightarrow>
     (\<exists>i d. k = issueKeys_detail wsId i \<and> v = CIssue d \<and> (i, d) \<in> S)"
  by force

lemma Some_eq_map_option: "Some v = map_option f x \<longleftrightarrow> (\<exists>y. x = Some y \<and> v = f y)"
  by (cases x) auto

lemma batch_snapshot_iff:
  assumes "but_prevChildren c = []"
  shows "(k, Some v) \<in> set (batch_entries wsId c) \<longleftrightarrow>
    (\<exists>l. v = CList l \<and> (k, l) \<in> set (but_prevLists c))
    \<or> (\<exists>i d. k = issueKeys_detail wsId i \<and> v = CIssue d \<and> (i, d) \<in> set (but_prevDetailById c))
    \<or> (\<exists>l. k = inboxKeys_list wsId \<and> v = CInbox l \<and> but_prevInboxList c = Some l)"
  using assms by (auto simp: batch_entries_def list_snapshot_iff detail_snapshot_iff Some_eq_map_option)

lemma rollback_snapshot_iff:
  "(k, Some v) \<in> set (rollback_entries wsId i r) \<longleftrightarrow>
    (\<exists>l. v = CList l \<and> (k, l) \<in> set (res_prevLists r))
    \<or> (\<exists>d. k = issueKeys_detail wsId i \<and> v = CIssue d \<and> res_prevDetail r = Some d)
    \<or> (\<exists>l. k = inboxKeys_list wsId \<and> v = CInbox l \<and> res_prevInboxList r = Some l)"
  by (auto simp: rollback_entries_def list_snapshot_iff Some_eq_map_option)

lemma has_batch_snapshot:
  assumes "batch_ctx_ok wsId seen c"
  shows "has_snapshot (batch_entries wsId c) k \<longleftrightarrow>
    (\<exists>l. (k, l) \<in> set (but_prevLists c))
    \<or> (\<exists>i d. k = issueKeys_detail wsId i \<and> (i, d) \<in> set (but_prevDetailById c))
    \<or> (k = inboxKeys_list wsId \<and> (\<exists>l. but_prevInboxList c = Some l))"
  using assms by (auto simp: has_snapshot_def batch_snapshot_iff batch_ctx_ok_def)

lemma has_rollback_snapshot:
  "has_snapshot (rollback_entries wsId i r) k \<longleftrightarrow>
    (\<exists>l. (k, l) \<in> set (res_prevLists r))
    \<or> (k = issueKeys_detail wsId i \<and> (\<exists>d. res_prevDetail r = Some d))
    \<or> (k = inboxKeys_list wsId \<and> (\<exists>l. res_prevInboxList r = Some l))"
  by (auto simp: has_snapshot_def rollback_snapshot_iff)

context query_cache
begin

text \<open>Two changes in turn: a snapshot of the second counts where the first has none.\<close>

lemma snapshots_merge:
  assumes "snapshots_of cl es qc0 qc" "snapshots_of cl fs qc qc1"
    and "\<And>k v. (k, Some v) \<in> set gs \<Longrightarrow>
      (k, Some v) \<in> set es \<or> ((k, Some v) \<in> set fs \<and> \<not> has_snapshot es k)"
    and "\<And>k. has_snapshot es k \<or> has_snapshot fs k \<Longrightarrow> has_snapshot gs k"
  shows "snapshots_of cl gs qc0 qc1"
  using assms unfolding snapshots_of_def has_snapshot_def by metis

lemma res_prevLists_keys:
  "(k, l) \<in> set (res_prevLists (snd (applyIssueChange cl wsId i patch changed base qc))) \<Longrightarrow> list_key wsId k"
  by (subst (asm) apply_result) (auto simp: entries_list_key)

lemma batch_step_snapshots:
  assumes inv: "snapshots_of cl (batch_entries wsId ctx) qc0 qc" and ok: "batch_ctx_ok wsId seen ctx"
    and i: "i \<notin> seen"
  shows "case batch_update_step cl wsId patch i (qc, ctx) of (qc', ctx') \<Rightarrow>
    snapshots_of cl (batch_entries wsId ctx') qc0 qc' \<and> batch_ctx_ok wsId (insert i seen) ctx'"
proof -
  define base where "base = as_issue (getQueryData cl qc (issueKeys_detail wsId i))"
  define ap where "ap = applyIssueChange cl wsId i patch (issueChangedDims patch base) base qc"
  define ctx' where "ctx' = snd (batch_update_step cl wsId patch i (qc, ctx))"
  have step: "batch_update_step cl wsId patch i (qc, ctx) = (fst ap, ctx')"
    by (simp add: ctx'_def batch_update_step_def base_def [symmetric] ap_def [symmetric] case_prod_beta Let_def)
  have fresh: "i \<notin> fst ` set (but_prevDetailById ctx)" using ok i by (auto simp: batch_ctx_ok_def)
  have c: "but_prevLists ctx' = fold add_first (res_prevLists (snd ap)) (but_prevLists ctx)"
    "but_prevDetailById ctx' = but_prevDetailById ctx @
       (case res_prevDetail (snd ap) of None \<Rightarrow> [] | Some d \<Rightarrow> [(i, d)])"
    "but_prevInboxList ctx' = (case but_prevInboxList ctx of
       Some l \<Rightarrow> Some l | None \<Rightarrow> res_prevInboxList (snd ap))"
    "but_prevChildren ctx' = but_prevChildren ctx"
    using update_fresh [OF fresh]
    by (simp_all add: ctx'_def batch_update_step_def base_def [symmetric] ap_def [symmetric]
        case_prod_beta Let_def split: option.split)
  have lists: "list_key wsId k" if "(k, l) \<in> set (res_prevLists (snd ap))" for k l
    using that unfolding ap_def by (rule res_prevLists_keys)
  have old_lists: "list_key wsId k" if "(k, l) \<in> set (but_prevLists ctx)" for k l
    using that ok unfolding batch_ctx_ok_def by blast
  have new_lists: "(k, l) \<in> set (but_prevLists ctx) \<or>
      ((k, l) \<in> set (res_prevLists (snd ap)) \<and> (\<forall>u. (k, u) \<notin> set (but_prevLists ctx)))"
    if "(k, l) \<in> set (but_prevLists ctx')" for k l
    using that unfolding c by (rule fold_add_first_sound)
  have ok': "batch_ctx_ok wsId (insert i seen) ctx'"
    using ok new_lists lists old_lists by (fastforce simp: batch_ctx_ok_def c(2,4) split: option.splits)
  have ch: "but_prevChildren ctx = []" "but_prevChildren ctx' = []"
    using ok by (simp_all add: batch_ctx_ok_def c)
  have fresh': "(i, d) \<notin> set (but_prevDetailById ctx)" for d using fresh by force
  have not_listed: "(issueKeys_detail wsId j, l) \<notin> set (but_prevLists ctx)"
    "(inboxKeys_list wsId, l) \<notin> set (but_prevLists ctx)" for j l
    using old_lists list_key_not_other(2,4) by blast+
  note iffs = batch_snapshot_iff [OF ch(1)] batch_snapshot_iff [OF ch(2)] rollback_snapshot_iff
  note has = has_batch_snapshot [OF ok] has_batch_snapshot [OF ok'] has_rollback_snapshot
  have "(k, Some v) \<in> set (batch_entries wsId ctx) \<or>
      ((k, Some v) \<in> set (rollback_entries wsId i (snd ap)) \<and> \<not> has_snapshot (batch_entries wsId ctx) k)"
    if "(k, Some v) \<in> set (batch_entries wsId ctx')" for k v
  proof -
    note mem = that
    consider l where "v = CList l" "(k, l) \<in> set (but_prevLists ctx')"
      | j d where "k = issueKeys_detail wsId j" "v = CIssue d" "(j, d) \<in> set (but_prevDetailById ctx')"
      | l where "k = inboxKeys_list wsId" "v = CInbox l" "but_prevInboxList ctx' = Some l"
      using mem unfolding iffs by blast
    then show ?thesis
    proof cases
      case 1
      then have "list_key wsId k" using new_lists lists old_lists by blast
      then show ?thesis using new_lists [OF 1(2)] 1(1) unfolding iffs has by auto
    next
      case 2
      then show ?thesis using fresh' not_listed
        unfolding iffs has by (auto simp: c(2) split: option.splits)
    next
      case 3
      then show ?thesis using not_listed
        unfolding iffs has by (auto simp: c(3) split: option.splits)
    qed
  qed
  moreover have "has_snapshot (batch_entries wsId ctx') k"
    if "has_snapshot (batch_entries wsId ctx) k \<or> has_snapshot (rollback_entries wsId i (snd ap)) k" for k
    using that unfolding has c(1) fold_add_first_keys by (auto simp: c(2,3) split: option.split)
  ultimately have "snapshots_of cl (batch_entries wsId ctx') qc0 (fst ap)"
    using apply_snapshots [of wsId i patch "issueChangedDims patch base" base qc]
    by (intro snapshots_merge [OF inv]) (simp_all add: ap_def)
  with ok' show ?thesis by (simp add: step)
qed

lemma batch_fold_snapshots:
  assumes "snapshots_of cl (batch_entries wsId ctx) qc0 qc" "batch_ctx_ok wsId seen ctx"
    and "distinct ids" "set ids \<inter> seen = {}"
  shows "case fold (batch_update_step cl wsId patch) ids (qc, ctx) of (qc', ctx') \<Rightarrow>
    snapshots_of cl (batch_entries wsId ctx') qc0 qc' \<and> batch_ctx_ok wsId (set ids \<union> seen) ctx'"
  using assms
proof (induction ids arbitrary: qc ctx seen)
  case (Cons i ids)
  obtain qc1 ctx1 where st: "batch_update_step cl wsId patch i (qc, ctx) = (qc1, ctx1)" by fastforce
  have "snapshots_of cl (batch_entries wsId ctx1) qc0 qc1 \<and> batch_ctx_ok wsId (insert i seen) ctx1"
    using batch_step_snapshots [OF Cons.prems(1,2), of i patch] Cons.prems(4) by (simp add: st)
  then show ?case using Cons.IH [of ctx1 qc1 "insert i seen"] Cons.prems(3,4) by (simp add: st)
qed simp

lemma batch_children_snapshots:
  assumes "snapshots_of cl (batch_entries wsId ctx) qc0 qc" "distinct (map fst es)"
    and "\<forall>(k, d) \<in> set es. getQueryData cl qc0 k = d \<and> getQueryData cl qc k = d
      \<and> (d \<noteq> None \<longrightarrow> (\<exists>p. k = issueKeys_children wsId p \<and> p \<notin> fst ` set (but_prevChildren ctx)))"
  shows "case fold (batch_children_step cl wsId ids patch) es (qc, ctx) of (qc', ctx') \<Rightarrow>
    snapshots_of cl (batch_entries wsId ctx') qc0 qc'"
  using assms
proof (induction es arbitrary: qc ctx)
  case (Cons e es)
  obtain k d where e: "e = (k, d)" by (cases e)
  obtain qc1 ctx1 where st: "batch_children_step cl wsId ids patch e (qc, ctx) = (qc1, ctx1)" by fastforce
  show ?case
  proof (cases "(qc1, ctx1) = (qc, ctx)")
    case True
    then show ?thesis using Cons.IH [of ctx qc] Cons.prems st by simp
  next
    case False
    then obtain xs where d: "d = Some (CIssues xs)"
      using st by (cases "as_issues d") (auto simp: batch_children_step_def e split: if_splits)
    then obtain p where k: "k = issueKeys_children wsId p" and p: "p \<notin> fst ` set (but_prevChildren ctx)"
      using Cons.prems(3) by (auto simp: e)
    let ?f = "\<lambda>old. map_option (\<lambda>xs. CIssues (map (\<lambda>c. if iss_id c \<in> set ids then merge_issue c patch else c) xs))
      (as_issues old)"
    have qc1: "qc1 = updateQueryData cl k ?f qc" and c1: "but_prevChildren ctx1 = but_prevChildren ctx @ [(p, d)]"
      "batch_entries wsId ctx1 = batch_entries wsId ctx @ [(k, d)]"
      using st False update_fresh [OF p]
      by (auto simp: batch_children_step_def e d k batch_entries_def split: if_splits)
    have "snapshots_of cl (batch_entries wsId ctx1) qc0 qc1"
      unfolding c1 using Cons.prems(1,3)
      by (intro snapshots_extend [OF Cons.prems(1)]) (auto simp: qc1 get_update e d)
    moreover have "\<forall>(j, x) \<in> set es. getQueryData cl qc0 j = x \<and> getQueryData cl qc1 j = x
        \<and> (x \<noteq> None \<longrightarrow> (\<exists>q. j = issueKeys_children wsId q \<and> q \<notin> fst ` set (but_prevChildren ctx1)))"
    proof (clarify)
      fix j x assume j: "(j, x) \<in> set es"
      then have "j \<noteq> k" using Cons.prems(2) by (force simp: e)
      then show "getQueryData cl qc0 j = x \<and> getQueryData cl qc1 j = x
        \<and> (x \<noteq> None \<longrightarrow> (\<exists>q. j = issueKeys_children wsId q \<and> q \<notin> fst ` set (but_prevChildren ctx1)))"
        using Cons.prems(3) j k by (fastforce simp: qc1 get_update c1)
    qed
    ultimately show ?thesis using Cons.IH [of ctx1 qc1] Cons.prems(2) by (simp add: st)
  qed
qed simp

lemma selected_not_special:
  assumes "filter_selects (by_prefix (issueKeys_all wsId @ [KStr ''children''])) k"
  shows "\<not> list_key wsId k" "k \<noteq> issueKeys_detail wsId i" "k \<noteq> inboxKeys_list wsId"
proof -
  have "take 3 k = [KStr ''issues'', KStr wsId, KStr ''children'']"
    using assms by (simp add: by_prefix_selects query_key_defs numeral_3_eq_3)
  then show "\<not> list_key wsId k" "k \<noteq> issueKeys_detail wsId i" "k \<noteq> inboxKeys_list wsId"
    by (auto simp: list_key_def by_prefix_selects query_key_defs numeral_3_eq_3)
qed

lemma batch_restores:
  assumes ids: "distinct ids"
    and shape: "\<forall>k v. filter_selects (by_prefix (issueKeys_all wsId @ [KStr ''children''])) k
      \<and> getQueryData cl qc k = Some v \<longrightarrow> (\<exists>p. k = issueKeys_children wsId p)"
  shows "(let (qc', ctx) = batchUpdate_mutate cl wsId ids vars qc in
    \<forall>k. getQueryData cl (batchUpdate_error cl wsId (Some ctx) qc') k = getQueryData cl qc k)"
proof -
  obtain qc1 ctx1 where run: "fold (batch_update_step cl wsId (upd_patch vars)) ids (qc, empty_batch_ctx) = (qc1, ctx1)"
    by fastforce
  have "snapshots_of cl (batch_entries wsId empty_batch_ctx) qc qc" "batch_ctx_ok wsId {} empty_batch_ctx"
    by (simp_all add: snapshots_of_def batch_entries_def empty_batch_ctx_def batch_ctx_ok_def)
  from batch_fold_snapshots [OF this ids, of "upd_patch vars"]
  have snaps: "snapshots_of cl (batch_entries wsId ctx1) qc qc1" and ok: "batch_ctx_ok wsId (set ids) ctx1"
    by (simp_all add: run)
  let ?es = "getQueriesData cl qc1 (by_prefix (issueKeys_all wsId @ [KStr ''children'']))"
  have "\<forall>(k, d) \<in> set ?es. getQueryData cl qc k = d \<and> getQueryData cl qc1 k = d
      \<and> (d \<noteq> None \<longrightarrow> (\<exists>p. k = issueKeys_children wsId p \<and> p \<notin> fst ` set (but_prevChildren ctx1)))"
  proof clarify
    fix k d assume "(k, d) \<in> set ?es"
    then have sel: "filter_selects (by_prefix (issueKeys_all wsId @ [KStr ''children''])) k"
      and now: "getQueryData cl qc1 k = d" using queries_sound by blast+
    have "\<not> has_snapshot (batch_entries wsId ctx1) k"
      using selected_not_special [OF sel] ok unfolding has_batch_snapshot [OF ok] batch_ctx_ok_def by blast
    then have "getQueryData cl qc k = d"
      using snaps now unfolding snapshots_of_def has_snapshot_def by metis
    then show "getQueryData cl qc k = d \<and> getQueryData cl qc1 k = d
      \<and> (d \<noteq> None \<longrightarrow> (\<exists>p. k = issueKeys_children wsId p \<and> p \<notin> fst ` set (but_prevChildren ctx1)))"
      using now shape sel ok by (auto simp: batch_ctx_ok_def)
  qed
  from batch_children_snapshots [OF snaps queries_distinct this, of ids "upd_patch vars"]
  show ?thesis
    by (auto simp: batchUpdate_mutate_def run batch_error_as_restore case_prod_beta Let_def intro: restore_get)
qed

end

section \<open>Deletions\<close>

definition touches :: "'q query_client \<Rightarrow> query_key set \<Rightarrow> 'q \<Rightarrow> 'q \<Rightarrow> bool" where
  "touches cl S qc qc' \<longleftrightarrow>
     (\<forall>k. getQueryData cl qc' k \<noteq> getQueryData cl qc k \<longrightarrow> k \<in> S \<and> getQueryData cl qc k \<noteq> None)"

lemma touches_refl [simp]: "touches cl S qc qc"
  by (simp add: touches_def)

lemma touches_trans: "touches cl S a b \<Longrightarrow> touches cl S b c \<Longrightarrow> touches cl S a c"
  unfolding touches_def by metis

lemma touches_mono: "touches cl S a b \<Longrightarrow> S \<subseteq> T \<Longrightarrow> touches cl T a b"
  unfolding touches_def by blast

lemma set_add_once: "set (add_once x xs) = insert x (set xs)"
  by (auto simp: add_once_def)

lemma set_fold_add_once: "set (fold add_once ps xs) = set ps \<union> set xs"
  by (induction ps arbitrary: xs) (auto simp: set_add_once)

lemma set_metadata_parents:
  "set (fold (\<lambda>(_, ps). fold add_once ps) md xs) = \<Union> (set ` snd ` set md) \<union> set xs"
  by (induction md arbitrary: xs) (auto simp: set_fold_add_once)

text \<open>The queries a deletion writes.\<close>

definition deletion_keys :: "string \<Rightarrow> string list \<Rightarrow> query_key set" where
  "deletion_keys wsId parents = {k. list_key wsId k} \<union> issueKeys_children wsId ` set parents"

context query_cache
begin

lemma touches_snapshots:
  assumes "touches cl S qc0 qc" "\<forall>k\<in>S. (k, getQueryData cl qc0 k) \<in> set es"
    and "\<forall>(k, d) \<in> set es. d = getQueryData cl qc0 k"
  shows "snapshots_of cl es qc0 qc"
  using assms unfolding touches_def snapshots_of_def by (auto; metis not_None_eq)

lemma touches_prune_keys: "touches cl (set ks) qc (snd (prune_keys cl i ks qc))"
proof (induction ks arbitrary: qc)
  case (Cons k ks)
  show ?case
  proof (cases "read_list (getQueryData cl qc k)")
    case (Inr d)
    have "touches cl (set (k # ks)) qc (setQueryData cl k (CList (removeIssueFromBuckets l i)) qc)" if "d = Some l" for l
      using Inr that by (auto simp: touches_def get_set read_list_Some)
    then show ?thesis
      using Inr touches_mono [OF Cons.IH, of "set (k # ks)"] by (cases d) (auto intro: touches_trans)
  qed simp
qed simp

lemma touches_prune_lists:
  "touches cl {k. list_key wsId k} qc (snd (pruneDeletedIssueFromListCaches cl wsId i qc))"
proof -
  have sel: "set (map fst (getQueriesData cl q (by_prefix p))) \<subseteq> {k. list_key wsId k}"
    if "p = issueKeys_list wsId \<or> p = issueKeys_myAll wsId" for q p
    using that queries_sound by (fastforce simp: list_key_def)
  let ?q1 = "prune_keys cl i (map fst (getQueriesData cl qc (by_prefix (issueKeys_list wsId)))) qc"
  have "touches cl {k. list_key wsId k} qc (snd ?q1)"
    using touches_mono [OF touches_prune_keys sel] by blast
  moreover have "touches cl {k. list_key wsId k} q
      (snd (prune_keys cl i (map fst (getQueriesData cl q (by_prefix (issueKeys_myAll wsId)))) q))" for q
    using touches_mono [OF touches_prune_keys sel] by blast
  ultimately show ?thesis
    by (cases ?q1; cases "fst ?q1")
      (auto simp: pruneDeletedIssueFromListCaches_def and_then_def intro: touches_trans)
qed

lemma touches_prune_children:
  "touches cl (issueKeys_children wsId ` set ps) qc (pruneDeletedIssueFromParentChildrenCaches cl wsId i ps qc)"
proof (induction ps arbitrary: qc)
  case (Cons p ps)
  let ?q = "updateQueryData cl (issueKeys_children wsId p)
      (\<lambda>old. map_option (\<lambda>xs. CIssues (filter (\<lambda>x. iss_id x \<noteq> i) xs)) (as_issues old)) qc"
  have "touches cl (issueKeys_children wsId ` set (p # ps)) qc ?q"
    by (auto simp: touches_def get_update split: if_splits)
  moreover have "touches cl (issueKeys_children wsId ` set (p # ps)) ?q
      (pruneDeletedIssueFromParentChildrenCaches cl wsId i ps ?q)"
    by (rule touches_mono [OF Cons.IH]) auto
  ultimately show ?case
    by (auto simp: pruneDeletedIssueFromParentChildrenCaches_def intro: touches_trans)
qed (simp add: pruneDeletedIssueFromParentChildrenCaches_def)

lemma touches_prune_issues:
  assumes "\<forall>(i, ps) \<in> set md. set ps \<subseteq> set parents"
  shows "touches cl (deletion_keys wsId parents) qc (snd (prune_issues cl wsId md ids qc))"
proof (induction ids arbitrary: qc)
  case (Cons i ids)
  obtain r q where pr: "pruneDeletedIssueFromListCaches cl wsId i qc = (r, q)" by fastforce
  have lists: "touches cl (deletion_keys wsId parents) qc q"
    using touches_mono [OF touches_prune_lists [of wsId qc i]] by (auto simp: pr deletion_keys_def)
  have "touches cl (deletion_keys wsId parents) q (pruneDeletedIssueFromParentChildrenCaches cl wsId i ps q)"
    if "map_of md i = Some ps" for ps
  proof -
    have "set ps \<subseteq> set parents" using map_of_SomeD [OF that] assms by auto
    then show ?thesis
      by (intro touches_mono [OF touches_prune_children]) (auto simp: deletion_keys_def)
  qed
  then have "touches cl (deletion_keys wsId parents) q (case map_of md i of None \<Rightarrow> q
      | Some ps \<Rightarrow> pruneDeletedIssueFromParentChildrenCaches cl wsId i ps q)"
    by (auto split: option.split)
  from touches_trans [OF touches_trans [OF lists this] Cons.IH] lists show ?case
    by (cases r) (simp_all add: pr and_then_def)
qed simp

lemma list_entries_sound:
  "(k, d) \<in> set (getQueriesData cl qc (by_prefix (issueKeys_list wsId)) @
     getQueriesData cl qc (by_prefix (issueKeys_myAll wsId))) \<Longrightarrow> d = getQueryData cl qc k"
  using queries_sound by auto

lemma list_entries_complete:
  assumes "list_key wsId k" "getQueryData cl qc k = Some v"
  shows "(k, Some v) \<in> set (getQueriesData cl qc (by_prefix (issueKeys_list wsId)) @
     getQueriesData cl qc (by_prefix (issueKeys_myAll wsId)))"
  using assms queries_complete by (auto simp: list_key_def)

text \<open>The snapshots both deletions take suffice for what they write.\<close>

lemma deletion_snapshots:
  assumes "touches cl (deletion_keys wsId parents) qc qc'"
  shows "snapshots_of cl ((getQueriesData cl qc (by_prefix (issueKeys_list wsId)) @
      getQueriesData cl qc (by_prefix (issueKeys_myAll wsId))) @
      map (\<lambda>(p, d). (issueKeys_children wsId p, d)) (children_snapshots cl wsId parents qc)) qc qc'"
proof -
  have "\<exists>v. (k, Some v) \<in> set (getQueriesData cl qc (by_prefix (issueKeys_list wsId)) @
        getQueriesData cl qc (by_prefix (issueKeys_myAll wsId)))
      \<or> (k, Some v) \<in> set (map (\<lambda>(p, d). (issueKeys_children wsId p, d)) (children_snapshots cl wsId parents qc))"
    if "getQueryData cl qc' k \<noteq> getQueryData cl qc k" for k
  proof -
    from that assms obtain v where k: "k \<in> deletion_keys wsId parents" and v: "getQueryData cl qc k = Some v"
      by (auto simp: touches_def)
    from k consider "list_key wsId k" | q where "q \<in> set parents" "k = issueKeys_children wsId q"
      by (auto simp: deletion_keys_def)
    then show ?thesis
    proof cases
      case 1
      then show ?thesis using list_entries_complete [OF 1 v] by blast
    next
      case 2
      then show ?thesis using v by (force simp: children_snapshots_def)
    qed
  qed
  moreover have "getQueryData cl qc k = Some v"
    if "(k, Some v) \<in> set (map (\<lambda>(p, d). (issueKeys_children wsId p, d)) (children_snapshots cl wsId parents qc))"
    for k v
    using that by (auto simp: children_snapshots_def)
  moreover have "getQueryData cl qc k = Some v"
    if "(k, Some v) \<in> set (getQueriesData cl qc (by_prefix (issueKeys_list wsId)) @
        getQueriesData cl qc (by_prefix (issueKeys_myAll wsId)))" for k v
    using list_entries_sound [OF that] by simp
  ultimately show ?thesis
    unfolding snapshots_of_def set_append [of "_ @ _"] Un_iff by blast
qed

lemma batch_delete_restores:
  assumes "batchDelete_mutate cl wsId ids qc = (qc', Inr ctx)"
  shows "getQueryData cl (batchDelete_error cl wsId (Some ctx) qc') k = getQueryData cl qc k"
proof -
  obtain entries where md: "collect_metadata cl wsId ids qc = Inr entries"
    using assms by (cases "collect_metadata cl wsId ids qc") (simp_all add: batchDelete_mutate_def)
  define metadata where "metadata = fold (\<lambda>(k, v). AList.update k v) entries []"
  define parents where "parents = fold (\<lambda>(_, ps). fold add_once ps) metadata []"
  obtain r q where pr: "prune_issues cl wsId metadata ids qc = (r, q)" by fastforce
  have run: "qc' = q" "bdc_prevLists ctx = getQueriesData cl qc (by_prefix (issueKeys_list wsId))"
    "bdc_prevMyLists ctx = getQueriesData cl qc (by_prefix (issueKeys_myAll wsId))"
    "bdc_prevChildren ctx = children_snapshots cl wsId parents qc"
    using assms by (auto simp: batchDelete_mutate_def md Let_def metadata_def [symmetric]
        parents_def [symmetric] pr split: option.splits)
  have "\<forall>(i, ps) \<in> set metadata. set ps \<subseteq> set parents"
    unfolding parents_def set_metadata_parents by force
  from deletion_snapshots [OF touches_prune_issues [OF this, where qc = qc and ids = ids and wsId = wsId]] have
    "getQueryData cl (restore_queries cl ((bdc_prevLists ctx @ bdc_prevMyLists ctx) @
       map (\<lambda>(p, d). (issueKeys_children wsId p, d)) (bdc_prevChildren ctx)) qc') k = getQueryData cl qc k"
    using restore_get by (simp add: run pr)
  then show ?thesis
    unfolding batchDelete_error_def option.case restore_children_def restore_queries_append .
qed

lemma delete_restores:
  assumes run: "deleteIssue_mutate cl wsId i qc = (qc', Inr ctx)"
    and shape: "\<forall>k v. filter_selects (by_prefix (issueKeys_detail wsId i)) k \<and> getQueryData cl qc k = Some v
      \<longrightarrow> k = issueKeys_detail wsId i"
  shows "getQueryData cl (deleteIssue_error cl wsId (Some ctx) qc') k = getQueryData cl qc k"
proof -
  obtain parents where md: "collectDeletedIssueCacheMetadata cl wsId i qc = Inr parents"
    using run by (cases "collectDeletedIssueCacheMetadata cl wsId i qc") (simp_all add: deleteIssue_mutate_def)
  obtain r q where pr: "pruneDeletedIssueFromListCaches cl wsId i qc = (r, q)" by fastforce
  let ?q2 = "pruneDeletedIssueFromParentChildrenCaches cl wsId i parents q"
  have c: "qc' = removeQueries cl (by_prefix (issueKeys_detail wsId i)) ?q2"
    "dct_prevLists ctx = getQueriesData cl qc (by_prefix (issueKeys_list wsId))" "dct_id ctx = i"
    "dct_prevMyLists ctx = getQueriesData cl qc (by_prefix (issueKeys_myAll wsId))"
    "dct_prevDetail ctx = getQueryData cl qc (issueKeys_detail wsId i)"
    "dct_prevChildren ctx = children_snapshots cl wsId parents qc"
    using run by (auto simp: deleteIssue_mutate_def md pr Let_def split: option.splits)
  have "touches cl (deletion_keys wsId parents) qc q"
    using touches_mono [OF touches_prune_lists [of wsId qc i]] by (auto simp: pr deletion_keys_def)
  moreover have "touches cl (deletion_keys wsId parents) q ?q2"
    by (intro touches_mono [OF touches_prune_children]) (auto simp: deletion_keys_def)
  ultimately have t: "touches cl (deletion_keys wsId parents) qc ?q2" by (rule touches_trans)
  let ?lists = "dct_prevLists ctx @ dct_prevMyLists ctx"
    and ?children = "map (\<lambda>(p, d). (issueKeys_children wsId p, d)) (dct_prevChildren ctx)"
    and ?detail = "(issueKeys_detail wsId i, dct_prevDetail ctx)"
  have s: "snapshots_of cl (?lists @ ?children) qc ?q2"
    using deletion_snapshots [OF t] by (simp add: c)
  have "\<exists>v. (j, Some v) \<in> set (?lists @ [?detail] @ ?children)"
    if ch: "getQueryData cl qc' j \<noteq> getQueryData cl qc j" for j
  proof (cases "filter_selects (by_prefix (issueKeys_detail wsId i)) j")
    case True
    then have "getQueryData cl qc' j = None" by (simp add: c get_remove)
    then obtain v where "getQueryData cl qc j = Some v" using ch by (cases "getQueryData cl qc j") auto
    moreover have "j = issueKeys_detail wsId i" using shape True calculation by blast
    ultimately show ?thesis by (intro exI [of _ v]) (simp add: c)
  next
    case False
    then have "getQueryData cl ?q2 j \<noteq> getQueryData cl qc j" using ch by (simp add: c get_remove)
    then obtain v where "(j, Some v) \<in> set (?lists @ ?children)" using s unfolding snapshots_of_def by blast
    then show ?thesis unfolding set_append Un_iff by blast
  qed
  then have "snapshots_of cl (?lists @ [?detail] @ ?children) qc qc'"
    using s c(5) unfolding snapshots_of_def set_append Un_iff by fastforce
  from restore_get [OF this] show ?thesis
    unfolding deleteIssue_error_def option.case restore_children_def c(3) restore_queries_append .
qed

end

section \<open>Updates that succeed\<close>

definition no_change :: issue_changed_dims where
  "no_change = \<lparr>chg_assignee = False, chg_project = False, chg_status = False\<rparr>"

lemma no_change_independent [simp]: "\<not> listFilterDependsOn scope flt no_change"
  by (simp add: listFilterDependsOn_def no_change_def)

lemma reconcile_no_change:
  "reconcileList i patch no_change base key data = reconcileList i patch no_change None key data"
  by (simp add: reconcileList_def Let_def split: prod.split option.split) (simp add: no_change_def)

text \<open>The server did what the request asked for, in the fields the lists filter on.\<close>

definition agrees_on_dims :: "issue \<Rightarrow> issue \<Rightarrow> bool" where
  "agrees_on_dims i j \<longleftrightarrow> iss_id i = iss_id j \<and> iss_creator_id i = iss_creator_id j
     \<and> iss_assignee_id i = iss_assignee_id j \<and> iss_assignee_type i = iss_assignee_type j
     \<and> iss_project_id i = iss_project_id j \<and> iss_status i = iss_status j"

lemma intent_no_change:
  assumes "agrees_on_dims srv (merge_issue old p)"
  shows "issueChangedDims p (Some srv) = no_change"
  using assms
  by (auto simp: agrees_on_dims_def issueChangedDims_def no_change_def field_changed_def merge_issue_def
      split: option.split)

lemma replace_twice:
  assumes "inj_on iss_id db" "old \<in> db" "iss_id mid = iss_id old"
  shows "replace_issue (replace_issue db old mid) mid srv = replace_issue db old srv"
  using assms by (auto simp: replace_issue_def inj_on_def)

context query_cache
begin

lemma settled_get: "getQueryData cl (updateIssue_settled cl wsId i vars ctx qc) j = getQueryData cl qc j"
  by (simp add: updateIssue_settled_def Let_def get_invalidate get_derivatives get_invalidateStale
      invalidateStaleListKeys_def split: option.split)

lemma settled_invalid:
  assumes "getQueryData cl qc j \<noteq> None"
    and "isInvalidated cl qc j \<or> j \<in> set (res_staleKeys (uct_change c))"
  shows "isInvalidated cl (updateIssue_settled cl wsId i vars (Some c) qc) j"
proof -
  let ?q = "invalidateStaleListKeys cl (res_staleKeys (uct_change c))
    (invalidateIssueDerivatives cl wsId (pat_status (upd_patch vars) \<noteq> None \<or> pat_project_id (upd_patch vars) \<noteq> None) qc)"
  have "isInvalidated cl ?q j" "getQueryData cl ?q j \<noteq> None"
    using assms by (auto simp: invalidateStaleListKeys_def invalid_invalidateStale get_invalidateStale
        get_derivatives invalid_derivatives)
  then show ?thesis
    by (simp add: updateIssue_settled_def Let_def get_invalidate invalid_invalidate)
qed

lemma mutate_list:
  assumes "(key, l) \<in> set (bucketedListEntries cl (fst (updateIssue_mutate cl wsId i vars qc)) wsId)"
  defines "base \<equiv> as_issue (getQueryData cl qc (issueKeys_detail wsId i))"
  defines "ap \<equiv> applyIssueChange cl wsId i (upd_patch vars) (issueChangedDims (upd_patch vars) base) base qc"
  shows "(key, l) \<in> set (bucketedListEntries cl (fst ap) wsId)"
    and "uct_change (snd (updateIssue_mutate cl wsId i vars qc)) = snd ap"
proof -
  have "key \<noteq> issueKeys_children wsId p" for p
    using assms(1) list_key_not_other(1) by (auto simp: entries_list_key)
  then show "(key, l) \<in> set (bucketedListEntries cl (fst ap) wsId)"
    using assms(1) unfolding entries_list_key
    by (auto simp: updateIssue_mutate_def base_def [symmetric] ap_def [symmetric] case_prod_beta Let_def
        get_update split: if_splits)
  show "uct_change (snd (updateIssue_mutate cl wsId i vars qc)) = snd ap"
    by (simp add: updateIssue_mutate_def base_def [symmetric] ap_def [symmetric] case_prod_beta Let_def)
qed

lemma update_accurate:
  assumes fin: "finite db" and inj: "inj_on iss_id db" and old: "old \<in> db"
    and cached: "as_issue (getQueryData cl qc (issueKeys_detail wsId (iss_id old))) \<in> {None, Some old}"
    and pid: "iss_id (merge_issue old (upd_patch vars)) = iss_id old"
    and creator: "iss_creator_id (merge_issue old (upd_patch vars)) = iss_creator_id old"
    and dims: "agrees_on_dims srv (merge_issue old (upd_patch vars))"
    and full: "merge_issue (merge_issue old (upd_patch vars)) ((partial_of srv)\<lparr>pat_properties := None\<rparr>) = srv"
    and reads: "\<forall>u. reads_actors (involves u)" "reads_actors related"
    and acc: "\<forall>(key, l) \<in> set (bucketedListEntries cl qc wsId).
      list_accurate (key_member involves related key) db l"
  shows "(let (qc1, ctx) = updateIssue_mutate cl wsId (iss_id old) vars qc;
      qc2 = updateIssue_success cl wsId srv vars qc1;
      qc3 = updateIssue_settled cl wsId (iss_id old) vars (Some ctx) qc2
    in \<forall>(key, l) \<in> set (bucketedListEntries cl qc3 wsId).
      isInvalidated cl qc3 key
      \<or> list_accurate (key_member involves related key) (replace_issue db old srv) l)"
proof -
  define qc1 where "qc1 = fst (updateIssue_mutate cl wsId (iss_id old) vars qc)"
  define ctx where "ctx = snd (updateIssue_mutate cl wsId (iss_id old) vars qc)"
  define p2 where "p2 = (partial_of srv)\<lparr>pat_properties := None\<rparr>"
  define mid where "mid = merge_issue old (upd_patch vars)"
  define ap where "ap = applyIssueChange cl wsId (iss_id srv) p2 no_change (Some srv) qc1"
  define qc2 where "qc2 = updateIssue_success cl wsId srv vars qc1"
  define qc3 where "qc3 = updateIssue_settled cl wsId (iss_id old) vars (Some ctx) qc2"
  have qc2: "qc2 = invalidateStaleListKeys cl (res_staleKeys (snd ap)) (fst ap)"
    by (simp add: qc2_def updateIssue_success_def intent_no_change [OF dims] p2_def [symmetric]
        ap_def [symmetric] case_prod_beta Let_def)
  have ids: "iss_id srv = iss_id old" "iss_id srv = iss_id mid"
    using dims pid by (simp_all add: agrees_on_dims_def mid_def)
  have cover: "dims_cover (issueChangedDims (upd_patch vars) base) old mid" if "base \<in> {None, Some old}" for base
    using issueChangedDims_sound [of base old "upd_patch vars" involves related] that creator reads
    by (auto simp: Let_def mid_def)
  have "isInvalidated cl qc3 key \<or> list_accurate (key_member involves related key) (replace_issue db old srv) l"
    if entry: "(key, l) \<in> set (bucketedListEntries cl qc3 wsId)" for key l
  proof -
    have now: "getQueryData cl (fst ap) key = Some (CList l)" "getQueryData cl qc2 key \<noteq> None"
      "(key, l) \<in> set (bucketedListEntries cl (fst ap) wsId)"
      using entry by (simp_all add: entries_list_key qc3_def settled_get qc2 invalidateStaleListKeys_def
          get_invalidateStale)
    have flagged: "isInvalidated cl qc3 key"
      if "key \<in> set (res_staleKeys (snd ap)) \<or> key \<in> set (res_staleKeys (uct_change ctx))"
      unfolding qc3_def using that now by (intro settled_invalid)
        (auto simp: qc2 invalidateStaleListKeys_def invalid_invalidateStale)
    obtain l0 where l0: "(key, l0) \<in> set (bucketedListEntries cl qc1 wsId)"
      and l: "l = (case fst (reconcileList (iss_id srv) p2 no_change (Some srv) key l0) of None \<Rightarrow> l0 | Some l' \<Rightarrow> l')"
      and st: "snd (reconcileList (iss_id srv) p2 no_change (Some srv) key l0) \<Longrightarrow>
        key \<in> set (res_staleKeys (snd ap))"
      using apply_list [OF now(3) [unfolded ap_def]] unfolding ap_def by blast
    obtain scope flt where c: "listContractFromKey key = (scope, flt)" by (cases "listContractFromKey key")
    let ?base = "as_issue (getQueryData cl qc (issueKeys_detail wsId (iss_id old)))"
    have base: "?base = None \<or> ?base = Some old" using cached by blast
    have "key \<in> set (res_staleKeys (uct_change ctx))
        \<or> list_accurate (key_member involves related key) (replace_issue db old mid) l0"
      using apply_accurate [OF fin inj old base pid creator reads _ acc, folded mid_def, OF cover [OF cached]]
        mutate_list [OF l0 [unfolded qc1_def]]
      by (auto simp: ctx_def case_prod_beta Let_def)
    then show ?thesis
    proof
      assume m: "list_accurate (key_member involves related key) (replace_issue db old mid) l0"
      have "finite (replace_issue db old mid)" "mid \<in> replace_issue db old mid"
        "inj_on iss_id (replace_issue db old mid)"
        using fin inj old pid by (auto simp: replace_issue_def mid_def inj_on_def)
      moreover have "dims_cover no_change mid (merge_issue mid p2)" "iss_id (merge_issue mid p2) = iss_id mid"
        "iss_creator_id (merge_issue mid p2) = iss_creator_id mid"
        using dims full by (auto simp: dims_cover_def agrees_on_dims_def mid_def p2_def)
      ultimately have "snd (reconcileList (iss_id mid) p2 no_change None key l0) \<or>
          list_accurate (server_member involves related scope flt) (replace_issue (replace_issue db old mid) mid (merge_issue mid p2))
            (case fst (reconcileList (iss_id mid) p2 no_change None key l0) of None \<Rightarrow> l0 | Some l \<Rightarrow> l)"
        using m c by (intro reconcile_accurate [OF c _ _ _ _ _ _ reads]) (auto simp: key_member_def)
      moreover have "replace_issue (replace_issue db old mid) mid srv = replace_issue db old srv"
        using replace_twice [OF inj old] ids by simp
      moreover have "merge_issue mid p2 = srv" using full by (simp add: mid_def p2_def)
      ultimately show ?thesis using flagged st l reconcile_no_change [of "iss_id srv" p2 "Some srv" key l0] ids(2)
        by (auto simp: key_member_def c)
    qed (use flagged in blast)
  qed
  then show ?thesis
    by (auto simp: case_prod_beta Let_def qc1_def [symmetric] ctx_def [symmetric] qc2_def [symmetric]
        qc3_def [symmetric])
qed

end

section \<open>Deletions that start, and deletions that cannot\<close>

definition lists_ok :: "'q query_client \<Rightarrow> string \<Rightarrow> 'q \<Rightarrow> bool" where
  "lists_ok cl wsId qc \<longleftrightarrow>
     (\<forall>k v. list_key wsId k \<and> getQueryData cl qc k = Some v \<longrightarrow> (\<exists>l. v = CList l))"

context query_cache
begin

lemma collect_metadata_run:
  assumes "lists_ok cl wsId qc"
  shows "\<exists>md. collect_metadata cl wsId ids qc = Inr md"
proof (induction ids)
  case (Cons i ids)
  obtain ps where "collectDeletedIssueCacheMetadata cl wsId i qc = Inr ps"
    using collect_run assms unfolding lists_ok_def by metis
  with Cons show ?case by auto
qed simp

lemma lists_ok_prune:
  assumes "lists_ok cl wsId qc"
  shows "lists_ok cl wsId (snd (pruneDeletedIssueFromListCaches cl wsId i qc))"
  using assms prune_lists_run(2) [of wsId qc i] unfolding lists_ok_def
  by (auto split: option.splits)

lemma lists_ok_children: "lists_ok cl wsId (pruneDeletedIssueFromParentChildrenCaches cl wsId i ps qc) = lists_ok cl wsId qc"
  unfolding lists_ok_def using get_prune_children by metis

lemma prune_issues_run: "lists_ok cl wsId qc \<Longrightarrow> fst (prune_issues cl wsId md ids qc) = None"
proof (induction ids arbitrary: qc)
  case (Cons i ids)
  obtain r q where pr: "pruneDeletedIssueFromListCaches cl wsId i qc = (r, q)" by fastforce
  have "r = None" using prune_lists_run(1) [of wsId qc i] Cons.prems by (simp add: pr lists_ok_def)
  moreover have "lists_ok cl wsId q" using lists_ok_prune [OF Cons.prems, of i] by (simp add: pr)
  ultimately show ?case
    using Cons.IH by (simp add: pr and_then_def lists_ok_children split: option.split)
qed simp

lemma delete_starts:
  assumes "lists_ok cl wsId qc"
  shows "\<exists>qc' ctx. deleteIssue_mutate cl wsId i qc = (qc', Inr ctx)"
proof -
  obtain ps where "collectDeletedIssueCacheMetadata cl wsId i qc = Inr ps"
    using collect_run assms unfolding lists_ok_def by metis
  moreover have "fst (pruneDeletedIssueFromListCaches cl wsId i qc) = None"
    using prune_lists_run(1) assms by (simp add: lists_ok_def)
  ultimately show ?thesis
    by (cases "pruneDeletedIssueFromListCaches cl wsId i qc") (simp add: deleteIssue_mutate_def)
qed

lemma batch_delete_starts:
  assumes "lists_ok cl wsId qc"
  shows "\<exists>qc' ctx. batchDelete_mutate cl wsId ids qc = (qc', Inr ctx)"
proof -
  obtain md where md: "collect_metadata cl wsId ids qc = Inr md"
    using collect_metadata_run [OF assms] by blast
  show ?thesis
    using prune_issues_run [OF assms, of "fold (\<lambda>(k, v). AList.update k v) md []" ids]
    by (cases "prune_issues cl wsId (fold (\<lambda>(k, v). AList.update k v) md []) ids qc")
      (simp add: batchDelete_mutate_def md Let_def)
qed

lemma collect_blocked:
  assumes "getQueryData cl qc (issueKeys_myAssigneeGroups wsId scope flt) = Some (CGrouped g)"
  shows "collectDeletedIssueCacheMetadata cl wsId i qc = Inl TypeError"
proof -
  let ?k = "issueKeys_myAssigneeGroups wsId scope flt"
  have "filter_selects (by_prefix (issueKeys_myAll wsId)) ?k"
    by (simp add: by_prefix_selects query_key_defs)
  then have "(?k, Some (CGrouped g)) \<in> set (getQueriesData cl qc (by_prefix (issueKeys_myAll wsId)))"
    using assms by (rule queries_complete [rotated])
  then have "collect_from_lists i (getQueriesData cl qc (by_prefix (issueKeys_myAll wsId))) ps =
      Inl TypeError" for ps by (rule collect_lists_raise) simp
  then show ?thesis
    by (auto simp: collectDeletedIssueCacheMetadata_def Let_def intro: js_error.exhaust split: sum.split)
qed

end

end
