(* ===== verification/Timeline.thy ===== *)
theory Timeline
  imports Js_Sort Query_Client "HOL-Library.AList"
begin

text \<open>
  The comment mutations on the cached timeline of an issue (\<open>packages/core/issues/mutations.ts\<close>,
  \<open>issues/timeline-sort.ts\<close>): create, update, delete with its cascade, resolve with its thread.
  The cache is the data of one query, \<open>None\<close> before it is loaded; each mutation is the update it
  makes when it starts or succeeds, with the snapshot a failure puts back.  Attachments are
  their ids, the details of an activity a text: nothing here looks inside them.
\<close>

section \<open>Entries\<close>

datatype entry_type = Activity_entry | Comment_entry

record comment_reaction =
  rct_id :: string
  rct_comment_id :: string
  rct_actor_type :: string
  rct_actor_id :: string
  rct_emoji :: string
  rct_created_at :: string

record timeline_entry =
  tle_type :: entry_type
  tle_id :: string
  tle_actor_type :: string
  tle_actor_id :: string
  tle_created_at :: string
  tle_action :: "string option"
  tle_details :: "string option"
  tle_content :: "string option"
  tle_parent_id :: "string option"
  tle_updated_at :: "string option"
  tle_comment_type :: "string option"
  tle_reactions :: "comment_reaction list option"
  tle_attachments :: "string list option"
  tle_resolved_at :: "string option"
  tle_resolved_by_type :: "string option"
  tle_resolved_by_id :: "string option"
  tle_source_task_id :: "string option"
  tle_coalesced_count :: "int option"

type_synonym timeline_cache = "timeline_entry list option"

definition compare_entries :: "timeline_entry \<Rightarrow> timeline_entry \<Rightarrow> rat option" where
  "compare_entries a b =
     (if tle_created_at a \<noteq> tle_created_at b
      then Some (if str_less (tle_created_at a) (tle_created_at b) then -1 else 1)
      else Some (if str_less (tle_id a) (tle_id b) then -1 else 1))"

definition sortTimelineEntriesAsc :: "timeline_entry list \<Rightarrow> timeline_entry list" where
  "sortTimelineEntriesAsc entries = js_sort compare_entries entries"

section \<open>Creating and editing\<close>

text \<open>The server's answer to a new comment; missing lists become empty ones.\<close>

record trigger_outcome =
  tro_target_type :: string
  tro_target_id :: string
  tro_status :: string
  tro_reason_code :: string

record new_comment =
  ncm_id :: string
  ncm_issue_id :: string
  ncm_author_type :: string
  ncm_author_id :: string
  ncm_content :: string
  ncm_parent_id :: "string option"
  ncm_type :: string
  ncm_reactions :: "comment_reaction list option"
  ncm_attachments :: "string list option"
  ncm_created_at :: string
  ncm_updated_at :: string
  ncm_resolved_at :: "string option"
  ncm_resolved_by_type :: "string option"
  ncm_resolved_by_id :: "string option"
  ncm_source_task_id :: "string option"
  ncm_trigger_outcomes :: "trigger_outcome list option"

definition entry_of_comment :: "new_comment \<Rightarrow> timeline_entry" where
  "entry_of_comment c =
     \<lparr>tle_type = Comment_entry, tle_id = ncm_id c, tle_actor_type = ncm_author_type c,
      tle_actor_id = ncm_author_id c, tle_created_at = ncm_created_at c, tle_action = None, tle_details = None,
      tle_content = Some (ncm_content c),
      tle_parent_id = ncm_parent_id c, tle_updated_at = Some (ncm_updated_at c),
      tle_comment_type = Some (ncm_type c),
      tle_reactions = Some (case ncm_reactions c of None \<Rightarrow> [] | Some rs \<Rightarrow> rs),
      tle_attachments = Some (case ncm_attachments c of None \<Rightarrow> [] | Some as \<Rightarrow> as),
      tle_resolved_at = None, tle_resolved_by_type = None, tle_resolved_by_id = None,
      tle_source_task_id = None, tle_coalesced_count = None\<rparr>"

definition add_entry :: "timeline_entry \<Rightarrow> timeline_cache \<Rightarrow> timeline_cache" where
  "add_entry entry cache =
     (case cache of
        None \<Rightarrow> Some [entry]
      | Some old \<Rightarrow>
          if list_ex (\<lambda>e. tle_id e = tle_id entry) old then Some old
          else Some (sortTimelineEntriesAsc (old @ [entry])))"

text \<open>With the query it invalidates: a prefix of the cached previews of who a comment triggers.\<close>

definition createComment_success ::
  "string \<Rightarrow> new_comment \<Rightarrow> timeline_cache \<Rightarrow> timeline_cache \<times> query_key list" where
  "createComment_success issueId comment cache =
     (add_entry (entry_of_comment comment) cache, [issueKeys_commentTriggerPreview issueId])"

text \<open>A mutation that starts gives the new cache and the snapshot of the old one.\<close>

definition updateComment_mutate ::
  "string \<Rightarrow> string \<Rightarrow> string list \<Rightarrow> timeline_cache \<Rightarrow> timeline_cache \<times> timeline_cache" where
  "updateComment_mutate commentId content attachmentIds cache =
     (map_option (map (\<lambda>e. if tle_id e = commentId
        then e\<lparr>tle_content := Some content,
               tle_attachments := map_option (filter (\<lambda>a. a \<in> set attachmentIds)) (tle_attachments e)\<rparr>
        else e)) cache, cache)"

text \<open>\<open>onSettled\<close> of update, delete and resolve: the query it invalidates.\<close>

definition timeline_settled :: "string \<Rightarrow> query_key list" where
  "timeline_settled issueId = [issueKeys_timeline issueId]"

text \<open>\<open>onError\<close> of all three: writes the snapshot back, when there was one.\<close>

definition timeline_rollback :: "timeline_cache \<Rightarrow> timeline_cache \<Rightarrow> timeline_cache" where
  "timeline_rollback prev cache = (case prev of None \<Rightarrow> cache | Some p \<Rightarrow> Some p)"

section \<open>Deleting\<close>

text \<open>One run of the inner loop; the set grows while the entries are visited.\<close>

definition cascade_visit :: "timeline_entry \<Rightarrow> string set \<times> bool \<Rightarrow> string set \<times> bool" where
  "cascade_visit e st =
     (case st of (toRemove, changed) \<Rightarrow>
        if \<not> falsy (tle_parent_id e) \<and> the (tle_parent_id e) \<in> toRemove \<and> tle_id e \<notin> toRemove
        then (insert (tle_id e) toRemove, True) else (toRemove, changed))"

definition cascade_pass :: "timeline_entry list \<Rightarrow> string set \<Rightarrow> string set \<times> bool" where
  "cascade_pass prev toRemove = fold cascade_visit prev (toRemove, False)"

lemma cascade_visit_mono:
  "fst st \<subseteq> fst (cascade_visit e st)" "fst (cascade_visit e st) \<subseteq> insert (tle_id e) (fst st)"
  "snd (cascade_visit e st) \<Longrightarrow> \<not> snd st \<Longrightarrow> fst st \<subset> fst (cascade_visit e st)"
  by (auto simp: cascade_visit_def split: prod.splits if_splits)

lemma fold_cascade:
  "fst st \<subseteq> fst (fold cascade_visit es st)
   \<and> fst (fold cascade_visit es st) \<subseteq> fst st \<union> tle_id ` set es
   \<and> (snd (fold cascade_visit es st) \<and> \<not> snd st \<longrightarrow> fst st \<subset> fst (fold cascade_visit es st))"
proof (induction es arbitrary: st)
  case (Cons e es)
  from Cons.IH [of "cascade_visit e st"] cascade_visit_mono(1) [of st e] cascade_visit_mono(2,3) [of e st] show ?case
    by (cases "snd (cascade_visit e st)") auto
qed simp

lemma cascade_pass_progress:
  assumes "cascade_pass prev s = (s', True)"
  shows "card (tle_id ` set prev - s') < card (tle_id ` set prev - s)"
proof -
  have "s \<subset> s'" "s' \<subseteq> s \<union> tle_id ` set prev"
    using fold_cascade [of "(s, False)" prev] assms by (auto simp: cascade_pass_def)
  then have "tle_id ` set prev - s' \<subset> tle_id ` set prev - s" by blast
  then show ?thesis by (intro psubset_card_mono) auto
qed

function cascade :: "timeline_entry list \<Rightarrow> string set \<Rightarrow> string set" where
  "cascade prev toRemove =
     (case cascade_pass prev toRemove of (toRemove', changed) \<Rightarrow>
        if changed then cascade prev toRemove' else toRemove')"
  by pat_completeness auto
termination
  by (relation "measure (\<lambda>(prev, s). card (tle_id ` set prev - s))")
    (auto dest!: cascade_pass_progress [OF sym])

declare cascade.simps [simp del]

definition deleteComment_mutate :: "string \<Rightarrow> timeline_cache \<Rightarrow> timeline_cache \<times> timeline_cache" where
  "deleteComment_mutate commentId cache =
     (let toRemove = (case cache of None \<Rightarrow> {commentId} | Some prev \<Rightarrow> cascade prev {commentId})
      in (map_option (filter (\<lambda>e. tle_id e \<notin> toRemove)) cache, cache))"

section \<open>Resolving\<close>

text \<open>\<open>byId\<close>: the comments, a \<open>Map\<close> in insertion order.\<close>

definition comments_by_id :: "timeline_entry list \<Rightarrow> (string \<times> timeline_entry) list" where
  "comments_by_id entries =
     fold (\<lambda>e byId. if tle_type e = Comment_entry then AList.update (tle_id e) e byId else byId) entries []"

text \<open>The parent of a comment that the walk may step to.\<close>

definition parent_in :: "(string \<times> timeline_entry) list \<Rightarrow> timeline_entry option \<Rightarrow> string option" where
  "parent_in byId cur =
     (case cur of
        None \<Rightarrow> None
      | Some e \<Rightarrow> if \<not> falsy (tle_parent_id e) \<and> map_of byId (the (tle_parent_id e)) \<noteq> None
                 then tle_parent_id e else None)"

text \<open>The walk to the root; \<open>guard_ids\<close> holds the comments already left, so a cycle ends it.\<close>

function walk_up :: "(string \<times> timeline_entry) list \<Rightarrow> string set \<Rightarrow> string \<Rightarrow> string" where
  "walk_up byId guard_ids cur =
     (case parent_in byId (map_of byId cur) of
        None \<Rightarrow> cur
      | Some p \<Rightarrow> if cur \<in> guard_ids then cur else walk_up byId (insert cur guard_ids) p)"
  by pat_completeness auto
termination
proof (relation "measure (\<lambda>(byId, g, _). card (fst ` set byId - g))")
  fix byId :: "(string \<times> timeline_entry) list" and g cur p
  assume p: "parent_in byId (map_of byId cur) = Some p" and new: "cur \<notin> g"
  have "map_of byId cur \<noteq> None" using p by (cases "map_of byId cur") (simp_all add: parent_in_def)
  then have "cur \<in> fst ` set byId" by (simp add: map_of_eq_None_iff)
  then have "fst ` set byId - insert cur g \<subset> fst ` set byId - g" using new by blast
  then have "card (fst ` set byId - insert cur g) < card (fst ` set byId - g)"
    by (intro psubset_card_mono) simp_all
  then show "((byId, insert cur g, p), byId, g, cur) \<in> measure (\<lambda>(byId, g, _). card (fst ` set byId - g))"
    by simp
qed simp

declare walk_up.simps [simp del]

definition children_of :: "(string \<times> timeline_entry) list \<Rightarrow> string \<Rightarrow> string list" where
  "children_of byId p = map fst (filter (\<lambda>(k, e). \<not> falsy (tle_parent_id e) \<and> tle_parent_id e = Some p) byId)"

text \<open>The loop over the children of one popped id.\<close>

definition push_children :: "string list \<Rightarrow> string set \<times> string list \<Rightarrow> string set \<times> string list" where
  "push_children cs st = fold (\<lambda>c (ids, stack). if c \<in> ids then (ids, stack) else (insert c ids, c # stack)) cs st"

lemma push_children_Nil [simp]: "push_children [] st = st"
  by (simp add: push_children_def)

lemma push_children_step:
  "push_children (c # cs) (ids, stack) =
     (if c \<in> ids then push_children cs (ids, stack) else push_children cs (insert c ids, c # stack))"
  by (simp add: push_children_def)

lemma push_children_ids: "fst (push_children cs (ids, stack)) = ids \<union> set cs"
  by (induction cs arbitrary: ids stack) (auto simp: push_children_step)

lemma push_children_stack: "set (snd (push_children cs (ids, stack))) = set stack \<union> (set cs - ids)"
  by (induction cs arbitrary: ids stack) (auto simp: push_children_step)

lemma push_children_measure:
  assumes "finite A" "set cs \<subseteq> A"
  shows "2 * card (A - fst (push_children cs (ids, stack))) + length (snd (push_children cs (ids, stack)))
    \<le> 2 * card (A - ids) + length stack"
  using assms(2)
proof (induction cs arbitrary: ids stack)
  case (Cons c cs)
  show ?case
  proof (cases "c \<in> ids")
    case True
    then show ?thesis using Cons.IH [of ids stack] Cons.prems by (simp add: push_children_step)
  next
    case False
    have "A - ids = insert c (A - insert c ids)" using Cons.prems False by auto
    then have "card (A - ids) = Suc (card (A - insert c ids))"
      using assms(1) by (metis DiffD2 card_insert_disjoint finite_Diff insertI1)
    then show ?thesis using Cons.IH [of "insert c ids" "c # stack"] Cons.prems False
      by (simp add: push_children_step)
  qed
qed simp

function expand_down ::
  "(string \<times> timeline_entry) list \<Rightarrow> string set \<Rightarrow> string list \<Rightarrow> string set" where
  "expand_down byId ids [] = ids"
| "expand_down byId ids (i # stack) =
     (case push_children (children_of byId i) (ids, stack) of
        (ids', stack') \<Rightarrow> expand_down byId ids' stack')"
  by pat_completeness auto
termination
proof (relation "measure (\<lambda>(byId, ids, stack). 2 * card (fst ` set byId - ids) + length stack)")
  fix byId :: "(string \<times> timeline_entry) list" and ids i stack ids' stack'
  assume "(ids', stack') = push_children (children_of byId i) (ids, stack)"
  then have st: "push_children (children_of byId i) (ids, stack) = (ids', stack')" by simp
  have "set (children_of byId i) \<subseteq> fst ` set byId" by (auto simp: children_of_def)
  then show "((byId, ids', stack'), byId, ids, i # stack)
      \<in> measure (\<lambda>(byId, ids, stack). 2 * card (fst ` set byId - ids) + length stack)"
    using push_children_measure [of "fst ` set byId" "children_of byId i" ids stack] by (simp add: st)
qed simp

definition collectThreadCommentIds :: "timeline_entry list \<Rightarrow> string \<Rightarrow> string set" where
  "collectThreadCommentIds entries commentId =
     (let byId = comments_by_id entries; rootId = walk_up byId {} commentId
      in expand_down byId {rootId} [rootId])"

text \<open>\<open>now\<close> is the time stamp of the mutation.\<close>

definition resolve_entry ::
  "string \<Rightarrow> string \<Rightarrow> bool \<Rightarrow> string set option \<Rightarrow> timeline_entry \<Rightarrow> timeline_entry" where
  "resolve_entry now commentId resolved threadIds e =
     (if tle_id e = commentId then
        e\<lparr>tle_resolved_at := (if resolved then Some now else None),
          tle_resolved_by_type := (if resolved then tle_resolved_by_type e else None),
          tle_resolved_by_id := (if resolved then tle_resolved_by_id e else None)\<rparr>
      else if resolved \<and> \<not> falsy (tle_resolved_at e)
              \<and> (case threadIds of None \<Rightarrow> False | Some ids \<Rightarrow> tle_id e \<in> ids)
        then e\<lparr>tle_resolved_at := None, tle_resolved_by_type := None, tle_resolved_by_id := None\<rparr>
      else e)"

definition resolveComment_mutate ::
  "string \<Rightarrow> string \<Rightarrow> bool \<Rightarrow> timeline_cache \<Rightarrow> timeline_cache \<times> timeline_cache" where
  "resolveComment_mutate now commentId resolved cache =
     (map_option (\<lambda>old.
        let threadIds = (if resolved then Some (collectThreadCommentIds old commentId) else None)
        in map (resolve_entry now commentId resolved threadIds) old) cache, cache)"

section \<open>The order of the timeline\<close>

definition before :: "timeline_entry \<Rightarrow> timeline_entry \<Rightarrow> bool" where
  "before a b \<longleftrightarrow> str_less (tle_created_at a) (tle_created_at b)
     \<or> (tle_created_at a = tle_created_at b \<and> str_less (tle_id a) (tle_id b))"

lemma cmp_le_entries: "cmp_le compare_entries = before"
  by (auto simp: fun_eq_iff cmp_le_def compare_entries_def before_def)

lemma before_irrefl: "\<not> before a a"
  by (simp add: before_def)

lemma before_trans: "before a b \<Longrightarrow> before b c \<Longrightarrow> before a c"
  unfolding before_def using str_less_trans by metis

lemma before_total: "tle_id a \<noteq> tle_id b \<Longrightarrow> before a b \<or> before b a"
  unfolding before_def using str_less_total by metis

lemma sort_sorted:
  assumes "distinct (map tle_id xs)"
  shows "sorted_wrt before (sortTimelineEntriesAsc xs)"
proof -
  have "distinct xs" using assms by (simp add: distinct_map)
  moreover have "cmp_le compare_entries a b \<or> cmp_le compare_entries b a"
    if "a \<in> set xs" "b \<in> set xs" "a \<noteq> b" for a b
    unfolding cmp_le_entries using that assms by (intro before_total) (auto dest: distinct_map_inj)
  ultimately show ?thesis
    unfolding sortTimelineEntriesAsc_def cmp_le_entries [symmetric]
    by (intro sorted_js_sort) (auto simp: cmp_le_entries intro: before_trans)
qed

lemma mset_sort [simp]: "mset (sortTimelineEntriesAsc xs) = mset xs"
  by (simp add: sortTimelineEntriesAsc_def)

lemma set_sort [simp]: "set (sortTimelineEntriesAsc xs) = set xs"
  by (metis mset_sort set_mset_mset)

lemma sort_eq:
  assumes "distinct (map tle_id xs)" "mset xs = mset ys"
  shows "sortTimelineEntriesAsc xs = sortTimelineEntriesAsc ys"
proof -
  have "mset (map tle_id xs) = mset (map tle_id ys)" using assms(2) by simp
  then have "distinct (map tle_id ys)" using assms(1) mset_eq_imp_distinct_iff by blast
  then show ?thesis
    using sort_sorted assms before_irrefl before_trans
    by (intro sorted_wrt_unique [where R = before]) auto
qed

definition ids_of :: "timeline_cache \<Rightarrow> string list" where
  "ids_of cache = (case cache of None \<Rightarrow> [] | Some es \<Rightarrow> map tle_id es)"

lemma add_entry_present: "tle_id e \<in> set (ids_of cache) \<Longrightarrow> add_entry e cache = cache"
  by (auto simp: add_entry_def ids_of_def list_ex_iff split: option.splits)

lemma add_entry_new:
  "tle_id e \<notin> set (ids_of cache) \<Longrightarrow>
    add_entry e cache = Some (sortTimelineEntriesAsc ((case cache of None \<Rightarrow> [] | Some es \<Rightarrow> es) @ [e]))"
proof (cases cache)
  case None
  then show ?thesis by (simp add: add_entry_def sortTimelineEntriesAsc_def js_sort_def)
next
  case (Some es)
  assume "tle_id e \<notin> set (ids_of cache)"
  then have "\<not> list_ex (\<lambda>f. tle_id f = tle_id e) es" using Some by (auto simp: ids_of_def list_ex_iff image_iff)
  then show ?thesis using Some by (simp add: add_entry_def)
qed

lemma ids_add_entry: "set (ids_of (add_entry e cache)) = insert (tle_id e) (set (ids_of cache))"
proof (cases "tle_id e \<in> set (ids_of cache)")
  case True
  then show ?thesis by (simp add: add_entry_present insert_absorb)
next
  case False
  then show ?thesis by (auto simp: add_entry_new ids_of_def split: option.splits)
qed

section \<open>Replies\<close>

text \<open>Who answers whom: every entry with a parent, and the comments whose parent is loaded.\<close>

definition replies :: "timeline_entry list \<Rightarrow> (string \<times> string) set" where
  "replies es = {(p, tle_id e) | p e. e \<in> set es \<and> tle_parent_id e = Some p \<and> p \<noteq> []}"

definition thread_link :: "timeline_entry list \<Rightarrow> (string \<times> string) set" where
  "thread_link es = {(tle_id f, tle_id e) | f e. e \<in> set es \<and> f \<in> set es \<and> tle_type e = Comment_entry
     \<and> tle_type f = Comment_entry \<and> tle_parent_id e = Some (tle_id f) \<and> tle_id f \<noteq> []}"

lemma replies_iff:
  "(p, c) \<in> replies es \<longleftrightarrow> p \<noteq> [] \<and> (\<exists>e\<in>set es. tle_id e = c \<and> tle_parent_id e = Some p)"
  by (auto simp: replies_def)

lemma thread_link_iff:
  "(p, c) \<in> thread_link es \<longleftrightarrow> p \<noteq> [] \<and> (\<exists>f\<in>set es. tle_type f = Comment_entry \<and> tle_id f = p)
     \<and> (\<exists>e\<in>set es. tle_type e = Comment_entry \<and> tle_id e = c \<and> tle_parent_id e = Some p)"
  unfolding thread_link_def mem_Collect_eq by (metis prod.inject)

lemma cascade_pass_closed:
  "\<not> snd (fold cascade_visit es (s, b)) \<Longrightarrow> fst (fold cascade_visit es (s, b)) = s
     \<and> (\<forall>e\<in>set es. \<not> falsy (tle_parent_id e) \<and> the (tle_parent_id e) \<in> s \<longrightarrow> tle_id e \<in> s)"
proof (induction es arbitrary: s b)
  case (Cons e es)
  have keep: "snd (fold cascade_visit es (t, True))" for t
  proof -
    have "snd st \<Longrightarrow> snd (fold cascade_visit es st)" for st
      by (induction es arbitrary: st) (auto simp: cascade_visit_def split: prod.splits)
    then show ?thesis by simp
  qed
  show ?case
  proof (cases "\<not> falsy (tle_parent_id e) \<and> the (tle_parent_id e) \<in> s \<and> tle_id e \<notin> s")
    case True
    then have "cascade_visit e (s, b) = (insert (tle_id e) s, True)" by (simp add: cascade_visit_def)
    then show ?thesis using Cons.prems keep by simp
  next
    case False
    then have "cascade_visit e (s, b) = (s, b)" by (auto simp: cascade_visit_def)
    then show ?thesis using Cons False by auto
  qed
qed simp

lemma cascade_pass_sound:
  assumes "set es \<subseteq> set prev"
  shows "fst (fold cascade_visit es (s, b)) \<subseteq> (replies prev)\<^sup>* `` s"
  using assms
proof (induction es arbitrary: s b)
  case (Cons e es)
  obtain s' b' where v: "cascade_visit e (s, b) = (s', b')" by (cases "cascade_visit e (s, b)")
  have "s' \<subseteq> (replies prev)\<^sup>* `` s"
  proof (cases "s' = s")
    case False
    then have "s' = insert (tle_id e) s" "\<not> falsy (tle_parent_id e)" "the (tle_parent_id e) \<in> s"
      using v by (auto simp: cascade_visit_def split: if_splits)
    moreover from this have "(the (tle_parent_id e), tle_id e) \<in> replies prev"
      using Cons.prems unfolding replies_def by (auto simp: not_falsy)
    ultimately show ?thesis by (auto intro: r_into_rtrancl)
  qed auto
  moreover have "fst (fold cascade_visit es (s', b')) \<subseteq> (replies prev)\<^sup>* `` s'" using Cons by simp
  ultimately show ?case unfolding fold.simps o_def v by (blast intro: rtrancl_trans)
qed auto

text \<open>The loop of the cascade computes the closure under replies.\<close>

lemma cascade_closure: "cascade prev s = (replies prev)\<^sup>* `` s"
proof (induction prev s rule: cascade.induct)
  case (1 prev s)
  obtain s' b where pass: "cascade_pass prev s = (s', b)" by (cases "cascade_pass prev s")
  have sub: "s \<subseteq> s'" "s' \<subseteq> (replies prev)\<^sup>* `` s"
    using fold_cascade [of "(s, False)" prev] cascade_pass_sound [of prev prev s False] pass
    by (simp_all add: cascade_pass_def)
  show ?case
  proof (cases b)
    case True
    have "(replies prev)\<^sup>* `` s' = (replies prev)\<^sup>* `` s"
      using sub by (blast intro: rtrancl_trans)
    then show ?thesis using 1 pass True by (subst cascade.simps) simp
  next
    case False
    then have closed: "s' = s" "\<forall>e\<in>set prev. \<not> falsy (tle_parent_id e) \<and> the (tle_parent_id e) \<in> s \<longrightarrow> tle_id e \<in> s"
      using cascade_pass_closed [of prev s False] pass by (simp_all add: cascade_pass_def)
    have "y \<in> s" if "(x, y) \<in> (replies prev)\<^sup>*" "x \<in> s" for x y
      using that by (induction rule: rtrancl_induct) (use closed(2) in \<open>auto simp: replies_def\<close>)
    then have "(replies prev)\<^sup>* `` s = s" by blast
    then show ?thesis using pass False closed(1) by (subst cascade.simps) simp
  qed
qed

section \<open>The thread of a comment\<close>

definition link :: "(string \<times> timeline_entry) list \<Rightarrow> (string \<times> string) set" where
  "link byId = {(p, c). c \<in> set (children_of byId p)}"

lemma expand_down_closure:
  assumes "set stack \<subseteq> ids" "\<forall>x\<in>ids. x \<notin> set stack \<longrightarrow> link byId `` {x} \<subseteq> ids"
  shows "expand_down byId ids stack = (link byId)\<^sup>* `` ids"
  using assms
proof (induction byId ids stack rule: expand_down.induct)
  case (1 byId ids)
  have "y \<in> ids" if "(x, y) \<in> (link byId)\<^sup>*" "x \<in> ids" for x y
    using that by (induction rule: rtrancl_induct) (use 1 in auto)
  then show ?case by auto
next
  case (2 byId ids i stack)
  let ?c = "children_of byId i"
  obtain ids' stack' where p: "push_children ?c (ids, stack) = (ids', stack')"
    by (cases "push_children ?c (ids, stack)")
  have ids': "ids' = ids \<union> set ?c" "set stack' = set stack \<union> (set ?c - ids)"
    using push_children_ids [of ?c ids stack] push_children_stack [of ?c ids stack] p by simp_all
  have link_i: "link byId `` {i} = set ?c" by (auto simp: link_def)
  have "expand_down byId ids' stack' = (link byId)\<^sup>* `` ids'"
  proof (rule 2(1) [OF p [symmetric]])
    show "set stack' \<subseteq> ids'" using 2(2) ids' by auto
    show "\<forall>x\<in>ids'. x \<notin> set stack' \<longrightarrow> link byId `` {x} \<subseteq> ids'"
      using 2(3) ids' link_i by auto
  qed
  moreover have "(link byId)\<^sup>* `` ids' = (link byId)\<^sup>* `` ids"
  proof -
    have "i \<in> ids" using 2(2) by simp
    then have "set ?c \<subseteq> (link byId)\<^sup>* `` ids" using link_i by blast
    then show ?thesis unfolding ids'(1) by (blast intro: rtrancl_trans)
  qed
  ultimately show ?case by (simp add: p)
qed

lemma comments_by_id_distinct:
  assumes "distinct (map tle_id es)"
  shows "comments_by_id es = map (\<lambda>e. (tle_id e, e)) (filter (\<lambda>e. tle_type e = Comment_entry) es)"
  using assms
proof (induction es rule: rev_induct)
  case Nil
  then show ?case by (simp add: comments_by_id_def)
next
  case (snoc e es)
  have "AList.update k v al = al @ [(k, v)]" if "k \<notin> fst ` set al" for k :: string and v :: timeline_entry and al
    using that by (induction al) auto
  moreover have "tle_id e \<notin> fst ` set (comments_by_id es)" using snoc by (auto simp: image_iff)
  ultimately show ?case using snoc by (auto simp: comments_by_id_def)
qed

lemma map_of_comments:
  "distinct (map tle_id es) \<Longrightarrow> map_of (comments_by_id es) k = Some e \<longleftrightarrow>
     e \<in> set es \<and> tle_type e = Comment_entry \<and> tle_id e = k"
  by (subst map_of_eq_Some_iff)
    (auto simp: comments_by_id_distinct o_def distinct_map intro: inj_on_subset)

lemma parent_in_link:
  assumes "distinct (map tle_id es)"
  shows "parent_in (comments_by_id es) (map_of (comments_by_id es) c) = Some p \<longleftrightarrow> (p, c) \<in> thread_link es"
proof -
  have loaded: "map_of (comments_by_id es) p \<noteq> None \<longleftrightarrow> (\<exists>f. f \<in> set es \<and> tle_type f = Comment_entry \<and> tle_id f = p)" for p
    using map_of_comments [OF assms] by (metis not_Some_eq)
  show ?thesis
  proof (cases "map_of (comments_by_id es) c")
    case None
    then have "(p, c) \<notin> thread_link es" using map_of_comments [OF assms, of c] by (auto simp: thread_link_def)
    then show ?thesis using None by (simp add: parent_in_def)
  next
    case (Some e)
    then have e: "e \<in> set es" "tle_type e = Comment_entry" "tle_id e = c" using map_of_comments [OF assms] by simp_all
    have "(p, c) \<in> thread_link es \<longleftrightarrow> tle_parent_id e = Some p \<and> p \<noteq> []
        \<and> (\<exists>f. f \<in> set es \<and> tle_type f = Comment_entry \<and> tle_id f = p)"
    proof -
      have "x = e" if "x \<in> set es" "tle_id x = c" for x
        using distinct_map_inj [OF assms that(1) e(1)] that(2) e(3) by simp
      then show ?thesis unfolding thread_link_iff using e by metis
    qed
    moreover have "parent_in (comments_by_id es) (Some e) = Some p \<longleftrightarrow> tle_parent_id e = Some p \<and> p \<noteq> []
        \<and> map_of (comments_by_id es) p \<noteq> None"
      by (cases "tle_parent_id e") (auto simp: parent_in_def)
    ultimately show ?thesis by (simp only: Some loaded)
  qed
qed

lemma link_comments:
  assumes "distinct (map tle_id es)"
  shows "(p, c) \<in> link (comments_by_id es) \<longleftrightarrow>
    (\<exists>e\<in>set es. tle_type e = Comment_entry \<and> tle_id e = c \<and> tle_parent_id e = Some p \<and> p \<noteq> [])"
  by (auto simp: link_def children_of_def comments_by_id_distinct [OF assms] image_iff)

lemma walk_up_link:
  assumes "distinct (map tle_id es)"
  shows "(walk_up (comments_by_id es) g c, c) \<in> (thread_link es)\<^sup>*"
proof -
  have "byId = comments_by_id es \<Longrightarrow> (walk_up byId g c, c) \<in> (thread_link es)\<^sup>*" for byId
  proof (induction byId g c rule: walk_up.induct)
    case (1 byId g c)
    show ?case
    proof (cases "parent_in byId (map_of byId c)")
      case None
      then show ?thesis by (subst walk_up.simps) simp
    next
      case (Some p)
      then have "(p, c) \<in> thread_link es" using 1(2) parent_in_link [OF assms] by simp
      moreover have "c \<notin> g \<Longrightarrow> (walk_up byId (insert c g) p, p) \<in> (thread_link es)\<^sup>*"
        using 1 Some by simp
      ultimately show ?thesis using Some
        by (subst walk_up.simps) (auto intro: rtrancl_into_rtrancl)
    qed
  qed
  then show ?thesis by simp
qed

lemma walk_up_root:
  assumes "distinct (map tle_id es)" "acyclic (thread_link es)"
  shows "(p, walk_up (comments_by_id es) {} c) \<notin> thread_link es"
proof -
  have "byId = comments_by_id es \<Longrightarrow> \<forall>x\<in>g. (c, x) \<in> (thread_link es)\<^sup>+ \<Longrightarrow> (p, walk_up byId g c) \<notin> thread_link es"
    for byId g
  proof (induction byId g c rule: walk_up.induct)
    case (1 byId g c)
    show ?case
    proof (cases "parent_in byId (map_of byId c)")
      case None
      then show ?thesis using parent_in_link [OF assms(1), of c p] 1(2) by (subst walk_up.simps) auto
    next
      case (Some q)
      have "c \<notin> g" using 1(3) assms(2) by (auto simp: acyclic_def)
      moreover have "(q, c) \<in> thread_link es" using parent_in_link [OF assms(1)] Some 1(2) by simp
      then have "\<forall>x\<in>insert c g. (q, x) \<in> (thread_link es)\<^sup>+" using 1(3) by (auto intro: trancl_into_trancl2)
      ultimately show ?thesis using 1(1) [OF Some _ 1(2)] Some by (subst walk_up.simps) simp
    qed
  qed
  then show ?thesis by simp
qed

text \<open>The ids collected for a comment are the thread it belongs to.\<close>

definition thread_of :: "timeline_entry list \<Rightarrow> string \<Rightarrow> string set" where
  "thread_of es c = (thread_link es \<union> (thread_link es)\<inverse>)\<^sup>* `` {c}"

lemma collectThread_spec:
  assumes dist: "distinct (map tle_id es)" and acyc: "acyclic (thread_link es)"
    and c: "e \<in> set es" "tle_type e = Comment_entry"
  shows "collectThreadCommentIds es (tle_id e) = thread_of es (tle_id e)"
proof -
  define r where "r = walk_up (comments_by_id es) {} (tle_id e)"
  have up: "(r, tle_id e) \<in> (thread_link es)\<^sup>*" unfolding r_def by (rule walk_up_link [OF dist])
  have root: "(p, r) \<notin> thread_link es" for p unfolding r_def by (rule walk_up_root [OF dist acyc])
  have comment: "\<exists>f\<in>set es. tle_type f = Comment_entry \<and> tle_id f = x" if "(r, x) \<in> (thread_link es)\<^sup>*" for x
  proof -
    have "\<exists>f\<in>set es. tle_type f = Comment_entry \<and> tle_id f = r"
      using up c by (cases rule: converse_rtranclE) (auto simp: thread_link_def)
    with that show ?thesis by (cases rule: rtranclE) (auto simp: thread_link_def)
  qed
  have same: "(x, y) \<in> link (comments_by_id es) \<longleftrightarrow> (x, y) \<in> thread_link es"
    if "(r, x) \<in> (thread_link es)\<^sup>*" for x y
    using comment [OF that] by (auto simp: link_comments [OF dist] thread_link_def)
  have reach: "(r, x) \<in> (link (comments_by_id es))\<^sup>* \<longleftrightarrow> (r, x) \<in> (thread_link es)\<^sup>*" for x
  proof
    assume "(r, x) \<in> (link (comments_by_id es))\<^sup>*"
    then show "(r, x) \<in> (thread_link es)\<^sup>*"
      by (induction rule: rtrancl_induct) (auto simp: same intro: rtrancl_into_rtrancl)
  next
    assume "(r, x) \<in> (thread_link es)\<^sup>*"
    then show "(r, x) \<in> (link (comments_by_id es))\<^sup>*"
    proof (induction rule: rtrancl_induct)
      case (step y z)
      then show ?case using same [of y z] by (auto intro: rtrancl_into_rtrancl)
    qed simp
  qed
  have "expand_down (comments_by_id es) {r} [r] = (link (comments_by_id es))\<^sup>* `` {r}"
    by (rule expand_down_closure) auto
  then have ids: "collectThreadCommentIds es (tle_id e) = (thread_link es)\<^sup>* `` {r}"
    by (auto simp: collectThreadCommentIds_def Let_def r_def [symmetric] reach)
  have parent: "q = p" if "(q, x) \<in> thread_link es" "(p, x) \<in> thread_link es" for p q x
  proof -
    note links = that
    obtain a where a: "a \<in> set es" "tle_id a = x" "tle_parent_id a = Some q" using links(1) unfolding thread_link_iff by metis
    obtain b where b: "b \<in> set es" "tle_id b = x" "tle_parent_id b = Some p" using links(2) unfolding thread_link_iff by metis
    have "a = b" using distinct_map_inj [OF dist a(1) b(1)] a(2) b(2) by simp
    with a(3) b(3) show ?thesis by simp
  qed
  have closed: "(r, y) \<in> (thread_link es)\<^sup>*"
    if "(x, y) \<in> thread_link es \<union> (thread_link es)\<inverse>" "(r, x) \<in> (thread_link es)\<^sup>*" for x y
  proof (cases "(x, y) \<in> thread_link es")
    case True
    with that(2) show ?thesis by (rule rtrancl_into_rtrancl)
  next
    case False
    then have yx: "(y, x) \<in> thread_link es" using that(1) by simp
    from that(2) show ?thesis
    proof (cases rule: rtranclE)
      case base
      then show ?thesis using yx root by blast
    next
      case (step q)
      then show ?thesis using parent [OF step(2) yx] by simp
    qed
  qed
  have "(r, y) \<in> (thread_link es)\<^sup>*" if "(tle_id e, y) \<in> (thread_link es \<union> (thread_link es)\<inverse>)\<^sup>*" for y
    using that by (induction rule: rtrancl_induct) (auto intro: up closed)
  moreover have "(tle_id e, y) \<in> (thread_link es \<union> (thread_link es)\<inverse>)\<^sup>*" if "(r, y) \<in> (thread_link es)\<^sup>*" for y
  proof -
    have "(tle_id e, r) \<in> ((thread_link es)\<inverse>)\<^sup>*" using up by (simp add: rtrancl_converse)
    then have "(tle_id e, r) \<in> (thread_link es \<union> (thread_link es)\<inverse>)\<^sup>*"
      using rtrancl_mono [of "(thread_link es)\<inverse>"] by blast
    moreover have "(r, y) \<in> (thread_link es \<union> (thread_link es)\<inverse>)\<^sup>*"
      using that rtrancl_mono [of "thread_link es"] by blast
    ultimately show ?thesis by (rule rtrancl_trans)
  qed
  ultimately show ?thesis by (auto simp: ids thread_of_def)
qed

section \<open>Properties\<close>

definition entries_of :: "timeline_cache \<Rightarrow> timeline_entry list" where
  "entries_of cache = (case cache of None \<Rightarrow> [] | Some es \<Rightarrow> es)"

lemma ids_entries: "ids_of cache = map tle_id (entries_of cache)"
  by (simp add: ids_of_def entries_of_def split: option.split)

lemma add_entry_new':
  "tle_id e \<notin> set (ids_of cache) \<Longrightarrow> add_entry e cache = Some (sortTimelineEntriesAsc (entries_of cache @ [e]))"
  by (simp add: add_entry_new entries_of_def)

lemma add_two_new:
  assumes "distinct (ids_of cache)" "tle_id a \<noteq> tle_id b" "tle_id a \<notin> set (ids_of cache)" "tle_id b \<notin> set (ids_of cache)"
  shows "add_entry a (add_entry b cache) = Some (sortTimelineEntriesAsc (entries_of cache @ [a, b]))"
proof -
  have "tle_id a \<notin> set (ids_of (add_entry b cache))" using assms by (simp add: ids_add_entry)
  then have "add_entry a (add_entry b cache) =
      Some (sortTimelineEntriesAsc (sortTimelineEntriesAsc (entries_of cache @ [b]) @ [a]))"
    by (simp add: add_entry_new' assms(4) entries_of_def)
  moreover have "sortTimelineEntriesAsc (sortTimelineEntriesAsc (entries_of cache @ [b]) @ [a]) =
      sortTimelineEntriesAsc (entries_of cache @ [a, b])"
    using assms by (intro sort_eq [symmetric]) (auto simp: ids_entries)
  ultimately show ?thesis by simp
qed

text \<open>
  A comment reaches the timeline cache twice, from the answer to its own mutation and from the
  broadcast, and in no fixed order.  The result does not depend on it: adding an entry a second
  time changes nothing, two entries can be added in either order, and a newly added entry leaves
  the timeline in ascending order of time with the id as tie breaker and with nothing lost.
\<close>
theorem timeline_arrival_order:
  assumes "distinct (ids_of cache)" "tle_id a \<noteq> tle_id b"
  shows "add_entry a (add_entry b cache) = add_entry b (add_entry a cache)
    \<and> add_entry a (add_entry a cache) = add_entry a cache
    \<and> (tle_id a \<notin> set (ids_of cache) \<longrightarrow>
         (\<exists>es. add_entry a cache = Some es \<and> sorted_wrt before es \<and> distinct (map tle_id es)
           \<and> set es = insert a (set (entries_of cache))))"
proof -
  have swap: "add_entry a (add_entry b cache) = add_entry b (add_entry a cache)"
  proof (cases "tle_id a \<in> set (ids_of cache) \<or> tle_id b \<in> set (ids_of cache)")
    case True
    then show ?thesis by (auto simp: add_entry_present ids_add_entry)
  next
    case False
    then show ?thesis using assms add_two_new [of cache a b] add_two_new [of cache b a]
      by (auto simp: ids_entries intro!: sort_eq)
  qed
  have twice: "add_entry a (add_entry a cache) = add_entry a cache"
    by (rule add_entry_present) (simp add: ids_add_entry)
  have new: "\<exists>es. add_entry a cache = Some es \<and> sorted_wrt before es \<and> distinct (map tle_id es)
      \<and> set es = insert a (set (entries_of cache))" if "tle_id a \<notin> set (ids_of cache)"
  proof -
    have d: "distinct (map tle_id (entries_of cache @ [a]))" using assms(1) that by (simp add: ids_entries)
    have "mset (map tle_id (sortTimelineEntriesAsc (entries_of cache @ [a]))) = mset (map tle_id (entries_of cache @ [a]))"
      by simp
    then have "distinct (map tle_id (sortTimelineEntriesAsc (entries_of cache @ [a])))"
      using d mset_eq_imp_distinct_iff by blast
    then show ?thesis using sort_sorted [OF d] that by (simp add: add_entry_new')
  qed
  show ?thesis using swap twice new by blast
qed

definition example_entry :: "string \<Rightarrow> string \<Rightarrow> string option \<Rightarrow> string option \<Rightarrow> timeline_entry" where
  "example_entry i created parent resolved =
     \<lparr>tle_type = Comment_entry, tle_id = i, tle_actor_type = ''member'', tle_actor_id = ''u'',
      tle_created_at = created, tle_action = None, tle_details = None, tle_content = Some [], tle_parent_id = parent, tle_updated_at = None,
      tle_comment_type = None, tle_reactions = None, tle_attachments = None, tle_resolved_at = resolved,
      tle_resolved_by_type = None, tle_resolved_by_id = None, tle_source_task_id = None,
      tle_coalesced_count = None\<rparr>"

lemma example_entry_fields [simp]:
  "tle_id (example_entry i t p r) = i" "tle_type (example_entry i t p r) = Comment_entry"
  "tle_created_at (example_entry i t p r) = t" "tle_parent_id (example_entry i t p r) = p"
  "tle_resolved_at (example_entry i t p r) = r"
  by (simp_all add: example_entry_def)

lemma timeline_arrival_order_witness:
  "add_entry (example_entry ''a'' ''2'' None None) (add_entry (example_entry ''b'' ''1'' None None) None)
   = add_entry (example_entry ''b'' ''1'' None None) (add_entry (example_entry ''a'' ''2'' None None) None)"
  using timeline_arrival_order [of None "example_entry ''a'' ''2'' None None" "example_entry ''b'' ''1'' None None"]
  by (simp add: ids_of_def)

text \<open>
  C21. Deleting a comment removes exactly the comment and everything below it: the loop ends, what it
  collects is the closure of the comment under replies however deep and in whatever order the
  entries are stored, no remaining entry answers a removed one, and a failure restores the
  timeline.
\<close>
theorem deleteComment_cascade:
  assumes "deleteComment_mutate commentId (Some old) = (cache, prev)"
  shows "\<exists>es. cache = Some es
    \<and> es = filter (\<lambda>e. (commentId, tle_id e) \<notin> (replies old)\<^sup>*) old
    \<and> (\<forall>e f. e \<in> set es \<and> f \<in> set old \<and> f \<notin> set es \<and> tle_id f \<noteq> [] \<longrightarrow> tle_parent_id e \<noteq> Some (tle_id f))
    \<and> timeline_rollback prev cache = Some old"
proof -
  define es where "es = filter (\<lambda>e. (commentId, tle_id e) \<notin> (replies old)\<^sup>*) old"
  have "cache = Some es" "prev = Some old"
    using assms by (auto simp: deleteComment_mutate_def cascade_closure es_def)
  moreover have "tle_parent_id e \<noteq> Some (tle_id f)"
    if "e \<in> set es" "f \<in> set old" "f \<notin> set es" "tle_id f \<noteq> []" for e f
  proof
    assume "tle_parent_id e = Some (tle_id f)"
    then have "(tle_id f, tle_id e) \<in> replies old" using that by (auto simp: replies_def es_def)
    moreover have "(commentId, tle_id f) \<in> (replies old)\<^sup>*" using that by (auto simp: es_def)
    ultimately show False using that(1) by (auto simp: es_def intro: rtrancl_into_rtrancl)
  qed
  ultimately show ?thesis unfolding es_def by (intro exI [of _ es]) (auto simp: es_def timeline_rollback_def)
qed

lemma deleteComment_cascade_witness:
  "\<exists>es. fst (deleteComment_mutate ''a'' (Some [example_entry ''c'' ''3'' (Some ''b'') None,
      example_entry ''b'' ''2'' (Some ''a'') None, example_entry ''a'' ''1'' None None])) = Some es
    \<and> example_entry ''c'' ''3'' (Some ''b'') None \<notin> set es"
proof -
  let ?es = "[example_entry ''c'' ''3'' (Some ''b'') None, example_entry ''b'' ''2'' (Some ''a'') None,
    example_entry ''a'' ''1'' None None]"
  have "(''a'', ''b'') \<in> replies ?es" "(''b'', ''c'') \<in> replies ?es" by (simp_all add: replies_iff)
  then have below: "(''a'', ''c'') \<in> (replies ?es)\<^sup>*" by (meson r_into_rtrancl rtrancl_trans)
  obtain es where "fst (deleteComment_mutate ''a'' (Some ?es)) = Some es"
    "es = filter (\<lambda>e. (''a'', tle_id e) \<notin> (replies ?es)\<^sup>*) ?es"
    using deleteComment_cascade [of "''a''" ?es "fst (deleteComment_mutate ''a'' (Some ?es))"
        "snd (deleteComment_mutate ''a'' (Some ?es))"] by auto
  moreover have "example_entry ''c'' ''3'' (Some ''b'') None \<notin> set (filter (\<lambda>e. (''a'', tle_id e) \<notin> (replies ?es)\<^sup>*) ?es)"
    using below by (simp only: set_filter mem_Collect_eq example_entry_fields) simp
  ultimately show ?thesis by blast
qed

text \<open>
  Resolving a comment makes it the only resolution of its thread, as the server does: every other
  entry of the thread ends unresolved, entries outside it are as before, and a failure restores the
  timeline.
\<close>

lemma resolve_thread:
  assumes "distinct (map tle_id old)" "acyclic (thread_link old)"
    and "e \<in> set old" "tle_type e = Comment_entry" "now \<noteq> []"
    and "resolveComment_mutate now (tle_id e) True (Some old) = (cache, prev)"
  shows "\<exists>es. cache = Some es \<and> map tle_id es = map tle_id old
    \<and> (\<forall>f\<in>set es. tle_id f \<in> thread_of old (tle_id e) \<longrightarrow>
         (\<not> falsy (tle_resolved_at f) \<longleftrightarrow> tle_id f = tle_id e))
    \<and> (\<forall>f\<in>set old. tle_id f \<notin> thread_of old (tle_id e) \<longrightarrow> f \<in> set es)
    \<and> tle_id e \<in> thread_of old (tle_id e)
    \<and> timeline_rollback prev cache = Some old"
proof -
  define es where "es = map (resolve_entry now (tle_id e) True (Some (thread_of old (tle_id e)))) old"
  have c: "cache = Some es" "prev = Some old"
    using assms(6) by (auto simp: resolveComment_mutate_def es_def collectThread_spec [OF assms(1-4)])
  have ids: "tle_id (resolve_entry now i b t f) = tle_id f" for i b t f
    by (simp add: resolve_entry_def)
  have self: "tle_id e \<in> thread_of old (tle_id e)" by (simp add: thread_of_def)
  have "map tle_id es = map tle_id old" by (simp add: es_def ids)
  moreover have "\<not> falsy (tle_resolved_at f) \<longleftrightarrow> tle_id f = tle_id e"
    if "f \<in> set es" "tle_id f \<in> thread_of old (tle_id e)" for f
    using that assms(5) by (auto simp: es_def resolve_entry_def split: if_splits)
  moreover have "f \<in> set es" if "f \<in> set old" "tle_id f \<notin> thread_of old (tle_id e)" for f
  proof -
    have "resolve_entry now (tle_id e) True (Some (thread_of old (tle_id e))) f = f"
      using that(2) self by (auto simp: resolve_entry_def)
    then show ?thesis using that(1) unfolding es_def by (metis image_eqI set_map)
  qed
  ultimately show ?thesis using c self by (intro exI [of _ es]) (auto simp: timeline_rollback_def)
qed

end
