(* ===== verification/Timeline_Events.thy ===== *)
theory Timeline_Events
  imports Timeline
begin

text \<open>
  The realtime events of one issue's timeline (\<open>packages/views/issues/hooks/use-issue-timeline.ts\<close>):
  one handler per event type on the cached entries, and the reactions shown while a toggle is
  pending.  Together with the mutations of \<open>Timeline\<close> they are the steps of the cached timeline,
  whose invariant is that it stays sorted and free of duplicates.
\<close>

section \<open>Handlers\<close>

definition commentToTimelineEntry :: "new_comment \<Rightarrow> timeline_entry" where
  "commentToTimelineEntry c =
     \<lparr>tle_type = Comment_entry, tle_id = ncm_id c, tle_actor_type = ncm_author_type c,
      tle_actor_id = ncm_author_id c, tle_created_at = ncm_created_at c, tle_action = None, tle_details = None,
      tle_content = Some (ncm_content c), tle_parent_id = ncm_parent_id c,
      tle_updated_at = Some (ncm_updated_at c), tle_comment_type = Some (ncm_type c),
      tle_reactions = Some (case ncm_reactions c of None \<Rightarrow> [] | Some rs \<Rightarrow> rs),
      tle_attachments = Some (case ncm_attachments c of None \<Rightarrow> [] | Some as \<Rightarrow> as),
      tle_resolved_at = ncm_resolved_at c, tle_resolved_by_type = ncm_resolved_by_type c,
      tle_resolved_by_id = ncm_resolved_by_id c, tle_source_task_id = ncm_source_task_id c,
      tle_coalesced_count = None\<rparr>"

definition onCommentCreated :: "string \<Rightarrow> new_comment \<Rightarrow> timeline_cache \<Rightarrow> timeline_cache" where
  "onCommentCreated issueId comment cache =
     (if ncm_issue_id comment \<noteq> issueId then cache
      else add_entry (commentToTimelineEntry comment) cache)"

text \<open>\<open>comment:updated\<close>, \<open>comment:resolved\<close> and \<open>comment:unresolved\<close>.\<close>

definition onCommentReplaced :: "string \<Rightarrow> new_comment \<Rightarrow> timeline_cache \<Rightarrow> timeline_cache" where
  "onCommentReplaced issueId comment cache =
     (if ncm_issue_id comment \<noteq> issueId then cache
      else map_option (map (\<lambda>e. if tle_id e = ncm_id comment then commentToTimelineEntry comment else e)) cache)"

definition onCommentDeleted :: "string \<Rightarrow> string \<Rightarrow> string \<Rightarrow> timeline_cache \<Rightarrow> timeline_cache" where
  "onCommentDeleted issueId comment_id issue_id cache =
     (if issue_id \<noteq> issueId then cache
      else map_option (\<lambda>old. filter (\<lambda>e. tle_id e \<notin> cascade old {comment_id}) old) cache)"

definition onActivityCreated :: "string \<Rightarrow> string \<Rightarrow> timeline_entry option \<Rightarrow> timeline_cache \<Rightarrow> timeline_cache" where
  "onActivityCreated issueId issue_id entry cache =
     (if issue_id \<noteq> issueId then cache
      else case entry of
          None \<Rightarrow> cache
        | Some e \<Rightarrow> if tle_id e = [] then cache else add_entry e cache)"

definition reactions_of :: "timeline_entry \<Rightarrow> comment_reaction list" where
  "reactions_of e = (case tle_reactions e of None \<Rightarrow> [] | Some rs \<Rightarrow> rs)"

definition add_reaction :: "comment_reaction \<Rightarrow> timeline_entry \<Rightarrow> timeline_entry" where
  "add_reaction reaction e =
     (if tle_id e \<noteq> rct_comment_id reaction then e
      else if list_ex (\<lambda>r. rct_id r = rct_id reaction) (reactions_of e) then e
      else e\<lparr>tle_reactions := Some (reactions_of e @ [reaction])\<rparr>)"

definition onReactionAdded :: "string \<Rightarrow> comment_reaction \<Rightarrow> string \<Rightarrow> timeline_cache \<Rightarrow> timeline_cache" where
  "onReactionAdded issueId reaction issue_id cache =
     (if issue_id \<noteq> issueId then cache else map_option (map (add_reaction reaction)) cache)"

record reaction_removed =
  rrm_comment_id :: string
  rrm_issue_id :: string
  rrm_emoji :: string
  rrm_actor_type :: string
  rrm_actor_id :: string

definition remove_reaction :: "reaction_removed \<Rightarrow> timeline_entry \<Rightarrow> timeline_entry" where
  "remove_reaction p e =
     (if tle_id e \<noteq> rrm_comment_id p then e
      else e\<lparr>tle_reactions := Some (filter (\<lambda>r. \<not> (rct_emoji r = rrm_emoji p
             \<and> rct_actor_type r = rrm_actor_type p \<and> rct_actor_id r = rrm_actor_id p)) (reactions_of e))\<rparr>)"

definition onReactionRemoved :: "string \<Rightarrow> reaction_removed \<Rightarrow> timeline_cache \<Rightarrow> timeline_cache" where
  "onReactionRemoved issueId p cache =
     (if rrm_issue_id p \<noteq> issueId then cache else map_option (map (remove_reaction p)) cache)"

section \<open>Pending reactions\<close>

record toggle_reaction_vars =
  trv_commentId :: string
  trv_emoji :: string
  trv_existing :: "comment_reaction option"

definition mine :: "string option \<Rightarrow> string \<Rightarrow> comment_reaction \<Rightarrow> bool" where
  "mine userId emoji r \<longleftrightarrow> rct_emoji r = emoji \<and> rct_actor_type r = ''member'' \<and> Some (rct_actor_id r) = userId"

definition apply_pending ::
  "string option \<Rightarrow> toggle_reaction_vars \<Rightarrow> comment_reaction list \<Rightarrow> comment_reaction list" where
  "apply_pending userId vars reactions =
     (case trv_existing vars of
        Some x \<Rightarrow> filter (\<lambda>r. rct_id r \<noteq> rct_id x) reactions
      | None \<Rightarrow>
          if list_ex (mine userId (trv_emoji vars)) reactions then reactions
          else reactions @ [\<lparr>rct_id = ''optimistic-'' @ trv_emoji vars, rct_comment_id = trv_commentId vars,
            rct_actor_type = ''member'', rct_actor_id = (case userId of None \<Rightarrow> [] | Some u \<Rightarrow> u),
            rct_emoji = trv_emoji vars, rct_created_at = []\<rparr>])"

definition optimistic_entry ::
  "string option \<Rightarrow> toggle_reaction_vars list \<Rightarrow> timeline_entry \<Rightarrow> timeline_entry" where
  "optimistic_entry userId pending e =
     (case filter (\<lambda>v. trv_commentId v = tle_id e) pending of
        [] \<Rightarrow> e
      | pendingForEntry \<Rightarrow>
          e\<lparr>tle_reactions := Some (fold (apply_pending userId) pendingForEntry (reactions_of e))\<rparr>)"

definition optimisticTimeline ::
  "string option \<Rightarrow> toggle_reaction_vars list \<Rightarrow> timeline_entry list \<Rightarrow> timeline_entry list" where
  "optimisticTimeline userId pending timeline =
     (if pending = [] then timeline else map (optimistic_entry userId pending) timeline)"

text \<open>What a click on an emoji asks for; no request without a user.\<close>

definition toggleReaction ::
  "string option \<Rightarrow> timeline_entry list \<Rightarrow> string \<Rightarrow> string \<Rightarrow> toggle_reaction_vars option" where
  "toggleReaction userId timeline commentId emoji =
     (if falsy userId then None
      else Some \<lparr>trv_commentId = commentId, trv_emoji = emoji,
        trv_existing = Option.bind (List.find (\<lambda>e. tle_id e = commentId) timeline)
          (\<lambda>e. List.find (mine userId emoji) (reactions_of e))\<rparr>)"

section \<open>Steps\<close>

datatype timeline_event =
    Comment_created new_comment
  | Comment_replaced new_comment
  | Comment_deleted string string
  | Activity_created string "timeline_entry option"
  | Reaction_added comment_reaction string
  | Reaction_removed reaction_removed
  | Own_created new_comment
  | Own_updated string string "string list"
  | Own_deleted string
  | Own_resolved string string bool

text \<open>The last four are the mutations of this client, which work on the cache of this issue.\<close>

fun timeline_step :: "string \<Rightarrow> timeline_event \<Rightarrow> timeline_cache \<Rightarrow> timeline_cache" where
  "timeline_step issueId (Comment_created c) cache = onCommentCreated issueId c cache"
| "timeline_step issueId (Comment_replaced c) cache = onCommentReplaced issueId c cache"
| "timeline_step issueId (Comment_deleted i issue_id) cache = onCommentDeleted issueId i issue_id cache"
| "timeline_step issueId (Activity_created issue_id e) cache = onActivityCreated issueId issue_id e cache"
| "timeline_step issueId (Reaction_added r issue_id) cache = onReactionAdded issueId r issue_id cache"
| "timeline_step issueId (Reaction_removed p) cache = onReactionRemoved issueId p cache"
| "timeline_step issueId (Own_created c) cache = fst (createComment_success issueId c cache)"
| "timeline_step issueId (Own_updated i content atts) cache = fst (updateComment_mutate i content atts cache)"
| "timeline_step issueId (Own_deleted i) cache = fst (deleteComment_mutate i cache)"
| "timeline_step issueId (Own_resolved now i resolved) cache = fst (resolveComment_mutate now i resolved cache)"

text \<open>An event carries the creation time its entry already has.\<close>

fun keeps_created :: "timeline_event \<Rightarrow> timeline_cache \<Rightarrow> bool" where
  "keeps_created (Comment_replaced c) cache \<longleftrightarrow>
     (\<forall>e\<in>set (entries_of cache). tle_id e = ncm_id c \<longrightarrow> tle_created_at e = ncm_created_at c)"
| "keeps_created _ cache \<longleftrightarrow> True"

definition timeline_ok :: "timeline_cache \<Rightarrow> bool" where
  "timeline_ok cache \<longleftrightarrow> (case cache of None \<Rightarrow> True
     | Some es \<Rightarrow> sorted_wrt before es \<and> distinct (map tle_id es))"

inductive reachable_timeline :: "string \<Rightarrow> timeline_cache \<Rightarrow> bool" for issueId where
  Unloaded: "reachable_timeline issueId None"
| Fetched: "timeline_ok (Some es) \<Longrightarrow> reachable_timeline issueId (Some es)"
| Event: "reachable_timeline issueId cache \<Longrightarrow> keeps_created ev cache \<Longrightarrow>
    reachable_timeline issueId (timeline_step issueId ev cache)"

inductive_cases reachable_timelineE: "reachable_timeline issueId cache"

section \<open>The invariant\<close>

lemma timeline_ok_map:
  assumes "timeline_ok cache"
    and "\<And>e. e \<in> set (entries_of cache) \<Longrightarrow> tle_id (f e) = tle_id e \<and> tle_created_at (f e) = tle_created_at e"
  shows "timeline_ok (map_option (map f) cache)"
proof (cases cache)
  case (Some es)
  then have f: "e \<in> set es \<Longrightarrow> tle_id (f e) = tle_id e \<and> tle_created_at (f e) = tle_created_at e" for e
    using assms(2) by (simp add: entries_of_def)
  then have "map tle_id (map f es) = map tle_id es" by simp
  then have "distinct (map tle_id (map f es))" using assms(1) by (simp only: Some timeline_ok_def option.case)
  moreover have "sorted_wrt (\<lambda>a b. before (f a) (f b)) es"
    using assms(1) f by (auto simp: Some timeline_ok_def before_def intro: sorted_wrt_mono_rel [of es before])
  ultimately show ?thesis by (simp add: Some timeline_ok_def sorted_wrt_map)
qed (simp add: timeline_ok_def)

lemma timeline_ok_filter: "timeline_ok cache \<Longrightarrow> timeline_ok (map_option (filter p) cache)"
  by (auto simp: timeline_ok_def sorted_wrt_filter distinct_map_filter split: option.splits)

lemma timeline_ok_add:
  assumes "timeline_ok cache"
  shows "timeline_ok (add_entry e cache)"
proof (cases "tle_id e \<in> set (ids_of cache)")
  case True
  with assms show ?thesis by (simp add: add_entry_present)
next
  case False
  have d: "distinct (map tle_id (entries_of cache @ [e]))"
    using assms False by (auto simp: timeline_ok_def entries_of_def ids_of_def split: option.splits)
  have "mset (map tle_id (sortTimelineEntriesAsc (entries_of cache @ [e]))) = mset (map tle_id (entries_of cache @ [e]))"
    by simp
  then have "distinct (map tle_id (sortTimelineEntriesAsc (entries_of cache @ [e])))"
    using d mset_eq_imp_distinct_iff by blast
  then show ?thesis using sort_sorted [OF d] False by (simp add: add_entry_new' timeline_ok_def)
qed

lemma reaction_fields [simp]:
  "tle_id (add_reaction r e) = tle_id e" "tle_created_at (add_reaction r e) = tle_created_at e"
  "tle_id (remove_reaction p e) = tle_id e" "tle_created_at (remove_reaction p e) = tle_created_at e"
  by (simp_all add: add_reaction_def remove_reaction_def)

lemma resolve_entry_fields [simp]:
  "tle_id (resolve_entry now i b t e) = tle_id e"
  "tle_created_at (resolve_entry now i b t e) = tle_created_at e"
  by (simp_all add: resolve_entry_def)

lemma timeline_step_ok:
  assumes "timeline_ok cache" "keeps_created ev cache"
  shows "timeline_ok (timeline_step issueId ev cache)"
proof (cases ev)
  case (Comment_replaced c)
  then show ?thesis using assms
    by (auto simp: onCommentReplaced_def commentToTimelineEntry_def intro!: timeline_ok_map)
next
  case (Comment_deleted i issue_id)
  have "map_option (\<lambda>old. filter (\<lambda>e. tle_id e \<notin> cascade old {i}) old) cache =
      map_option (filter (\<lambda>e. tle_id e \<notin> cascade (entries_of cache) {i})) cache"
    by (cases cache) (simp_all add: entries_of_def)
  then show ?thesis using assms(1) timeline_ok_filter by (simp add: Comment_deleted onCommentDeleted_def)
next
  case (Own_updated i content atts)
  show ?thesis unfolding Own_updated timeline_step.simps updateComment_mutate_def fst_conv
    by (rule timeline_ok_map [OF assms(1)]) simp
next
  case (Own_deleted i)
  show ?thesis
  proof (cases cache)
    case (Some es)
    with assms(1) show ?thesis
      by (simp add: Own_deleted deleteComment_mutate_def timeline_ok_def sorted_wrt_filter distinct_map_filter)
  qed (simp add: Own_deleted deleteComment_mutate_def timeline_ok_def)
next
  case (Own_resolved now i resolved)
  have "fst (resolveComment_mutate now i resolved cache) = map_option (map (resolve_entry now i resolved
      (if resolved then Some (collectThreadCommentIds (entries_of cache) i) else None))) cache"
    by (cases cache) (simp_all add: resolveComment_mutate_def entries_of_def)
  then show ?thesis unfolding Own_resolved timeline_step.simps
    using timeline_ok_map [OF assms(1)] by simp
qed (use assms(1) in \<open>auto simp: onCommentCreated_def onActivityCreated_def onReactionAdded_def
      onReactionRemoved_def createComment_success_def timeline_ok_add split: option.split intro: timeline_ok_map\<close>)

text \<open>
  C19. The cached timeline is always in chronological order without duplicates: whatever realtime
  events and own mutations reach it in whatever order, from the moment it is fetched, provided an
  update does not change a comment's creation time; and events about other issues leave it alone.
\<close>
theorem timeline_invariant:
  assumes "reachable_timeline issueId cache"
  shows "timeline_ok cache
    \<and> (ncm_issue_id c = issueId \<or> onCommentCreated issueId c cache = cache \<and> onCommentReplaced issueId c cache = cache)
    \<and> (other = issueId \<or> onCommentDeleted issueId i other cache = cache
         \<and> onActivityCreated issueId other e cache = cache \<and> onReactionAdded issueId r other cache = cache)"
proof -
  have "timeline_ok cache"
    using assms by induction (simp_all add: timeline_step_ok, simp add: timeline_ok_def)
  then show ?thesis
    by (simp add: onCommentCreated_def onCommentReplaced_def onCommentDeleted_def onActivityCreated_def onReactionAdded_def)
qed

lemma timeline_invariant_witness:
  "timeline_ok (timeline_step ''i'' (Own_deleted ''a'')
     (timeline_step ''i'' (Activity_created ''i'' (Some (example_entry ''a'' ''1'' None None))) None))"
proof -
  have "reachable_timeline ''i'' (timeline_step ''i'' (Own_deleted ''a'')
     (timeline_step ''i'' (Activity_created ''i'' (Some (example_entry ''a'' ''1'' None None))) None))"
    by (intro reachable_timeline.Event reachable_timeline.Unloaded) simp_all
  then show ?thesis using timeline_invariant by blast
qed

section \<open>Pending reactions agree with the server's\<close>

text \<open>Who shows which emoji on an entry.\<close>

definition shown :: "timeline_entry \<Rightarrow> (string \<times> string \<times> string) set" where
  "shown e = (\<lambda>r. (rct_emoji r, rct_actor_type r, rct_actor_id r)) ` set (reactions_of e)"

definition one_per_actor :: "timeline_entry \<Rightarrow> bool" where
  "one_per_actor e \<longleftrightarrow> distinct (map rct_id (reactions_of e))
     \<and> distinct (map (\<lambda>r. (rct_emoji r, rct_actor_type r, rct_actor_id r)) (reactions_of e))"

definition own_reaction :: "string \<Rightarrow> string \<Rightarrow> string \<Rightarrow> comment_reaction \<Rightarrow> bool" where
  "own_reaction userId commentId emoji r \<longleftrightarrow> rct_comment_id r = commentId \<and> rct_emoji r = emoji
     \<and> rct_actor_type r = ''member'' \<and> rct_actor_id r = userId"

text \<open>The server's answer to a toggle: it removes the user's reaction or adds it.\<close>

definition server_toggle :: "string \<Rightarrow> toggle_reaction_vars \<Rightarrow> comment_reaction \<Rightarrow> timeline_entry \<Rightarrow> timeline_entry" where
  "server_toggle userId vars r e =
     (if trv_existing vars = None then add_reaction r e
      else remove_reaction \<lparr>rrm_comment_id = trv_commentId vars, rrm_issue_id = [], rrm_emoji = trv_emoji vars,
        rrm_actor_type = ''member'', rrm_actor_id = userId\<rparr> e)"

lemma reactions_of_update [simp]: "reactions_of (e\<lparr>tle_reactions := Some rs\<rparr>) = rs"
  by (simp add: reactions_of_def)

lemma optimistic_single:
  "optimistic_entry u [v] e = (if trv_commentId v = tle_id e
     then e\<lparr>tle_reactions := Some (apply_pending u v (reactions_of e))\<rparr> else e)"
  by (simp add: optimistic_entry_def)

text \<open>
  What a pending reaction shows is what the server's event will bring: for the toggle a click
  asks for, the entry drawn while the request is pending shows the same emojis by the same actors as
  the entry after the event, and drawing on top of the event adds nothing, so the count never
  flickers.
\<close>
theorem optimistic_reaction_agrees:
  assumes "toggleReaction (Some u) timeline (tle_id e) emoji = Some vars"
    and "List.find (\<lambda>x. tle_id x = tle_id e) timeline = Some e" "one_per_actor e"
    and "own_reaction u (tle_id e) emoji r" "\<forall>x\<in>set (reactions_of e). rct_id x \<noteq> rct_id r"
  shows "shown (optimistic_entry (Some u) [vars] e) = shown (server_toggle u vars r e)
    \<and> shown (optimistic_entry (Some u) [vars] (server_toggle u vars r e)) = shown (server_toggle u vars r e)"
proof -
  have vars: "trv_commentId vars = tle_id e" "trv_emoji vars = emoji"
    "trv_existing vars = List.find (mine (Some u) emoji) (reactions_of e)"
    using assms(1,2) by (auto simp: toggleReaction_def split: if_splits)
  show ?thesis
  proof (cases "trv_existing vars")
    case None
    then have "\<forall>x\<in>set (reactions_of e). \<not> mine (Some u) emoji x" using vars(3) by (auto simp: find_None_iff)
    then have "\<not> list_ex (mine (Some u) emoji) (reactions_of e)" by (simp add: list_ex_iff)
    moreover have "\<not> list_ex (\<lambda>x. rct_id x = rct_id r) (reactions_of e)" using assms(5) by (simp add: list_ex_iff)
    moreover have "mine (Some u) emoji r" using assms(4) by (simp add: own_reaction_def mine_def)
    ultimately show ?thesis using assms(4) vars None
      by (auto simp: optimistic_single apply_pending_def server_toggle_def add_reaction_def shown_def own_reaction_def)
  next
    case (Some x)
    then have x: "x \<in> set (reactions_of e)" "mine (Some u) emoji x"
      using vars(3) by (auto simp: find_Some_iff)
    have same: "rct_id y = rct_id x \<longleftrightarrow> mine (Some u) emoji y" if "y \<in> set (reactions_of e)" for y
      using that x assms(3) by (auto simp: one_per_actor_def mine_def distinct_map dest: inj_onD)
    have "filter (\<lambda>y. rct_id y \<noteq> rct_id x) (reactions_of e) = filter (\<lambda>y. \<not> mine (Some u) emoji y) (reactions_of e)"
      using same by (auto intro: filter_cong)
    moreover have "filter (\<lambda>y. rct_id y \<noteq> rct_id x) (filter (\<lambda>y. \<not> mine (Some u) emoji y) (reactions_of e))
        = filter (\<lambda>y. \<not> mine (Some u) emoji y) (reactions_of e)"
      unfolding filter_filter using same by (intro filter_cong) auto
    moreover have "server_toggle u vars r e =
        e\<lparr>tle_reactions := Some (filter (\<lambda>y. \<not> mine (Some u) emoji y) (reactions_of e))\<rparr>"
      using Some vars(1,2) by (simp add: server_toggle_def remove_reaction_def mine_def)
    ultimately show ?thesis using vars(1) Some
      by (simp add: optimistic_single apply_pending_def shown_def)
  qed
qed

definition example_reaction :: "string \<Rightarrow> comment_reaction" where
  "example_reaction i = \<lparr>rct_id = i, rct_comment_id = ''a'', rct_actor_type = ''member'', rct_actor_id = ''u'',
     rct_emoji = ''+1'', rct_created_at = ''1''\<rparr>"

lemma optimistic_reaction_agrees_witness:
  "shown (optimistic_entry (Some ''u'') [\<lparr>trv_commentId = ''a'', trv_emoji = ''+1'', trv_existing = None\<rparr>]
      (example_entry ''a'' ''1'' None None)) = {(''+1'', ''member'', ''u'')}"
proof -
  let ?e = "example_entry ''a'' ''1'' None None"
  let ?v = "\<lparr>trv_commentId = ''a'', trv_emoji = ''+1'', trv_existing = None\<rparr>"
  have none: "reactions_of ?e = []" by (simp add: reactions_of_def example_entry_def)
  have "toggleReaction (Some ''u'') [?e] (tle_id ?e) ''+1'' = Some ?v"
    by (simp add: toggleReaction_def none)
  from optimistic_reaction_agrees [OF this, of "example_reaction ''r''"]
  have "shown (optimistic_entry (Some ''u'') [?v] ?e) = shown (server_toggle ''u'' ?v (example_reaction ''r'') ?e)"
    by (simp add: none one_per_actor_def own_reaction_def example_reaction_def)
  then show ?thesis
    by (simp add: server_toggle_def add_reaction_def none example_reaction_def shown_def)
qed

end
