(* ===== verification/Threads.thy ===== *)
theory Threads
  imports Timeline
begin

text \<open>
  Comment threads on the page of an issue (\<open>packages/views/issues/components/thread-utils.ts\<close>): the
  replies below a comment, what resolves a thread, and which threads are folded.  The recursive walk
  is kept as the list of entries it has still to visit; a walk that does not end is \<open>None\<close>, and the
  walk from a thread's root always ends.
\<close>

section \<open>The code\<close>

type_synonym replies_map = "string \<Rightarrow> timeline_entry list"

definition push_reply :: "string \<Rightarrow> timeline_entry \<Rightarrow> replies_map \<Rightarrow> replies_map" where
  "push_reply p e m = m(p := m p @ [e])"

text \<open>The walk visits an entry, then everything below it, then the entries after it.\<close>

partial_function (option) walk :: "replies_map \<Rightarrow> timeline_entry list \<Rightarrow> timeline_entry list option" where
  "walk repliesByParent pending =
     (case pending of
        [] \<Rightarrow> Some []
      | child # rest \<Rightarrow>
          Option.bind (walk repliesByParent (repliesByParent (tle_id child) @ rest)) (\<lambda>out. Some (child # out)))"

definition collectThreadReplies :: "string \<Rightarrow> replies_map \<Rightarrow> timeline_entry list option" where
  "collectThreadReplies rootId repliesByParent =
     map_option sortTimelineEntriesAsc (walk repliesByParent (repliesByParent rootId))"

datatype thread_resolution = Resolution_none | Resolution_root | Resolution_reply string

definition choose_reply :: "timeline_entry \<Rightarrow> timeline_entry option \<Rightarrow> timeline_entry option" where
  "choose_reply reply chosen =
     (if falsy (tle_resolved_at reply) then chosen
      else case chosen of
          None \<Rightarrow> Some reply
        | Some c \<Rightarrow> if str_less (the (tle_resolved_at c)) (the (tle_resolved_at reply)) then Some reply else chosen)"

definition deriveThreadResolution :: "timeline_entry \<Rightarrow> timeline_entry list \<Rightarrow> thread_resolution" where
  "deriveThreadResolution rootEntry rs =
     (if \<not> falsy (tle_resolved_at rootEntry) then Resolution_root
      else case fold choose_reply rs None of
          None \<Rightarrow> Resolution_none
        | Some c \<Rightarrow> Resolution_reply (tle_id c))"

definition rootCommentIds :: "timeline_entry list \<Rightarrow> string list" where
  "rootCommentIds entries =
     map tle_id (filter (\<lambda>e. tle_type e = Comment_entry \<and> falsy (tle_parent_id e)) entries)"

definition split_thread :: "timeline_entry \<Rightarrow> timeline_entry list \<times> replies_map \<Rightarrow> timeline_entry list \<times> replies_map" where
  "split_thread e = (\<lambda>(roots, m).
     if tle_type e \<noteq> Comment_entry then (roots, m)
     else if falsy (tle_parent_id e) then (roots @ [e], m)
     else (roots, push_reply (the (tle_parent_id e)) e m))"

definition split_threads :: "timeline_entry list \<Rightarrow> timeline_entry list \<times> replies_map" where
  "split_threads entries = fold split_thread entries ([], \<lambda>_. [])"

fun resolved_roots :: "replies_map \<Rightarrow> timeline_entry list \<Rightarrow> string list option" where
  "resolved_roots m [] = Some []"
| "resolved_roots m (rootEntry # roots) =
     Option.bind (collectThreadReplies (tle_id rootEntry) m) (\<lambda>rs.
       map_option (\<lambda>ids. if deriveThreadResolution rootEntry rs \<noteq> Resolution_none then tle_id rootEntry # ids else ids)
         (resolved_roots m roots))"

definition resolvedThreadRootIds :: "timeline_entry list \<Rightarrow> string list option" where
  "resolvedThreadRootIds entries = (case split_threads entries of (roots, m) \<Rightarrow> resolved_roots m roots)"

section \<open>Splitting\<close>

definition is_reply :: "timeline_entry \<Rightarrow> bool" where
  "is_reply e \<longleftrightarrow> tle_type e = Comment_entry \<and> \<not> falsy (tle_parent_id e)"

definition is_root :: "timeline_entry \<Rightarrow> bool" where
  "is_root e \<longleftrightarrow> tle_type e = Comment_entry \<and> falsy (tle_parent_id e)"

lemma split_threads_spec:
  "split_threads es = (filter is_root es, \<lambda>p. filter (\<lambda>e. is_reply e \<and> tle_parent_id e = Some p) es)"
proof -
  have "fold split_thread es (rs, m) = (rs @ filter is_root es,
      \<lambda>p. m p @ filter (\<lambda>e. is_reply e \<and> tle_parent_id e = Some p) es)" for rs m
  proof (induction es arbitrary: rs m)
    case (Cons e es)
    show ?case
      using Cons by (cases "tle_parent_id e")
        (auto simp: split_thread_def push_reply_def is_root_def is_reply_def fun_eq_iff)
  qed simp
  from this [of "[]" "\<lambda>_. []"] show ?thesis by (simp add: split_threads_def)
qed

abbreviation replies_in :: "timeline_entry list \<Rightarrow> replies_map" where
  "replies_in es \<equiv> \<lambda>p. filter (\<lambda>e. is_reply e \<and> tle_parent_id e = Some p) es"

section \<open>The walk from a root ends\<close>

definition reply_rel :: "timeline_entry list \<Rightarrow> (string \<times> string) set" where
  "reply_rel es = {(p, tle_id e) | p e. e \<in> set es \<and> is_reply e \<and> tle_parent_id e = Some p}"

lemma reply_rel_member:
  "(p, c) \<in> reply_rel es \<longleftrightarrow> p \<noteq> [] \<and>
     (\<exists>e\<in>set es. tle_type e = Comment_entry \<and> tle_id e = c \<and> tle_parent_id e = Some p)"
  by (auto simp: reply_rel_def is_reply_def)

lemma reply_rel_finite: "finite (reply_rel es)"
proof -
  have "reply_rel es \<subseteq> (\<lambda>e. (the (tle_parent_id e), tle_id e)) ` set es" by (force simp: reply_rel_def)
  then show ?thesis by (rule finite_subset) simp
qed

lemma reply_rel_parent:
  assumes "distinct (map tle_id es)" "(p, c) \<in> reply_rel es" "(q, c) \<in> reply_rel es"
  shows "p = q"
  using assms by (auto simp: reply_rel_def) (metis distinct_map_inj option.inject)

lemma root_no_parent:
  assumes "distinct (map tle_id es)" "r \<in> set es" "is_root r"
  shows "(p, tle_id r) \<notin> reply_rel es"
proof
  assume "(p, tle_id r) \<in> reply_rel es"
  then obtain e where "e \<in> set es" "is_reply e" "tle_id e = tle_id r" by (auto simp: reply_rel_def)
  then show False using assms distinct_map_inj [OF assms(1)] by (auto simp: is_reply_def is_root_def)
qed

lemma no_cycle_below_root:
  assumes "distinct (map tle_id es)" "r \<in> set es" "is_root r" "(tle_id r, x) \<in> (reply_rel es)\<^sup>*"
  shows "(x, x) \<notin> (reply_rel es)\<^sup>+"
  using assms(4)
proof induction
  case base
  show ?case using root_no_parent [OF assms(1-3)] by (auto elim: tranclE)
next
  case (step y z)
  show ?case
  proof
    assume "(z, z) \<in> (reply_rel es)\<^sup>+"
    then obtain w where "(z, w) \<in> (reply_rel es)\<^sup>*" "(w, z) \<in> (reply_rel es)"
      by (metis tranclD2)
    with step(2) have "(z, y) \<in> (reply_rel es)\<^sup>*" using reply_rel_parent [OF assms(1)] by metis
    with step(2) have "(y, y) \<in> (reply_rel es)\<^sup>+" by (metis rtrancl_into_trancl2)
    with step.IH show False by blast
  qed
qed

lemma below_root_wf:
  assumes "distinct (map tle_id es)" "r \<in> set es" "is_root r"
  shows "wf {(c, p). (p, c) \<in> reply_rel es \<and> (tle_id r, p) \<in> (reply_rel es)\<^sup>*}" (is "wf ?S")
proof -
  have sub: "(x, y) \<in> ?S\<^sup>+ \<Longrightarrow> (y, x) \<in> (reply_rel es)\<^sup>+ \<and> (tle_id r, y) \<in> (reply_rel es)\<^sup>*" for x y
  proof (induction rule: trancl_induct)
    case (step y z)
    then have "(z, y) \<in> reply_rel es" "(tle_id r, z) \<in> (reply_rel es)\<^sup>*" by simp_all
    with step.IH show ?case by (blast intro: trancl_into_trancl2)
  qed (simp add: r_into_trancl)
  have "acyclic ?S" unfolding acyclic_def using sub no_cycle_below_root [OF assms] by blast
  moreover have "finite ?S"
  proof -
    have "?S \<subseteq> (reply_rel es)\<inverse>" by auto
    then show ?thesis by (rule finite_subset) (simp add: reply_rel_finite)
  qed
  ultimately show ?thesis by (rule finite_acyclic_wf [rotated])
qed

definition below :: "timeline_entry list \<Rightarrow> string \<Rightarrow> timeline_entry set" where
  "below es n = {e \<in> set es. is_reply e \<and> (n, tle_id e) \<in> (reply_rel es)\<^sup>+}"

lemma reply_rel_iff: "(n, m) \<in> reply_rel es \<longleftrightarrow> (\<exists>c\<in>set (replies_in es n). tle_id c = m)"
  by (auto simp: reply_rel_def)

lemma below_step:
  assumes "distinct (map tle_id es)"
  shows "below es n = (\<Union>c\<in>set (replies_in es n). insert c (below es (tle_id c)))"
proof (intro set_eqI iffI)
  fix e assume "e \<in> below es n"
  then have e: "e \<in> set es" "is_reply e" "(n, tle_id e) \<in> (reply_rel es)\<^sup>+" by (auto simp: below_def)
  from e(3) obtain m where m: "(n, m) \<in> reply_rel es" "(m, tle_id e) \<in> (reply_rel es)\<^sup>*" by (meson tranclD)
  then obtain c where c: "c \<in> set (replies_in es n)" "tle_id c = m" using reply_rel_iff by blast
  show "e \<in> (\<Union>c\<in>set (replies_in es n). insert c (below es (tle_id c)))"
  proof (cases "m = tle_id e")
    case True
    then have "e = c" using c e(1) distinct_map_inj [OF assms, of c e] by auto
    then show ?thesis using c by blast
  next
    case False
    then have "(tle_id c, tle_id e) \<in> (reply_rel es)\<^sup>+" using m(2) c(2) by (auto dest: rtranclD)
    then show ?thesis using c e by (auto simp: below_def)
  qed
next
  fix e assume "e \<in> (\<Union>c\<in>set (replies_in es n). insert c (below es (tle_id c)))"
  then obtain c where c: "c \<in> set (replies_in es n)" "e = c \<or> e \<in> below es (tle_id c)" by blast
  then have "(n, tle_id c) \<in> reply_rel es" using reply_rel_iff by blast
  with c show "e \<in> below es n" by (auto simp: below_def intro: trancl_into_trancl2)
qed

lemma walk_Nil [simp]: "walk m [] = Some []"
  by (subst walk.simps) simp

lemma walk_Cons: "walk m (c # cs) = Option.bind (walk m (m (tle_id c) @ cs)) (\<lambda>out. Some (c # out))"
  by (subst walk.simps) simp

text \<open>Two replies to one entry have nothing below them in common.\<close>

lemma rtrancl_parent:
  assumes dist: "distinct (map tle_id es)" and link: "(n, b) \<in> reply_rel es"
    and ab: "(a, b) \<in> (reply_rel es)\<^sup>*" "a \<noteq> b"
  shows "(a, n) \<in> (reply_rel es)\<^sup>*"
proof -
  obtain z where "(a, z) \<in> (reply_rel es)\<^sup>*" "(z, b) \<in> reply_rel es" using ab by (metis rtranclE)
  then show ?thesis using reply_rel_parent [OF dist _ link] by metis
qed

lemma siblings_apart:
  assumes dist: "distinct (map tle_id es)" and ends: "(n, n) \<notin> (reply_rel es)\<^sup>+"
    and c: "(n, c) \<in> reply_rel es" and d: "(n, d) \<in> reply_rel es" and ne: "c \<noteq> d"
    and x: "(c, x) \<in> (reply_rel es)\<^sup>*"
  shows "(d, x) \<notin> (reply_rel es)\<^sup>*"
proof
  assume y: "(d, x) \<in> (reply_rel es)\<^sup>*"
  have "single_valued ((reply_rel es)\<inverse>)"
    using reply_rel_parent [OF dist] by (auto simp: single_valued_def)
  then have "(c, d) \<in> (reply_rel es)\<^sup>* \<or> (d, c) \<in> (reply_rel es)\<^sup>*"
    using single_valued_confluent [of "(reply_rel es)\<inverse>" x c d] x y by (auto simp: rtrancl_converse)
  then have "(c, n) \<in> (reply_rel es)\<^sup>* \<or> (d, n) \<in> (reply_rel es)\<^sup>*"
    using rtrancl_parent [OF dist] c d ne by metis
  then show False using c d ends by (metis rtrancl_into_trancl2)
qed

lemma below_target: "(n, x) \<in> (reply_rel es)\<^sup>+ \<Longrightarrow> \<exists>c\<in>below es n. tle_id c = x"
  by (frule tranclD2) (auto simp: below_def reply_rel_def)

lemma fin_below [simp]: "finite (below es x)"
  by (simp add: below_def)

lemma not_below_itself:
  assumes "distinct (map tle_id es)" "r \<in> set es" "is_root r" "(tle_id r, tle_id c) \<in> (reply_rel es)\<^sup>*"
  shows "c \<notin> below es (tle_id c)"
  using no_cycle_below_root [OF assms] by (auto simp: below_def)

text \<open>From an entry below a root the walk collects what is below it and goes on.\<close>

lemma walk_below:
  assumes dist: "distinct (map tle_id es)" and r: "r \<in> set es" "is_root r"
    and n: "(tle_id r, n) \<in> (reply_rel es)\<^sup>*" and rest: "walk (replies_in es) rest = Some tl2"
  shows "\<exists>out. walk (replies_in es) (replies_in es n @ rest) = Some (out @ tl2) \<and> set out = below es n
    \<and> distinct out"
  using n rest
proof (induction n arbitrary: rest tl2 rule: wf_induct_rule [OF below_root_wf [OF dist r]])
  case (1 n)
  have "\<exists>out. walk (replies_in es) (cs @ rest) = Some (out @ tl2)
      \<and> set out = (\<Union>c\<in>set cs. insert c (below es (tle_id c))) \<and> distinct out"
    if "set cs \<subseteq> set (replies_in es n)" "distinct cs" for cs
    using that
  proof (induction cs)
    case Nil
    then show ?case using 1(3) by simp
  next
    case (Cons c cs)
    then obtain out where out: "walk (replies_in es) (cs @ rest) = Some (out @ tl2)"
      "set out = (\<Union>c\<in>set cs. insert c (below es (tle_id c)))" "distinct out" by auto
    have c: "c \<in> set es" "(n, tle_id c) \<in> reply_rel es" using Cons.prems(1) by (auto simp: reply_rel_def)
    have reach: "(tle_id r, tle_id c) \<in> (reply_rel es)\<^sup>*" using 1(2) c(2) by (rule rtrancl_into_rtrancl)
    obtain o1 where o1: "walk (replies_in es) (replies_in es (tle_id c) @ cs @ rest) = Some (o1 @ out @ tl2)"
      "set o1 = below es (tle_id c)" "distinct o1"
      using 1(1) [of "tle_id c" "cs @ rest" "out @ tl2"] c(2) 1(2) reach out(1) by auto
    have "insert c (below es (tle_id c)) \<inter> insert d (below es (tle_id d)) = {}" if d: "d \<in> set cs" for d
    proof -
      have "d \<in> set es" "(n, tle_id d) \<in> reply_rel es" "d \<noteq> c"
        using d Cons.prems by (auto simp: reply_rel_def)
      then show ?thesis
        using siblings_apart [OF dist no_cycle_below_root [OF dist r 1(2)] c(2), of "tle_id d"]
          distinct_map_inj [OF dist c(1), of d]
        by (auto simp: below_def dest: trancl_into_rtrancl)
    qed
    then have apart: "insert c (below es (tle_id c)) \<inter> set out = {}" using out(2) by auto
    have "walk (replies_in es) ((c # cs) @ rest) = Some ((c # o1 @ out) @ tl2)"
      using o1(1) by (simp add: walk_Cons)
    moreover have "set (c # o1 @ out) = (\<Union>c\<in>set (c # cs). insert c (below es (tle_id c)))"
      using o1(2) out(2) by auto
    moreover have "distinct (c # o1 @ out)"
      using o1(2,3) out(3) apart not_below_itself [OF dist r reach] by auto
    ultimately show ?case by blast
  qed
  from this [of "replies_in es n"] show ?case
    using dist unfolding below_step [OF dist, of n, symmetric] by (auto simp: distinct_map)
qed

section \<open>The replies of a thread and its resolution\<close>

lemma collect_root:
  assumes dist: "distinct (map tle_id es)" and r: "r \<in> set es" "is_root r"
  shows "\<exists>rs. collectThreadReplies (tle_id r) (replies_in es) = Some rs \<and> set rs = below es (tle_id r)
    \<and> distinct rs \<and> sorted_wrt before rs"
proof -
  obtain out where out: "walk (replies_in es) (replies_in es (tle_id r)) = Some out"
      "set out = below es (tle_id r)" "distinct out"
    using walk_below [OF dist r, of "tle_id r" "[]" "[]"] by auto
  have "inj_on tle_id (set out)"
    using out(2) dist by (auto simp: below_def distinct_map intro: inj_on_subset)
  then have "distinct (map tle_id out)" using out(3) by (simp add: distinct_map)
  moreover have "distinct (sortTimelineEntriesAsc out)"
    using out(3) mset_sort [of out] by (metis mset_eq_imp_distinct_iff)
  ultimately show ?thesis using out sort_sorted by (simp add: collectThreadReplies_def)
qed

lemma choose_reply_latest:
  "case fold choose_reply rs None of
     None \<Rightarrow> \<forall>f\<in>set rs. falsy (tle_resolved_at f)
   | Some c \<Rightarrow> c \<in> set rs \<and> \<not> falsy (tle_resolved_at c) \<and>
       (\<forall>f\<in>set rs. \<not> falsy (tle_resolved_at f) \<longrightarrow>
          \<not> str_less (the (tle_resolved_at c)) (the (tle_resolved_at f)))"
proof (induction rs rule: rev_induct)
  case (snoc x xs)
  have one: "choose_reply x None = (if falsy (tle_resolved_at x) then None else Some x)"
    "choose_reply x (Some c) = (if falsy (tle_resolved_at x) then Some c
       else if str_less (the (tle_resolved_at c)) (the (tle_resolved_at x)) then Some x else Some c)" for c
    by (simp_all add: choose_reply_def)
  show ?case
    using snoc by (cases "fold choose_reply xs None") (auto simp: one str_less_irrefl dest: str_less_trans)
qed simp

lemma unresolved_iff:
  "deriveThreadResolution r rs \<noteq> Resolution_none \<longleftrightarrow> (\<exists>f\<in>insert r (set rs). \<not> falsy (tle_resolved_at f))"
  using choose_reply_latest [of rs]
  by (auto simp: deriveThreadResolution_def split: option.splits)

lemma resolved_reply:
  assumes "falsy (tle_resolved_at r)" "c \<in> set rs" "\<not> falsy (tle_resolved_at c)"
    and "\<And>f. f \<in> set rs \<Longrightarrow> \<not> falsy (tle_resolved_at f) \<Longrightarrow> tle_id f = tle_id c"
  shows "deriveThreadResolution r rs = Resolution_reply (tle_id c)"
proof (cases "fold choose_reply rs None")
  case None
  then show ?thesis using choose_reply_latest [of rs] assms(2,3) by simp
next
  case (Some f)
  then have "tle_id f = tle_id c" using choose_reply_latest [of rs] assms(4) by simp
  then show ?thesis using Some assms(1) by (simp add: deriveThreadResolution_def)
qed

lemma resolved_roots_spec:
  assumes "distinct (map tle_id es)" "set rs \<subseteq> set es" "\<forall>r\<in>set rs. is_root r"
  shows "resolved_roots (replies_in es) rs = Some (map tle_id (filter (\<lambda>r.
    \<exists>f\<in>insert r (below es (tle_id r)). \<not> falsy (tle_resolved_at f)) rs))"
  using assms(2,3)
proof (induction rs)
  case (Cons r rs)
  then obtain out where "collectThreadReplies (tle_id r) (replies_in es) = Some out" "set out = below es (tle_id r)"
    using collect_root [OF assms(1), of r] by auto
  moreover from this have "deriveThreadResolution r out \<noteq> Resolution_none \<longleftrightarrow>
      (\<exists>f\<in>insert r (below es (tle_id r)). \<not> falsy (tle_resolved_at f))"
    unfolding unresolved_iff by (simp only:)
  ultimately show ?case using Cons by (simp del: insert_iff bex_simps)
qed simp

text \<open>
  C20. The walk over a thread ends, and a folded thread is one that holds a resolved comment.  In a
  timeline with unique ids (whatever its parent links, cycles away from the roots included) the
  replies collected below a top-level comment are exactly the comments that answer it, directly or
  not, each once and in chronological order, however deep they nest; and the ids of the resolved
  threads are those of the top-level comments that are resolved or have a resolved reply, in the
  order of the timeline.
\<close>
theorem resolvedThreadRootIds_total:
  assumes "distinct (map tle_id es)"
  shows "resolvedThreadRootIds es = Some (map tle_id (filter (\<lambda>r. is_root r \<and>
      (\<exists>f\<in>insert r (below es (tle_id r)). \<not> falsy (tle_resolved_at f))) es))
    \<and> (\<forall>r\<in>set (fst (split_threads es)). \<exists>rs.
        collectThreadReplies (tle_id r) (snd (split_threads es)) = Some rs
        \<and> set rs = below es (tle_id r) \<and> distinct rs \<and> sorted_wrt before rs)"
proof (intro conjI ballI)
  show "resolvedThreadRootIds es = Some (map tle_id (filter (\<lambda>r. is_root r \<and>
      (\<exists>f\<in>insert r (below es (tle_id r)). \<not> falsy (tle_resolved_at f))) es))"
    unfolding resolvedThreadRootIds_def split_threads_spec prod.case
    by (subst resolved_roots_spec [OF assms]) (auto simp del: insert_iff bex_simps)
qed (use collect_root [OF assms] in \<open>simp add: split_threads_spec\<close>)

lemma resolvedThreadRootIds_total_witness:
  "resolvedThreadRootIds [example_entry ''a'' ''1'' None (Some ''t''), example_entry ''x'' ''2'' (Some ''y'') (Some ''t''),
     example_entry ''y'' ''3'' (Some ''x'') None] = Some [''a'']"
  using resolvedThreadRootIds_total [of "[example_entry ''a'' ''1'' None (Some ''t''),
      example_entry ''x'' ''2'' (Some ''y'') (Some ''t''), example_entry ''y'' ''3'' (Some ''x'') None]"]
  by (simp add: is_root_def)

section \<open>Resolving a comment folds its thread around it\<close>

lemma reply_rel_map:
  assumes "\<And>e. tle_id (f e) = tle_id e \<and> tle_type (f e) = tle_type e \<and> tle_parent_id (f e) = tle_parent_id e"
  shows "reply_rel (map f es) = reply_rel es"
proof -
  have "(p, c) \<in> reply_rel (map f es) \<longleftrightarrow> (p, c) \<in> reply_rel es" for p c
    unfolding reply_rel_member using assms by simp
  then show ?thesis by auto
qed

lemma reach_thread:
  assumes "r \<in> set es" "is_root r" "(tle_id r, x) \<in> (reply_rel es)\<^sup>*"
  shows "(tle_id r, x) \<in> (thread_link es)\<^sup>*"
proof -
  have "(tle_id r, x) \<in> (thread_link es)\<^sup>* \<and> (\<exists>f\<in>set es. tle_type f = Comment_entry \<and> tle_id f = x)"
    using assms(3)
  proof induction
    case base
    show ?case using assms(1,2) by (auto simp: is_root_def)
  next
    case (step y z)
    then have "(y, z) \<in> thread_link es"
      using step.hyps step.IH unfolding thread_link_iff reply_rel_member by blast
    with step show ?case unfolding reply_rel_member by (blast intro: rtrancl_into_rtrancl)
  qed
  then show ?thesis by blast
qed

lemma thread_link_reply: "thread_link es \<subseteq> reply_rel es"
  by (intro subrelI) (simp add: thread_link_iff reply_rel_member)

lemma thread_below_root:
  assumes dist: "distinct (map tle_id es)" and r: "r \<in> set es" "is_root r"
    and x: "(tle_id r, x) \<in> (thread_link es \<union> (thread_link es)\<inverse>)\<^sup>*"
  shows "(tle_id r, x) \<in> (reply_rel es)\<^sup>*"
  using x
proof induction
  case (step y z)
  show ?case
  proof (cases "(y, z) \<in> thread_link es")
    case True
    then show ?thesis using step.IH thread_link_reply by (blast intro: rtrancl_into_rtrancl)
  next
    case False
    then have zy: "(z, y) \<in> reply_rel es" using step.hyps thread_link_reply by blast
    then have "tle_id r \<noteq> y" using root_no_parent [OF dist r] by auto
    then show ?thesis using rtrancl_parent [OF dist zy step.IH] by simp
  qed
qed simp

lemma resolve_shape:
  "tle_id (resolve_entry now i b t f) = tle_id f" "tle_type (resolve_entry now i b t f) = tle_type f"
  "tle_parent_id (resolve_entry now i b t f) = tle_parent_id f"
  by (simp_all add: resolve_entry_def)

lemma thread_of_refl: "x \<in> thread_of es x"
  by (simp add: thread_of_def)

lemma thread_of_sym: "x \<in> thread_of es y \<longleftrightarrow> (x, y) \<in> (thread_link es \<union> (thread_link es)\<inverse>)\<^sup>*"
proof -
  have "sym ((thread_link es \<union> (thread_link es)\<inverse>)\<^sup>*)" by (intro sym_rtrancl) (auto simp: sym_def)
  then show ?thesis by (auto simp: thread_of_def dest: symD)
qed

text \<open>The thread of a top-level comment is what its replies reach.\<close>

lemma root_thread:
  assumes dist: "distinct (map tle_id es)" and r: "r \<in> set es" "is_root r"
    and c: "tle_id r \<in> thread_of es c"
  shows "(tle_id r, x) \<in> (reply_rel es)\<^sup>* \<longleftrightarrow> x \<in> thread_of es c"
proof
  assume "(tle_id r, x) \<in> (reply_rel es)\<^sup>*"
  then have "(tle_id r, x) \<in> (thread_link es)\<^sup>*" by (rule reach_thread [OF r])
  then have "(tle_id r, x) \<in> (thread_link es \<union> (thread_link es)\<inverse>)\<^sup>*"
    using rtrancl_mono [of "thread_link es" "thread_link es \<union> (thread_link es)\<inverse>"] by blast
  then show "x \<in> thread_of es c" using c unfolding thread_of_def by (auto intro: rtrancl_trans)
next
  assume "x \<in> thread_of es c"
  then have "(c, x) \<in> (thread_link es \<union> (thread_link es)\<inverse>)\<^sup>*" by (simp add: thread_of_def)
  moreover have "(tle_id r, c) \<in> (thread_link es \<union> (thread_link es)\<inverse>)\<^sup>*" using c thread_of_sym by blast
  ultimately show "(tle_id r, x) \<in> (reply_rel es)\<^sup>*"
    by (intro thread_below_root [OF dist r]) (rule rtrancl_trans)
qed

text \<open>
  Resolving a comment makes it the resolution its thread shows.  In a timeline with unique ids
  whose replies form no cycle, after a comment is resolved the thread with that comment in it (its
  top-level comment \<open>r\<close>, as the page collects its replies) shows exactly that comment as its
  resolution: the whole thread when it is the top-level comment, that reply otherwise, whatever was
  resolved in it before, at whatever depth.
\<close>
theorem resolveComment_shown:
  assumes "distinct (map tle_id old)" "acyclic (thread_link old)"
    and "e \<in> set old" "tle_type e = Comment_entry" "now \<noteq> []"
    and "fst (resolveComment_mutate now (tle_id e) True (Some old)) = Some es"
    and "r \<in> set es" "is_root r" "tle_id r \<in> thread_of old (tle_id e)"
  shows "\<exists>rs. collectThreadReplies (tle_id r) (snd (split_threads es)) = Some rs
    \<and> deriveThreadResolution r rs
        = (if tle_id r = tle_id e then Resolution_root else Resolution_reply (tle_id e))"
proof -
  define upd where "upd = resolve_entry now (tle_id e) True (Some (collectThreadCommentIds old (tle_id e)))"
  have es: "es = map upd old" using assms(6) by (simp add: resolveComment_mutate_def upd_def)
  have shape: "tle_id (upd f) = tle_id f \<and> tle_type (upd f) = tle_type f \<and> tle_parent_id (upd f) = tle_parent_id f" for f
    unfolding upd_def by (simp add: resolve_shape)
  have rel: "reply_rel es = reply_rel old" unfolding es by (rule reply_rel_map) (rule shape)
  have dist: "distinct (map tle_id es)" using assms(1) shape by (simp add: es comp_def)
  obtain r0 where r0: "r0 \<in> set old" "r = upd r0" using assms(7) es by auto
  then have root0: "is_root r0" "tle_id r0 = tle_id r" using assms(8) shape by (simp_all add: is_root_def)
  have only: "\<not> falsy (tle_resolved_at f) \<longleftrightarrow> tle_id f = tle_id e"
    if "f \<in> set es" "tle_id f \<in> thread_of old (tle_id e)" for f
    using resolve_thread [OF assms(1-5), of "Some es" "Some old"] assms(6) that
    by (simp add: resolveComment_mutate_def)
  obtain rs where rs: "collectThreadReplies (tle_id r) (replies_in es) = Some rs" "set rs = below es (tle_id r)"
    using collect_root [OF dist assms(7,8)] by auto
  have thread: "(tle_id r, x) \<in> (reply_rel es)\<^sup>* \<longleftrightarrow> x \<in> thread_of old (tle_id e)" for x
    using root_thread [OF assms(1) r0(1) root0(1)] assms(9) root0(2) rel by simp
  have here: "tle_id f \<in> thread_of old (tle_id e)" if "f \<in> set rs" for f
    using that rs(2) thread by (auto simp: below_def dest: trancl_into_rtrancl)
  have "deriveThreadResolution r rs = (if tle_id r = tle_id e then Resolution_root else Resolution_reply (tle_id e))"
  proof (cases "tle_id r = tle_id e")
    case True
    then show ?thesis using only [OF assms(7,9)] by (simp add: deriveThreadResolution_def)
  next
    case False
    have "(tle_id r, tle_id e) \<in> (reply_rel es)\<^sup>+"
      using False thread [of "tle_id e"] thread_of_refl by (auto dest: rtranclD)
    then obtain c where c: "c \<in> set rs" "tle_id c = tle_id e"
      unfolding rs(2) by (metis below_target)
    then have "c \<in> set es" using rs(2) by (simp add: below_def)
    then have "\<not> falsy (tle_resolved_at c)" using only here c by auto
    moreover have "tle_id f = tle_id c" if "f \<in> set rs" "\<not> falsy (tle_resolved_at f)" for f
      using only [OF _ here [OF that(1)]] that rs(2) c(2) by (simp add: below_def)
    moreover have "falsy (tle_resolved_at r)" using only [OF assms(7,9)] False by simp
    ultimately show ?thesis using resolved_reply [of r c rs] c False by simp
  qed
  then show ?thesis using rs(1) by (simp add: split_threads_spec)
qed

lemma resolveComment_shown_witness:
  "\<exists>es rs. fst (resolveComment_mutate ''now'' ''b'' True (Some [example_entry ''a'' ''1'' None None,
       example_entry ''b'' ''2'' (Some ''a'') None])) = Some es
     \<and> collectThreadReplies ''a'' (snd (split_threads es)) = Some rs
     \<and> deriveThreadResolution (hd es) rs = Resolution_reply ''b''"
proof -
  let ?a = "example_entry ''a'' ''1'' None None"
  let ?b = "example_entry ''b'' ''2'' (Some ''a'') None"
  let ?f = "resolve_entry ''now'' ''b'' True (Some (collectThreadCommentIds [?a, ?b] ''b''))"
  have link: "thread_link [?a, ?b] = {(''a'', ''b'')}" by (auto simp: set_eq_iff thread_link_iff)
  have "acyclic ({} :: (string \<times> string) set)" by (simp add: acyclic_def)
  then have acyc: "acyclic (thread_link [?a, ?b])" by (simp add: link)
  have thread: "''a'' \<in> thread_of [?a, ?b] ''b''" by (auto simp: thread_of_def link)
  have a: "?f ?a = ?a" by (simp add: resolve_entry_def)
  have "fst (resolveComment_mutate ''now'' (tle_id ?b) True (Some [?a, ?b])) = Some [?a, ?f ?b]"
    using a by (simp add: resolveComment_mutate_def)
  from resolveComment_shown [OF _ acyc _ _ _ this, of ?a] thread show ?thesis
    using a by (auto simp: is_root_def resolveComment_mutate_def)
qed

end
