(* ===== verification/Workspace_Storage.thy ===== *)
theory Workspace_Storage
  imports Prelude
begin

text \<open>
  The current workspace and the storage namespaced by it (\<open>packages/core/platform/workspace-storage.ts\<close>,
  \<open>storage.ts\<close>, \<open>persist-storage.ts\<close>, \<open>storage-cleanup.ts\<close>).  The module is a small state machine:
  a change of the slug queues at most one notification and one rehydration, which run as
  microtasks.  Callbacks are numbers; one that throws ends the loop it is called from.  Callbacks do
  not call the module while they run, and local storage is never full.
\<close>

section \<open>Storage\<close>

record 's storage_adapter =
  ad_getItem :: "'s \<Rightarrow> string \<Rightarrow> string option"
  ad_setItem :: "string \<Rightarrow> string \<Rightarrow> 's \<Rightarrow> 's"
  ad_removeItem :: "string \<Rightarrow> 's \<Rightarrow> 's"

type_synonym local_storage = "string \<Rightarrow> string option"

text \<open>\<open>browser\<close> is \<open>typeof window !== "undefined"\<close>.\<close>

definition defaultStorage :: "bool \<Rightarrow> local_storage storage_adapter" where
  "defaultStorage browser =
     \<lparr>ad_getItem = (\<lambda>ls k. if browser then ls k else None),
      ad_setItem = (\<lambda>k v ls. if browser then ls(k \<mapsto> v) else ls),
      ad_removeItem = (\<lambda>k ls. if browser then ls(k := None) else ls)\<rparr>"

definition createPersistStorage :: "'s storage_adapter \<Rightarrow> 's storage_adapter" where
  "createPersistStorage adapter =
     \<lparr>ad_getItem = (\<lambda>s key. ad_getItem adapter s key),
      ad_setItem = (\<lambda>key v s. ad_setItem adapter key v s),
      ad_removeItem = (\<lambda>key s. ad_removeItem adapter key s)\<rparr>"

definition scoped_key :: "string \<Rightarrow> string \<Rightarrow> string" where
  "scoped_key key slug = key @ '':'' @ slug"

text \<open>The slug is the one current at the time of each call.\<close>

definition createWorkspaceAwareStorage :: "string option \<Rightarrow> 's storage_adapter \<Rightarrow> 's storage_adapter" where
  "createWorkspaceAwareStorage currentSlug adapter =
     \<lparr>ad_getItem = (\<lambda>s key. if falsy currentSlug then None
        else ad_getItem adapter s (scoped_key key (the currentSlug))),
      ad_setItem = (\<lambda>key v s. if falsy currentSlug then s
        else ad_setItem adapter (scoped_key key (the currentSlug)) v s),
      ad_removeItem = (\<lambda>key s. if falsy currentSlug then s
        else ad_removeItem adapter (scoped_key key (the currentSlug)) s)\<rparr>"

definition WORKSPACE_SCOPED_KEYS :: "string list" where
  "WORKSPACE_SCOPED_KEYS =
     [''multica_issue_draft'', ''multica_issue_surface_views'', ''multica_issues_view'',
      ''multica_issues_scope'', ''multica_my_issues_view'', ''multica:chat:selectedAgentId'',
      ''multica:chat:activeSessionId'', ''multica:chat:drafts'', ''multica:chat:expanded'',
      ''multica_navigation'']"

definition clearWorkspaceStorage :: "'s storage_adapter \<Rightarrow> string \<Rightarrow> 's \<Rightarrow> 's" where
  "clearWorkspaceStorage adapter slug s =
     fold (\<lambda>key. ad_removeItem adapter (scoped_key key slug)) WORKSPACE_SCOPED_KEYS s"

section \<open>The current workspace\<close>

datatype microtask = Notify_subscribers | Rehydrate_stores

record workspace_module =
  currentSlug :: "string option"
  currentWsId :: "string option"
  rehydrateFns :: "nat list"
  slugSubscribers :: "nat list"
  pendingNotify :: bool
  pendingRehydrate :: bool
  microtasks :: "microtask list"

definition initial_module :: workspace_module where
  "initial_module = \<lparr>currentSlug = None, currentWsId = None, rehydrateFns = [], slugSubscribers = [],
     pendingNotify = False, pendingRehydrate = False, microtasks = []\<rparr>"

definition queue_notify :: "workspace_module \<Rightarrow> workspace_module" where
  "queue_notify m =
     (if pendingNotify m then m
      else m\<lparr>pendingNotify := True, microtasks := microtasks m @ [Notify_subscribers]\<rparr>)"

definition queue_rehydrate :: "workspace_module \<Rightarrow> workspace_module" where
  "queue_rehydrate m =
     (if pendingRehydrate m then m
      else m\<lparr>pendingRehydrate := True, microtasks := microtasks m @ [Rehydrate_stores]\<rparr>)"

definition setCurrentWorkspace :: "string option \<Rightarrow> string option \<Rightarrow> workspace_module \<Rightarrow> workspace_module" where
  "setCurrentWorkspace slug wsId m =
     (if currentSlug m = slug then m\<lparr>currentWsId := wsId\<rparr>
      else queue_rehydrate (queue_notify (m\<lparr>currentSlug := slug, currentWsId := wsId\<rparr>)))"

text \<open>The subscribers are a \<open>Set\<close>, the rehydrate functions an array.\<close>

definition subscribeToCurrentSlug :: "nat \<Rightarrow> workspace_module \<Rightarrow> workspace_module" where
  "subscribeToCurrentSlug fn m =
     (if fn \<in> set (slugSubscribers m) then m else m\<lparr>slugSubscribers := slugSubscribers m @ [fn]\<rparr>)"

definition unsubscribe :: "nat \<Rightarrow> workspace_module \<Rightarrow> workspace_module" where
  "unsubscribe fn m = m\<lparr>slugSubscribers := filter (\<lambda>f. f \<noteq> fn) (slugSubscribers m)\<rparr>"

definition registerForWorkspaceRehydration :: "nat \<Rightarrow> workspace_module \<Rightarrow> workspace_module" where
  "registerForWorkspaceRehydration fn m = m\<lparr>rehydrateFns := rehydrateFns m @ [fn]\<rparr>"

datatype callback = Call_subscriber nat "string option" | Call_rehydrate nat

text \<open>The calls a loop makes: up to the first callback that throws, that one included.\<close>

fun callbacks_until :: "(nat \<Rightarrow> bool) \<Rightarrow> (nat \<Rightarrow> callback) \<Rightarrow> nat list \<Rightarrow> callback list" where
  "callbacks_until throws call [] = []"
| "callbacks_until throws call (f # fs) = call f # (if throws f then [] else callbacks_until throws call fs)"

definition notify_task :: "(nat \<Rightarrow> bool) \<Rightarrow> workspace_module \<Rightarrow> workspace_module \<times> callback list" where
  "notify_task throws m =
     (let current = currentSlug m
      in (m\<lparr>pendingNotify := False\<rparr>, callbacks_until throws (\<lambda>f. Call_subscriber f current) (slugSubscribers m)))"

definition rehydrate_task :: "(nat \<Rightarrow> bool) \<Rightarrow> workspace_module \<Rightarrow> workspace_module \<times> callback list" where
  "rehydrate_task throws m =
     (m\<lparr>pendingRehydrate := False\<rparr>, callbacks_until throws Call_rehydrate (rehydrateFns m))"

definition run_microtask :: "(nat \<Rightarrow> bool) \<Rightarrow> workspace_module \<Rightarrow> workspace_module \<times> callback list" where
  "run_microtask throws m =
     (case microtasks m of
        [] \<Rightarrow> (m, [])
      | Notify_subscribers # ts \<Rightarrow> notify_task throws (m\<lparr>microtasks := ts\<rparr>)
      | Rehydrate_stores # ts \<Rightarrow> rehydrate_task throws (m\<lparr>microtasks := ts\<rparr>))"

section \<open>The contract of a storage\<close>

locale lawful_storage =
  fixes ad :: "'s storage_adapter"
  assumes get_set: "ad_getItem ad (ad_setItem ad k v s) j = (if j = k then Some v else ad_getItem ad s j)"
    and get_remove: "ad_getItem ad (ad_removeItem ad k s) j = (if j = k then None else ad_getItem ad s j)"
begin

lemma get_clear_keys:
  "ad_getItem ad (fold (\<lambda>key. ad_removeItem ad (scoped_key key slug)) ks s) j =
     (if \<exists>key\<in>set ks. j = scoped_key key slug then None else ad_getItem ad s j)"
  by (induction ks arbitrary: s) (auto simp: get_remove)

lemma get_clear:
  "ad_getItem ad (clearWorkspaceStorage ad slug s) j =
     (if \<exists>key\<in>set WORKSPACE_SCOPED_KEYS. j = scoped_key key slug then None else ad_getItem ad s j)"
  unfolding clearWorkspaceStorage_def by (rule get_clear_keys)

end

text \<open>In a browser the default storage keeps the contract; persisting through it does too.\<close>

interpretation browser_storage: lawful_storage "defaultStorage True"
  by unfold_locales (simp_all add: defaultStorage_def)

interpretation persist_storage: lawful_storage "createPersistStorage (defaultStorage True)"
  by unfold_locales (simp_all add: createPersistStorage_def defaultStorage_def)

lemma scoped_key_inj:
  assumes "CHR '':'' \<notin> set a" "CHR '':'' \<notin> set b"
  shows "scoped_key k a = scoped_key j b \<longleftrightarrow> k = j \<and> a = b"
proof
  assume eq: "scoped_key k a = scoped_key j b"
  then have "rev a @ CHR '':'' # rev k = rev b @ CHR '':'' # rev j"
    by (simp add: scoped_key_def) (metis append.assoc append_Cons append_Nil rev.simps(2) rev_append)
  then have "js_split CHR '':'' (rev a @ CHR '':'' # rev k) = js_split CHR '':'' (rev b @ CHR '':'' # rev j)"
    by simp
  then have "rev a = rev b" using assms by (simp add: js_split_sep)
  then show "k = j \<and> a = b" using eq by (simp add: scoped_key_def)
qed simp

text \<open>
  C25. Workspaces do not see each other's stored values, and the cleanup removes the listed keys only.
  In a browser, for slugs without a colon: what is stored under a key in one workspace is read back
  there and leaves every read in another workspace as it was; without a current workspace nothing
  is read and nothing is written; clearing a workspace removes the ten listed keys of that workspace
  and nothing else, so that the drafts of comments, projects and feedback, the quick-create form, the
  folded comments and the views of agents, squads, skills, projects and autopilots, which are stored
  per workspace too, survive the deletion of the workspace and the logout.
\<close>
theorem workspace_storage_isolated:
  assumes "CHR '':'' \<notin> set a" "CHR '':'' \<notin> set b" "a \<noteq> []"
  shows "let aware = \<lambda>slug. createWorkspaceAwareStorage slug (defaultStorage True) in
    ad_getItem (aware (Some a)) (ad_setItem (aware (Some a)) k v ls) k = Some v
    \<and> (b \<noteq> a \<longrightarrow> ad_getItem (aware (Some b)) (ad_setItem (aware (Some a)) k v ls) j = ad_getItem (aware (Some b)) ls j)
    \<and> ad_getItem (aware None) ls k = None \<and> ad_setItem (aware None) k v ls = ls \<and> ad_removeItem (aware None) k ls = ls
    \<and> (ad_getItem (aware (Some b)) (clearWorkspaceStorage (defaultStorage True) a ls) j =
         (if b = a \<and> j \<in> set WORKSPACE_SCOPED_KEYS then None else ad_getItem (aware (Some b)) ls j))
    \<and> set [''multica_comment_drafts'', ''multica_project_draft'', ''multica_feedback_draft'', ''multica_quick_create'',
        ''multica_comment_collapse'', ''multica_agents_view'', ''multica_squads_view'', ''multica_skills_view'',
        ''multica_projects_view'', ''multica_autopilots_view''] \<inter> set WORKSPACE_SCOPED_KEYS = {}"
proof -
  let ?D = "defaultStorage True"
  have clear: "ad_getItem ?D (clearWorkspaceStorage ?D a ls) (scoped_key j b) =
      (if b = a \<and> j \<in> set WORKSPACE_SCOPED_KEYS then None else ad_getItem ?D ls (scoped_key j b))"
    unfolding browser_storage.get_clear using scoped_key_inj [OF assms(2,1)] by auto
  have keys: "set [''multica_comment_drafts'', ''multica_project_draft'', ''multica_feedback_draft'', ''multica_quick_create'',
        ''multica_comment_collapse'', ''multica_agents_view'', ''multica_squads_view'', ''multica_skills_view'',
        ''multica_projects_view'', ''multica_autopilots_view''] \<inter> set WORKSPACE_SCOPED_KEYS = {}"
    by (simp add: WORKSPACE_SCOPED_KEYS_def)
  show ?thesis
    using assms clear keys
    by (auto simp: Let_def createWorkspaceAwareStorage_def browser_storage.get_set scoped_key_inj)
qed

lemma workspace_storage_isolated_witness:
  "ad_getItem (createWorkspaceAwareStorage (Some ''acme'') (defaultStorage True))
     (ad_setItem (createWorkspaceAwareStorage (Some ''acme'') (defaultStorage True)) ''k'' ''v'' Map.empty) ''k'' = Some ''v''"
  using workspace_storage_isolated [of "''acme''" "''beta''" "''k''" "''v''" Map.empty] by (simp add: Let_def)

section \<open>Switching workspaces\<close>

definition module_ok :: "workspace_module \<Rightarrow> bool" where
  "module_ok m \<longleftrightarrow> (pendingNotify m \<longleftrightarrow> Notify_subscribers \<in> set (microtasks m))
     \<and> (pendingRehydrate m \<longleftrightarrow> Rehydrate_stores \<in> set (microtasks m)) \<and> distinct (microtasks m)"

text \<open>Everything that can happen to the module between two turns of the event loop.\<close>

inductive reachable_module :: "(nat \<Rightarrow> bool) \<Rightarrow> workspace_module \<Rightarrow> bool" for throws where
  Start: "reachable_module throws initial_module"
| Change: "reachable_module throws m \<Longrightarrow> reachable_module throws (setCurrentWorkspace slug wsId m)"
| Subscribe: "reachable_module throws m \<Longrightarrow> reachable_module throws (subscribeToCurrentSlug fn m)"
| Unsubscribe: "reachable_module throws m \<Longrightarrow> reachable_module throws (unsubscribe fn m)"
| Register: "reachable_module throws m \<Longrightarrow> reachable_module throws (registerForWorkspaceRehydration fn m)"
| Microtask: "reachable_module throws m \<Longrightarrow> reachable_module throws (fst (run_microtask throws m))"

lemma module_ok_set: "module_ok m \<Longrightarrow> module_ok (setCurrentWorkspace slug wsId m)"
  by (auto simp: module_ok_def setCurrentWorkspace_def queue_notify_def queue_rehydrate_def)

lemma module_ok_run: "module_ok m \<Longrightarrow> module_ok (fst (run_microtask throws m))"
  by (cases "microtasks m")
    (auto simp: module_ok_def run_microtask_def notify_task_def rehydrate_task_def Let_def split: microtask.splits)

lemma reachable_module_ok: "reachable_module throws m \<Longrightarrow> module_ok m"
proof (induction rule: reachable_module.induct)
  case (Change m slug wsId)
  then show ?case by (simp add: module_ok_set)
next
  case (Microtask m)
  then show ?case by (simp add: module_ok_run)
qed (auto simp: module_ok_def initial_module_def subscribeToCurrentSlug_def unsubscribe_def
  registerForWorkspaceRehydration_def)

text \<open>The event loop: microtasks run until none is left.\<close>

lemma run_microtask_shorter:
  "microtasks m \<noteq> [] \<Longrightarrow> length (microtasks (fst (run_microtask throws m))) < length (microtasks m)"
  by (cases "microtasks m")
    (auto simp: run_microtask_def notify_task_def rehydrate_task_def Let_def split: microtask.splits)

function run_microtasks :: "(nat \<Rightarrow> bool) \<Rightarrow> workspace_module \<Rightarrow> workspace_module \<times> callback list" where
  "run_microtasks throws m =
     (if microtasks m = [] then (m, [])
      else let (m', calls) = run_microtask throws m; (m'', more_calls) = run_microtasks throws m'
           in (m'', calls @ more_calls))"
  by pat_completeness auto
termination
  by (relation "measure (\<lambda>(_, m). length (microtasks m))")
    (auto dest: run_microtask_shorter intro: run_microtask_shorter [THEN order.strict_trans2] simp: prod_eq_iff)

declare run_microtasks.simps [simp del]

abbreviation set_all :: "(string option \<times> string option) list \<Rightarrow> workspace_module \<Rightarrow> workspace_module" where
  "set_all changes m \<equiv> fold (\<lambda>(slug, wsId). setCurrentWorkspace slug wsId) changes m"

lemma module_ok_all: "module_ok m \<Longrightarrow> module_ok (set_all changes m)"
  by (induction changes arbitrary: m) (auto simp: module_ok_set)

lemma set_idle:
  assumes "module_ok m" "microtasks m = []"
  shows "setCurrentWorkspace slug wsId m =
    (if slug = currentSlug m then m\<lparr>currentWsId := wsId\<rparr>
     else m\<lparr>currentSlug := slug, currentWsId := wsId, pendingNotify := True, pendingRehydrate := True,
       microtasks := [Notify_subscribers, Rehydrate_stores]\<rparr>)"
  using assms by (simp add: setCurrentWorkspace_def queue_notify_def queue_rehydrate_def module_ok_def)

lemma set_pending:
  assumes "module_ok m" "microtasks m = [Notify_subscribers, Rehydrate_stores]"
  shows "setCurrentWorkspace slug wsId m = m\<lparr>currentSlug := slug, currentWsId := wsId\<rparr>"
  using assms by (auto simp: setCurrentWorkspace_def queue_notify_def queue_rehydrate_def module_ok_def)

text \<open>A run of changes queues each task once, if any of them changed the slug.\<close>

lemma set_all_spec:
  assumes "module_ok m" "microtasks m = []"
  shows "microtasks (set_all changes m) =
      (if \<forall>c\<in>set changes. fst c = currentSlug m then [] else [Notify_subscribers, Rehydrate_stores])
    \<and> currentSlug (set_all changes m) = (if changes = [] then currentSlug m else fst (last changes))
    \<and> currentWsId (set_all changes m) = (if changes = [] then currentWsId m else snd (last changes))
    \<and> slugSubscribers (set_all changes m) = slugSubscribers m
    \<and> rehydrateFns (set_all changes m) = rehydrateFns m"
proof (induction changes rule: rev_induct)
  case (snoc c changes)
  obtain slug wsId where c: "c = (slug, wsId)" by (cases c)
  have ok: "module_ok (set_all changes m)" using assms(1) by (rule module_ok_all)
  show ?case
  proof (cases "\<forall>c\<in>set changes. fst c = currentSlug m")
    case True
    then have idle: "microtasks (set_all changes m) = []" "currentSlug (set_all changes m) = currentSlug m"
      using snoc by (auto split: if_splits)
    show ?thesis using snoc True idle(2) by (simp add: c set_idle [OF ok idle(1)])
  next
    case False
    then have "microtasks (set_all changes m) = [Notify_subscribers, Rehydrate_stores]" using snoc by simp
    then show ?thesis using snoc False by (simp add: c set_pending [OF ok])
  qed
qed (use assms in simp)

lemma run_both:
  assumes "microtasks m = [Notify_subscribers, Rehydrate_stores]"
  shows "run_microtasks throws m =
    (m\<lparr>pendingNotify := False, pendingRehydrate := False, microtasks := []\<rparr>,
     callbacks_until throws (\<lambda>f. Call_subscriber f (currentSlug m)) (slugSubscribers m)
     @ callbacks_until throws Call_rehydrate (rehydrateFns m))"
  using assms
  by (subst run_microtasks.simps, subst run_microtasks.simps, subst run_microtasks.simps)
    (simp add: run_microtask_def notify_task_def rehydrate_task_def Let_def)

text \<open>
  C26. Switching workspaces is coalesced and idempotent.  From any reachable idle state of the module,
  after any number of changes in one turn of the event loop the microtasks end with nothing queued;
  if one of the changes named another slug than the current one, every subscriber is told the slug
  of the last change, once, and then every registered store rehydrates, once (each loop up to the
  first callback that throws, and a subscriber that throws does not keep the stores from
  rehydrating); if none did, nothing is called.  The last change decides the workspace, its id
  included.
\<close>
theorem workspace_switch_coalesced:
  assumes "reachable_module throws m" "microtasks m = []" "changes \<noteq> []"
  shows "let (m', calls) = run_microtasks throws (set_all changes m) in
    microtasks m' = [] \<and> \<not> pendingNotify m' \<and> \<not> pendingRehydrate m'
    \<and> currentSlug m' = fst (last changes) \<and> currentWsId m' = snd (last changes)
    \<and> calls = (if \<forall>c\<in>set changes. fst c = currentSlug m then []
        else callbacks_until throws (\<lambda>f. Call_subscriber f (fst (last changes))) (slugSubscribers m)
          @ callbacks_until throws Call_rehydrate (rehydrateFns m))"
proof (cases "\<forall>c\<in>set changes. fst c = currentSlug m")
  case True
  have ok: "module_ok m" by (rule reachable_module_ok [OF assms(1)])
  note spec = set_all_spec [OF ok assms(2), of changes]
  have "module_ok (set_all changes m)" using ok by (rule module_ok_all)
  then show ?thesis using spec True assms(3) by (subst run_microtasks.simps) (simp add: module_ok_def)
next
  case False
  note spec = set_all_spec [OF reachable_module_ok [OF assms(1)] assms(2), of changes]
  then have both: "microtasks (set_all changes m) = [Notify_subscribers, Rehydrate_stores]" using False by simp
  have changed: "(\<forall>c\<in>set changes. fst c = currentSlug m) = False" using False by simp
  show ?thesis unfolding run_both [OF both] changed using spec assms(3) by simp
qed

lemma workspace_switch_coalesced_witness:
  "snd (run_microtasks (\<lambda>_. False) (set_all [(Some ''a'', None), (Some ''b'', Some ''w'')]
      (registerForWorkspaceRehydration 7 (subscribeToCurrentSlug 3 initial_module))))
   = [Call_subscriber 3 (Some ''b''), Call_rehydrate 7]"
proof -
  have r: "reachable_module (\<lambda>_. False) (registerForWorkspaceRehydration 7 (subscribeToCurrentSlug 3 initial_module))"
    by (intro reachable_module.intros)
  show ?thesis
    using workspace_switch_coalesced [OF r, of "[(Some ''a'', None), (Some ''b'', Some ''w'')]"]
    by (simp add: registerForWorkspaceRehydration_def subscribeToCurrentSlug_def initial_module_def Let_def split: prod.splits)
qed

end
