(* ===== verification/Board_Drag.thy ===== *)
theory Board_Drag
  imports Issue_Buckets Issue_Fetch Tab_Actions
begin

text \<open>
  Dragging a card on the issue board (\<open>packages/views/issues/utils/drag-utils.ts\<close>, the handlers of
  \<open>components/board-view.tsx\<close> and the locks of \<open>components/use-drag-settle.ts\<close>): the columns built
  from the cached issues, the local columns while a drag is on, and the move a drop asks for.
  \<open>None\<close> as the result of a handler is an exception: a column that is not there.
\<close>

section \<open>Groups and columns\<close>

definition status_name :: "issue_status \<Rightarrow> string" where
  "status_name s =
     (case s of Backlog \<Rightarrow> ''backlog'' | Todo \<Rightarrow> ''todo'' | In_progress \<Rightarrow> ''in_progress''
      | In_review \<Rightarrow> ''in_review'' | Done \<Rightarrow> ''done'' | Blocked \<Rightarrow> ''blocked'' | Cancelled \<Rightarrow> ''cancelled'')"

definition PROPERTY_VIEW_PREFIX :: string where
  "PROPERTY_VIEW_PREFIX = ''property:''"

definition propertyIdFromViewKey :: "string \<Rightarrow> string option" where
  "propertyIdFromViewKey key =
     (if starts_with key PROPERTY_VIEW_PREFIX then Some (drop (length PROPERTY_VIEW_PREFIX) key) else None)"

text \<open>A property column is \<open>Some (Some option)\<close>, the column of no value \<open>Some None\<close>.\<close>

record board_group =
  bgr_id :: string
  bgr_title :: string
  bgr_status :: "issue_status option"
  bgr_assigneeType :: "issue_assignee_type option"
  bgr_assigneeId :: "string option"
  bgr_propertyId :: "string option"
  bgr_propertyOptionId :: "string option option"

definition UNASSIGNED_GROUP_ID :: string where
  "UNASSIGNED_GROUP_ID = ''assignee:unassigned''"

definition statusGroupId :: "issue_status \<Rightarrow> string" where
  "statusGroupId status = ''status:'' @ status_name status"

definition propertyGroupId :: "string \<Rightarrow> string option \<Rightarrow> string" where
  "propertyGroupId propertyId optionId =
     ''property:'' @ propertyId @ '':'' @ (case optionId of None \<Rightarrow> ''none'' | Some i \<Rightarrow> i)"

definition assigneeGroupId :: "issue_assignee_type option \<Rightarrow> string option \<Rightarrow> string" where
  "assigneeGroupId type i =
     (case type of
        None \<Rightarrow> UNASSIGNED_GROUP_ID
      | Some t \<Rightarrow> if falsy i then UNASSIGNED_GROUP_ID
                 else ''assignee:'' @ assignee_type_name t @ '':'' @ the i)"

text \<open>The value of a select property, when it is a text.\<close>

definition string_value :: "issue \<Rightarrow> string \<Rightarrow> string option" where
  "string_value issue propertyId =
     (case js_get (iss_properties issue) propertyId of Some (PString s) \<Rightarrow> Some s | _ \<Rightarrow> None)"

definition getIssueGroupId :: "issue \<Rightarrow> string \<Rightarrow> string list option \<Rightarrow> string" where
  "getIssueGroupId issue grouping knownOptionIds =
     (if grouping = ''status'' then statusGroupId (iss_status issue)
      else if falsy (propertyIdFromViewKey grouping)
        then assigneeGroupId (iss_assignee_type issue) (iss_assignee_id issue)
      else let propertyId = the (propertyIdFromViewKey grouping);
               optionId = string_value issue propertyId
           in propertyGroupId propertyId
                (case (optionId, knownOptionIds) of
                   (Some i, Some known) \<Rightarrow> if i \<in> set known then optionId else None
                 | _ \<Rightarrow> optionId))"

type_synonym columns = "string list js_object"

definition push_issue :: "string \<Rightarrow> string list option \<Rightarrow> issue \<Rightarrow> columns \<Rightarrow> columns" where
  "push_issue grouping known issue cols =
     (let gid = getIssueGroupId issue grouping known
      in case js_get cols gid of None \<Rightarrow> cols | Some ids \<Rightarrow> js_put gid (ids @ [iss_id issue]) cols)"

definition buildColumns :: "issue list \<Rightarrow> board_group list \<Rightarrow> string \<Rightarrow> string list option \<Rightarrow> columns" where
  "buildColumns issues groups grouping known =
     fold (push_issue grouping known) issues (fold (\<lambda>g. js_put (bgr_id g) []) groups [])"

definition status_group :: "issue_status \<Rightarrow> board_group" where
  "status_group status =
     \<lparr>bgr_id = statusGroupId status, bgr_title = status_name status, bgr_status = Some status,
      bgr_assigneeType = None, bgr_assigneeId = None, bgr_propertyId = None, bgr_propertyOptionId = None\<rparr>"

definition property_group :: "string \<Rightarrow> string option \<Rightarrow> string \<Rightarrow> board_group" where
  "property_group propertyId optionId title =
     \<lparr>bgr_id = propertyGroupId propertyId optionId, bgr_title = title, bgr_status = None,
      bgr_assigneeType = None, bgr_assigneeId = None, bgr_propertyId = Some propertyId,
      bgr_propertyOptionId = Some optionId\<rparr>"

text \<open>The \<open>Map\<close> of assignee groups, in insertion order.\<close>

definition add_assignee_group ::
  "(issue_assignee_type \<Rightarrow> string \<Rightarrow> string) \<Rightarrow> string \<Rightarrow> issue \<Rightarrow> board_group list \<Rightarrow> board_group list" where
  "add_assignee_group getActorName noAssigneeLabel issue groups =
     (let i = assigneeGroupId (iss_assignee_type issue) (iss_assignee_id issue) in
      if list_ex (\<lambda>g. bgr_id g = i) groups then groups
      else groups @ [case iss_assignee_type issue of
          Some t \<Rightarrow> if falsy (iss_assignee_id issue)
            then \<lparr>bgr_id = i, bgr_title = noAssigneeLabel, bgr_status = None, bgr_assigneeType = None,
                  bgr_assigneeId = None, bgr_propertyId = None, bgr_propertyOptionId = None\<rparr>
            else \<lparr>bgr_id = i, bgr_title = getActorName t (the (iss_assignee_id issue)), bgr_status = None,
                  bgr_assigneeType = Some t, bgr_assigneeId = iss_assignee_id issue,
                  bgr_propertyId = None, bgr_propertyOptionId = None\<rparr>
        | None \<Rightarrow> \<lparr>bgr_id = i, bgr_title = noAssigneeLabel, bgr_status = None, bgr_assigneeType = None,
                  bgr_assigneeId = None, bgr_propertyId = None, bgr_propertyOptionId = None\<rparr>])"

definition assignee_order :: "issue_assignee_type option \<Rightarrow> rat" where
  "assignee_order t = (case t of Some Member \<Rightarrow> 0 | Some Agent \<Rightarrow> 1 | Some Squad \<Rightarrow> 2 | None \<Rightarrow> 3)"

definition compare_groups :: "(string \<Rightarrow> string \<Rightarrow> rat) \<Rightarrow> board_group \<Rightarrow> board_group \<Rightarrow> rat option" where
  "compare_groups localeCompare a b =
     (let aOrder = assignee_order (bgr_assigneeType a); bOrder = assignee_order (bgr_assigneeType b)
      in Some (if aOrder \<noteq> bOrder then aOrder - bOrder else localeCompare (bgr_title a) (bgr_title b)))"

text \<open>A select property is its id and the ids and names of its options.\<close>

definition buildGroups ::
  "(string \<Rightarrow> string \<Rightarrow> rat) \<Rightarrow> issue list \<Rightarrow> issue_status list \<Rightarrow> string
   \<Rightarrow> (issue_assignee_type \<Rightarrow> string \<Rightarrow> string) \<Rightarrow> string
   \<Rightarrow> (string \<times> (string \<times> string) list) option \<Rightarrow> string \<Rightarrow> board_group list" where
  "buildGroups localeCompare issues visibleStatuses grouping getActorName noAssigneeLabel groupingProperty noValueLabel =
     (if grouping = ''status'' then map status_group visibleStatuses
      else case groupingProperty of
          Some (pid, options) \<Rightarrow>
            map (\<lambda>(i, name). property_group pid (Some i) name) options @ [property_group pid None noValueLabel]
        | None \<Rightarrow> js_sort (compare_groups localeCompare)
            (fold (add_assignee_group getActorName noAssigneeLabel) issues []))"

section \<open>Positions\<close>

type_synonym issue_map = "string \<Rightarrow> issue option"

definition position_in :: "issue_map \<Rightarrow> string \<Rightarrow> rat" where
  "position_in issueMap i = (case issueMap i of None \<Rightarrow> 0 | Some x \<Rightarrow> iss_position x)"

definition computePosition :: "string list \<Rightarrow> string \<Rightarrow> issue_map \<Rightarrow> rat" where
  "computePosition ids activeId issueMap =
     (case find_index (\<lambda>i. i = activeId) ids of
        None \<Rightarrow> 0
      | Some idx \<Rightarrow>
          if length ids = 1 then position_in issueMap activeId
          else if idx = 0 then position_in issueMap (ids ! 1) - 1
          else if idx = length ids - 1 then position_in issueMap (ids ! (idx - 1)) + 1
          else (position_in issueMap (ids ! (idx - 1)) + position_in issueMap (ids ! (idx + 1))) / 2)"

definition insertIdByPosition :: "string list \<Rightarrow> string \<Rightarrow> rat \<Rightarrow> issue_map \<Rightarrow> string list" where
  "insertIdByPosition ids i position issueMap =
     (case find_index (\<lambda>x. case issueMap x of None \<Rightarrow> False | Some e \<Rightarrow> iss_position e > position) ids of
        None \<Rightarrow> ids @ [i]
      | Some idx \<Rightarrow> take idx ids @ [i] @ drop idx ids)"

definition findColumn :: "columns \<Rightarrow> string \<Rightarrow> string list \<Rightarrow> string option" where
  "findColumn columns i columnIds =
     (if i \<in> set columnIds then Some i
      else map_option fst (List.find (\<lambda>(_, ids). i \<in> set ids) columns))"

definition issueMatchesGroup :: "issue \<Rightarrow> board_group \<Rightarrow> bool" where
  "issueMatchesGroup issue grp \<longleftrightarrow>
     (case bgr_status grp of
        Some s \<Rightarrow> iss_status issue = s
      | None \<Rightarrow> (case bgr_propertyId grp of
            Some pid \<Rightarrow> string_value issue pid
              = (case bgr_propertyOptionId grp of None \<Rightarrow> None | Some i \<Rightarrow> i)
          | None \<Rightarrow> iss_assignee_type issue = bgr_assigneeType grp \<and> iss_assignee_id issue = bgr_assigneeId grp))"

definition getMoveUpdates :: "board_group \<Rightarrow> rat \<Rightarrow> issue_patch" where
  "getMoveUpdates grp position =
     (case bgr_status grp of
        Some s \<Rightarrow> empty_patch\<lparr>pat_status := Some s, pat_position := Some position\<rparr>
      | None \<Rightarrow> (case bgr_propertyId grp of
            Some _ \<Rightarrow> empty_patch\<lparr>pat_position := Some position\<rparr>
          | None \<Rightarrow> empty_patch\<lparr>pat_assignee_type := Some (bgr_assigneeType grp),
              pat_assignee_id := Some (bgr_assigneeId grp), pat_position := Some position\<rparr>))"

section \<open>The drag\<close>

record board_props =
  bpr_issues :: "issue list"
  bpr_groups :: "board_group list"
  bpr_grouping :: string
  bpr_optionIds :: "string list option"
  bpr_sortBy :: string

record board_state =
  bst_columns :: columns
  bst_issueMap :: issue_map
  bst_activeIssue :: "issue option"
  bst_isDragging :: bool
  bst_isSettling :: bool
  bst_recentlyMoved :: bool

datatype drag_effect =
    Move_issue string issue_patch
  | Set_property string string string
  | Unset_property string string

definition rebuilt :: "board_props \<Rightarrow> columns" where
  "rebuilt props = buildColumns (bpr_issues props) (bpr_groups props) (bpr_grouping props) (bpr_optionIds props)"

definition board_group_ids :: "board_props \<Rightarrow> string list" where
  "board_group_ids props = map bgr_id (bpr_groups props)"

text \<open>A render: the columns and the map follow the cache unless a drag or a move is under way.\<close>

definition render :: "board_props \<Rightarrow> board_state \<Rightarrow> board_state" where
  "render props st =
     (if bst_isDragging st \<or> bst_isSettling st then st
      else st\<lparr>bst_columns := rebuilt props,
              bst_issueMap := map_of (rev (map (\<lambda>i. (iss_id i, i)) (bpr_issues props)))\<rparr>)"

definition animation_frame :: "board_state \<Rightarrow> board_state" where
  "animation_frame st = st\<lparr>bst_recentlyMoved := False\<rparr>"

definition beginSettle :: "board_state \<Rightarrow> board_state" where
  "beginSettle st = st\<lparr>bst_isSettling := True\<rparr>"

definition settled :: "board_state \<Rightarrow> board_state" where
  "settled st = st\<lparr>bst_isSettling := False\<rparr>"

definition handleDragStart :: "string \<Rightarrow> board_state \<Rightarrow> board_state" where
  "handleDragStart activeId st = st\<lparr>bst_isDragging := True, bst_activeIssue := bst_issueMap st activeId\<rparr>"

definition handleDragOver ::
  "board_props \<Rightarrow> string \<Rightarrow> string option \<Rightarrow> board_state \<Rightarrow> board_state option" where
  "handleDragOver props activeId over_id st =
     (case over_id of
        None \<Rightarrow> Some st
      | Some overId \<Rightarrow>
          if bst_recentlyMoved st then Some st
          else let prev = bst_columns st;
                   activeCol = findColumn prev activeId (board_group_ids props);
                   overCol = findColumn prev overId (board_group_ids props)
               in if falsy activeCol \<or> falsy overCol \<or> activeCol = overCol \<or> bpr_sortBy props \<noteq> ''position''
                  then Some st
                  else case (js_get prev (the activeCol), js_get prev (the overCol)) of
                      (Some fromIds, Some toIds) \<Rightarrow>
                        let insertIndex = (case find_index (\<lambda>i. i = overId) toIds of
                              None \<Rightarrow> length toIds | Some k \<Rightarrow> k);
                            newIds = take insertIndex toIds @ [activeId] @ drop insertIndex toIds
                        in Some (st\<lparr>bst_recentlyMoved := True,
                             bst_columns := js_put (the overCol) newIds
                               (js_put (the activeCol) (filter (\<lambda>i. i \<noteq> activeId) fromIds) prev)\<rparr>)
                    | _ \<Rightarrow> None)"

definition applyPropertyGroupValue :: "board_group \<Rightarrow> string \<Rightarrow> drag_effect list" where
  "applyPropertyGroupValue grp issueId =
     (case bgr_propertyId grp of
        None \<Rightarrow> []
      | Some pid \<Rightarrow> (case bgr_propertyOptionId grp of
            None \<Rightarrow> []
          | Some None \<Rightarrow> [Unset_property issueId pid]
          | Some (Some optionId) \<Rightarrow> [Set_property issueId pid optionId]))"

text \<open>The reorder inside one column.\<close>

definition reorder ::
  "(string list \<Rightarrow> nat \<Rightarrow> nat \<Rightarrow> string list) \<Rightarrow> string \<Rightarrow> string \<Rightarrow> string \<Rightarrow> columns \<Rightarrow> columns option" where
  "reorder arrayMove col activeId overId cols =
     (case js_get cols col of
        None \<Rightarrow> None
      | Some ids \<Rightarrow>
          (case (find_index (\<lambda>i. i = activeId) ids, find_index (\<lambda>i. i = overId) ids) of
             (Some oldIndex, Some newIndex) \<Rightarrow>
               Some (if oldIndex = newIndex then cols else js_put col (arrayMove ids oldIndex newIndex) cols)
           | _ \<Rightarrow> Some cols))"

definition drop_unsorted ::
  "string \<Rightarrow> string \<Rightarrow> string \<Rightarrow> issue \<Rightarrow> board_group \<Rightarrow> board_state \<Rightarrow> board_state \<times> drag_effect list" where
  "drop_unsorted activeCol overCol activeId currentIssue finalGroup st =
     (let prev = bst_columns st;
          ids = (\<lambda>c. case js_get prev c of None \<Rightarrow> [] | Some xs \<Rightarrow> xs);
          fromIds = filter (\<lambda>i. i \<noteq> activeId) (ids activeCol);
          toIds = insertIdByPosition (ids overCol) activeId (iss_position currentIssue) (bst_issueMap st)
      in (beginSettle (st\<lparr>bst_columns := js_put overCol toIds (js_put activeCol fromIds prev)\<rparr>),
          Move_issue activeId (getMoveUpdates finalGroup (iss_position currentIssue))
          # applyPropertyGroupValue finalGroup activeId))"

definition drop_sorted ::
  "string list \<Rightarrow> string \<Rightarrow> board_group \<Rightarrow> board_state \<Rightarrow> board_state \<times> drag_effect list" where
  "drop_sorted finalIds activeId finalGroup st =
     (let newPosition = computePosition finalIds activeId (bst_issueMap st)
      in if (case bst_issueMap st activeId of None \<Rightarrow> False | Some currentIssue \<Rightarrow>
               issueMatchesGroup currentIssue finalGroup \<and> iss_position currentIssue = newPosition)
         then (st, [])
         else (beginSettle st,
               Move_issue activeId (getMoveUpdates finalGroup newPosition)
               # applyPropertyGroupValue finalGroup activeId))"

definition handleDragEnd ::
  "(string list \<Rightarrow> nat \<Rightarrow> nat \<Rightarrow> string list) \<Rightarrow> board_props \<Rightarrow> string \<Rightarrow> string option
   \<Rightarrow> board_state \<Rightarrow> (board_state \<times> drag_effect list) option" where
  "handleDragEnd arrayMove props activeId over_id st0 =
     (let st = st0\<lparr>bst_isDragging := False, bst_activeIssue := None\<rparr>;
          resetColumns = Some (st\<lparr>bst_columns := rebuilt props\<rparr>, []);
          cols = bst_columns st;
          sorted_by_hand = (bpr_sortBy props = ''position'')
      in case over_id of
           None \<Rightarrow> resetColumns
         | Some overId \<Rightarrow>
             (let activeCol = findColumn cols activeId (board_group_ids props);
                  overCol = findColumn cols overId (board_group_ids props)
              in if falsy activeCol \<or> falsy overCol then resetColumns
                 else Option.bind
                   (if activeCol = overCol \<and> sorted_by_hand
                    then reorder arrayMove (the activeCol) activeId overId cols else Some cols)
                   (\<lambda>finalColumns.
                     let finalCol = (if sorted_by_hand then findColumn finalColumns activeId (board_group_ids props) else overCol)
                     in if falsy finalCol then resetColumns
                        else case map_of (rev (map (\<lambda>g. (bgr_id g, g)) (bpr_groups props))) (the finalCol) of
                            None \<Rightarrow> resetColumns
                          | Some finalGroup \<Rightarrow>
                              if \<not> sorted_by_hand then
                                (case bst_issueMap st activeId of
                                   None \<Rightarrow> resetColumns
                                 | Some currentIssue \<Rightarrow>
                                     if issueMatchesGroup currentIssue finalGroup then resetColumns
                                     else Some (drop_unsorted (the activeCol) (the overCol) activeId currentIssue finalGroup st))
                              else (case js_get finalColumns (the finalCol) of
                                  None \<Rightarrow> None
                                | Some finalIds \<Rightarrow>
                                    Some (drop_sorted finalIds activeId finalGroup (st\<lparr>bst_columns := finalColumns\<rparr>))))))"

end
