(* ===== verification/Board_Drag_Properties.thy ===== *)
theory Board_Drag_Properties
  imports Board_Drag
begin

text \<open>
  What a drag on the board does: the columns partition the visible issues, no card is lost or
  doubled while it is dragged, and the place a card is dropped at is the place the cache gives it
  once the move is applied.
\<close>

section \<open>The columns\<close>

lemma get_empty_columns:
  "js_get (fold (\<lambda>g. js_put (bgr_id g) []) groups cols) c =
     (if c \<in> bgr_id ` set groups then Some [] else js_get cols c)"
  by (induction groups arbitrary: cols) (auto simp: js_get_put)

lemma get_push_issues:
  "js_get (fold (push_issue grouping known) issues cols) c =
     map_option (\<lambda>ids. ids @ map iss_id (filter (\<lambda>i. getIssueGroupId i grouping known = c) issues)) (js_get cols c)"
proof (induction issues arbitrary: cols)
  case Nil
  then show ?case by (cases "js_get cols c") simp_all
next
  case (Cons i issues)
  then show ?case
    by (cases "js_get cols c"; cases "js_get cols (getIssueGroupId i grouping known)")
      (auto simp: push_issue_def Let_def js_get_put)
qed

lemma get_buildColumns:
  "js_get (buildColumns issues groups grouping known) c =
     (if c \<in> bgr_id ` set groups
      then Some (map iss_id (filter (\<lambda>i. getIssueGroupId i grouping known = c) issues)) else None)"
  by (simp add: buildColumns_def get_push_issues get_empty_columns)

lemma distinct_keys_build: "distinct (js_keys (buildColumns issues groups grouping known))"
proof -
  have "distinct (js_keys (fold (\<lambda>g. js_put (bgr_id g) []) groups cols))" if "distinct (js_keys cols)" for cols :: columns
    using that by (induction groups arbitrary: cols) (auto intro: distinct_keys_put)
  then have "distinct (js_keys (fold (\<lambda>g. js_put (bgr_id g) []) groups ([] :: columns)))" by simp
  moreover have "distinct (js_keys (fold (push_issue grouping known) issues cols))" if "distinct (js_keys cols)" for cols
    using that by (induction issues arbitrary: cols)
      (auto simp: push_issue_def Let_def intro: distinct_keys_put split: option.splits)
  ultimately show ?thesis by (simp add: buildColumns_def)
qed

lemma status_name_inj: "status_name s = status_name t \<longleftrightarrow> s = t"
  by (cases s; cases t) (simp_all add: status_name_def)

lemma statusGroupId_inj [simp]: "statusGroupId s = statusGroupId t \<longleftrightarrow> s = t"
  by (simp add: statusGroupId_def status_name_inj)

lemma status_of_group [simp]: "getIssueGroupId i ''status'' known = statusGroupId (iss_status i)"
  by (simp add: getIssueGroupId_def)

lemma bgr_id_status [simp]: "bgr_id (status_group s) = statusGroupId s"
  by (simp add: status_group_def)

lemma filter_concat_status:
  assumes "buckets_ok cache" "s \<in> set ss" "distinct ss"
  shows "filter (\<lambda>i. iss_status i = s) (concat (map (loaded cache) ss)) = loaded cache s"
  using assms(2,3)
proof (induction ss)
  case (Cons t ss)
  have st: "iss_status i = u" if "i \<in> set (loaded cache u)" for i u
    using assms(1) that by (auto simp: buckets_ok_def)
  show ?case
  proof (cases "t = s")
    case True
    then have "filter (\<lambda>i. iss_status i = s) (concat (map (loaded cache) ss)) = []"
      using Cons.prems st by (fastforce simp: filter_empty_conv)
    moreover have "filter (\<lambda>i. iss_status i = s) (loaded cache s) = loaded cache s"
      using st by (intro filter_True) blast
    ultimately show ?thesis using True by simp
  next
    case False
    then have "filter (\<lambda>i. iss_status i = s) (loaded cache t) = []"
      using st by (fastforce simp: filter_empty_conv)
    then show ?thesis using False Cons by simp
  qed
qed simp

text \<open>On the status board the column of a status is the bucket of that status.\<close>

lemma status_columns:
  assumes "buckets_ok cache" "s \<in> set visible"
  shows "js_get (buildColumns (flattenIssueBuckets cache) (map status_group visible) ''status'' known) (statusGroupId s)
    = Some (map iss_id (loaded cache s))"
proof -
  have "s \<in> set PAGINATED_STATUSES" by simp
  then show ?thesis
    using assms filter_concat_status [OF assms(1) _ distinct_PAGINATED]
    by (auto simp: get_buildColumns flatten_loaded image_image)
qed

section \<open>Positions\<close>

text \<open>Between two neighbours the new position finds its slot exactly when their positions differ.\<close>

lemma insert_slot:
  assumes "sorted_wrt (\<lambda>i j. iss_position i \<le> iss_position j) (L1 @ L2)"
    and "L1 \<noteq> [] \<Longrightarrow> iss_position (last L1) \<le> iss_position x"
    and "L2 \<noteq> [] \<Longrightarrow> iss_position x < iss_position (hd L2)"
  shows "insertByPosition (L1 @ L2) x = L1 @ [x] @ L2"
proof -
  have l: "iss_position i \<le> iss_position x" if "i \<in> set L1" for i
  proof -
    obtain K where K: "L1 = K @ [last L1]" using \<open>i \<in> set L1\<close> by (metis append_butlast_last_id empty_iff empty_set)
    have "iss_position i \<le> iss_position (last L1)"
      using assms(1) that by (subst (asm) (1 2) K) (auto simp: sorted_wrt_append)
    then show ?thesis using assms(2) that by force
  qed
  have "takeWhile (\<lambda>i. iss_position i \<le> iss_position x) L2 = []" "dropWhile (\<lambda>i. iss_position i \<le> iss_position x) L2 = L2"
    using assms(3) by (cases L2; simp)+
  then show ?thesis
    unfolding insertByPosition_split using l by (simp add: takeWhile_append2 dropWhile_append2)
qed

lemma find_active:
  assumes "a \<notin> set bef"
  shows "find_index (\<lambda>i. i = a) (bef @ a # aft) = Some (length bef)"
  using assms by (induction bef) auto

lemma computePosition_split:
  assumes "a \<notin> set bef"
  shows "computePosition (bef @ a # aft) a m =
    (if bef = [] \<and> aft = [] then position_in m a
     else if bef = [] then position_in m (hd aft) - 1
     else if aft = [] then position_in m (last bef) + 1
     else (position_in m (last bef) + position_in m (hd aft)) / 2)"
proof (cases "bef = []")
  case True
  then show ?thesis by (cases aft) (simp_all add: computePosition_def)
next
  case False
  have bef': "(bef @ a # aft) ! (length bef - 1) = last bef"
    using False by (simp add: nth_append last_conv_nth)
  have aft': "(bef @ a # aft) ! (length bef + 1) = hd aft" if "aft \<noteq> []"
    using that by (simp add: nth_append hd_conv_nth)
  show ?thesis
    using False bef' aft' unfolding computePosition_def find_active [OF assms] by (cases aft) auto
qed

lemma position_known:
  "\<forall>i\<in>set L. m (iss_id i) = Some i \<Longrightarrow> i \<in> set L \<Longrightarrow> position_in m (iss_id i) = iss_position i"
  by (simp add: position_in_def)

text \<open>The new position of a card dropped between \<open>L1\<close> and \<open>L2\<close>.\<close>

lemma computePosition_known:
  assumes "a \<notin> iss_id ` set L1" "\<forall>i\<in>set (L1 @ L2). m (iss_id i) = Some i"
  shows "computePosition (map iss_id L1 @ a # map iss_id L2) a m =
    (if L1 = [] \<and> L2 = [] then position_in m a
     else if L1 = [] then iss_position (hd L2) - 1
     else if L2 = [] then iss_position (last L1) + 1
     else (iss_position (last L1) + iss_position (hd L2)) / 2)"
proof -
  have "position_in m (last (map iss_id L1)) = iss_position (last L1)" if "L1 \<noteq> []"
    using position_known [of "L1 @ L2" m "last L1"] assms(2) that by (simp add: last_map)
  moreover have "position_in m (hd (map iss_id L2)) = iss_position (hd L2)" if "L2 \<noteq> []"
    using position_known [of "L1 @ L2" m "hd L2"] assms(2) that by (simp add: hd_map)
  ultimately show ?thesis using assms(1) by (subst computePosition_split) auto
qed

lemma slot_iff:
  assumes "sorted_wrt (\<lambda>i j. iss_position i \<le> iss_position j) (L1 @ L2)"
    and "\<forall>i\<in>set (L1 @ L2). m (iss_id i) = Some i" and "iss_id x \<notin> iss_id ` set (L1 @ L2)"
    and "iss_position x = computePosition (map iss_id L1 @ iss_id x # map iss_id L2) (iss_id x) m"
  shows "map iss_id (insertByPosition (L1 @ L2) x) = map iss_id L1 @ iss_id x # map iss_id L2
    \<longleftrightarrow> (L1 = [] \<or> L2 = [] \<or> iss_position (last L1) \<noteq> iss_position (hd L2))"
proof -
  have pos: "iss_position x = (if L1 = [] \<and> L2 = [] then position_in m (iss_id x)
     else if L1 = [] then iss_position (hd L2) - 1
     else if L2 = [] then iss_position (last L1) + 1
     else (iss_position (last L1) + iss_position (hd L2)) / 2)"
    using assms(3) by (subst assms(4), subst computePosition_known [OF _ assms(2)]) auto
  have le: "iss_position (last L1) \<le> iss_position (hd L2)" if "L1 \<noteq> []" "L2 \<noteq> []"
    using assms(1) that by (auto simp: sorted_wrt_append)
  show ?thesis
  proof (cases "L1 = [] \<or> L2 = [] \<or> iss_position (last L1) \<noteq> iss_position (hd L2)")
    case True
    have "insertByPosition (L1 @ L2) x = L1 @ [x] @ L2"
      using assms(1) True le pos by (intro insert_slot) (auto split: if_splits)
    then show ?thesis using True by simp
  next
    case False
    then obtain h t where L2: "L2 = h # t" by (cases L2) auto
    have eq: "iss_position h = iss_position x" using False pos L2 by simp
    have low: "iss_position i \<le> iss_position x" if "i \<in> set (L1 @ [h])" for i
      using assms(1) eq that by (auto simp: L2 sorted_wrt_append)
    have "insertByPosition (L1 @ L2) x
        = L1 @ [h] @ takeWhile (\<lambda>i. iss_position i \<le> iss_position x) t @ [x]
          @ dropWhile (\<lambda>i. iss_position i \<le> iss_position x) t"
      using takeWhile_append2 [of "L1 @ [h]" "\<lambda>i. iss_position i \<le> iss_position x" t]
        dropWhile_append2 [of "L1 @ [h]" "\<lambda>i. iss_position i \<le> iss_position x" t] low
      by (simp add: insertByPosition_split L2)
    then show ?thesis using False assms(3) by (auto simp: L2)
  qed
qed

text \<open>
  C29. A card lands where it is dropped exactly when its new neighbours have different positions.
  Let a column be in the order of its positions, and let the dropped card get the position that
  \<open>computePosition\<close> gives it there.  Then inserting it by position into the column, as the cache
  does when the move is applied, puts it into the slot it was dropped at, unless it was dropped
  between two cards of equal position; there it lands behind the second one.
\<close>
theorem drop_slot_iff:
  assumes "sorted_wrt (\<lambda>i j. iss_position i \<le> iss_position j) (L1 @ L2)"
    and "\<forall>i\<in>set (L1 @ L2). m (iss_id i) = Some i" and "iss_id x \<notin> iss_id ` set (L1 @ L2)"
    and "iss_position x = computePosition (map iss_id L1 @ iss_id x # map iss_id L2) (iss_id x) m"
  shows "map iss_id (insertByPosition (L1 @ L2) x) = map iss_id L1 @ iss_id x # map iss_id L2
    \<longleftrightarrow> (L1 = [] \<or> L2 = [] \<or> iss_position (last L1) \<noteq> iss_position (hd L2))"
  by (rule slot_iff [OF assms])

lemma drop_slot_iff_witness:
  "map iss_id (insertByPosition [example_issue ''b'' Todo 2] (example_issue ''a'' Todo 1)) = [''a'', ''b'']"
  using drop_slot_iff [of "[]" "[example_issue ''b'' Todo 2]" "\<lambda>i. if i = ''b'' then Some (example_issue ''b'' Todo 2) else None"
    "example_issue ''a'' Todo 1"]
  by (simp add: computePosition_def position_in_def)

section \<open>The cards on the columns\<close>

lemma filter_other: "a \<notin> set xs \<Longrightarrow> filter (\<lambda>i. i \<noteq> a) xs = xs"
  by (induction xs) auto

definition all_cards :: "columns \<Rightarrow> string list" where
  "all_cards cols = concat (map snd cols)"

lemma mset_cards_put:
  assumes "js_get cols k = Some old"
  shows "mset (all_cards (js_put k new cols)) + mset old = mset (all_cards cols) + mset new"
proof -
  have "mset (all_cards (js_update k new cols)) + mset old = mset (all_cards cols) + mset new"
    using assms by (induction cols) (auto simp: all_cards_def split: if_splits)
  moreover have "k \<in> set (js_keys cols)" using assms by (rule js_get_Some_key)
  ultimately show ?thesis by (simp add: js_put_def)
qed

lemma keys_put_old: "js_get cols k \<noteq> None \<Longrightarrow> js_keys (js_put k v cols) = js_keys cols"
  by (simp add: js_put_def js_get_None_iff)

lemma column_cards: "js_get cols k = Some ids \<Longrightarrow> set ids \<subseteq> set (all_cards cols)"
  using js_get_in_set [of cols k ids] by (force simp: all_cards_def)

lemma findColumn_card:
  assumes "findColumn cols a ids = Some c" "a \<notin> set ids" "distinct (js_keys cols)"
  shows "\<exists>xs. js_get cols c = Some xs \<and> a \<in> set xs"
proof -
  obtain xs where "List.find (\<lambda>(_, ids). a \<in> set ids) cols = Some (c, xs)"
    using assms(1,2) by (auto simp: findColumn_def)
  then have "(c, xs) \<in> set cols" "a \<in> set xs" by (auto simp: find_Some_iff) (metis nth_mem)
  then show ?thesis using js_get_eq_Some_iff [OF assms(3)] by blast
qed

text \<open>A column holds a card once, and no other column holds it, when no card is doubled.\<close>

lemma cards_once:
  assumes "distinct (all_cards cols)" "js_get cols k = Some ids" "a \<in> set ids"
  shows "mset (filter (\<lambda>i. i \<noteq> a) ids) + {#a#} = mset ids"
    and "js_get cols k' = Some ids' \<Longrightarrow> k' \<noteq> k \<Longrightarrow> a \<notin> set ids'"
proof -
  have "distinct ids" using assms(1) js_get_in_set [OF assms(2)] by (auto simp: all_cards_def distinct_concat_iff)
  then show "mset (filter (\<lambda>i. i \<noteq> a) ids) + {#a#} = mset ids"
    using assms(3) by (induction ids) (auto simp: filter_other simp del: mset_filter)
  have once: "mset (all_cards cols) = mset (all_cards (js_put k [] cols)) + mset ids"
    using mset_cards_put [OF assms(2), of "[]"] by simp
  then have "a \<notin> set (all_cards (js_put k [] cols))"
    using assms(1,3) by (metis (no_types, lifting) Int_iff disjoint_iff distinct_append mset_append mset_eq_imp_distinct_iff set_append)
  moreover assume "js_get cols k' = Some ids'" "k' \<noteq> k"
  then have "js_get (js_put k [] cols) k' = Some ids'" by (simp add: js_get_put)
  ultimately show "a \<notin> set ids'" using column_cards by blast
qed

definition board_ok :: "board_state \<Rightarrow> bool" where
  "board_ok st \<longleftrightarrow> distinct (js_keys (bst_columns st)) \<and> distinct (all_cards (bst_columns st))"

definition same_cards :: "columns \<Rightarrow> columns \<Rightarrow> bool" where
  "same_cards cols cols' \<longleftrightarrow> js_keys cols' = js_keys cols \<and> mset (all_cards cols') = mset (all_cards cols)"

lemma same_cards_refl [simp]: "same_cards cols cols"
  by (simp add: same_cards_def)

text \<open>Moving a card from one column into another, at any place.\<close>

lemma move_between:
  assumes ok: "distinct (all_cards cols)" and k: "js_get cols k = Some ids" "a \<in> set ids"
    and k': "js_get cols k' = Some ids'" "k' \<noteq> k" and new: "mset newIds = mset ids' + {#a#}"
  shows "same_cards cols (js_put k' newIds (js_put k (filter (\<lambda>i. i \<noteq> a) ids) cols))"
proof -
  let ?c1 = "js_put k (filter (\<lambda>i. i \<noteq> a) ids) cols"
  have one: "mset (all_cards ?c1) + mset ids = mset (all_cards cols) + mset (filter (\<lambda>i. i \<noteq> a) ids)"
    by (rule mset_cards_put [OF k(1)])
  have "js_get ?c1 k' = Some ids'" using k' by (simp add: js_get_put)
  then have two: "mset (all_cards (js_put k' newIds ?c1)) + mset ids' = mset (all_cards ?c1) + mset newIds"
    by (rule mset_cards_put)
  have "mset (all_cards (js_put k' newIds ?c1)) + mset ids' = (mset (all_cards ?c1) + {#a#}) + mset ids'"
    unfolding two new by (simp only: ac_simps)
  moreover have "mset (all_cards ?c1) + {#a#} + mset (filter (\<lambda>i. i \<noteq> a) ids)
      = mset (all_cards cols) + mset (filter (\<lambda>i. i \<noteq> a) ids)"
    using one unfolding cards_once(1) [OF ok k, symmetric] by (simp only: ac_simps)
  ultimately have "mset (all_cards (js_put k' newIds ?c1)) = mset (all_cards cols)"
    unfolding add_right_cancel by (simp only:)
  moreover have "js_keys (js_put k' newIds ?c1) = js_keys cols"
    using k(1) k' by (simp add: keys_put_old js_get_put)
  ultimately show ?thesis by (simp add: same_cards_def)
qed

lemma same_cards_ok: "same_cards cols cols' \<Longrightarrow> distinct (js_keys cols) \<Longrightarrow> distinct (all_cards cols)
    \<Longrightarrow> distinct (js_keys cols') \<and> distinct (all_cards cols')"
  by (metis mset_eq_imp_distinct_iff same_cards_def)

lemma drag_over_cases:
  assumes "handleDragOver props a over_id st = Some st'"
  obtains "st' = st"
  | overId activeCol overCol ids ids' n where
      "over_id = Some overId" "findColumn (bst_columns st) a (board_group_ids props) = Some activeCol"
      "findColumn (bst_columns st) overId (board_group_ids props) = Some overCol" "activeCol \<noteq> overCol"
      "js_get (bst_columns st) activeCol = Some ids" "js_get (bst_columns st) overCol = Some ids'"
      "st' = st\<lparr>bst_recentlyMoved := True, bst_columns := js_put overCol (take n ids' @ [a] @ drop n ids')
         (js_put activeCol (filter (\<lambda>i. i \<noteq> a) ids) (bst_columns st))\<rparr>"
proof (cases over_id)
  case None
  then show thesis using assms that(1) by (simp add: handleDragOver_def)
next
  case (Some overId)
  define ac where "ac = findColumn (bst_columns st) a (board_group_ids props)"
  define oc where "oc = findColumn (bst_columns st) overId (board_group_ids props)"
  note h = assms [unfolded handleDragOver_def Some option.case Let_def, folded ac_def oc_def]
  show thesis
  proof (cases "bst_recentlyMoved st \<or> falsy ac \<or> falsy oc \<or> ac = oc \<or> bpr_sortBy props \<noteq> ''position''")
    case True
    then show thesis using h that(1) by (auto split: if_splits)
  next
    case False
    then obtain x y where xy: "ac = Some x" "oc = Some y" "x \<noteq> y" by (auto simp: not_falsy)
    obtain ids ids' where ids: "js_get (bst_columns st) x = Some ids" "js_get (bst_columns st) y = Some ids'"
      using h False xy by (auto split: option.splits)
    define n where "n = (case find_index (\<lambda>i. i = overId) ids' of None \<Rightarrow> length ids' | Some k \<Rightarrow> k)"
    have "st' = st\<lparr>bst_recentlyMoved := True, bst_columns := js_put y (take n ids' @ [a] @ drop n ids')
         (js_put x (filter (\<lambda>i. i \<noteq> a) ids) (bst_columns st))\<rparr>"
      using h False xy ids by (simp add: n_def [symmetric])
    then show thesis using that(2) [OF Some _ _ xy(3) ids] xy by (simp add: ac_def oc_def)
  qed
qed

lemma drag_over_cards:
  assumes "board_ok st" "a \<notin> set (board_group_ids props)" "handleDragOver props a over_id st = Some st'"
  shows "same_cards (bst_columns st) (bst_columns st')"
  using assms(3)
proof (cases rule: drag_over_cases)
  case (2 overId activeCol overCol ids ids' n)
  have "a \<in> set ids" using findColumn_card [OF 2(2) assms(2)] assms(1) 2(5) by (auto simp: board_ok_def)
  moreover have "mset (take n ids' @ [a] @ drop n ids') = mset ids' + {#a#}"
    by (metis add.commute append.assoc append_take_drop_id mset.simps mset_append union_assoc add_mset_add_single)
  ultimately have "same_cards (bst_columns st) (js_put overCol (take n ids' @ [a] @ drop n ids')
      (js_put activeCol (filter (\<lambda>i. i \<noteq> a) ids) (bst_columns st)))"
    using assms(1) 2(4) by (intro move_between [OF _ 2(5) _ 2(6)]) (simp_all add: board_ok_def)
  then show ?thesis using 2(7) by simp
qed simp

section \<open>The end of a drag\<close>

definition lift_drag :: "board_state \<Rightarrow> board_state" where
  "lift_drag st = st\<lparr>bst_isDragging := False, bst_activeIssue := None\<rparr>"

definition group_of :: "board_props \<Rightarrow> string \<Rightarrow> board_group option" where
  "group_of props = map_of (rev (map (\<lambda>g. (bgr_id g, g)) (bpr_groups props)))"

lemma reorder_cases:
  assumes "reorder mv col a overId cols = Some cols'"
  obtains "cols' = cols"
  | ids i j where "js_get cols col = Some ids" "i < length ids" "j < length ids"
      "cols' = js_put col (mv ids i j) cols" "ids ! i = a"
proof (cases "js_get cols col")
  case (Some ids)
  show thesis
  proof (cases "cols' = cols")
    case False
    then obtain i j where ij: "find_index (\<lambda>i. i = a) ids = Some i" "find_index (\<lambda>i. i = overId) ids = Some j"
      "cols' = js_put col (mv ids i j) cols"
      using assms by (auto simp: reorder_def Some split: option.splits if_splits)
    then show thesis using that(2) [OF Some _ _ ij(3)] find_index_Some [OF ij(1)] find_index_Some [OF ij(2)] by blast
  qed (rule that(1))
qed (use assms in \<open>simp add: reorder_def\<close>)

lemma drag_end_cases:
  assumes "handleDragEnd mv props a over_id st = Some (st', effs)"
  obtains (reset) "bst_columns st' = rebuilt props" "effs = []"
  | (unsorted) activeCol overCol overId issue grp where "bpr_sortBy props \<noteq> ''position''"
      "findColumn (bst_columns st) a (board_group_ids props) = Some activeCol"
      "findColumn (bst_columns st) overId (board_group_ids props) = Some overCol"
      "group_of props overCol = Some grp" "bst_issueMap st a = Some issue" "\<not> issueMatchesGroup issue grp"
      "(st', effs) = drop_unsorted activeCol overCol a issue grp (lift_drag st)"
  | (by_hand) activeCol overId finalColumns finalCol finalIds grp where "bpr_sortBy props = ''position''"
      "findColumn (bst_columns st) a (board_group_ids props) = Some activeCol"
      "finalColumns = bst_columns st \<or> reorder mv activeCol a overId (bst_columns st) = Some finalColumns"
      "findColumn finalColumns a (board_group_ids props) = Some finalCol"
      "group_of props finalCol = Some grp" "js_get finalColumns finalCol = Some finalIds"
      "(st', effs) = drop_sorted finalIds a grp ((lift_drag st)\<lparr>bst_columns := finalColumns\<rparr>)"
proof (cases over_id)
  case None
  then show thesis using assms reset by (auto simp: handleDragEnd_def Let_def)
next
  case (Some overId)
  let ?ac = "findColumn (bst_columns st) a (board_group_ids props)"
  let ?oc = "findColumn (bst_columns st) overId (board_group_ids props)"
  note h = assms [unfolded handleDragEnd_def Some option.case Let_def lift_drag_def [symmetric] group_of_def [symmetric]]
  show thesis
  proof (cases "falsy ?ac \<or> falsy ?oc")
    case True
    then show thesis using h reset by (auto simp: lift_drag_def)
  next
    case False
    then obtain x y where xy: "?ac = Some x" "?oc = Some y" by (auto simp: not_falsy)
    have cols: "bst_columns (lift_drag st) = bst_columns st" "bst_issueMap (lift_drag st) = bst_issueMap st"
      by (simp_all add: lift_drag_def)
    show thesis
    proof (cases "bpr_sortBy props = ''position''")
      case pos: False
      show thesis
        using h False pos xy reset unsorted [OF pos xy]
        by (auto simp: cols split: option.splits if_splits)
    next
      case pos: True
      obtain fc where f: "(if x = y then reorder mv x a overId (bst_columns st) else Some (bst_columns st)) = Some fc"
        using h False pos xy by (cases "x = y"; cases "reorder mv x a overId (bst_columns st)") (auto simp: cols)
      then have fc: "fc = bst_columns st \<or> reorder mv x a overId (bst_columns st) = Some fc"
        by (auto split: if_splits)
      have r: "(let finalCol = findColumn fc a (board_group_ids props)
            in if falsy finalCol then Some ((lift_drag st)\<lparr>bst_columns := rebuilt props\<rparr>, [])
               else case group_of props (the finalCol) of
                   None \<Rightarrow> Some ((lift_drag st)\<lparr>bst_columns := rebuilt props\<rparr>, [])
                 | Some finalGroup \<Rightarrow> (case js_get fc (the finalCol) of
                     None \<Rightarrow> None
                   | Some finalIds \<Rightarrow> Some (drop_sorted finalIds a finalGroup ((lift_drag st)\<lparr>bst_columns := fc\<rparr>))))
            = Some (st', effs)"
        using h False pos xy f by (cases "x = y") (simp_all add: cols Let_def cong: option.case_cong if_cong)
      show thesis
      proof (cases "falsy (findColumn fc a (board_group_ids props)) \<or> group_of props (the (findColumn fc a (board_group_ids props))) = None")
        case True
        then show thesis using r reset by (auto simp: Let_def split: if_splits)
      next
        case F: False
        then obtain z grp where z: "findColumn fc a (board_group_ids props) = Some z" "group_of props z = Some grp"
          by (auto simp: not_falsy)
        then obtain ids where "js_get fc z = Some ids" using r F by (auto simp: Let_def split: option.splits)
        then show thesis using by_hand [OF pos xy(1) fc z] r F z by (simp add: Let_def)
      qed
    qed
  qed
qed

context array_mover
begin

lemma move_mset:
  assumes "i < length xs" "j < length xs"
  shows "mset (array_move xs i j) = mset xs"
proof -
  let ?r = "take i xs @ drop (Suc i) xs"
  have "mset (array_move xs i j) = mset ?r + {#xs ! i#}"
    unfolding array_move [OF assms]
    by (metis add.commute append_take_drop_id mset_append mset_single_iff_right union_assoc mset.simps add_mset_add_single)
  also have "\<dots> = mset xs"
    using id_take_nth_drop [OF assms(1)] by (metis add_mset_add_single mset.simps(2) mset_append union_mset_add_mset_right)
  finally show ?thesis .
qed

end

lemma reorder_cards:
  assumes "array_mover mv" "reorder mv col a overId cols = Some cols'"
  shows "same_cards cols cols'"
  using assms(2)
proof (cases rule: reorder_cases)
  case (2 ids i j)
  then have "mset (all_cards cols') + mset ids = mset (all_cards cols) + mset ids"
    using mset_cards_put [OF 2(1), of "mv ids i j"] array_mover.move_mset [OF assms(1) 2(2,3)] by simp
  then show ?thesis using 2 by (simp add: same_cards_def keys_put_old)
qed simp

lemma mset_insertIdByPosition: "mset (insertIdByPosition ids i p m) = mset ids + {#i#}"
proof -
  have "mset (take n ids @ [i] @ drop n ids) = mset ids + {#i#}" for n
    by (metis add.commute append.assoc append_take_drop_id mset.simps mset_append union_assoc add_mset_add_single)
  then show ?thesis by (auto simp: insertIdByPosition_def split: option.splits)
qed

lemma put_twice: "js_get cols k \<noteq> None \<Longrightarrow> js_put k v (js_put k u cols) = js_put k v cols"
proof -
  have "js_update k v (js_update k u cols) = js_update k v cols" by (induction cols) auto
  then show "js_get cols k \<noteq> None \<Longrightarrow> ?thesis" by (simp add: js_put_def js_get_None_iff)
qed

lemma drop_unsorted_cards:
  assumes "board_ok st" and "a \<notin> set (board_group_ids props)" and keys: "set (board_group_ids props) \<subseteq> set (js_keys (bst_columns st))"
    and f: "findColumn (bst_columns st) a (board_group_ids props) = Some activeCol"
    and g: "findColumn (bst_columns st) overId (board_group_ids props) = Some overCol"
    and d: "(st', effs) = drop_unsorted activeCol overCol a issue grp (lift_drag st)"
  shows "if activeCol = overCol
    then mset (all_cards (bst_columns st')) = add_mset a (mset (all_cards (bst_columns st)))
    else same_cards (bst_columns st) (bst_columns st')"
proof -
  have dk: "distinct (js_keys (bst_columns st))" and dc: "distinct (all_cards (bst_columns st))"
    using assms(1) by (simp_all add: board_ok_def)
  obtain ids where ids: "js_get (bst_columns st) activeCol = Some ids" "a \<in> set ids"
    using findColumn_card [OF f assms(2) dk] by blast
  obtain ids' where ids': "js_get (bst_columns st) overCol = Some ids'"
  proof (cases "overId \<in> set (board_group_ids props)")
    case True
    then have "overCol \<in> set (js_keys (bst_columns st))" using g keys by (auto simp: findColumn_def)
    then show thesis using that js_get_None_iff [of "bst_columns st" overCol] by (cases "js_get (bst_columns st) overCol") auto
  next
    case False
    then show thesis using findColumn_card [OF g False dk] that by blast
  qed
  have st': "bst_columns st' = js_put overCol (insertIdByPosition ids' a (iss_position issue) (bst_issueMap st))
      (js_put activeCol (filter (\<lambda>i. i \<noteq> a) ids) (bst_columns st))"
    using d ids ids' by (simp add: drop_unsorted_def Let_def lift_drag_def beginSettle_def)
  show ?thesis
  proof (cases "activeCol = overCol")
    case True
    then have "bst_columns st' = js_put overCol (insertIdByPosition ids' a (iss_position issue) (bst_issueMap st)) (bst_columns st)"
      using st' ids' by (simp add: put_twice)
    then have "mset (all_cards (bst_columns st')) + mset ids' = add_mset a (mset (all_cards (bst_columns st))) + mset ids'"
      using mset_cards_put [OF ids'] by (simp add: mset_insertIdByPosition)
    then have "mset (all_cards (bst_columns st')) = add_mset a (mset (all_cards (bst_columns st)))"
      by (simp only: add_right_cancel)
    then show ?thesis using True by simp
  next
    case False
    then show ?thesis
      using move_between [OF dc ids ids' _ mset_insertIdByPosition, of "iss_position issue" "bst_issueMap st"] st' by simp
  qed
qed

text \<open>
  C28. A drag loses no card and doubles none, with one exception.  On columns that hold every card at
  most once, moving a card over another column keeps the columns and their cards, whatever the event
  says; and at the end of the drag the columns are either rebuilt from the cached issues or hold
  exactly the cards they held.  The exception: on a board that is not sorted by hand, a card dropped
  on the column it is in, and which does not match that column's group (its property has a value that
  is no longer an option, so it is shown under no value), is on the column twice until the request
  settles.
\<close>
theorem drag_conserves_cards:
  assumes "array_mover mv" and "board_ok st" and "a \<notin> set (board_group_ids props)"
    and "set (board_group_ids props) \<subseteq> set (js_keys (bst_columns st))"
  shows "(\<forall>st'. handleDragOver props a over_id st = Some st' \<longrightarrow> same_cards (bst_columns st) (bst_columns st'))
    \<and> (\<forall>st' effs. handleDragEnd mv props a over_id st = Some (st', effs) \<longrightarrow>
        bst_columns st' = rebuilt props \<or> same_cards (bst_columns st) (bst_columns st')
        \<or> (bpr_sortBy props \<noteq> ''position''
           \<and> (\<exists>c grp issue. findColumn (bst_columns st) a (board_group_ids props) = Some c \<and> group_of props c = Some grp
                \<and> bst_issueMap st a = Some issue \<and> \<not> issueMatchesGroup issue grp)
           \<and> mset (all_cards (bst_columns st')) = add_mset a (mset (all_cards (bst_columns st)))))"
proof (intro conjI allI impI)
  fix st' assume "handleDragOver props a over_id st = Some st'"
  then show "same_cards (bst_columns st) (bst_columns st')" by (rule drag_over_cards [OF assms(2,3)])
next
  fix st' effs assume "handleDragEnd mv props a over_id st = Some (st', effs)"
  then show "bst_columns st' = rebuilt props \<or> same_cards (bst_columns st) (bst_columns st')
        \<or> (bpr_sortBy props \<noteq> ''position''
           \<and> (\<exists>c grp issue. findColumn (bst_columns st) a (board_group_ids props) = Some c \<and> group_of props c = Some grp
                \<and> bst_issueMap st a = Some issue \<and> \<not> issueMatchesGroup issue grp)
           \<and> mset (all_cards (bst_columns st')) = add_mset a (mset (all_cards (bst_columns st))))"
  proof (cases rule: drag_end_cases)
    case (unsorted activeCol overCol overId issue grp)
    then show ?thesis
      using drop_unsorted_cards [OF assms(2-4) unsorted(2,3,7)] by (cases "activeCol = overCol") auto
  next
    case (by_hand activeCol overId finalColumns finalCol finalIds grp)
    then have "bst_columns st' = finalColumns"
      by (auto simp: drop_sorted_def Let_def beginSettle_def split: if_splits)
    moreover have "same_cards (bst_columns st) finalColumns"
      using by_hand(3) reorder_cards [OF assms(1)] by auto
    ultimately show ?thesis by simp
  qed simp
qed

section \<open>A drop and the cache\<close>

lemma drop_position:
  assumes ok: "buckets_ok cache" and sorted: "sorted_wrt (\<lambda>i j. iss_position i < iss_position j) (loaded cache s)"
    and m: "\<forall>i\<in>set (loaded cache s). m (iss_id i) = Some i"
    and ids: "a \<in> set ids" "distinct ids" "filter (\<lambda>i. i \<noteq> a) ids = map iss_id (filter (\<lambda>x. iss_id x \<noteq> a) (loaded cache s))"
    and x: "iss_id x = a" "iss_position x = computePosition ids a m"
  shows "map iss_id (insertByPosition (filter (\<lambda>x. iss_id x \<noteq> a) (loaded cache s)) x) = ids"
proof -
  let ?L = "filter (\<lambda>x. iss_id x \<noteq> a) (loaded cache s)"
  obtain bef aft where split: "ids = bef @ a # aft" "a \<notin> set bef" by (metis ids(1) split_list_first)
  then have aft: "a \<notin> set aft" using ids(2) by simp
  have "bef @ aft = map iss_id ?L" using ids(3) split aft by (simp add: filter_other)
  then obtain L1 L2 where L: "?L = L1 @ L2" "bef = map iss_id L1" "aft = map iss_id L2"
    using append_eq_map_conv [of bef aft iss_id ?L] by auto
  have strict: "sorted_wrt (\<lambda>i j. iss_position i < iss_position j) (L1 @ L2)"
    unfolding L(1) [symmetric] using sorted by (rule sorted_wrt_filter)
  then have weak: "sorted_wrt (\<lambda>i j. iss_position i \<le> iss_position j) (L1 @ L2)"
    by (rule sorted_wrt_mono_rel [rotated]) simp
  have "L1 = [] \<or> L2 = [] \<or> iss_position (last L1) \<noteq> iss_position (hd L2)"
  proof (cases "L1 = [] \<or> L2 = []")
    case False
    then have "iss_position (last L1) < iss_position (hd L2)" using strict by (simp add: sorted_wrt_append)
    then show ?thesis by simp
  qed auto
  moreover have "\<forall>i\<in>set (L1 @ L2). m (iss_id i) = Some i" unfolding L(1) [symmetric] using m by simp
  moreover have "iss_id x \<notin> iss_id ` set (L1 @ L2)" unfolding L(1) [symmetric] using x(1) by auto
  ultimately show ?thesis
    using slot_iff [OF weak, of m x] x split L by simp
qed

lemma insert_back:
  assumes "sorted_wrt (\<lambda>i j. iss_position i < iss_position j) L" "x \<in> set L" "distinct (map iss_id L)"
  shows "insertByPosition (filter (\<lambda>y. iss_id y \<noteq> iss_id x) L) x = L"
proof -
  obtain L1 L2 where L: "L = L1 @ x # L2" using assms(2) by (metis split_list)
  then have "filter (\<lambda>y. iss_id y \<noteq> iss_id x) L = L1 @ L2"
  proof -
    have "filter (\<lambda>y. iss_id y \<noteq> iss_id x) K = K" if "iss_id x \<notin> iss_id ` set K" for K :: "issue list"
      using that by (intro filter_True) (metis image_eqI)
    then show ?thesis using assms(3) by (simp add: L)
  qed
  moreover have "insertByPosition (L1 @ L2) x = L1 @ [x] @ L2"
  proof (rule insert_slot)
    show "sorted_wrt (\<lambda>i j. iss_position i \<le> iss_position j) (L1 @ L2)"
      using assms(1) by (auto simp: L sorted_wrt_append intro: sorted_wrt_mono_rel [rotated] less_imp_le)
  qed (use assms(1) in \<open>auto simp: L sorted_wrt_append less_imp_le\<close>)
  ultimately show ?thesis by (simp add: L)
qed

lemma status_group_match [simp]: "issueMatchesGroup i (status_group s) \<longleftrightarrow> iss_status i = s"
  by (simp add: issueMatchesGroup_def status_group_def)

lemma move_updates_status:
  "merge_issue old (getMoveUpdates (status_group s) p) = old\<lparr>iss_status := s, iss_position := p\<rparr>"
  "pat_position (getMoveUpdates (status_group s) p) = Some p"
  by (simp_all add: getMoveUpdates_def status_group_def merge_issue_def empty_patch_def)

text \<open>The bucket of the group a card is dropped on, and every other one, once the move is applied.\<close>

lemma dropped_bucket:
  assumes ok: "buckets_ok cache" and loc: "findIssueLocation cache a = Some (s0, old)"
    and move: "s0 \<noteq> s1 \<or> iss_position old \<noteq> p"
  defines "new \<equiv> old\<lparr>iss_status := s1, iss_position := p\<rparr>"
  shows "loaded (patchIssueInBuckets cache a (getMoveUpdates (status_group s1) p)) s =
    (if s = s1 then insertByPosition (filter (\<lambda>x. iss_id x \<noteq> a) (loaded cache s)) new
     else filter (\<lambda>x. iss_id x \<noteq> a) (loaded cache s))"
proof -
  have old: "old \<in> set (loaded cache s0)" "iss_id old = a" using findIssueLocation_Some [OF loc] by auto
  have other: "filter (\<lambda>x. iss_id x \<noteq> a) (loaded cache s') = loaded cache s'" if "s' \<noteq> s0" for s'
    using buckets_ok_unique [OF ok old(1)] old(2) that by (intro filter_True) blast
  let ?p = "getMoveUpdates (status_group s1) p"
  have new: "merge_issue old ?p = new" unfolding new_def by (rule move_updates_status(1))
  have st: "(case pat_status ?p of None \<Rightarrow> s0 | Some s \<Rightarrow> s) = s1"
    using next_status [OF ok loc, of ?p] by (simp add: new new_def)
  show ?thesis
  proof (cases "s1 = s0")
    case True
    then have "iss_position old \<noteq> p" using move by simp
    then have "loaded (patchIssueInBuckets cache a ?p) s = (if s = s0
        then insertByPosition (filter (\<lambda>x. iss_id x \<noteq> a) (loaded cache s0)) new else loaded cache s)"
      using True st unfolding patchIssueInBuckets_def loc new [symmetric]
      by (simp add: Let_def move_updates_status(2) bucket)
    then show ?thesis using True other by auto
  next
    case False
    have "iss_status (merge_issue old ?p) \<noteq> s0" using False by (simp add: new new_def)
    note patch_other_column [OF ok loc this]
    then show ?thesis using False other by (auto simp: new bucket) (simp_all add: new_def bucket)
  qed
qed

text \<open>A drag: it is lifted when nothing is locked; then the pointer moves and frames and renders pass.\<close>

inductive dragging :: "board_props \<Rightarrow> string \<Rightarrow> board_state \<Rightarrow> bool" for props a where
  Lift: "\<not> bst_isDragging st \<Longrightarrow> \<not> bst_isSettling st \<Longrightarrow> dragging props a (handleDragStart a (render props st))"
| Over: "dragging props a st \<Longrightarrow> handleDragOver props a over_id st = Some st' \<Longrightarrow> dragging props a st'"
| Frame: "dragging props a st \<Longrightarrow> dragging props a (animation_frame st)"
| Render: "dragging props a st \<Longrightarrow> dragging props a (render props' st)"

definition others :: "string \<Rightarrow> columns \<Rightarrow> string \<Rightarrow> string list option" where
  "others a cols c = map_option (filter (\<lambda>i. i \<noteq> a)) (js_get cols c)"

lemma cards_put_empty:
  assumes "all_cards cols = []"
  shows "all_cards (js_put k [] cols) = []"
proof (cases "js_get cols k")
  case None
  have "set (all_cards (insert_index n k [] cols)) = set (all_cards cols)" for n
    by (induction n k "[] :: string list" cols rule: insert_index.induct) (auto simp: all_cards_def split: option.splits)
  then show ?thesis using None assms
    by (auto simp: js_put_def js_get_None_iff all_cards_def split: option.splits)
next
  case (Some old)
  then show ?thesis using mset_cards_put [OF Some, of "[]"] assms by simp
qed

lemma cards_push:
  "mset (all_cards (push_issue grouping known i cols)) \<subseteq># add_mset (iss_id i) (mset (all_cards cols))"
proof (cases "js_get cols (getIssueGroupId i grouping known)")
  case (Some ids)
  have "mset (all_cards (push_issue grouping known i cols)) + mset ids = add_mset (iss_id i) (mset (all_cards cols)) + mset ids"
    using mset_cards_put [OF Some, of "ids @ [iss_id i]"] by (simp add: push_issue_def Some)
  then show ?thesis unfolding add_right_cancel by simp
qed (simp add: push_issue_def)

lemma distinct_submset:
  assumes "mset xs \<subseteq># mset ys" "distinct ys"
  shows "distinct xs"
proof -
  have "count (mset xs) x \<le> 1" for x
  proof -
    have "count (mset xs) x \<le> count (mset ys) x" by (rule mset_subset_eq_count [OF assms(1)])
    also have "\<dots> = (if x \<in> set ys then 1 else 0)" using assms(2) unfolding distinct_count_atmost_1 by blast
    also have "\<dots> \<le> 1" by simp
    finally show ?thesis .
  qed
  moreover have "1 \<le> count (mset xs) x" if "x \<in> set xs" for x using that by (simp add: Suc_le_eq)
  ultimately show ?thesis unfolding distinct_count_atmost_1 by (metis count_eq_zero_iff le_antisym set_mset_mset)
qed

lemma build_cards: "mset (all_cards (buildColumns issues groups grouping known)) \<subseteq># mset (map iss_id issues)"
proof -
  have e: "all_cards cols = [] \<Longrightarrow> all_cards (fold (\<lambda>g. js_put (bgr_id g) []) groups cols) = []" for cols
    by (induction groups arbitrary: cols) (simp_all add: cards_put_empty)
  have empty: "all_cards (fold (\<lambda>g. js_put (bgr_id g) []) groups []) = []"
    by (rule e) (simp add: all_cards_def)
  have "mset (all_cards (fold (push_issue grouping known) issues cols)) \<subseteq># mset (all_cards cols) + mset (map iss_id issues)" for cols
  proof (induction issues arbitrary: cols)
    case (Cons i issues)
    have "mset (all_cards (fold (push_issue grouping known) (i # issues) cols))
        \<subseteq># mset (all_cards (push_issue grouping known i cols)) + mset (map iss_id issues)"
      using Cons.IH by simp
    also have "\<dots> \<subseteq># add_mset (iss_id i) (mset (all_cards cols)) + mset (map iss_id issues)"
      using cards_push by (rule subset_mset.add_right_mono)
    finally show ?case by simp
  qed simp
  from this [of "fold (\<lambda>g. js_put (bgr_id g) []) groups []"] show ?thesis
    by (simp add: empty buildColumns_def)
qed

lemma build_cards_once:
  "distinct (map iss_id issues) \<Longrightarrow> distinct (all_cards (buildColumns issues groups grouping known))"
  by (rule distinct_submset [OF build_cards])

lemma distinct_flatten:
  assumes "buckets_ok cache"
  shows "distinct (map iss_id (flattenIssueBuckets cache))"
proof -
  have "distinct (map iss_id (concat (map (loaded cache) ss)))" if "distinct ss" for ss
    using that
  proof (induction ss)
    case (Cons s ss)
    have "distinct (map iss_id (loaded cache s))" using assms by (simp add: buckets_ok_def)
    moreover have "iss_id i \<noteq> iss_id j" if "i \<in> set (loaded cache s)" "t \<in> set ss" "j \<in> set (loaded cache t)" for i j t
      using buckets_ok_unique [OF assms that(1,3)] that(2) Cons.prems by auto
    ultimately show ?case using Cons by auto
  qed simp
  then show ?thesis by (simp add: flatten_loaded distinct_PAGINATED)
qed

lemma dragging_locked: "dragging props a st \<Longrightarrow> bst_isDragging st"
  by (induction rule: dragging.induct)
    (auto simp: handleDragStart_def animation_frame_def render_def elim!: drag_over_cases)

text \<open>
  What stays as it was while a card is dragged: the cards of every column but for the dragged one,
  and the map of the issues.
\<close>

definition in_drag :: "board_props \<Rightarrow> string \<Rightarrow> board_state \<Rightarrow> bool" where
  "in_drag props a st \<longleftrightarrow> bst_isDragging st \<and> same_cards (rebuilt props) (bst_columns st)
     \<and> others a (bst_columns st) = others a (rebuilt props)
     \<and> bst_issueMap st = map_of (rev (map (\<lambda>i. (iss_id i, i)) (bpr_issues props)))"

lemma in_drag_ok:
  assumes "in_drag props a st" "distinct (map iss_id (bpr_issues props))"
  shows "board_ok st"
  using assms same_cards_ok [of "rebuilt props" "bst_columns st"] build_cards_once distinct_keys_build
  by (auto simp: in_drag_def board_ok_def rebuilt_def)

lemma others_put:
  "others a (js_put k v cols) c = (if c = k then Some (filter (\<lambda>i. i \<noteq> a) v) else others a cols c)"
  by (simp add: others_def js_get_put)

lemma dragging_in_drag:
  assumes "dragging props a st" "distinct (map iss_id (bpr_issues props))" "a \<notin> set (board_group_ids props)"
  shows "in_drag props a st"
  using assms(1)
proof induction
  case (Lift st)
  then show ?case by (simp add: in_drag_def handleDragStart_def render_def rebuilt_def)
next
  case (Over st over_id st')
  have "same_cards (bst_columns st) (bst_columns st')"
    by (rule drag_over_cards [OF in_drag_ok [OF Over.IH assms(2)] assms(3) Over.hyps(2)])
  moreover have "others a (bst_columns st') = others a (bst_columns st) \<and> bst_isDragging st' = bst_isDragging st
      \<and> bst_issueMap st' = bst_issueMap st"
    using Over.hyps(2)
  proof (cases rule: drag_over_cases)
    case (2 overId activeCol overCol ids ids' n)
    have "filter (\<lambda>i. i \<noteq> a) (take n ids') @ filter (\<lambda>i. i \<noteq> a) (drop n ids') = filter (\<lambda>i. i \<noteq> a) ids'"
      by (metis append_take_drop_id filter_append)
    then have "others a (js_put overCol (take n ids' @ [a] @ drop n ids')
        (js_put activeCol (filter (\<lambda>i. i \<noteq> a) ids) (bst_columns st))) c = others a (bst_columns st) c" for c
      unfolding others_put using 2(5,6) by (simp add: others_def)
    then show ?thesis using 2(7) by (simp add: fun_eq_iff)
  qed simp
  ultimately show ?case using Over.IH by (simp add: in_drag_def same_cards_def)
next
  case (Frame st)
  then show ?case by (simp add: in_drag_def animation_frame_def)
next
  case (Render st props')
  then show ?case by (simp add: in_drag_def render_def)
qed

text \<open>A drop never raises: the columns it looks up hold the card.\<close>

lemma drag_end_returns:
  assumes "array_mover mv" "board_ok st" "a \<notin> set (board_group_ids props)"
  shows "\<exists>r. handleDragEnd mv props a over_id st = Some r"
proof (cases over_id)
  case (Some overId)
  let ?find = "\<lambda>cols. findColumn cols a (board_group_ids props)"
  have card: "\<exists>ids. js_get cols c = Some ids" if "same_cards (bst_columns st) cols" "?find cols = Some c" for cols c
    using findColumn_card [OF that(2) assms(3)] same_cards_ok [OF that(1)] assms(2) by (auto simp: board_ok_def)
  have re: "\<exists>fc. reorder mv c a overId (bst_columns st) = Some fc \<and> same_cards (bst_columns st) fc"
    if "?find (bst_columns st) = Some c" for c
  proof -
    note now = that
    obtain ids where "js_get (bst_columns st) c = Some ids" using card [of "bst_columns st" c] now by auto
    then have "\<exists>fc. reorder mv c a overId (bst_columns st) = Some fc"
      by (cases "find_index (\<lambda>i. i = a) ids"; cases "find_index (\<lambda>i. i = overId) ids") (simp_all add: reorder_def)
    then show ?thesis using reorder_cards [OF assms(1)] by blast
  qed
  define ac where "ac = ?find (bst_columns st)"
  define oc where "oc = findColumn (bst_columns st) overId (board_group_ids props)"
  obtain fc where fc: "falsy ac \<or> (if ac = oc \<and> bpr_sortBy props = ''position''
       then reorder mv (the ac) a overId (bst_columns st) else Some (bst_columns st)) = Some fc \<and> same_cards (bst_columns st) fc"
  proof (cases "ac = oc \<and> bpr_sortBy props = ''position'' \<and> \<not> falsy ac")
    case True
    then obtain c where c: "ac = Some c" by (auto simp: not_falsy)
    then obtain fc where "reorder mv c a overId (bst_columns st) = Some fc" "same_cards (bst_columns st) fc"
      using re [of c] by (auto simp: ac_def)
    moreover have "oc = Some c" "bpr_sortBy props = ''position''" using True c by auto
    ultimately show thesis using that [of fc] c by simp
  next
    case False
    then show thesis using that [of "bst_columns st"] by auto
  qed
  obtain w where w: "js_get fc (the (?find fc)) = Some w \<or> falsy (?find fc) \<or> falsy ac"
    using card [of fc] fc by (cases "?find fc") auto
  show ?thesis
    unfolding handleDragEnd_def Some option.case Let_def
    using fc w by (auto simp: ac_def [symmetric] oc_def [symmetric] split: option.splits)
qed (simp add: handleDragEnd_def Let_def)

definition apply_move :: "drag_effect \<Rightarrow> list_cache \<Rightarrow> list_cache" where
  "apply_move e cache = (case e of Move_issue i patch \<Rightarrow> patchIssueInBuckets cache i patch | _ \<Rightarrow> cache)"

text \<open>The group a card of the status board is dropped in, and its cards with the dragged one.\<close>

lemma dropped_group:
  assumes drag: "in_drag props a st" and vis: "bpr_groups props = map status_group visible"
    and ok: "distinct (map iss_id (bpr_issues props))" and a: "a \<notin> set (board_group_ids props)"
    and same: "same_cards (bst_columns st) cols" and f: "findColumn cols a (board_group_ids props) = Some c"
    and g: "group_of props c = Some grp"
  obtains s ids where "s \<in> set visible" "c = statusGroupId s" "grp = status_group s"
    "js_get cols c = Some ids" "a \<in> set ids" "distinct ids"
    "\<forall>k ids'. js_get cols k = Some ids' \<and> k \<noteq> c \<longrightarrow> a \<notin> set ids'"
proof -
  have "(c, grp) \<in> set (map (\<lambda>g. (bgr_id g, g)) (bpr_groups props))"
    using g map_of_SomeD unfolding group_of_def by (metis set_rev)
  then obtain s where s: "s \<in> set visible" "c = statusGroupId s" "grp = status_group s"
    by (auto simp: vis)
  have d: "distinct (js_keys cols)" "distinct (all_cards cols)"
    using same_cards_ok [OF same] in_drag_ok [OF drag ok] by (auto simp: board_ok_def)
  obtain ids where ids: "js_get cols c = Some ids" "a \<in> set ids" using findColumn_card [OF f a d(1)] by blast
  have "distinct ids" using d(2) js_get_in_set [OF ids(1)] by (auto simp: all_cards_def distinct_concat_iff)
  moreover have "\<forall>k ids'. js_get cols k = Some ids' \<and> k \<noteq> c \<longrightarrow> a \<notin> set ids'"
    using cards_once(2) [OF d(2) ids] by blast
  ultimately show thesis by (rule that [OF s ids])
qed

lemma reorder_others:
  assumes "array_mover mv" "reorder mv col a overId cols = Some cols'"
  shows "others a cols' = others a cols"
  using assms(2)
proof (cases rule: reorder_cases)
  case (2 ids i j)
  let ?r = "take i ids @ drop (Suc i) ids"
  have "mv ids i j = take j ?r @ [a] @ drop j ?r" using array_mover.array_move [OF assms(1) 2(2,3)] 2(5) by simp
  then have "filter (\<lambda>x. x \<noteq> a) (mv ids i j) = filter (\<lambda>x. x \<noteq> a) (take j ?r) @ filter (\<lambda>x. x \<noteq> a) (drop j ?r)"
    by (simp only: filter_append filter.simps) simp
  also have "\<dots> = filter (\<lambda>x. x \<noteq> a) ?r" by (metis append_take_drop_id filter_append)
  also have "\<dots> = filter (\<lambda>x. x \<noteq> a) (take i ids @ [a] @ drop (Suc i) ids)" by simp
  also have "take i ids @ [a] @ drop (Suc i) ids = ids" using id_take_nth_drop [OF 2(2)] 2(5) by simp
  finally show ?thesis using 2(1,4) by (simp add: fun_eq_iff others_put) (simp add: others_def)
qed simp

text \<open>The cards of the status columns, the dragged one apart, and the map of the issues.\<close>

lemma status_board_drag:
  assumes "in_drag props a st" "buckets_ok cache" and "bpr_issues props = flattenIssueBuckets cache"
    "bpr_groups props = map status_group visible" "bpr_grouping props = ''status''"
  shows "s \<in> set visible \<Longrightarrow> others a (bst_columns st) (statusGroupId s)
      = Some (map iss_id (filter (\<lambda>x. iss_id x \<noteq> a) (loaded cache s)))"
    and "i \<in> set (loaded cache s) \<Longrightarrow> bst_issueMap st (iss_id i) = Some i"
    and "a \<in> set (all_cards (bst_columns st)) \<Longrightarrow>
      \<exists>s old. findIssueLocation cache a = Some (s, old) \<and> bst_issueMap st a = Some old"
proof -
  have rb: "rebuilt props = buildColumns (flattenIssueBuckets cache) (map status_group visible) ''status'' (bpr_optionIds props)"
    using assms(3-5) by (simp add: rebuilt_def)
  have "filter (\<lambda>i. i \<noteq> a) (map iss_id xs) = map iss_id (filter (\<lambda>x. iss_id x \<noteq> a) xs)" for xs :: "issue list"
    by (simp add: filter_map comp_def)
  then show "s \<in> set visible \<Longrightarrow> others a (bst_columns st) (statusGroupId s)
      = Some (map iss_id (filter (\<lambda>x. iss_id x \<noteq> a) (loaded cache s)))"
    using assms(1) status_columns [OF assms(2)] rb by (simp add: in_drag_def others_def)
  have m: "bst_issueMap st (iss_id i) = Some i" if "i \<in> set (loaded cache s)" for i s
  proof -
    have d: "distinct (map fst (rev (map (\<lambda>i. (iss_id i, i)) (flattenIssueBuckets cache))))"
      using distinct_flatten [OF assms(2)] by (simp add: rev_map [symmetric] comp_def)
    have "i \<in> set (flattenIssueBuckets cache)" using that by (auto simp: set_flatten)
    then show ?thesis using assms(1,3) map_of_eq_Some_iff [OF d] by (auto simp: in_drag_def)
  qed
  then show "i \<in> set (loaded cache s) \<Longrightarrow> bst_issueMap st (iss_id i) = Some i" .
  assume "a \<in> set (all_cards (bst_columns st))"
  then have "a \<in> set (all_cards (rebuilt props))" using assms(1) by (metis in_drag_def same_cards_def set_mset_mset)
  then have "a \<in> iss_id ` set (flattenIssueBuckets cache)"
    using build_cards [of "flattenIssueBuckets cache"] unfolding rb by (metis list.set_map set_mset_mono set_mset_mset subsetD)
  then obtain old s where old: "old \<in> set (loaded cache s)" "iss_id old = a" by (auto simp: set_flatten)
  then have "findIssueLocation cache a = Some (s, old)" using findIssueLocation_iff [OF assms(2)] by simp
  then show "\<exists>s old. findIssueLocation cache a = Some (s, old) \<and> bst_issueMap st a = Some old"
    using m [OF old(1)] old(2) by auto
qed

lemma drop_columns:
  assumes drag: "in_drag props a st" and ok: "buckets_ok cache"
    and board: "bpr_issues props = flattenIssueBuckets cache" "bpr_groups props = map status_group visible"
      "bpr_grouping props = ''status''"
    and sorted: "\<And>s. sorted_wrt (\<lambda>i j. iss_position i < iss_position j) (loaded cache s)"
    and loc: "findIssueLocation cache a = Some (s0, old)"
    and ids: "js_get cols (statusGroupId s1) = Some ids" "a \<in> set ids" "distinct ids"
      "\<forall>k ids'. js_get cols k = Some ids' \<and> k \<noteq> statusGroupId s1 \<longrightarrow> a \<notin> set ids'"
    and oth: "others a cols = others a (bst_columns st)" and s: "s \<in> set visible" and s1: "s1 \<in> set visible"
    and p: "p = computePosition ids a (bst_issueMap st)"
  shows "js_get cols (statusGroupId s) = Some (map iss_id (loaded
    (if s0 = s1 \<and> iss_position old = p then cache
     else patchIssueInBuckets cache a (getMoveUpdates (status_group s1) p)) s))"
proof -
  note sb = status_board_drag [OF drag ok board]
  have old: "old \<in> set (loaded cache s0)" "iss_id old = a" using findIssueLocation_Some [OF loc] by auto
  have rest: "others a cols (statusGroupId t) = Some (map iss_id (filter (\<lambda>x. iss_id x \<noteq> a) (loaded cache t)))"
    if "t \<in> set visible" for t using sb(1) [OF that] oth by simp
  have slot: "map iss_id (insertByPosition (filter (\<lambda>x. iss_id x \<noteq> a) (loaded cache s1)) x) = ids"
    if "iss_id x = a" "iss_position x = p" for x
    using rest [OF s1] ids sb(2) that p
    by (intro drop_position [OF ok sorted _ ids(2,3), where m = "bst_issueMap st"]) (auto simp: others_def)
  show ?thesis
  proof (cases "s = s1")
    case False
    then obtain ids' where "js_get cols (statusGroupId s) = Some ids'" "filter (\<lambda>i. i \<noteq> a) ids' = ids'"
      using rest [OF s] ids(4) by (fastforce simp: others_def intro: filter_other)
    then have c: "js_get cols (statusGroupId s) = Some (map iss_id (filter (\<lambda>x. iss_id x \<noteq> a) (loaded cache s)))"
      using rest [OF s] by (simp add: others_def)
    show ?thesis
    proof (cases "s0 = s1 \<and> iss_position old = p")
      case True
      then have "filter (\<lambda>x. iss_id x \<noteq> a) (loaded cache s) = loaded cache s"
        using buckets_ok_unique [OF ok old(1)] old(2) False by (intro filter_True) blast
      then show ?thesis using True c by simp
    next
      case False
      then have "s0 \<noteq> s1 \<or> iss_position old \<noteq> p" by simp
      then show ?thesis
        using dropped_bucket [OF ok loc, of s1 p s] c \<open>s \<noteq> s1\<close> by (subst if_not_P [OF False]) simp
    qed
  next
    case True
    show ?thesis
    proof (cases "s0 = s1 \<and> iss_position old = p")
      case same: True
      have "distinct (map iss_id (loaded cache s1))" using ok by (simp add: buckets_ok_def)
      then have "insertByPosition (filter (\<lambda>x. iss_id x \<noteq> a) (loaded cache s1)) old = loaded cache s1"
        using insert_back [OF sorted, of old s1] old same by simp
      then show ?thesis using slot [OF old(2)] same True ids(1) by simp
    next
      case move: False
      then have "s0 \<noteq> s1 \<or> iss_position old \<noteq> p" by simp
      then show ?thesis
        using dropped_bucket [OF ok loc, of s1 p s] slot [of "old\<lparr>iss_status := s1, iss_position := p\<rparr>"] old(2) True ids(1)
        by (subst if_not_P [OF move]) simp
    qed
  qed
qed


definition example_props :: board_props where
  "example_props = \<lparr>bpr_issues = flattenIssueBuckets board, bpr_groups = map status_group [Todo, Done],
     bpr_grouping = ''status'', bpr_optionIds = None, bpr_sortBy = ''position''\<rparr>"

definition example_start :: board_state where
  "example_start = \<lparr>bst_columns = [], bst_issueMap = Map.empty, bst_activeIssue = None, bst_isDragging = False,
     bst_isSettling = False, bst_recentlyMoved = False\<rparr>"

lemma example_drag: "dragging example_props ''i1'' (handleDragStart ''i1'' (render example_props example_start))"
  by (rule dragging.Lift) (simp_all add: example_start_def)

lemma example_groups: "board_group_ids example_props = [''status:todo'', ''status:done'']"
  by (simp add: board_group_ids_def example_props_def status_group_def statusGroupId_def status_name_def)


lemma drag_conserves_cards_witness:
  "\<exists>st' effs. handleDragEnd move_item example_props ''i1'' (Some ''i3'')
       (handleDragStart ''i1'' (render example_props example_start)) = Some (st', effs)
     \<and> (bst_columns st' = rebuilt example_props \<or> same_cards (rebuilt example_props) (bst_columns st'))"
proof -
  let ?st = "handleDragStart ''i1'' (render example_props example_start)"
  have d: "distinct (map iss_id (bpr_issues example_props))"
    using distinct_flatten [OF board_ok] by (simp add: example_props_def)
  have cols: "bst_columns ?st = rebuilt example_props"
    by (simp add: handleDragStart_def render_def example_start_def)
  have ok: "board_ok ?st"
    using build_cards_once [OF d] distinct_keys_build by (simp add: board_ok_def cols rebuilt_def)
  have keys: "set (board_group_ids example_props) \<subseteq> set (js_keys (bst_columns ?st))"
    using js_get_None_iff [of "rebuilt example_props"] unfolding cols
    by (force simp: rebuilt_def get_buildColumns board_group_ids_def)
  have a: "''i1'' \<notin> set (board_group_ids example_props)" by (simp add: example_groups)
  obtain r where r: "handleDragEnd move_item example_props ''i1'' (Some ''i3'') ?st = Some r"
    using drag_end_returns [OF move_item.array_mover_axioms ok a] by blast
  have "bpr_sortBy example_props = ''position''" by (simp add: example_props_def)
  then show ?thesis
    using drag_conserves_cards [OF move_item.array_mover_axioms ok a keys, of "Some ''i3''"] r
    unfolding cols by (cases r) auto
qed

end
