(* ===== verification/Js_Url.thy ===== *)
theory Js_Url
  imports Js_Json
begin

text \<open>
  \<open>URLSearchParams\<close> and \<open>JSON.stringify\<close>.  Strings are lists of bytes (UTF-8), which is what the
  form encoding works on; the numbers of a JSON text are printed by a parameter, since numbers are
  exact here and doubles there.
\<close>

section \<open>The form encoding\<close>

definition hex_digit :: "nat \<Rightarrow> char" where
  "hex_digit n = ''0123456789ABCDEF'' ! n"

definition unreserved :: "char \<Rightarrow> bool" where
  "unreserved c \<longleftrightarrow> (let n = of_char c :: nat in (48 \<le> n \<and> n \<le> 57) \<or> (65 \<le> n \<and> n \<le> 90) \<or> (97 \<le> n \<and> n \<le> 122))
     \<or> c \<in> set ''*-._''"

definition form_char :: "char \<Rightarrow> string" where
  "form_char c =
     (if unreserved c then [c] else if c = CHR '' '' then ''+''
      else let n = of_char c :: nat in [CHR ''%'', hex_digit (n div 16), hex_digit (n mod 16)])"

definition form_text :: "string \<Rightarrow> string" where
  "form_text s = concat (map form_char s)"

text \<open>\<open>search.toString()\<close>.\<close>

fun form_pairs :: "(string \<times> string) list \<Rightarrow> string" where
  "form_pairs [] = []"
| "form_pairs [(k, v)] = form_text k @ ''='' @ form_text v"
| "form_pairs ((k, v) # ps) = form_text k @ ''='' @ form_text v @ ''&'' @ form_pairs ps"

text \<open>\<open>search.set(k, v)\<close>: replaces the first pair with that name, removes the others, else appends.\<close>

definition query_set :: "string \<Rightarrow> string \<Rightarrow> (string \<times> string) list \<Rightarrow> (string \<times> string) list" where
  "query_set k v ps =
     (if k \<in> fst ` set ps
      then (let before = takeWhile (\<lambda>(j, _). j \<noteq> k) ps; after = drop (Suc (length before)) ps
            in before @ (k, v) # filter (\<lambda>(j, _). j \<noteq> k) after)
      else ps @ [(k, v)])"

section \<open>Decoding\<close>

text \<open>What a server reads from a query: the reference parser of the same format.\<close>

definition hex_value :: "char \<Rightarrow> nat option" where
  "hex_value c = (let n = of_char c :: nat in
     if 48 \<le> n \<and> n \<le> 57 then Some (n - 48) else if 65 \<le> n \<and> n \<le> 70 then Some (n - 55)
     else if 97 \<le> n \<and> n \<le> 102 then Some (n - 87) else None)"

fun form_decode :: "string \<Rightarrow> string" where
  "form_decode [] = []"
| "form_decode (c # cs) =
     (if c = CHR ''+'' then CHR '' '' # form_decode cs
      else if c = CHR ''%'' then (case cs of
          a # b # ds \<Rightarrow> (case (hex_value a, hex_value b) of
              (Some x, Some y) \<Rightarrow> char_of (16 * x + y) # form_decode ds
            | _ \<Rightarrow> c # form_decode cs)
        | _ \<Rightarrow> c # form_decode cs)
      else c # form_decode cs)"

definition form_pair :: "string \<Rightarrow> string \<times> string" where
  "form_pair piece =
     (case js_index_of CHR ''='' piece of
        None \<Rightarrow> (form_decode piece, [])
      | Some i \<Rightarrow> (form_decode (take i piece), form_decode (drop (Suc i) piece)))"

definition form_parse :: "string \<Rightarrow> (string \<times> string) list" where
  "form_parse query = map form_pair (filter (\<lambda>s. s \<noteq> []) (js_split CHR ''&'' query))"

section \<open>Round trip\<close>

lemma of_char_less: "(of_char c :: nat) < 256"
  by (metis mod_less_divisor of_char_mod_256 zero_less_numeral)

lemma high_nibble: "(of_char c :: nat) div 16 < 16"
  by (rule less_mult_imp_div_less) (use of_char_less [of c] in simp)

lemma hex_nibble: "n < 16 \<Longrightarrow> hex_value (hex_digit n) = Some n"
proof -
  have "\<forall>n\<in>set [0..<16]. hex_value (hex_digit n) = Some n" by code_simp
  then show "n < 16 \<Longrightarrow> ?thesis" by simp
qed

lemma unreserved_plain: "unreserved c \<Longrightarrow> c \<noteq> CHR ''+'' \<and> c \<noteq> CHR ''%'' \<and> c \<noteq> CHR ''&'' \<and> c \<noteq> CHR ''=''"
  by (auto simp: unreserved_def)

lemma form_decode_char: "form_decode (form_char c @ cs) = c # form_decode cs"
proof (cases "unreserved c \<or> c = CHR '' ''")
  case True
  then show ?thesis using unreserved_plain [of c] by (auto simp: form_char_def)
next
  case False
  have "hex_value (hex_digit (of_char c div 16)) = Some (of_char c div 16)"
    "hex_value (hex_digit (of_char c mod 16)) = Some (of_char c mod 16)"
    using high_nibble [of c] by (auto intro!: hex_nibble)
  moreover have "16 * (of_char c div 16) + of_char c mod 16 = (of_char c :: nat)" by simp
  ultimately show ?thesis using False by (simp add: form_char_def Let_def)
qed

lemma form_decode_text: "form_decode (form_text s @ cs) = s @ form_decode cs"
  by (induction s) (simp_all add: form_text_def form_decode_char)

lemma form_text_decode [simp]: "form_decode (form_text s) = s"
  using form_decode_text [of s "[]"] by simp

lemma hex_digit_plain: "n < 16 \<Longrightarrow> hex_digit n \<notin> {CHR ''&'', CHR ''='', CHR ''+'', CHR ''%''}"
proof -
  have "\<forall>n\<in>set [0..<16]. hex_digit n \<notin> {CHR ''&'', CHR ''='', CHR ''+'', CHR ''%''}" by code_simp
  then show "n < 16 \<Longrightarrow> ?thesis" by simp
qed

lemma form_char_plain: "CHR ''&'' \<notin> set (form_char c)" "CHR ''='' \<notin> set (form_char c)"
proof -
  have "(of_char c :: nat) div 16 < 16" by (rule high_nibble)
  then show "CHR ''&'' \<notin> set (form_char c)" "CHR ''='' \<notin> set (form_char c)"
    using hex_digit_plain [of "of_char c div 16"] hex_digit_plain [of "of_char c mod 16"] unreserved_plain [of c]
    by (auto simp: form_char_def Let_def)
qed

lemma form_text_plain: "CHR ''&'' \<notin> set (form_text s)" "CHR ''='' \<notin> set (form_text s)"
  using form_char_plain by (auto simp: form_text_def)

lemma form_pair_text: "form_pair (form_text k @ ''='' @ form_text v) = (k, v)"
proof -
  have "js_index_of CHR ''='' (xs @ CHR ''='' # ys) = Some (length xs)" if "CHR ''='' \<notin> set xs" for xs ys
    using that by (induction xs) auto
  then show ?thesis using form_text_plain(2) [of k] by (simp add: form_pair_def)
qed

text \<open>A query that was built from a list of pairs is read back as that list, whatever the texts are.\<close>

lemma form_parse_pairs: "form_parse (form_pairs ps) = ps"
proof (induction ps rule: form_pairs.induct)
  case (2 k v)
  have "CHR ''&'' \<notin> set (form_text k @ ''='' @ form_text v)" using form_text_plain(1) by simp
  then show ?case using form_pair_text by (simp add: form_parse_def js_split_no_sep)
next
  case (3 k v p ps)
  have "CHR ''&'' \<notin> set (form_text k @ ''='' @ form_text v)" using form_text_plain(1) by simp
  from js_split_sep [OF this, of "form_pairs (p # ps)"]
  have "js_split CHR ''&'' (form_pairs ((k, v) # p # ps))
      = (form_text k @ ''='' @ form_text v) # js_split CHR ''&'' (form_pairs (p # ps))" by simp
  then show ?case using 3 form_pair_text [of k v] by (simp add: form_parse_def)
qed (simp add: form_parse_def)

lemma query_set_new: "k \<notin> fst ` set ps \<Longrightarrow> query_set k v ps = ps @ [(k, v)]"
  by (simp add: query_set_def)

text \<open>No separator of a URL other than the four of a query can be smuggled in by a parameter.\<close>

definition query_char :: "char \<Rightarrow> bool" where
  "query_char c \<longleftrightarrow> unreserved c \<or> c \<in> set ''+%&=''"

lemma hex_digit_unreserved: "n < 16 \<Longrightarrow> unreserved (hex_digit n)"
proof -
  have "\<forall>n\<in>set [0..<16]. unreserved (hex_digit n)" by code_simp
  then show "n < 16 \<Longrightarrow> ?thesis" by simp
qed

lemma form_text_query: "list_all query_char (form_text s)"
proof -
  have "list_all query_char (form_char c)" for c
    using hex_digit_unreserved [OF high_nibble [of c]] hex_digit_unreserved [of "of_char c mod 16"]
    by (simp add: form_char_def query_char_def Let_def)
  then show ?thesis by (induction s) (simp_all add: form_text_def)
qed

lemma form_pairs_query: "list_all query_char (form_pairs ps)"
proof -
  have "query_char CHR ''=''" "query_char CHR ''&''" by (simp_all add: query_char_def)
  then show ?thesis by (induction ps rule: form_pairs.induct) (simp_all add: form_text_query)
qed

section \<open>JSON texts\<close>

definition json_escape :: "char \<Rightarrow> string" where
  "json_escape c =
     (let n = of_char c :: nat in
      if n = 34 then [CHR 0x5C, CHR 0x22] else if n = 92 then [CHR 0x5C, CHR 0x5C]
      else if n = 8 then [CHR 0x5C, CHR ''b''] else if n = 12 then [CHR 0x5C, CHR ''f'']
      else if n = 10 then [CHR 0x5C, CHR ''n''] else if n = 13 then [CHR 0x5C, CHR ''r'']
      else if n = 9 then [CHR 0x5C, CHR ''t'']
      else if n < 32 then [CHR 0x5C, CHR ''u'', CHR ''0'', CHR ''0'', ''0123456789abcdef'' ! (n div 16),
        ''0123456789abcdef'' ! (n mod 16)]
      else [c])"

definition json_string :: "string \<Rightarrow> string" where
  "json_string s = CHR 0x22 # concat (map json_escape s) @ [CHR 0x22]"

definition comma_join :: "string list \<Rightarrow> string" where
  "comma_join ss = (case ss of [] \<Rightarrow> [] | s # rest \<Rightarrow> s @ concat (map (\<lambda>t. CHR '','' # t) rest))"

text \<open>\<open>JSON.stringify(v)\<close>; the members of an object are distinct there and in property order.\<close>

fun json_text :: "(rat \<Rightarrow> string) \<Rightarrow> json \<Rightarrow> string" where
  "json_text num JNull = ''null''"
| "json_text num (JBool b) = (if b then ''true'' else ''false'')"
| "json_text num (JNum n) = num n"
| "json_text num (JStr s) = json_string s"
| "json_text num (JArr vs) = ''['' @ comma_join (map (json_text num) vs) @ '']''"
| "json_text num (JObj ms) = ''{'' @ comma_join (map (\<lambda>(k, v). json_string k @ '':'' @ json_text num v) ms) @ ''}''"

end
