(* ===== verification/Api_Client.thy ===== *)
theory Api_Client
  imports Js_Url Js_Object
begin

text \<open>
  The HTTP client (\<open>packages/core/api/client.ts\<close>, \<open>schema.ts\<close>): the headers of a request, the
  shared error path and the decoding of answers.  The network is a parameter: for each request an
  answer of the server, or a failure to get one.  A call is a function of the client that gives the
  result, the client after it and what it reported: a log line, or the call of \<open>onUnauthorized\<close>.
\<close>

section \<open>State, requests and answers\<close>

record client_identity =
  cid_platform :: "string option"
  cid_version :: "string option"
  cid_os :: "string option"

record api_client =
  apc_baseUrl :: string
  apc_token :: "string option"
  apc_identity :: "client_identity option"
  apc_onUnauthorized :: bool

text \<open>What a request reads of the browser: the current slug, the cookies, a fresh request id.\<close>

record browser =
  brw_slug :: "string option"
  brw_cookie :: "string option"
  brw_rid :: string

record request_init =
  ini_method :: "string option"
  ini_body :: "string option"
  ini_headers :: "string js_object"
  ini_extraHeaders :: "string js_object"

definition no_init :: request_init where
  "no_init = \<lparr>ini_method = None, ini_body = None, ini_headers = [], ini_extraHeaders = []\<rparr>"

record http_request =
  hrq_method :: string
  hrq_url :: string
  hrq_headers :: "string js_object"
  hrq_body :: "string option"

text \<open>\<open>rsp_json\<close> is what \<open>res.json()\<close> resolves to; \<open>None\<close> when it rejects.\<close>

record http_response =
  rsp_status :: nat
  rsp_statusText :: string
  rsp_json :: "json option"

definition rsp_ok :: "http_response \<Rightarrow> bool" where
  "rsp_ok res \<longleftrightarrow> 200 \<le> rsp_status res \<and> rsp_status res \<le> 299"

type_synonym network = "http_request \<Rightarrow> string + http_response"

text \<open>An \<open>ApiError\<close>; a request that got no answer; a body that is not JSON.\<close>

datatype api_failure =
    Api_error (api_message: string) (api_status: nat) (api_statusText: string) (api_body: "json option")
  | Network_failure string
  | Body_failure

datatype log_level = Log_info | Log_warn | Log_error

datatype api_effect =
    Log_request string string
  | Log_response log_level nat string "string option"
  | On_unauthorized
  | Schema_warning string

type_synonym 'a call = "(api_failure + 'a) \<times> api_client \<times> api_effect list"

definition setToken :: "string option \<Rightarrow> api_client \<Rightarrow> api_client" where
  "setToken token cl = cl\<lparr>apc_token := token\<rparr>"

section \<open>Headers\<close>

text \<open>\<open>cookie.split("; ")\<close>.\<close>

fun split_cookies :: "string \<Rightarrow> string list" where
  "split_cookies [] = [[]]"
| "split_cookies [c] = [[c]]"
| "split_cookies (c # d # cs) =
     (if c = CHR '';'' \<and> d = CHR '' '' then [] # split_cookies cs
      else (case split_cookies (d # cs) of [] \<Rightarrow> [[c]] | s # ss \<Rightarrow> (c # s) # ss))"

definition readCsrfToken :: "browser \<Rightarrow> string option" where
  "readCsrfToken b =
     (case brw_cookie b of
        None \<Rightarrow> None
      | Some cookie \<Rightarrow> (case List.find (\<lambda>c. starts_with c ''multica_csrf='') (split_cookies cookie) of
            None \<Rightarrow> None
          | Some found \<Rightarrow> if found = [] then None
              else (case js_split CHR ''='' found of _ # v # _ \<Rightarrow> Some v | _ \<Rightarrow> None)))"

text \<open>\<open>if (v) headers[k] = v\<close>.\<close>

definition put_truthy :: "string \<Rightarrow> string option \<Rightarrow> string js_object \<Rightarrow> string js_object" where
  "put_truthy k v headers = (if falsy v then headers else js_put k (the v) headers)"

definition authHeaders :: "browser \<Rightarrow> api_client \<Rightarrow> string js_object" where
  "authHeaders b cl =
     (let i = apc_identity cl;
          headers = put_truthy ''Authorization''
            (if falsy (apc_token cl) then None else Some (''Bearer '' @ the (apc_token cl))) []
      in put_truthy ''X-Client-OS'' (Option.bind i cid_os)
           (put_truthy ''X-Client-Version'' (Option.bind i cid_version)
             (put_truthy ''X-Client-Platform'' (Option.bind i cid_platform)
               (put_truthy ''X-CSRF-Token'' (readCsrfToken b)
                 (put_truthy ''X-Workspace-Slug'' (brw_slug b) headers)))))"

text \<open>\<open>{...a, ...b}\<close>.\<close>

definition spread :: "string js_object \<Rightarrow> string js_object \<Rightarrow> string js_object" where
  "spread a b = fold (\<lambda>(k, v). js_put k v) b a"

definition request_of :: "browser \<Rightarrow> api_client \<Rightarrow> string \<Rightarrow> request_init \<Rightarrow> http_request" where
  "request_of b cl path init =
     \<lparr>hrq_method = (case ini_method init of None \<Rightarrow> ''GET'' | Some m \<Rightarrow> m),
      hrq_url = apc_baseUrl cl @ path,
      hrq_headers = spread (spread (spread [(''X-Request-ID'', brw_rid b)] (authHeaders b cl))
        (ini_extraHeaders init)) (ini_headers init),
      hrq_body = ini_body init\<rparr>"

section \<open>Sending\<close>

definition handleUnauthorized :: "api_client \<Rightarrow> api_client \<times> api_effect list" where
  "handleUnauthorized cl =
     (cl\<lparr>apc_token := None\<rparr>, if apc_onUnauthorized cl then [On_unauthorized] else [])"

text \<open>A body that is \<open>null\<close> raises inside the \<open>try\<close>, as one that is not JSON does.\<close>

definition parseErrorBody :: "http_response \<Rightarrow> string \<Rightarrow> string \<times> json option" where
  "parseErrorBody res fallback =
     (case rsp_json res of
        None \<Rightarrow> (fallback, None)
      | Some JNull \<Rightarrow> (fallback, None)
      | Some d \<Rightarrow> (case obj_get ''error'' d of
            Some (JStr e) \<Rightarrow> (if e \<noteq> [] then e else fallback, Some d)
          | _ \<Rightarrow> (fallback, Some d)))"

definition parseErrorMessage :: "http_response \<Rightarrow> string \<Rightarrow> string" where
  "parseErrorMessage res fallback =
     (case rsp_json res of
        None \<Rightarrow> fallback
      | Some d \<Rightarrow> (case obj_get ''error'' d of Some (JStr e) \<Rightarrow> if e \<noteq> [] then e else fallback | _ \<Rightarrow> fallback))"

definition api_fallback :: "http_response \<Rightarrow> string" where
  "api_fallback res = ''API error: '' @ nat_digits (rsp_status res) @ '' '' @ rsp_statusText res"

definition fetchRaw ::
  "browser \<Rightarrow> network \<Rightarrow> string \<Rightarrow> request_init \<Rightarrow> api_client \<Rightarrow> http_response call" where
  "fetchRaw b net path init cl =
     (let req = request_of b cl path init;
          start = [Log_request (hrq_method req) path]
      in case net req of
           Inl e \<Rightarrow> (Inl (Network_failure e), cl, start)
         | Inr res \<Rightarrow>
             if rsp_ok res then (Inr res, cl, start @ [Log_response Log_info (rsp_status res) path None])
             else (let (cl', unauth) = (if rsp_status res = 401 then handleUnauthorized cl else (cl, []));
                       (message, body) = parseErrorBody res (api_fallback res);
                       level = (if rsp_status res = 404 then Log_warn else Log_error)
                   in (Inl (Api_error message (rsp_status res) (rsp_statusText res) body), cl',
                       start @ unauth @ [Log_response level (rsp_status res) path (Some message)])))"

text \<open>\<open>undefined\<close>, the result of an answer without content, is \<open>None\<close>.\<close>

definition api_fetch ::
  "browser \<Rightarrow> network \<Rightarrow> string \<Rightarrow> request_init \<Rightarrow> api_client \<Rightarrow> json option call" where
  "api_fetch b net path init cl =
     (case fetchRaw b net path (init\<lparr>ini_extraHeaders := [(''Content-Type'', ''application/json'')]\<rparr>) cl of
        (Inl e, cl', effs) \<Rightarrow> (Inl e, cl', effs)
      | (Inr res, cl', effs) \<Rightarrow>
          if rsp_status res = 204 then (Inr None, cl', effs)
          else (case rsp_json res of None \<Rightarrow> (Inl Body_failure, cl', effs) | Some v \<Rightarrow> (Inr (Some v), cl', effs)))"

text \<open>A schema is what \<open>safeParse\<close> makes of a value: the parsed data, or no success.\<close>

definition parseWithFallback ::
  "json option \<Rightarrow> (json option \<Rightarrow> 'a option) \<Rightarrow> 'a \<Rightarrow> string \<Rightarrow> 'a \<times> api_effect list" where
  "parseWithFallback d schema fallback endpoint =
     (case schema d of Some x \<Rightarrow> (x, []) | None \<Rightarrow> (fallback, [Schema_warning endpoint]))"

definition fetch_parsed ::
  "browser \<Rightarrow> network \<Rightarrow> string \<Rightarrow> request_init \<Rightarrow> (json option \<Rightarrow> 'a option) \<Rightarrow> 'a \<Rightarrow> string
   \<Rightarrow> api_client \<Rightarrow> 'a call" where
  "fetch_parsed b net path init schema fallback endpoint cl =
     (case api_fetch b net path init cl of
        (Inl e, cl', effs) \<Rightarrow> (Inl e, cl', effs)
      | (Inr raw, cl', effs) \<Rightarrow>
          (case parseWithFallback raw schema fallback endpoint of (x, warned) \<Rightarrow> (Inr x, cl', effs @ warned)))"

text \<open>A call whose answer is not used.\<close>

definition fetch_void :: "browser \<Rightarrow> network \<Rightarrow> string \<Rightarrow> request_init \<Rightarrow> api_client \<Rightarrow> unit call" where
  "fetch_void b net path init cl =
     (case api_fetch b net path init cl of
        (Inl e, cl', effs) \<Rightarrow> (Inl e, cl', effs) | (Inr _, cl', effs) \<Rightarrow> (Inr (), cl', effs))"

text \<open>The machine-readable reason of a refused trigger; \<open>None\<close> for other errors.\<close>

definition dispatchReasonCode :: "api_failure \<Rightarrow> string option" where
  "dispatchReasonCode err =
     (case err of
        Api_error _ _ _ (Some body) \<Rightarrow>
          if truthy body \<and> typeof_object body
          then (case obj_get ''reason_code'' body of Some (JStr code) \<Rightarrow> if code \<noteq> [] then Some code else None | _ \<Rightarrow> None)
          else None
      | _ \<Rightarrow> None)"

section \<open>What a request carries\<close>

lemma get_put_truthy: "js_get (put_truthy k v h) j = (if j = k \<and> \<not> falsy v then v else js_get h j)"
  by (cases v) (auto simp: put_truthy_def js_get_put)

lemma get_spread: "distinct (js_keys b) \<Longrightarrow>
    js_get (spread a b) k = (case js_get b k of None \<Rightarrow> js_get a k | Some v \<Rightarrow> Some v)"
proof (induction b arbitrary: a)
  case Nil
  then show ?case by (simp add: spread_def)
next
  case (Cons e b)
  obtain j v where e: "e = (j, v)" by (cases e)
  have "js_get (spread a (e # b)) k = js_get (spread (js_put j v a) b) k" by (simp add: spread_def e)
  also have "\<dots> = (case js_get b k of None \<Rightarrow> js_get (js_put j v a) k | Some v \<Rightarrow> Some v)"
    using Cons by (simp add: js_keys_def)
  also have "\<dots> = (case js_get (e # b) k of None \<Rightarrow> js_get a k | Some v \<Rightarrow> Some v)"
    using Cons.prems js_get_None_iff [of b j] by (auto simp: e js_get_put js_keys_def split: option.splits)
  finally show ?case .
qed

lemma distinct_put_truthy: "distinct (js_keys h) \<Longrightarrow> distinct (js_keys (put_truthy k v h))"
  by (simp add: put_truthy_def distinct_keys_put)

lemma distinct_authHeaders: "distinct (js_keys (authHeaders b cl))"
  by (simp add: authHeaders_def Let_def distinct_put_truthy)

lemma get_authHeaders:
  "js_get (authHeaders b cl) k =
     (let v = (if k = ''Authorization'' \<and> \<not> falsy (apc_token cl) then Some (''Bearer '' @ the (apc_token cl))
               else if k = ''X-Workspace-Slug'' then brw_slug b
               else if k = ''X-CSRF-Token'' then readCsrfToken b
               else if k = ''X-Client-Platform'' then Option.bind (apc_identity cl) cid_platform
               else if k = ''X-Client-Version'' then Option.bind (apc_identity cl) cid_version
               else if k = ''X-Client-OS'' then Option.bind (apc_identity cl) cid_os else None)
      in if falsy v then None else v)"
  by (simp add: authHeaders_def Let_def get_put_truthy)

text \<open>The request an endpoint sends: its own headers are the content type only.\<close>

definition sent :: "browser \<Rightarrow> api_client \<Rightarrow> string \<Rightarrow> request_init \<Rightarrow> http_request" where
  "sent b cl path init = request_of b cl path (init\<lparr>ini_extraHeaders := [(''Content-Type'', ''application/json'')]\<rparr>)"

lemma fetch_result:
  "fst (api_fetch b net path init cl) =
     (case net (sent b cl path init) of
        Inl e \<Rightarrow> Inl (Network_failure e)
      | Inr res \<Rightarrow>
          if \<not> rsp_ok res then Inl (Api_error (fst (parseErrorBody res (api_fallback res))) (rsp_status res)
            (rsp_statusText res) (snd (parseErrorBody res (api_fallback res))))
          else if rsp_status res = 204 then Inr None
          else (case rsp_json res of None \<Rightarrow> Inl Body_failure | Some v \<Rightarrow> Inr (Some v)))"
  by (simp add: api_fetch_def fetchRaw_def sent_def Let_def split: sum.split prod.split option.split)

lemma fetch_client:
  "fst (snd (api_fetch b net path init cl)) =
     (case net (sent b cl path init) of
        Inl e \<Rightarrow> cl
      | Inr res \<Rightarrow> if rsp_status res = 401 then setToken None cl else cl)"
  by (auto simp: api_fetch_def fetchRaw_def sent_def Let_def handleUnauthorized_def setToken_def rsp_ok_def
      split: sum.split prod.split option.split)

lemma fetch_effects:
  "snd (snd (api_fetch b net path init cl)) =
     Log_request (hrq_method (sent b cl path init)) path #
     (case net (sent b cl path init) of
        Inl e \<Rightarrow> []
      | Inr res \<Rightarrow>
          if rsp_ok res then [Log_response Log_info (rsp_status res) path None]
          else (if rsp_status res = 401 \<and> apc_onUnauthorized cl then [On_unauthorized] else [])
            @ [Log_response (if rsp_status res = 404 then Log_warn else Log_error) (rsp_status res) path
                (Some (fst (parseErrorBody res (api_fallback res))))])"
  by (simp add: api_fetch_def fetchRaw_def sent_def Let_def handleUnauthorized_def
      split: sum.split prod.split option.split)

text \<open>
  A request identifies the session in its headers only.  A request that an endpoint sends (with
  no headers of its own) goes to the path on the base URL; it carries the request id and the JSON
  content type, the bearer token exactly when one is set, the workspace slug, the CSRF token of the
  cookie and the client identity exactly when they are known and not empty, and no other header.
  Another token or another cookie changes neither its method nor its URL nor its body.
\<close>
theorem request_headers:
  assumes "ini_headers init = []"
  shows "hrq_url (sent b cl path init) = apc_baseUrl cl @ path
    \<and> (\<forall>k. js_get (hrq_headers (sent b cl path init)) k =
        (if k = ''Content-Type'' then Some ''application/json''
         else if k = ''X-Request-ID'' then Some (brw_rid b)
         else let v = (if k = ''Authorization'' \<and> \<not> falsy (apc_token cl) then Some (''Bearer '' @ the (apc_token cl))
               else if k = ''X-Workspace-Slug'' then brw_slug b
               else if k = ''X-CSRF-Token'' then readCsrfToken b
               else if k = ''X-Client-Platform'' then Option.bind (apc_identity cl) cid_platform
               else if k = ''X-Client-Version'' then Option.bind (apc_identity cl) cid_version
               else if k = ''X-Client-OS'' then Option.bind (apc_identity cl) cid_os else None)
              in if falsy v then None else v))
    \<and> hrq_method (sent (b\<lparr>brw_cookie := c\<rparr>) (setToken t cl) path init) = hrq_method (sent b cl path init)
    \<and> hrq_url (sent (b\<lparr>brw_cookie := c\<rparr>) (setToken t cl) path init) = hrq_url (sent b cl path init)
    \<and> hrq_body (sent (b\<lparr>brw_cookie := c\<rparr>) (setToken t cl) path init) = hrq_body (sent b cl path init)"
proof -
  have "js_get (hrq_headers (sent b cl path init)) k =
      (case js_get [(''Content-Type'', ''application/json'')] k of
         None \<Rightarrow> (case js_get (authHeaders b cl) k of None \<Rightarrow> js_get [(''X-Request-ID'', brw_rid b)] k | Some v \<Rightarrow> Some v)
       | Some v \<Rightarrow> Some v)" for k
    using assms distinct_authHeaders [of b cl]
    by (simp add: sent_def request_of_def get_spread js_keys_def spread_def [of _ "[]"])
  then show ?thesis by (auto simp: get_authHeaders sent_def request_of_def setToken_def Let_def split: option.split)
qed

definition example_client :: api_client where
  "example_client = \<lparr>apc_baseUrl = ''https://api'', apc_token = Some ''t0'', apc_identity = None, apc_onUnauthorized = True\<rparr>"

definition example_browser :: browser where
  "example_browser = \<lparr>brw_slug = Some ''acme'', brw_cookie = Some ''a=1; multica_csrf=x.y'', brw_rid = ''r1''\<rparr>"

lemma request_headers_witness:
  "js_get (hrq_headers (sent example_browser example_client ''/api/me'' no_init)) ''Authorization'' = Some ''Bearer t0''
   \<and> js_get (hrq_headers (sent example_browser example_client ''/api/me'' no_init)) ''X-Workspace-Slug'' = Some ''acme''"
  using request_headers [of no_init example_browser example_client "''/api/me''" None None]
  by (simp add: no_init_def example_client_def example_browser_def)

section \<open>What a call ends in\<close>

lemma parseErrorBody_nonempty: "fst (parseErrorBody res (api_fallback res)) \<noteq> []"
  by (auto simp: parseErrorBody_def api_fallback_def split: option.splits json.splits)

lemma fetch_message:
  assumes "fst (api_fetch b net path init cl) = Inl (Api_error m s t d)"
  shows "m \<noteq> []" and "\<exists>res. net (sent b cl path init) = Inr res \<and> s = rsp_status res \<and> t = rsp_statusText res
          \<and> (\<forall>body e. rsp_json res = Some body \<and> obj_get ''error'' body = Some (JStr e) \<and> e \<noteq> [] \<longrightarrow> m = e \<and> d = Some body)"
proof -
  obtain res where net: "net (sent b cl path init) = Inr res"
    using assms unfolding fetch_result by (auto split: sum.splits)
  then have res: "m = fst (parseErrorBody res (api_fallback res))" "d = snd (parseErrorBody res (api_fallback res))"
      "s = rsp_status res" "t = rsp_statusText res"
    using assms unfolding fetch_result by (auto split: option.splits if_splits)
  have "m = e \<and> d = Some body" if "rsp_json res = Some body" "obj_get ''error'' body = Some (JStr e)" "e \<noteq> []" for body e
    using that res(1,2) by (cases body) (auto simp: parseErrorBody_def)
  then show "m \<noteq> []" and "\<exists>res. net (sent b cl path init) = Inr res \<and> s = rsp_status res \<and> t = rsp_statusText res
          \<and> (\<forall>body e. rsp_json res = Some body \<and> obj_get ''error'' body = Some (JStr e) \<and> e \<noteq> [] \<longrightarrow> m = e \<and> d = Some body)"
    using res net parseErrorBody_nonempty [of res] by auto
qed

text \<open>
  C30. How a call can end, and when it ends the session.  A call succeeds exactly when the server
  answers with a status from 200 to 299 and either no content or a body that is JSON; it fails with
  an \<open>ApiError\<close> exactly when the status is another one, and that error has the status, a message
  that is never empty, and as message the \<open>error\<close> text of the body where it has one.  The token is
  dropped exactly on a 401, where \<open>onUnauthorized\<close> is called once if it is given, and not otherwise;
  from then on the requests of the client carry no authorization until a token is set again.
\<close>
theorem fetch_outcome:
  "((\<exists>v. fst (api_fetch b net path init cl) = Inr v) \<longleftrightarrow>
      (\<exists>res. net (sent b cl path init) = Inr res \<and> rsp_ok res \<and> (rsp_status res = 204 \<or> rsp_json res \<noteq> None)))
    \<and> ((\<exists>m s t d. fst (api_fetch b net path init cl) = Inl (Api_error m s t d)) \<longleftrightarrow>
      (\<exists>res. net (sent b cl path init) = Inr res \<and> \<not> rsp_ok res))
    \<and> (\<forall>m s t d. fst (api_fetch b net path init cl) = Inl (Api_error m s t d) \<longrightarrow> m \<noteq> []
      \<and> (\<exists>res. net (sent b cl path init) = Inr res \<and> s = rsp_status res \<and> t = rsp_statusText res
          \<and> (\<forall>body e. rsp_json res = Some body \<and> obj_get ''error'' body = Some (JStr e) \<and> e \<noteq> [] \<longrightarrow> m = e \<and> d = Some body)))
    \<and> fst (snd (api_fetch b net path init cl)) =
      (if \<exists>res. net (sent b cl path init) = Inr res \<and> rsp_status res = 401 then setToken None cl else cl)
    \<and> length (filter (\<lambda>e. e = On_unauthorized) (snd (snd (api_fetch b net path init cl)))) =
      (if apc_onUnauthorized cl \<and> (\<exists>res. net (sent b cl path init) = Inr res \<and> rsp_status res = 401) then 1 else 0)
    \<and> js_get (hrq_headers (sent b' (setToken None cl) path' (init'\<lparr>ini_headers := []\<rparr>))) ''Authorization'' = None"
proof (intro conjI allI impI fetch_message)
  show "(\<exists>v. fst (api_fetch b net path init cl) = Inr v) \<longleftrightarrow>
      (\<exists>res. net (sent b cl path init) = Inr res \<and> rsp_ok res \<and> (rsp_status res = 204 \<or> rsp_json res \<noteq> None))"
    unfolding fetch_result by (auto split: sum.splits option.splits)
  show "(\<exists>m s t d. fst (api_fetch b net path init cl) = Inl (Api_error m s t d)) \<longleftrightarrow>
      (\<exists>res. net (sent b cl path init) = Inr res \<and> \<not> rsp_ok res)"
    unfolding fetch_result by (auto split: sum.splits option.splits if_splits)
  show "fst (snd (api_fetch b net path init cl)) =
      (if \<exists>res. net (sent b cl path init) = Inr res \<and> rsp_status res = 401 then setToken None cl else cl)"
    unfolding fetch_client by (auto split: sum.splits)
  show "length (filter (\<lambda>e. e = On_unauthorized) (snd (snd (api_fetch b net path init cl)))) =
      (if apc_onUnauthorized cl \<and> (\<exists>res. net (sent b cl path init) = Inr res \<and> rsp_status res = 401) then 1 else 0)"
    unfolding fetch_effects by (auto simp: rsp_ok_def split: sum.splits)
  show "js_get (hrq_headers (sent b' (setToken None cl) path' (init'\<lparr>ini_headers := []\<rparr>))) ''Authorization'' = None"
    using distinct_authHeaders [of b' "setToken None cl"]
    by (simp add: sent_def request_of_def get_spread js_keys_def spread_def [of _ "[]"] get_authHeaders setToken_def Let_def)
qed

lemma fetch_outcome_witness:
  "\<exists>m. fst (api_fetch example_browser (\<lambda>_. Inr \<lparr>rsp_status = 401, rsp_statusText = ''Unauthorized'', rsp_json = None\<rparr>)
        ''/api/me'' no_init example_client) = Inl (Api_error m 401 ''Unauthorized'' None) \<and> m \<noteq> []"
proof -
  let ?net = "\<lambda>_. Inr \<lparr>rsp_status = 401, rsp_statusText = ''Unauthorized'', rsp_json = None\<rparr>"
  obtain m where m: "fst (api_fetch example_browser ?net ''/api/me'' no_init example_client)
      = Inl (Api_error m 401 ''Unauthorized'' None)"
    by (simp add: fetch_result rsp_ok_def parseErrorBody_def)
  then show ?thesis
    using fetch_outcome [of example_browser ?net "''/api/me''" no_init example_client example_browser "''/api/me''" no_init] m
    by blast
qed



end
