(* ===== verification/Api_Issues.thy ===== *)
theory Api_Issues
  imports Api_Client
begin

text \<open>
  The endpoints of issues, comments, reactions and subscribers (\<open>packages/core/api/client.ts\<close>): for
  each method its path, method, query and body, and how its answer is decoded.  The request objects a
  caller passes whole are JSON values; a schema of \<open>api/schemas.ts\<close> and its fallback are arguments,
  named as in the code.  \<open>num\<close> prints the numbers of a JSON text.
\<close>

section \<open>Queries\<close>

text \<open>\<open>if (v) search.set(k, \<dots>)\<close>, for a text, a number, a flag, a list and a dictionary.\<close>

definition text_param :: "string option \<Rightarrow> string option" where
  "text_param v = (if falsy v then None else v)"

definition int_param :: "int option \<Rightarrow> string option" where
  "int_param v = (case v of None \<Rightarrow> None | Some n \<Rightarrow> if n = 0 then None else Some (js_int_string n))"

definition flag_param :: "bool option \<Rightarrow> string option" where
  "flag_param v = (if v = Some True then Some ''true'' else None)"

definition list_param :: "string list option \<Rightarrow> string option" where
  "list_param v = (case v of None \<Rightarrow> None | Some xs \<Rightarrow> if xs = [] then None else Some (comma_join xs))"

definition dict_param :: "(rat \<Rightarrow> string) \<Rightarrow> json js_object option \<Rightarrow> string option" where
  "dict_param num v = (case v of None \<Rightarrow> None | Some ob \<Rightarrow> if ob = [] then None else Some (json_text num (JObj ob)))"

text \<open>The pairs of a sequence of such statements, in their order.\<close>

definition set_params :: "(string \<times> string option) list \<Rightarrow> (string \<times> string) list \<Rightarrow> (string \<times> string) list" where
  "set_params entries search =
     fold (\<lambda>(k, v) ps. case v of None \<Rightarrow> ps | Some s \<Rightarrow> query_set k s ps) entries search"

record list_issues_params =
  lip_limit :: "int option"
  lip_offset :: "int option"
  lip_workspace_id :: "string option"
  lip_status :: "string option"
  lip_priority :: "string option"
  lip_assignee_id :: "string option"
  lip_assignee_ids :: "string list option"
  lip_assignee_types :: "string list option"
  lip_creator_id :: "string option"
  lip_project_id :: "string option"
  lip_involves_user_id :: "string option"
  lip_metadata :: "json js_object option"
  lip_properties :: "json js_object option"
  lip_open_only :: "bool option"
  lip_scheduled :: "bool option"
  lip_date_field :: "string option"
  lip_date_start :: "string option"
  lip_date_end :: "string option"
  lip_sort_by :: "string option"
  lip_sort_direction :: "string option"

definition listIssues_fields :: "(rat \<Rightarrow> string) \<Rightarrow> list_issues_params \<Rightarrow> (string \<times> string option) list" where
  "listIssues_fields num p =
     [(''limit'', int_param (lip_limit p)), (''offset'', int_param (lip_offset p)),
      (''workspace_id'', text_param (lip_workspace_id p)), (''status'', text_param (lip_status p)),
      (''priority'', text_param (lip_priority p)), (''assignee_id'', text_param (lip_assignee_id p)),
      (''assignee_ids'', list_param (lip_assignee_ids p)), (''assignee_types'', list_param (lip_assignee_types p)),
      (''creator_id'', text_param (lip_creator_id p)), (''project_id'', text_param (lip_project_id p)),
      (''involves_user_id'', text_param (lip_involves_user_id p)), (''metadata'', dict_param num (lip_metadata p)),
      (''properties'', dict_param num (lip_properties p)), (''open_only'', flag_param (lip_open_only p)),
      (''scheduled'', flag_param (lip_scheduled p)), (''date_field'', text_param (lip_date_field p)),
      (''date_start'', text_param (lip_date_start p)), (''date_end'', text_param (lip_date_end p)),
      (''sort'', text_param (lip_sort_by p)), (''direction'', text_param (lip_sort_direction p))]"

definition listIssues_path :: "(rat \<Rightarrow> string) \<Rightarrow> list_issues_params \<Rightarrow> string" where
  "listIssues_path num p = ''/api/issues?'' @ form_pairs (set_params (listIssues_fields num p) [])"

definition listIssues ::
  "browser \<Rightarrow> network \<Rightarrow> (rat \<Rightarrow> string) \<Rightarrow> (json option \<Rightarrow> 'a option) \<Rightarrow> 'a \<Rightarrow> list_issues_params \<Rightarrow> api_client \<Rightarrow> 'a call" where
  "listIssues b net num ListIssuesResponseSchema EMPTY_LIST_ISSUES_RESPONSE params cl =
     fetch_parsed b net (listIssues_path num params) no_init ListIssuesResponseSchema EMPTY_LIST_ISSUES_RESPONSE
       ''GET /api/issues'' cl"

record actor_ref =
  acr_type :: string
  acr_id :: string

definition actor_text :: "actor_ref \<Rightarrow> string" where
  "actor_text f = acr_type f @ '':'' @ acr_id f"

record grouped_params =
  gip_group_by :: string
  gip_limit :: "int option"
  gip_offset :: "int option"
  gip_workspace_id :: "string option"
  gip_statuses :: "string list option"
  gip_priorities :: "string list option"
  gip_assignee_types :: "string list option"
  gip_assignee_id :: "string option"
  gip_assignee_ids :: "string list option"
  gip_creator_id :: "string option"
  gip_project_id :: "string option"
  gip_involves_user_id :: "string option"
  gip_metadata :: "json js_object option"
  gip_properties :: "json js_object option"
  gip_assignee_filters :: "actor_ref list option"
  gip_include_no_assignee :: "bool option"
  gip_creator_filters :: "actor_ref list option"
  gip_project_ids :: "string list option"
  gip_include_no_project :: "bool option"
  gip_label_ids :: "string list option"
  gip_group_assignee_type :: "string option"
  gip_group_assignee_id :: "string option"
  gip_date_field :: "string option"
  gip_date_start :: "string option"
  gip_date_end :: "string option"
  gip_sort_by :: "string option"
  gip_sort_direction :: "string option"

definition grouped_fields :: "(rat \<Rightarrow> string) \<Rightarrow> grouped_params \<Rightarrow> (string \<times> string option) list" where
  "grouped_fields num p =
     [(''limit'', int_param (gip_limit p)), (''offset'', int_param (gip_offset p)),
      (''workspace_id'', text_param (gip_workspace_id p)), (''statuses'', list_param (gip_statuses p)),
      (''priorities'', list_param (gip_priorities p)), (''assignee_types'', list_param (gip_assignee_types p)),
      (''assignee_id'', text_param (gip_assignee_id p)), (''assignee_ids'', list_param (gip_assignee_ids p)),
      (''creator_id'', text_param (gip_creator_id p)), (''project_id'', text_param (gip_project_id p)),
      (''involves_user_id'', text_param (gip_involves_user_id p)), (''metadata'', dict_param num (gip_metadata p)),
      (''properties'', dict_param num (gip_properties p)),
      (''assignee_filters'', list_param (map_option (map actor_text) (gip_assignee_filters p))),
      (''include_no_assignee'', flag_param (gip_include_no_assignee p)),
      (''creator_filters'', list_param (map_option (map actor_text) (gip_creator_filters p))),
      (''project_ids'', list_param (gip_project_ids p)), (''include_no_project'', flag_param (gip_include_no_project p)),
      (''label_ids'', list_param (gip_label_ids p)),
      (''group_assignee_type'', text_param (gip_group_assignee_type p)),
      (''group_assignee_id'', text_param (gip_group_assignee_id p)), (''date_field'', text_param (gip_date_field p)),
      (''date_start'', text_param (gip_date_start p)), (''date_end'', text_param (gip_date_end p)),
      (''sort'', text_param (gip_sort_by p)), (''direction'', text_param (gip_sort_direction p))]"

definition listGroupedIssues_path :: "(rat \<Rightarrow> string) \<Rightarrow> grouped_params \<Rightarrow> string" where
  "listGroupedIssues_path num p =
     ''/api/issues/grouped?'' @ form_pairs (set_params (grouped_fields num p) [(''group_by'', gip_group_by p)])"

definition listGroupedIssues ::
  "browser \<Rightarrow> network \<Rightarrow> (rat \<Rightarrow> string) \<Rightarrow> (json option \<Rightarrow> 'a option) \<Rightarrow> 'a \<Rightarrow> grouped_params \<Rightarrow> api_client \<Rightarrow> 'a call" where
  "listGroupedIssues b net num GroupedIssuesResponseSchema EMPTY_GROUPED_ISSUES_RESPONSE params cl =
     fetch_parsed b net (listGroupedIssues_path num params) no_init GroupedIssuesResponseSchema
       EMPTY_GROUPED_ISSUES_RESPONSE ''GET /api/issues/grouped'' cl"

text \<open>\<open>if (v !== undefined)\<close>: a limit of zero is sent.\<close>

definition search_fields :: "int option \<Rightarrow> int option \<Rightarrow> bool option \<Rightarrow> (string \<times> string option) list" where
  "search_fields limit offset include_closed =
     [(''limit'', map_option js_int_string limit), (''offset'', map_option js_int_string offset),
      (''include_closed'', flag_param include_closed)]"

definition search_path :: "string \<Rightarrow> string \<Rightarrow> int option \<Rightarrow> int option \<Rightarrow> bool option \<Rightarrow> string" where
  "search_path base q limit offset include_closed =
     base @ ''?'' @ form_pairs (set_params (search_fields limit offset include_closed) [(''q'', q)])"

definition searchIssues ::
  "browser \<Rightarrow> network \<Rightarrow> (json option \<Rightarrow> 'a option) \<Rightarrow> 'a \<Rightarrow> string \<Rightarrow> int option \<Rightarrow> int option \<Rightarrow> bool option
   \<Rightarrow> api_client \<Rightarrow> 'a call" where
  "searchIssues b net SearchIssuesResponseSchema EMPTY_SEARCH_ISSUES_RESPONSE q limit offset include_closed cl =
     fetch_parsed b net (search_path ''/api/issues/search'' q limit offset include_closed) no_init
       SearchIssuesResponseSchema EMPTY_SEARCH_ISSUES_RESPONSE ''GET /api/issues/search'' cl"

definition searchProjects ::
  "browser \<Rightarrow> network \<Rightarrow> (json option \<Rightarrow> 'a option) \<Rightarrow> 'a \<Rightarrow> string \<Rightarrow> int option \<Rightarrow> int option \<Rightarrow> bool option
   \<Rightarrow> api_client \<Rightarrow> 'a call" where
  "searchProjects b net SearchProjectsResponseSchema EMPTY_SEARCH_PROJECTS_RESPONSE q limit offset include_closed cl =
     fetch_parsed b net (search_path ''/api/projects/search'' q limit offset include_closed) no_init
       SearchProjectsResponseSchema EMPTY_SEARCH_PROJECTS_RESPONSE ''GET /api/projects/search'' cl"

section \<open>Bodies\<close>

text \<open>\<open>{ method, body: JSON.stringify(...) }\<close>, and a method without a body.\<close>

definition json_init :: "(rat \<Rightarrow> string) \<Rightarrow> string \<Rightarrow> json \<Rightarrow> request_init" where
  "json_init num verb body = no_init\<lparr>ini_method := Some verb, ini_body := Some (json_text num body)\<rparr>"

definition bare_init :: "string \<Rightarrow> request_init" where
  "bare_init verb = no_init\<lparr>ini_method := Some verb\<rparr>"

text \<open>An object literal whose optional members are spread in or left out.\<close>

definition members :: "(string \<times> json option) list \<Rightarrow> json" where
  "members entries = JObj (map (\<lambda>(k, v). (k, the v)) (filter (\<lambda>(k, v). v \<noteq> None) entries))"

definition opt_text :: "string option \<Rightarrow> json option" where
  "opt_text v = (if falsy v then None else Some (JStr (the v)))"

definition texts :: "string list \<Rightarrow> json" where
  "texts xs = JArr (map JStr xs)"

definition opt_texts :: "string list option \<Rightarrow> json option" where
  "opt_texts v = (case v of None \<Rightarrow> None | Some xs \<Rightarrow> if xs = [] then None else Some (texts xs))"

section \<open>Issues\<close>

definition getIssue ::
  "browser \<Rightarrow> network \<Rightarrow> (json option \<Rightarrow> 'a option) \<Rightarrow> 'a \<Rightarrow> string \<Rightarrow> api_client \<Rightarrow> 'a call" where
  "getIssue b net IssueSchema EMPTY_ISSUE i cl =
     fetch_parsed b net (''/api/issues/'' @ i) no_init IssueSchema EMPTY_ISSUE ''GET /api/issues/:id'' cl"

definition createIssue ::
  "browser \<Rightarrow> network \<Rightarrow> (rat \<Rightarrow> string) \<Rightarrow> (json option \<Rightarrow> 'a option) \<Rightarrow> 'a \<Rightarrow> json \<Rightarrow> api_client \<Rightarrow> 'a call" where
  "createIssue b net num IssueSchema EMPTY_ISSUE body cl =
     fetch_parsed b net ''/api/issues'' (json_init num ''POST'' body) IssueSchema EMPTY_ISSUE ''POST /api/issues'' cl"

definition quickCreateIssue :: "browser \<Rightarrow> network \<Rightarrow> (rat \<Rightarrow> string) \<Rightarrow> json \<Rightarrow> api_client \<Rightarrow> json option call" where
  "quickCreateIssue b net num body cl =
     api_fetch b net ''/api/issues/quick-create'' (json_init num ''POST'' body) cl"

definition updateIssue ::
  "browser \<Rightarrow> network \<Rightarrow> (rat \<Rightarrow> string) \<Rightarrow> (json option \<Rightarrow> 'a option) \<Rightarrow> 'a \<Rightarrow> string \<Rightarrow> json \<Rightarrow> api_client \<Rightarrow> 'a call" where
  "updateIssue b net num IssueSchema EMPTY_ISSUE i body cl =
     fetch_parsed b net (''/api/issues/'' @ i) (json_init num ''PUT'' body) IssueSchema EMPTY_ISSUE
       ''PUT /api/issues/:id'' cl"

definition listChildIssues ::
  "browser \<Rightarrow> network \<Rightarrow> (json option \<Rightarrow> 'a option) \<Rightarrow> 'a \<Rightarrow> string \<Rightarrow> api_client \<Rightarrow> 'a call" where
  "listChildIssues b net ChildIssuesResponseSchema no_issues i cl =
     fetch_parsed b net (''/api/issues/'' @ i @ ''/children'') no_init ChildIssuesResponseSchema no_issues
       ''GET /api/issues/:id/children'' cl"

definition listChildrenByParents ::
  "browser \<Rightarrow> network \<Rightarrow> (json option \<Rightarrow> 'a option) \<Rightarrow> 'a \<Rightarrow> string list \<Rightarrow> api_client \<Rightarrow> 'a call" where
  "listChildrenByParents b net ChildIssuesResponseSchema no_issues parentIds cl =
     fetch_parsed b net (''/api/issues/children?parent_ids='' @ comma_join parentIds) no_init
       ChildIssuesResponseSchema no_issues ''GET /api/issues/children'' cl"

definition getChildIssueProgress :: "browser \<Rightarrow> network \<Rightarrow> api_client \<Rightarrow> json option call" where
  "getChildIssueProgress b net cl = api_fetch b net ''/api/issues/child-progress'' no_init cl"

definition deleteIssue :: "browser \<Rightarrow> network \<Rightarrow> string \<Rightarrow> api_client \<Rightarrow> unit call" where
  "deleteIssue b net i cl = fetch_void b net (''/api/issues/'' @ i) (bare_init ''DELETE'') cl"

definition batchUpdateIssues ::
  "browser \<Rightarrow> network \<Rightarrow> (rat \<Rightarrow> string) \<Rightarrow> string list \<Rightarrow> json \<Rightarrow> api_client \<Rightarrow> json option call" where
  "batchUpdateIssues b net num issueIds updates cl =
     api_fetch b net ''/api/issues/batch-update''
       (json_init num ''POST'' (JObj [(''issue_ids'', texts issueIds), (''updates'', updates)])) cl"

definition batchDeleteIssues ::
  "browser \<Rightarrow> network \<Rightarrow> (rat \<Rightarrow> string) \<Rightarrow> string list \<Rightarrow> api_client \<Rightarrow> json option call" where
  "batchDeleteIssues b net num issueIds cl =
     api_fetch b net ''/api/issues/batch-delete'' (json_init num ''POST'' (JObj [(''issue_ids'', texts issueIds)])) cl"

record trigger_params =
  trp_issueIds :: "string list option"
  trp_isCreate :: "bool option"
  trp_assigneeType :: "string option"
  trp_assigneeId :: "string option"
  trp_status :: "string option"

definition previewIssueTrigger ::
  "browser \<Rightarrow> network \<Rightarrow> (rat \<Rightarrow> string) \<Rightarrow> (json option \<Rightarrow> 'a option) \<Rightarrow> 'a \<Rightarrow> trigger_params \<Rightarrow> api_client \<Rightarrow> 'a call" where
  "previewIssueTrigger b net num IssueTriggerPreviewSchema no_triggers p cl =
     fetch_parsed b net ''/api/issues/preview-trigger''
       (json_init num ''POST'' (members
          [(''issue_ids'', opt_texts (trp_issueIds p)),
           (''is_create'', if trp_isCreate p = Some True then Some (JBool True) else None),
           (''assignee_type'', opt_text (trp_assigneeType p)), (''assignee_id'', opt_text (trp_assigneeId p)),
           (''status'', opt_text (trp_status p))]))
       IssueTriggerPreviewSchema no_triggers ''POST /api/issues/preview-trigger'' cl"

section \<open>Comments\<close>

definition listComments ::
  "browser \<Rightarrow> network \<Rightarrow> (json option \<Rightarrow> 'a option) \<Rightarrow> 'a \<Rightarrow> string \<Rightarrow> api_client \<Rightarrow> 'a call" where
  "listComments b net CommentsListSchema no_comments issueId cl =
     fetch_parsed b net (''/api/issues/'' @ issueId @ ''/comments'') no_init CommentsListSchema no_comments
       ''GET /api/issues/:id/comments'' cl"

definition createComment ::
  "browser \<Rightarrow> network \<Rightarrow> (rat \<Rightarrow> string) \<Rightarrow> string \<Rightarrow> string \<Rightarrow> string option \<Rightarrow> string option \<Rightarrow> string list option
   \<Rightarrow> string list option \<Rightarrow> api_client \<Rightarrow> json option call" where
  "createComment b net num issueId content type parentId attachmentIds suppressAgentIds cl =
     api_fetch b net (''/api/issues/'' @ issueId @ ''/comments'')
       (json_init num ''POST'' (members
          [(''content'', Some (JStr content)),
           (''type'', Some (JStr (case type of None \<Rightarrow> ''comment'' | Some t \<Rightarrow> t))),
           (''parent_id'', opt_text parentId), (''attachment_ids'', opt_texts attachmentIds),
           (''suppress_agent_ids'', opt_texts suppressAgentIds)])) cl"

definition previewCommentTriggers ::
  "browser \<Rightarrow> network \<Rightarrow> (rat \<Rightarrow> string) \<Rightarrow> (json option \<Rightarrow> 'a option) \<Rightarrow> 'a \<Rightarrow> string \<Rightarrow> string \<Rightarrow> string option
   \<Rightarrow> string option \<Rightarrow> api_client \<Rightarrow> 'a call" where
  "previewCommentTriggers b net num CommentTriggerPreviewSchema no_agents issueId content parentId editingCommentId cl =
     fetch_parsed b net (''/api/issues/'' @ issueId @ ''/comments/trigger-preview'')
       (json_init num ''POST'' (members
          [(''content'', Some (JStr content)), (''parent_id'', opt_text parentId),
           (''editing_comment_id'', opt_text editingCommentId)]))
       CommentTriggerPreviewSchema no_agents ''POST /api/issues/:id/comments/trigger-preview'' cl"

definition listTimeline ::
  "browser \<Rightarrow> network \<Rightarrow> (json option \<Rightarrow> 'a option) \<Rightarrow> 'a \<Rightarrow> string \<Rightarrow> api_client \<Rightarrow> 'a call" where
  "listTimeline b net TimelineEntriesSchema EMPTY_TIMELINE_ENTRIES issueId cl =
     fetch_parsed b net (''/api/issues/'' @ issueId @ ''/timeline'') no_init TimelineEntriesSchema
       EMPTY_TIMELINE_ENTRIES ''GET /api/issues/:id/timeline'' cl"

definition getAssigneeFrequency :: "browser \<Rightarrow> network \<Rightarrow> api_client \<Rightarrow> json option call" where
  "getAssigneeFrequency b net cl = api_fetch b net ''/api/assignee-frequency'' no_init cl"

text \<open>\<open>attachment_ids: undefined\<close> is left out of the text.\<close>

definition updateComment ::
  "browser \<Rightarrow> network \<Rightarrow> (rat \<Rightarrow> string) \<Rightarrow> string \<Rightarrow> string \<Rightarrow> string list option \<Rightarrow> string list option
   \<Rightarrow> api_client \<Rightarrow> json option call" where
  "updateComment b net num commentId content attachmentIds suppressAgentIds cl =
     api_fetch b net (''/api/comments/'' @ commentId)
       (json_init num ''PUT'' (members
          [(''content'', Some (JStr content)), (''attachment_ids'', map_option texts attachmentIds),
           (''suppress_agent_ids'', opt_texts suppressAgentIds)])) cl"

definition deleteComment :: "browser \<Rightarrow> network \<Rightarrow> string \<Rightarrow> api_client \<Rightarrow> unit call" where
  "deleteComment b net commentId cl = fetch_void b net (''/api/comments/'' @ commentId) (bare_init ''DELETE'') cl"

definition resolveComment :: "browser \<Rightarrow> network \<Rightarrow> string \<Rightarrow> api_client \<Rightarrow> json option call" where
  "resolveComment b net commentId cl =
     api_fetch b net (''/api/comments/'' @ commentId @ ''/resolve'') (bare_init ''POST'') cl"

definition unresolveComment :: "browser \<Rightarrow> network \<Rightarrow> string \<Rightarrow> api_client \<Rightarrow> json option call" where
  "unresolveComment b net commentId cl =
     api_fetch b net (''/api/comments/'' @ commentId @ ''/resolve'') (bare_init ''DELETE'') cl"

section \<open>Reactions and subscribers\<close>

definition emoji_init :: "(rat \<Rightarrow> string) \<Rightarrow> string \<Rightarrow> string \<Rightarrow> request_init" where
  "emoji_init num verb emoji = json_init num verb (JObj [(''emoji'', JStr emoji)])"

definition addReaction :: "browser \<Rightarrow> network \<Rightarrow> (rat \<Rightarrow> string) \<Rightarrow> string \<Rightarrow> string \<Rightarrow> api_client \<Rightarrow> json option call" where
  "addReaction b net num commentId emoji cl =
     api_fetch b net (''/api/comments/'' @ commentId @ ''/reactions'') (emoji_init num ''POST'' emoji) cl"

definition removeReaction :: "browser \<Rightarrow> network \<Rightarrow> (rat \<Rightarrow> string) \<Rightarrow> string \<Rightarrow> string \<Rightarrow> api_client \<Rightarrow> unit call" where
  "removeReaction b net num commentId emoji cl =
     fetch_void b net (''/api/comments/'' @ commentId @ ''/reactions'') (emoji_init num ''DELETE'' emoji) cl"

definition addIssueReaction :: "browser \<Rightarrow> network \<Rightarrow> (rat \<Rightarrow> string) \<Rightarrow> string \<Rightarrow> string \<Rightarrow> api_client \<Rightarrow> json option call" where
  "addIssueReaction b net num issueId emoji cl =
     api_fetch b net (''/api/issues/'' @ issueId @ ''/reactions'') (emoji_init num ''POST'' emoji) cl"

definition removeIssueReaction :: "browser \<Rightarrow> network \<Rightarrow> (rat \<Rightarrow> string) \<Rightarrow> string \<Rightarrow> string \<Rightarrow> api_client \<Rightarrow> unit call" where
  "removeIssueReaction b net num issueId emoji cl =
     fetch_void b net (''/api/issues/'' @ issueId @ ''/reactions'') (emoji_init num ''DELETE'' emoji) cl"

definition listIssueSubscribers ::
  "browser \<Rightarrow> network \<Rightarrow> (json option \<Rightarrow> 'a option) \<Rightarrow> 'a \<Rightarrow> string \<Rightarrow> api_client \<Rightarrow> 'a call" where
  "listIssueSubscribers b net SubscribersListSchema no_subscribers issueId cl =
     fetch_parsed b net (''/api/issues/'' @ issueId @ ''/subscribers'') no_init SubscribersListSchema no_subscribers
       ''GET /api/issues/:id/subscribers'' cl"

definition subscriber_body :: "string option \<Rightarrow> string option \<Rightarrow> json" where
  "subscriber_body userId userType = members [(''user_id'', opt_text userId), (''user_type'', opt_text userType)]"

definition subscribeToIssue ::
  "browser \<Rightarrow> network \<Rightarrow> (rat \<Rightarrow> string) \<Rightarrow> string \<Rightarrow> string option \<Rightarrow> string option \<Rightarrow> api_client \<Rightarrow> unit call" where
  "subscribeToIssue b net num issueId userId userType cl =
     fetch_void b net (''/api/issues/'' @ issueId @ ''/subscribe'')
       (json_init num ''POST'' (subscriber_body userId userType)) cl"

definition unsubscribeFromIssue ::
  "browser \<Rightarrow> network \<Rightarrow> (rat \<Rightarrow> string) \<Rightarrow> string \<Rightarrow> string option \<Rightarrow> string option \<Rightarrow> api_client \<Rightarrow> unit call" where
  "unsubscribeFromIssue b net num issueId userId userType cl =
     fetch_void b net (''/api/issues/'' @ issueId @ ''/unsubscribe'')
       (json_init num ''POST'' (subscriber_body userId userType)) cl"

section \<open>What the server reads\<close>

definition present :: "(string \<times> string option) list \<Rightarrow> (string \<times> string) list" where
  "present entries = map (\<lambda>(k, v). (k, the v)) (filter (\<lambda>(k, v). v \<noteq> None) entries)"

lemma set_params_present:
  assumes "distinct (map fst entries)" "fst ` set search \<inter> fst ` set entries = {}"
  shows "set_params entries search = search @ present entries"
  using assms
proof (induction entries arbitrary: search)
  case (Cons e entries)
  obtain k v where e: "e = (k, v)" by (cases e)
  show ?case
  proof (cases v)
    case None
    then show ?thesis using Cons by (simp add: set_params_def present_def e)
  next
    case (Some s)
    have "set_params (e # entries) search = set_params entries (search @ [(k, s)])"
      using Cons.prems by (simp add: set_params_def e Some query_set_new)
    also have "\<dots> = (search @ [(k, s)]) @ present entries"
      using Cons.prems by (intro Cons.IH) (auto simp: e)
    finally show ?thesis by (simp add: present_def e Some)
  qed
qed (simp add: set_params_def present_def)


end
