(* ===== verification/Js_Number.thy ===== *)
theory Js_Number
  imports Js_Date
begin

text \<open>
  Numbers that may be \<open>NaN\<close> or infinite: \<open>Number(s)\<close> of a string, the comparisons, \<open>Math.round\<close> and
  \<open>toFixed\<close>.  A finite number is an exact rational; the rounding of floating point is not modelled.
\<close>

datatype jnum = NaN | Infinite bool | Fin rat

section \<open>\<open>Number(s)\<close>\<close>

definition digits_of :: "string \<Rightarrow> string \<times> string" where
  "digits_of s = (takeWhile is_digit s, dropWhile is_digit s)"

text \<open>The exponent part of a decimal literal, up to the end of the string.\<close>

fun exponent :: "string \<Rightarrow> int option" where
  "exponent [] = Some 0"
| "exponent (c # s) =
     (if c \<noteq> CHR ''e'' \<and> c \<noteq> CHR ''E'' then None
      else
        let (negative, ds) = (case s of
               [] \<Rightarrow> (False, [])
             | d # t \<Rightarrow> if d = CHR ''-'' then (True, t) else if d = CHR ''+'' then (False, t) else (False, s))
        in if ds = [] \<or> \<not> list_all is_digit ds then None else Some (if negative then - num ds else num ds))"

definition decimal_literal :: "string \<Rightarrow> jnum" where
  "decimal_literal s =
     (let (whole, r) = digits_of s;
          (fraction, r') = (case r of [] \<Rightarrow> ([], []) | c # t \<Rightarrow> if c = CHR ''.'' then digits_of t else ([], r))
      in if whole = [] \<and> fraction = [] then NaN
         else (case exponent r' of
                 None \<Rightarrow> NaN
               | Some e \<Rightarrow> Fin (of_int (num (whole @ fraction)) / 10 ^ length fraction
                                * (if 0 \<le> e then 10 ^ nat e else 1 / 10 ^ nat (- e)))))"

definition radix_digit :: "nat \<Rightarrow> char \<Rightarrow> nat option" where
  "radix_digit base c =
     (case find_index (\<lambda>d. d = lower c) (take base ''0123456789abcdef'') of None \<Rightarrow> None | Some i \<Rightarrow> Some i)"

fun radix_value :: "nat \<Rightarrow> nat \<Rightarrow> string \<Rightarrow> jnum" where
  "radix_value base acc [] = Fin (of_nat acc)"
| "radix_value base acc (c # s) =
     (case radix_digit base c of None \<Rightarrow> NaN | Some d \<Rightarrow> radix_value base (base * acc + d) s)"

fun radix_of :: "char \<Rightarrow> nat option" where
  "radix_of c = (if lower c = CHR ''x'' then Some 16 else if lower c = CHR ''o'' then Some 8
                 else if lower c = CHR ''b'' then Some 2 else None)"

fun negate :: "jnum \<Rightarrow> jnum" where
  "negate NaN = NaN"
| "negate (Infinite neg) = Infinite (\<not> neg)"
| "negate (Fin r) = Fin (- r)"

definition unsigned_literal :: "string \<Rightarrow> jnum" where
  "unsigned_literal s = (if s = ''Infinity'' then Infinite False else decimal_literal s)"

definition js_number :: "string \<Rightarrow> jnum" where
  "js_number s =
     (case js_trim s of
        [] \<Rightarrow> Fin 0
      | c # t \<Rightarrow>
          if c = CHR ''-'' then negate (unsigned_literal t)
          else if c = CHR ''+'' then unsigned_literal t
          else if c = CHR ''0'' \<and> length t \<ge> 2 \<and> radix_of (hd t) \<noteq> None
               then radix_value (the (radix_of (hd t))) 0 (tl t)
          else unsigned_literal (c # t))"

section \<open>Comparisons and rounding\<close>

fun jless :: "jnum \<Rightarrow> jnum \<Rightarrow> bool" where
  "jless NaN _ = False"
| "jless _ NaN = False"
| "jless (Infinite a) (Infinite b) = (a \<and> \<not> b)"
| "jless (Infinite a) (Fin r) = a"
| "jless (Fin r) (Infinite b) = (\<not> b)"
| "jless (Fin r) (Fin q) = (r < q)"

text \<open>The conversion of an argument to an integer, truncating towards zero.\<close>

definition trunc :: "rat \<Rightarrow> int" where
  "trunc r = (if 0 \<le> r then \<lfloor>r\<rfloor> else \<lceil>r\<rceil>)"

definition js_round :: "rat \<Rightarrow> int" where
  "js_round r = \<lfloor>r + 1 / 2\<rfloor>"

text \<open>\<open>n.toFixed(1)\<close> of a number that is not negative.\<close>

definition to_fixed_1 :: "rat \<Rightarrow> string" where
  "to_fixed_1 n =
     (let tenths = js_round (n * 10) in js_int_string (tenths div 10) @ ''.'' @ js_int_string (tenths mod 10))"

section \<open>Reading decimal digits\<close>

lemma white_digit: "is_digit c \<Longrightarrow> \<not> white c"
  by (auto simp: is_digit_def white_def)

lemma dropWhile_id: "(\<And>c. c \<in> set s \<Longrightarrow> \<not> p c) \<Longrightarrow> dropWhile p s = s"
  by (cases s) auto

lemma js_trim_id:
  assumes "\<And>c. c \<in> set s \<Longrightarrow> \<not> white c"
  shows "js_trim s = s"
proof -
  have "dropWhile white s = s" "dropWhile white (rev s) = rev s" using assms by (auto intro: dropWhile_id)
  then show ?thesis by (simp add: js_trim_def)
qed

lemma js_trim_digits: "list_all is_digit s \<Longrightarrow> js_trim s = s"
  by (rule js_trim_id) (auto simp: list_all_iff white_digit)

lemma digit_not_sign: "is_digit c \<Longrightarrow> c \<noteq> CHR ''-'' \<and> c \<noteq> CHR ''+'' \<and> radix_of c = None \<and> c \<noteq> CHR ''I''"
  by (auto simp: is_digit_def lower_def)

lemma js_number_digits:
  assumes "list_all is_digit s" "s \<noteq> []"
  shows "js_number s = Fin (of_int (num s))"
proof -
  obtain c t where s: "s = c # t" using assms(2) by (cases s) auto
  have c: "is_digit c" and t: "list_all is_digit t" using assms(1) s by auto
  have radix: "\<not> (c = CHR ''0'' \<and> length t \<ge> 2 \<and> radix_of (hd t) \<noteq> None)"
    using t by (cases t) (auto simp del: radix_of.simps dest: digit_not_sign)
  have spans: "takeWhile is_digit s = s" "dropWhile is_digit s = []"
    using assms(1) by (auto simp: list_all_iff takeWhile_eq_all_conv)
  have "decimal_literal s = Fin (of_int (num s))"
    using assms(2) by (simp add: decimal_literal_def digits_of_def spans)
  moreover have "s \<noteq> ''Infinity''" using c s digit_not_sign by blast
  ultimately have "unsigned_literal s = Fin (of_int (num s))" by (simp add: unsigned_literal_def)
  then show ?thesis
    using digit_not_sign [OF c] radix
    using js_trim_digits [OF assms(1)] by (auto simp: js_number_def s simp del: radix_of.simps)
qed

lemma js_number_examples:
  "js_number '''' = Fin 0" "js_number '' 12 '' = Fin 12" "js_number ''17-gabc'' = NaN"
  "js_number ''0x1F'' = Fin 31" "js_number ''-1.5e2'' = Fin (-150)" "js_number ''Infinity'' = Infinite False"
  by code_simp+

lemma js_round_int [simp]: "js_round (of_int n) = n"
  by (simp add: js_round_def floor_eq_iff)

end
