(* ===== verification/Cli_Version.thy ===== *)
theory Cli_Version
  imports Js_Number Js_Json
begin

text \<open>
  Versions of the command line tool: the gates of \<open>packages/core/runtimes/cli-version.ts\<close> on what a
  daemon reports, and the comparison \<open>isVersionNewer\<close> of \<open>packages/views/runtimes/utils.ts\<close>.  The
  regular expressions of the code are written as the readers they amount to.
\<close>

section \<open>Reading a version\<close>

text \<open>\<open>v?\<close> and a run of digits followed by a dot; a shorter run of digits is never followed by one.\<close>

definition strip_v :: "string \<Rightarrow> string" where
  "strip_v s = (case s of [] \<Rightarrow> [] | c # t \<Rightarrow> if c = CHR ''v'' then t else s)"

definition digit_run :: "string \<Rightarrow> (int \<times> string) option" where
  "digit_run s = (case digits_of s of (ds, r) \<Rightarrow> if ds = [] then None else Some (num ds, r))"

text \<open>A match of \<open>v?(\d+)\.(\d+)\.(\d+)\<close> at the start of the string, with the rest.\<close>

definition semver_at :: "string \<Rightarrow> ((int \<times> int \<times> int) \<times> string) option" where
  "semver_at s = do {
     (a, s) \<leftarrow> digit_run (strip_v s);
     s \<leftarrow> expect CHR ''.'' s;
     (b, s) \<leftarrow> digit_run s;
     s \<leftarrow> expect CHR ''.'' s;
     (c, s) \<leftarrow> digit_run s;
     Some ((a, b, c), s)
   }"

text \<open>The expression is not anchored: the leftmost match counts.\<close>

fun semver_search :: "string \<Rightarrow> (int \<times> int \<times> int) option" where
  "semver_search [] = None"
| "semver_search (c # s) =
     (case semver_at (c # s) of Some (v, _) \<Rightarrow> Some v | None \<Rightarrow> semver_search s)"

definition parseSemver :: "string \<Rightarrow> (int \<times> int \<times> int) option" where
  "parseSemver raw = semver_search (js_trim raw)"

definition describe_digit :: "char \<Rightarrow> bool" where
  "describe_digit c \<longleftrightarrow> c \<in> set ''0123456789abcdefABCDEF''"

text \<open>\<open>DEV_DESCRIBE_RE.test(s)\<close>: anchored at the start only.\<close>

definition dev_describe :: "string \<Rightarrow> bool" where
  "dev_describe s = (do {
     (_, s) \<leftarrow> semver_at s;
     s \<leftarrow> expect CHR ''-'' s;
     (_, s) \<leftarrow> digit_run s;
     s \<leftarrow> expect CHR ''-'' s;
     s \<leftarrow> expect CHR ''g'' s;
     (case s of [] \<Rightarrow> None | c # _ \<Rightarrow> if describe_digit c then Some () else None)
   } \<noteq> None)"

fun lessThan :: "int \<times> int \<times> int \<Rightarrow> int \<times> int \<times> int \<Rightarrow> bool" where
  "lessThan (a0, a1, a2) (b0, b1, b2) =
     (if a0 \<noteq> b0 then a0 < b0 else if a1 \<noteq> b1 then a1 < b1 else a2 < b2)"

section \<open>The gates\<close>

definition MIN_QUICK_CREATE_CLI_VERSION :: string where
  "MIN_QUICK_CREATE_CLI_VERSION = ''0.2.21''"

definition MIN_HANDOFF_CLI_VERSION :: string where
  "MIN_HANDOFF_CLI_VERSION = ''0.3.28''"

datatype cli_version_state = Cli_ok | Cli_too_old | Cli_missing

record cli_version_check =
  clc_state :: cli_version_state
  clc_current :: string
  clc_min :: string

definition checkQuickCreateCliVersion :: "string option \<Rightarrow> cli_version_check" where
  "checkQuickCreateCliVersion detected =
     (let current = js_trim (case detected of None \<Rightarrow> [] | Some s \<Rightarrow> s);
          answer = (\<lambda>st. \<lparr>clc_state = st, clc_current = current, clc_min = MIN_QUICK_CREATE_CLI_VERSION\<rparr>)
      in if dev_describe current then answer Cli_ok
         else (case (if current = [] then None else parseSemver current) of
                 None \<Rightarrow> answer Cli_missing
               | Some parsed \<Rightarrow>
                   if lessThan parsed (the (parseSemver MIN_QUICK_CREATE_CLI_VERSION))
                   then answer Cli_too_old else answer Cli_ok))"

definition readRuntimeCliVersion :: "json option \<Rightarrow> string" where
  "readRuntimeCliVersion metadata =
     (case Option.bind metadata (obj_get ''cli_version'') of Some (JStr s) \<Rightarrow> s | _ \<Rightarrow> [])"

definition handoffSupported :: "string option \<Rightarrow> bool" where
  "handoffSupported detected =
     (let current = js_trim (case detected of None \<Rightarrow> [] | Some s \<Rightarrow> s)
      in if current = [] then False
         else if dev_describe current then True
         else (case parseSemver current of
                 None \<Rightarrow> False
               | Some parsed \<Rightarrow> \<not> lessThan parsed (the (parseSemver MIN_HANDOFF_CLI_VERSION))))"

section \<open>Newer versions\<close>

definition stripVersionPrefix :: "string \<Rightarrow> string" where
  "stripVersionPrefix v = strip_v v"

text \<open>The loop over the segments; \<open>?? 0\<close> fills a missing segment, not one that is \<open>NaN\<close>.\<close>

fun newer_from :: "jnum list \<Rightarrow> jnum list \<Rightarrow> bool" where
  "newer_from [] [] = False"
| "newer_from (l # ls) [] = (if jless (Fin 0) l then True else if jless l (Fin 0) then False else newer_from ls [])"
| "newer_from [] (c # cs) = (if jless c (Fin 0) then True else if jless (Fin 0) c then False else newer_from [] cs)"
| "newer_from (l # ls) (c # cs) =
     (if jless c l then True else if jless l c then False else newer_from ls cs)"

definition isVersionNewer :: "string \<Rightarrow> string \<Rightarrow> bool" where
  "isVersionNewer latest current =
     newer_from (map js_number (js_split CHR ''.'' (stripVersionPrefix latest)))
       (map js_number (js_split CHR ''.'' (stripVersionPrefix current)))"

section \<open>Lemmas\<close>

lemma minimums: "parseSemver MIN_QUICK_CREATE_CLI_VERSION = Some (0, 2, 21)"
  "parseSemver MIN_HANDOFF_CLI_VERSION = Some (0, 3, 28)"
  by code_simp+

text \<open>A reader of digits stops at the first other character.\<close>

lemma digits_of_append:
  assumes "list_all is_digit ds" "r = [] \<or> \<not> is_digit (hd r)"
  shows "digits_of (ds @ r) = (ds, r)"
proof -
  have "takeWhile is_digit r = []" "dropWhile is_digit r = r" using assms(2) by (cases r; auto)+
  then show ?thesis
    using assms(1) by (simp add: digits_of_def takeWhile_append2 dropWhile_append2 list_all_iff)
qed

lemma nat_digits_nonempty [simp]: "nat_digits n \<noteq> []"
  by (subst nat_digits.simps) simp

lemma digit_run_nat:
  assumes "r = [] \<or> \<not> is_digit (hd r)"
  shows "digit_run (nat_digits n @ r) = Some (int n, r)"
  using digits_of_append [OF nat_digits_digits assms] by (simp add: digit_run_def num_nat_digits)

definition version_text :: "nat \<Rightarrow> nat \<Rightarrow> nat \<Rightarrow> string" where
  "version_text a b c = nat_digits a @ ''.'' @ nat_digits b @ ''.'' @ nat_digits c"

text \<open>The prefixes a version may carry.\<close>

definition version_prefix :: "string \<Rightarrow> bool" where
  "version_prefix p \<longleftrightarrow> p = [] \<or> p = ''v''"

lemma strip_v_digits: "strip_v (nat_digits n @ s) = nat_digits n @ s"
proof -
  obtain c t where "nat_digits n = c # t" by (cases "nat_digits n") auto
  with nat_digits_digits [of n] show ?thesis by (auto simp: strip_v_def is_digit_def)
qed

lemma not_digit_dot [simp]: "\<not> is_digit CHR ''.''" "\<not> is_digit CHR ''-''"
  by (simp_all add: is_digit_def)

lemma strip_v_text: "version_prefix p \<Longrightarrow> strip_v (p @ version_text a b c @ r) = version_text a b c @ r"
  using strip_v_digits [of a] by (cases "p = []") (auto simp: version_prefix_def version_text_def strip_v_def [of "_ # _"])

lemma semver_at_text:
  assumes "version_prefix p" "r = [] \<or> \<not> is_digit (hd r)"
  shows "semver_at (p @ version_text a b c @ r) = Some ((int a, int b, int c), r)"
  unfolding semver_at_def strip_v_text [OF assms(1)]
  using assms(2) by (simp add: version_text_def digit_run_nat)

lemma semver_search_text:
  assumes "version_prefix p" "r = [] \<or> \<not> is_digit (hd r)"
  shows "semver_search (p @ version_text a b c @ r) = Some (int a, int b, int c)"
proof -
  have "p @ version_text a b c @ r \<noteq> []" by (simp add: version_text_def)
  then obtain x t where "p @ version_text a b c @ r = x # t" by (meson neq_Nil_conv)
  then show ?thesis using semver_at_text [OF assms, of a b c] by simp
qed

lemma dev_describe_text:
  assumes "version_prefix p" "describe_digit h"
  shows "dev_describe (p @ version_text a b c @ ''-'' @ nat_digits n @ ''-g'' @ h # r)"
  using semver_at_text [OF assms(1), of "''-'' @ nat_digits n @ ''-g'' @ h # r" a b c] assms(2)
  by (simp add: dev_describe_def digit_run_nat)

lemma white_version:
  assumes "version_prefix p" "\<And>x. x \<in> set r \<Longrightarrow> \<not> white x"
  shows "js_trim (p @ version_text a b c @ r) = p @ version_text a b c @ r"
proof (rule js_trim_id)
  fix x assume "x \<in> set (p @ version_text a b c @ r)"
  then have "is_digit x \<or> x = CHR ''.'' \<or> x = CHR ''v'' \<or> x \<in> set r"
    using assms(1) nat_digits_digits by (auto simp: version_text_def version_prefix_def list_all_iff)
  then show "\<not> white x" using assms(2) white_digit by (auto simp: white_def)
qed

lemma lessThan_weaken: "\<not> lessThan v (0, 3, 28) \<Longrightarrow> \<not> lessThan v (0, 2, 21)"
  by (cases v) (auto split: if_splits)

lemma dev_describe_Nil [simp]: "\<not> dev_describe []"
  by code_simp

lemma white_hex: "describe_digit c \<Longrightarrow> \<not> white c"
  by (auto simp: describe_digit_def white_def)

lemma white_suffix:
  assumes "describe_digit h \<and> \<not> list_ex white r" "x \<in> set (''-'' @ nat_digits n @ ''-g'' @ h # r)"
  shows "\<not> white x"
proof -
  have plain: "\<not> white CHR ''-''" "\<not> white CHR ''g''" by (simp_all add: white_def)
  from assms(2) consider "x = CHR ''-''" | "x = CHR ''g''" | "x \<in> set (nat_digits n)" | "x = h" | "x \<in> set r"
    by (simp only: set_append Un_iff list.set insert_iff empty_iff) blast
  then show ?thesis
  proof cases
    case 3
    then show ?thesis using nat_digits_digits [of n] white_digit by (simp add: list_all_iff)
  next
    case 5
    then show ?thesis using assms(1) by (simp add: list_ex_iff)
  qed (use plain assms(1) white_hex in simp_all)
qed

lemma handoff_of_build:
  assumes "version_prefix p" "describe_digit h \<and> \<not> list_ex white r"
  shows "handoffSupported (Some (p @ version_text a b c @ ''-'' @ nat_digits n @ ''-g'' @ h # r))"
proof -
  let ?s = "p @ version_text a b c @ ''-'' @ nat_digits n @ ''-g'' @ h # r"
  have "js_trim ?s = ?s" by (rule white_version [OF assms(1) white_suffix [OF assms(2)]])
  moreover have "dev_describe ?s" using dev_describe_text [OF assms(1)] assms(2) by blast
  ultimately show ?thesis by (simp only: handoffSupported_def Let_def option.case) auto
qed

text \<open>On release versions the comparison of segments is the lexicographic order.\<close>

lemma js_number_nat_digits: "js_number (nat_digits n) = Fin (of_nat n)"
  using js_number_digits [OF nat_digits_digits, of n] by (simp add: num_nat_digits)

lemma isVersionNewer_text:
  assumes "version_prefix p" "version_prefix q"
  shows "isVersionNewer (p @ version_text a b c) (q @ version_text a' b' c') \<longleftrightarrow>
    lessThan (int a', int b', int c') (int a, int b, int c)"
proof -
  have dots: "CHR ''.'' \<notin> set (nat_digits n)" for n
    using nat_digits_digits [of n] by (auto simp: list_all_iff)
  have "js_split CHR ''.'' (version_text a b c) = [nat_digits a, nat_digits b, nat_digits c]" for a b c
    by (simp add: version_text_def js_split_sep js_split_no_sep dots)
  then show ?thesis
    using strip_v_text [OF assms(1), of a b c "[]"] strip_v_text [OF assms(2), of a' b' c' "[]"]
    by (simp add: isVersionNewer_def stripVersionPrefix_def js_number_nat_digits)
qed

lemma handoff_implies_ok: "handoffSupported s \<Longrightarrow> clc_state (checkQuickCreateCliVersion s) = Cli_ok"
  by (auto simp: handoffSupported_def checkQuickCreateCliVersion_def Let_def minimums lessThan_weaken
      split: if_splits option.splits)

lemma gates_of_release:
  assumes "version_prefix p" "r = [] \<or> \<not> is_digit (hd r)" "\<And>x. x \<in> set r \<Longrightarrow> \<not> white x"
    and "\<not> dev_describe (p @ version_text a b c @ r)"
  shows "clc_state (checkQuickCreateCliVersion (Some (p @ version_text a b c @ r))) =
      (if lessThan (int a, int b, int c) (0, 2, 21) then Cli_too_old else Cli_ok)"
    and "handoffSupported (Some (p @ version_text a b c @ r)) \<longleftrightarrow> \<not> lessThan (int a, int b, int c) (0, 3, 28)"
proof -
  define s where "s = p @ version_text a b c @ r"
  have ne: "s \<noteq> []" by (simp add: s_def version_text_def)
  have trim: "js_trim s = s" by (simp only: s_def white_version [OF assms(1,3)])
  have parsed: "parseSemver s = Some (int a, int b, int c)"
    using semver_search_text [OF assms(1,2)] trim by (simp add: parseSemver_def s_def)
  note dev = assms(4) [folded s_def]
  show "clc_state (checkQuickCreateCliVersion (Some (p @ version_text a b c @ r))) =
      (if lessThan (int a, int b, int c) (0, 2, 21) then Cli_too_old else Cli_ok)"
    unfolding s_def [symmetric] using ne parsed dev trim
    by (simp add: checkQuickCreateCliVersion_def Let_def minimums)
  show "handoffSupported (Some (p @ version_text a b c @ r)) \<longleftrightarrow> \<not> lessThan (int a, int b, int c) (0, 3, 28)"
    unfolding s_def [symmetric] using ne parsed dev trim
    by (simp add: handoffSupported_def Let_def minimums)
qed

section \<open>Properties\<close>

text \<open>
  C33. What the version gates accept.  A release \<open>a.b.c\<close>, with or without \<open>v\<close> and with any suffix that is
  not a build description, passes the quick-create gate exactly from 0.2.21 on and the hand-off
  gate exactly from 0.3.28 on; a build described by \<open>git\<close> passes both whatever its tag; for any
  report, the stricter gate implies the other; and of two releases the list marks exactly the
  lexicographically greater one as newer.
\<close>
theorem version_gates:
  assumes "version_prefix p" "version_prefix q"
  shows "(\<forall>r. (r = [] \<or> \<not> is_digit (hd r)) \<and> \<not> list_ex white r
            \<and> \<not> dev_describe (p @ version_text a b c @ r) \<longrightarrow>
          clc_state (checkQuickCreateCliVersion (Some (p @ version_text a b c @ r))) =
            (if lessThan (int a, int b, int c) (0, 2, 21) then Cli_too_old else Cli_ok)
          \<and> (handoffSupported (Some (p @ version_text a b c @ r)) \<longleftrightarrow>
               \<not> lessThan (int a, int b, int c) (0, 3, 28)))
    \<and> (\<forall>h n r. describe_digit h \<and> \<not> list_ex white r \<longrightarrow>
          handoffSupported (Some (p @ version_text a b c @ ''-'' @ nat_digits n @ ''-g'' @ h # r)))
    \<and> (\<forall>s. handoffSupported s \<longrightarrow> clc_state (checkQuickCreateCliVersion s) = Cli_ok)
    \<and> (isVersionNewer (p @ version_text a b c) (q @ version_text a' b' c') \<longleftrightarrow>
          lessThan (int a', int b', int c') (int a, int b, int c))"
  by (intro conjI allI impI gates_of_release [OF assms(1)] isVersionNewer_text [OF assms] handoff_implies_ok
        handoff_of_build [OF assms(1)])
    (auto simp: list_ex_iff)

lemma version_gates_witness:
  "clc_state (checkQuickCreateCliVersion (Some ''v0.2.20'')) = Cli_too_old
   \<and> isVersionNewer ''0.2.21'' ''v0.2.9''"
proof -
  have v: "version_prefix ''v''" "version_prefix []" by (simp_all add: version_prefix_def)
  have t: "version_text 0 2 20 = ''0.2.20''" "version_text 0 2 21 = ''0.2.21''" "version_text 0 2 9 = ''0.2.9''"
    by code_simp+
  have dev: "\<not> dev_describe ''v0.2.20''" by code_simp
  show ?thesis
    using version_gates [OF v, of 0 2 20, unfolded t, THEN conjunct1, THEN spec, of "[]"] dev
      version_gates [OF v(2,1), of 0 2 21 0 2 9, unfolded t]
    by simp
qed

text \<open>A segment that is not a number is skipped, although the comment has it compare as zero.\<close>

lemma segment_skipped: "isVersionNewer ''0.x.3'' ''0.5.2'' \<and> \<not> isVersionNewer ''0.2.16'' ''0.2.15-235-gdaf0e935''"
  by code_simp

end
