(* ===== verification/Js_Map.thy ===== *)
theory Js_Map
  imports Js_Sort "HOL-Library.AList"
begin

text \<open>
  \<open>Map\<close> and \<open>Set\<close> in the order of insertion, and the loop that folds rows into one bucket per key.  A
  \<open>Map\<close> is an association list without repeated keys: \<open>get\<close> is \<open>map_of\<close>, \<open>set\<close> is \<open>AList.update\<close>, which keeps
  the place of a key and appends a new one.
\<close>

section \<open>Sets\<close>

definition adjoin :: "'a \<Rightarrow> 'a list \<Rightarrow> 'a list" where
  "adjoin x xs = (if x \<in> set xs then xs else xs @ [x])"

text \<open>\<open>Array.from(new Set(xs))\<close>.\<close>

definition js_set :: "'a list \<Rightarrow> 'a list" where
  "js_set xs = fold adjoin xs []"

lemma js_set_snoc [simp]: "js_set (xs @ [x]) = adjoin x (js_set xs)"
  by (simp add: js_set_def)

lemma js_set_Nil [simp]: "js_set [] = []"
  by (simp add: js_set_def)

lemma set_adjoin [simp]: "set (adjoin x xs) = insert x (set xs)"
  by (auto simp: adjoin_def)

lemma set_js_set [simp]: "set (js_set xs) = set xs"
  by (induction xs rule: rev_induct) auto

lemma distinct_js_set [simp]: "distinct (js_set xs)"
  by (induction xs rule: rev_induct) (auto simp: adjoin_def)

section \<open>Maps\<close>

lemma map_of_update [simp]: "map_of (AList.update k v m) j = (if j = k then Some v else map_of m j)"
  by (simp add: update_conv')

lemma update_tabulated:
  "distinct ks \<Longrightarrow> AList.update k v (map (\<lambda>j. (j, f j)) ks) = map (\<lambda>j. (j, (f(k := v)) j)) (adjoin k ks)"
proof (induction ks)
  case (Cons a ks)
  then show ?case by (cases "k = a") (auto simp: adjoin_def)
qed (simp add: adjoin_def)

lemma update_new: "k \<notin> set (map fst m) \<Longrightarrow> AList.update k v m = m @ [(k, v)]"
  by (induction m) auto

lemma map_of_tabulated: "map_of (map (\<lambda>j. (j, f j)) ks) k = (if k \<in> set ks then Some (f k) else None)"
  by (induction ks) auto

text \<open>
  The loop of the aggregations: each row is added to the bucket of its key, which starts as
  \<open>zero key\<close>.
\<close>

definition bucket_rows ::
  "('r \<Rightarrow> 'k) \<Rightarrow> ('k \<Rightarrow> 'b) \<Rightarrow> ('r \<Rightarrow> 'b \<Rightarrow> 'b) \<Rightarrow> 'r list \<Rightarrow> ('k \<times> 'b) list \<Rightarrow> ('k \<times> 'b) list" where
  "bucket_rows key zero add rows m =
     fold (\<lambda>r m. AList.update (key r)
              (add r (case map_of m (key r) of None \<Rightarrow> zero (key r) | Some b \<Rightarrow> b)) m) rows m"

text \<open>What a bucket holds: the rows of its key, in their order.\<close>

definition bucket :: "('r \<Rightarrow> 'k) \<Rightarrow> ('k \<Rightarrow> 'b) \<Rightarrow> ('r \<Rightarrow> 'b \<Rightarrow> 'b) \<Rightarrow> 'r list \<Rightarrow> 'k \<Rightarrow> 'b" where
  "bucket key zero add rows k = fold add (filter (\<lambda>r. key r = k) rows) (zero k)"

lemma bucket_new: "k \<notin> key ` set rows \<Longrightarrow> bucket key zero add rows k = zero k"
proof -
  assume "k \<notin> key ` set rows"
  then have "filter (\<lambda>r. key r = k) rows = []" by (auto simp: filter_empty_conv)
  then show ?thesis by (simp add: bucket_def)
qed

lemma bucket_rows_spec:
  "bucket_rows key zero add rows [] =
     map (\<lambda>k. (k, bucket key zero add rows k)) (js_set (map key rows))"
proof (induction rows rule: rev_induct)
  case Nil
  show ?case by (simp add: bucket_rows_def)
next
  case (snoc r rows)
  let ?m = "bucket_rows key zero add rows []"
  let ?b = "bucket key zero add rows"
  have old: "(case map_of ?m (key r) of None \<Rightarrow> zero (key r) | Some b \<Rightarrow> b) = ?b (key r)"
    unfolding snoc map_of_tabulated using bucket_new [of "key r" key rows zero add] by auto
  have "bucket_rows key zero add (rows @ [r]) [] = AList.update (key r) (add r (?b (key r))) ?m"
    using old by (simp add: bucket_rows_def)
  also have "\<dots> = map (\<lambda>k. (k, (?b(key r := add r (?b (key r)))) k)) (adjoin (key r) (js_set (map key rows)))"
    unfolding snoc by (rule update_tabulated) simp
  also have "\<dots> = map (\<lambda>k. (k, bucket key zero add (rows @ [r]) k)) (js_set (map key (rows @ [r])))"
    by (auto simp: bucket_def)
  finally show ?case .
qed

section \<open>Measures of buckets\<close>

text \<open>
  The interface of the figures that the code adds up: a figure of a bucket starts at zero and grows
  by a weight of each row.
\<close>

locale bucket_figure =
  fixes zero :: "'k \<Rightarrow> 'b" and add :: "'r \<Rightarrow> 'b \<Rightarrow> 'b" and figure :: "'b \<Rightarrow> rat" and weight :: "'r \<Rightarrow> rat"
  assumes figure_zero: "figure (zero k) = 0"
    and figure_add: "figure (add r b) = figure b + weight r"
begin

lemma figure_fold: "figure (fold add rows b) = figure b + sum_list (map weight rows)"
  by (induction rows arbitrary: b) (auto simp: figure_add)

lemma figure_bucket:
  "figure (bucket key zero add rows k) = sum_list (map weight (filter (\<lambda>r. key r = k) rows))"
  by (simp add: bucket_def figure_fold figure_zero)

end

text \<open>Every row is in exactly one bucket.\<close>

lemma sum_over_keys:
  fixes w :: "'r \<Rightarrow> rat"
  assumes "distinct ks" "key ` set rows \<subseteq> set ks"
  shows "sum_list (map (\<lambda>k. sum_list (map w (filter (\<lambda>r. key r = k) rows))) ks) = sum_list (map w rows)"
  using assms(2)
proof (induction rows)
  case (Cons r rows)
  have "sum_list (map (\<lambda>k. sum_list (map w (filter (\<lambda>r. key r = k) (r # rows)))) ks)
      = sum_list (map (\<lambda>k. (if k = key r then w r else 0)
          + sum_list (map w (filter (\<lambda>r. key r = k) rows))) ks)"
    by (intro arg_cong [where f = sum_list] map_cong) auto
  also have "\<dots> = sum_list (map (\<lambda>k. if k = key r then w r else 0) ks) + sum_list (map w rows)"
    using Cons by (simp add: sum_list_addf)
  also have "sum_list (map (\<lambda>k. if k = key r then w r else 0) ks) = (\<Sum>k\<in>set ks. if k = key r then w r else 0)"
    by (rule sum_list_distinct_conv_sum_set [OF assms(1)])
  also have "\<dots> = w r" using Cons.prems by simp
  finally show ?case by simp
qed simp

context bucket_figure
begin

lemma figures_conserved:
  assumes "distinct ks" "key ` set rows \<subseteq> set ks"
  shows "sum_list (map (\<lambda>k. figure (bucket key zero add rows k)) ks) = sum_list (map weight rows)"
  using sum_over_keys [OF assms] by (simp add: figure_bucket)

end

lemma sum_list_js_sort:
  fixes w :: "'a \<Rightarrow> rat"
  shows "sum_list (map w (js_sort cmp xs)) = sum_list (map w xs)"
  by (metis mset_js_sort mset_map sum_mset_sum_list)

end
