(* ===== verification/Model_Pricing.thy ===== *)
theory Model_Pricing
  imports Js_Map Js_Object Js_Number
begin

text \<open>
  What a model's tokens cost: the price table and its lookup in
  \<open>packages/views/runtimes/utils.ts\<close>, and the user's own prices in
  \<open>packages/core/runtimes/custom-pricing-store.ts\<close>.  The regular expressions of the code are written as
  the string functions they amount to; the cache of the candidates, which holds what the function
  returns, is left out.
\<close>

section \<open>The user's prices\<close>

record model_pricing =
  prc_input :: rat
  prc_output :: rat
  prc_cacheRead :: rat
  prc_cacheWrite :: rat

record custom_pricing_state =
  cps_pricings :: "model_pricing js_object"

definition setCustomPricing :: "string \<Rightarrow> model_pricing \<Rightarrow> custom_pricing_state \<Rightarrow> custom_pricing_state" where
  "setCustomPricing model pricing st = st\<lparr>cps_pricings := js_put model pricing (cps_pricings st)\<rparr>"

definition removeCustomPricing :: "string \<Rightarrow> custom_pricing_state \<Rightarrow> custom_pricing_state" where
  "removeCustomPricing model st =
     (if js_get (cps_pricings st) model = None then st
      else \<lparr>cps_pricings = filter (\<lambda>(k, v). k \<noteq> model) (cps_pricings st)\<rparr>)"

definition getCustomPricing :: "custom_pricing_state \<Rightarrow> string \<Rightarrow> model_pricing option" where
  "getCustomPricing st model = js_get (cps_pricings st) model"

section \<open>The price table\<close>

definition price :: "rat \<Rightarrow> rat \<Rightarrow> rat \<Rightarrow> rat \<Rightarrow> model_pricing" where
  "price input out cacheRead cacheWrite =
     \<lparr>prc_input = input, prc_output = out, prc_cacheRead = cacheRead, prc_cacheWrite = cacheWrite\<rparr>"

definition MODEL_PRICING :: "(string \<times> model_pricing) list" where
  "MODEL_PRICING = [
     (''claude-sonnet-5'', price 2 10 0.20 2.50),
     (''claude-fable-5'', price 10 50 1.00 12.50),
     (''claude-haiku-4-5'', price 1 5 0.10 1.25),
     (''claude-sonnet-4-5'', price 3 15 0.30 3.75),
     (''claude-sonnet-4-6'', price 3 15 0.30 3.75),
     (''claude-opus-4-5'', price 5 25 0.50 6.25),
     (''claude-opus-4-6'', price 5 25 0.50 6.25),
     (''claude-opus-4-7'', price 5 25 0.50 6.25),
     (''claude-opus-4-8'', price 5 25 0.50 6.25),
     (''claude-opus-4-1'', price 15 75 1.50 18.75),
     (''claude-opus-4'', price 15 75 1.50 18.75),
     (''claude-sonnet-4'', price 3 15 0.30 3.75),
     (''claude-haiku-3-5'', price 0.80 4 0.08 1.00),
     (''gpt-5.6-sol'', price 5 30 0.50 6.25),
     (''gpt-5.6-terra'', price 2.50 15 0.25 3.125),
     (''gpt-5.6-luna'', price 1 6 0.10 1.25),
     (''gpt-5.5'', price 5 30 0.50 5),
     (''gpt-5.4-mini'', price 0.75 4.50 0.075 0.75),
     (''gpt-5.4'', price 2.50 15 0.25 2.50),
     (''gpt-5.3-codex'', price 1.75 14 0.175 1.75),
     (''gpt-5-codex'', price 1.25 10 0.125 1.25),
     (''gpt-5-mini'', price 0.25 2 0.025 0.25),
     (''gpt-5-nano'', price 0.05 0.40 0.005 0.05),
     (''gpt-5'', price 1.25 10 0.125 1.25),
     (''o3-mini'', price 1.10 4.40 0.55 1.10),
     (''o3'', price 2 8 0.50 2),
     (''o4-mini'', price 1.10 4.40 0.275 1.10),
     (''gpt-4o-mini'', price 0.15 0.60 0.075 0.15),
     (''gpt-4o'', price 2.50 10 1.25 2.50),
     (''deepseek-v4-flash'', price 0.14 0.28 0.0028 0.14),
     (''deepseek-v4-pro'', price 1.74 3.48 0.0145 1.74),
     (''deepseek-chat'', price 0.14 0.28 0.0028 0.14),
     (''deepseek-reasoner'', price 0.14 0.28 0.0028 0.14),
     (''kimi-k2.6'', price 0.95 4.00 0.16 0.95),
     (''glm-5.1'', price 1.4 4.4 0.26 1.4),
     (''glm-5'', price 1.0 3.2 0.2 1.0),
     (''glm-5-turbo'', price 1.2 4.0 0.24 1.2),
     (''glm-4.7'', price 0.6 2.2 0.11 0.6),
     (''glm-4.7-flashx'', price 0.07 0.4 0.01 0.07),
     (''glm-4.7-flash'', price 0 0 0 0),
     (''glm-4.6'', price 0.6 2.2 0.11 0.6),
     (''glm-4.5'', price 0.6 2.2 0.11 0.6),
     (''glm-4.5-x'', price 2.2 8.9 0.45 2.2),
     (''glm-4.5-air'', price 0.2 1.1 0.03 0.2),
     (''glm-4.5-airx'', price 1.1 4.5 0.22 1.1),
     (''glm-4.5-flash'', price 0 0 0 0),
     (''cursor/auto'', price 1.25 6 0.25 0),
     (''cursor/composer-2.5-fast'', price 3 15 0.5 0),
     (''cursor/composer-2.5'', price 0.5 2.5 0.2 0),
     (''cursor/composer-2-fast'', price 1.5 7.5 0.35 0),
     (''cursor/composer-2'', price 0.5 2.5 0.2 0),
     (''cursor/composer-1.5'', price 3.5 17.5 0.35 0),
     (''cursor/composer-1'', price 1.25 10 0.125 0),
     (''cursor'', price 3 15 0.5 0)]"

section \<open>Lookup keys\<close>

text \<open>A pattern of fixed length, in which \<open>#\<close> stands for a digit.\<close>

fun matches :: "string \<Rightarrow> string \<Rightarrow> bool" where
  "matches [] [] = True"
| "matches (p # ps) (c # cs) = ((if p = CHR ''#'' then is_digit c else c = p) \<and> matches ps cs)"
| "matches _ _ = False"

text \<open>\<open>/-(20\d{2}-\d{2}-\d{2}|20\d{6}|latest)$/\<close>: the leftmost match is the longest suffix.\<close>

definition date_patterns :: "string list" where
  "date_patterns = [''-20##-##-##'', ''-20######'', ''-latest'']"

definition suffix_matches :: "string \<Rightarrow> string \<Rightarrow> bool" where
  "suffix_matches s p \<longleftrightarrow> length p \<le> length s \<and> matches p (drop (length s - length p) s)"

definition stripDate :: "string \<Rightarrow> string" where
  "stripDate s =
     (case find (suffix_matches s) date_patterns of
        None \<Rightarrow> s | Some p \<Rightarrow> take (length s - length p) s)"

definition letter :: "char \<Rightarrow> bool" where
  "letter c \<longleftrightarrow> lower c \<in> set ''abcdefghijklmnopqrstuvwxyz''"

definition provider_token :: "string \<Rightarrow> bool" where
  "provider_token t \<longleftrightarrow> (case t of
     [] \<Rightarrow> False
   | c # r \<Rightarrow> letter c \<and> list_all (\<lambda>d. letter d \<or> is_digit d \<or> d = CHR ''_'' \<or> d = CHR ''-'') r)"

definition stripProvider :: "string \<Rightarrow> string" where
  "stripProvider s =
     (case js_index_of CHR ''/'' s of
        None \<Rightarrow> s
      | Some i \<Rightarrow> if 0 < i \<and> provider_token (take i s) then drop (Suc i) s else s)"

definition canonAnthropic :: "string \<Rightarrow> string" where
  "canonAnthropic s =
     (if starts_with s ''claude-'' then map (\<lambda>c. if c = CHR ''.'' then CHR ''-'' else c) s else s)"

text \<open>\<open>/\[[^\]]+\]$/\<close>: the leftmost bracket from which the rest is a tag.\<close>

definition context_tag :: "string \<Rightarrow> bool" where
  "context_tag s \<longleftrightarrow> (case s of
     [] \<Rightarrow> False
   | c # t \<Rightarrow> c = CHR ''['' \<and> t \<noteq> [] \<and> last t = CHR '']'' \<and> butlast t \<noteq> [] \<and> CHR '']'' \<notin> set (butlast t))"

fun stripContextTag :: "string \<Rightarrow> string" where
  "stripContextTag [] = []"
| "stripContextTag (c # s) = (if context_tag (c # s) then [] else c # stripContextTag s)"

definition canonicalCandidates :: "string \<Rightarrow> string list" where
  "canonicalCandidates model =
     (let raw = model;
          noProvider = stripProvider raw;
          dashed = canonAnthropic noProvider;
          noTag = stripContextTag dashed
      in js_set (filter (\<lambda>s. s \<noteq> [])
           [raw, noProvider, dashed, noTag, stripDate raw, stripDate noProvider, stripDate dashed, stripDate noTag]))"

definition normalizeProvider :: "string option \<Rightarrow> string" where
  "normalizeProvider provider = (case provider of None \<Rightarrow> [] | Some p \<Rightarrow> map lower (js_trim p))"

definition qualify :: "string \<Rightarrow> string \<Rightarrow> string" where
  "qualify provider key =
     (if starts_with key (provider @ ''/'') then key else provider @ ''/'' @ key)"

definition pricingCandidates :: "string \<Rightarrow> string option \<Rightarrow> string list" where
  "pricingCandidates model provider =
     (let base = canonicalCandidates model; p = normalizeProvider provider
      in if p = [] then base else map (qualify p) base @ base)"

definition pricingKey :: "string \<Rightarrow> string option \<Rightarrow> string" where
  "pricingKey model provider =
     (let p = normalizeProvider provider in if p = [] then model else qualify p model)"

section \<open>Prices\<close>

text \<open>The loop that returns the first hit.\<close>

fun first_hit :: "('k \<Rightarrow> 'v option) \<Rightarrow> 'k list \<Rightarrow> 'v option" where
  "first_hit look [] = None"
| "first_hit look (k # ks) = (case look k of None \<Rightarrow> first_hit look ks | Some v \<Rightarrow> Some v)"

definition resolvePricing :: "custom_pricing_state \<Rightarrow> string \<Rightarrow> string option \<Rightarrow> model_pricing option" where
  "resolvePricing st model provider =
     (if model = [] then None
      else let candidates = pricingCandidates model provider
           in (case first_hit (map_of MODEL_PRICING) candidates of
                 Some hit \<Rightarrow> Some hit
               | None \<Rightarrow> first_hit (getCustomPricing st) candidates))"

definition isModelPriced :: "custom_pricing_state \<Rightarrow> string \<Rightarrow> string option \<Rightarrow> bool" where
  "isModelPriced st model provider \<longleftrightarrow> resolvePricing st model provider \<noteq> None"

definition isSelfResolvingId :: "custom_pricing_state \<Rightarrow> string \<Rightarrow> bool" where
  "isSelfResolvingId st model = isModelPriced st model None"

definition modelGroupingKey :: "custom_pricing_state \<Rightarrow> string \<Rightarrow> string option \<Rightarrow> string" where
  "modelGroupingKey st model provider =
     (if model = []
      then let p = normalizeProvider provider in if p = [] then ''unknown'' else p
      else if isSelfResolvingId st model then model else pricingKey model provider)"

record priceable =
  use_model :: string
  use_provider :: "string option"
  use_input_tokens :: rat
  use_output_tokens :: rat
  use_cache_read_tokens :: rat
  use_cache_write_tokens :: rat

text \<open>\<open>toSorted()\<close> without a comparator: by code units.\<close>

definition compare_text :: "string \<Rightarrow> string \<Rightarrow> rat option" where
  "compare_text a b = Some (if str_less a b then - 1 else if str_less b a then 1 else 0)"

definition collectUnmappedModels :: "custom_pricing_state \<Rightarrow> 'a priceable_scheme list \<Rightarrow> string list" where
  "collectUnmappedModels st rows =
     js_sort compare_text (js_set (map (\<lambda>r. pricingKey (use_model r) (use_provider r))
       (filter (\<lambda>r. use_model r \<noteq> [] \<and> \<not> isModelPriced st (use_model r) (use_provider r)) rows)))"

definition estimateCost :: "custom_pricing_state \<Rightarrow> 'a priceable_scheme \<Rightarrow> rat" where
  "estimateCost st usage =
     (case resolvePricing st (use_model usage) (use_provider usage) of
        None \<Rightarrow> 0
      | Some pricing \<Rightarrow>
          (use_input_tokens usage * prc_input pricing
           + use_output_tokens usage * prc_output pricing
           + use_cache_read_tokens usage * prc_cacheRead pricing
           + use_cache_write_tokens usage * prc_cacheWrite pricing) / 1000000)"

record cost_breakdown =
  cbd_input :: rat
  cbd_output :: rat
  cbd_cacheRead :: rat
  cbd_cacheWrite :: rat

definition estimateCostBreakdown :: "custom_pricing_state \<Rightarrow> 'a priceable_scheme \<Rightarrow> cost_breakdown" where
  "estimateCostBreakdown st usage =
     (case resolvePricing st (use_model usage) (use_provider usage) of
        None \<Rightarrow> \<lparr>cbd_input = 0, cbd_output = 0, cbd_cacheRead = 0, cbd_cacheWrite = 0\<rparr>
      | Some pricing \<Rightarrow>
          \<lparr>cbd_input = use_input_tokens usage * prc_input pricing / 1000000,
           cbd_output = use_output_tokens usage * prc_output pricing / 1000000,
           cbd_cacheRead = use_cache_read_tokens usage * prc_cacheRead pricing / 1000000,
           cbd_cacheWrite = use_cache_write_tokens usage * prc_cacheWrite pricing / 1000000\<rparr>)"

definition estimateCacheSavings :: "custom_pricing_state \<Rightarrow> 'a priceable_scheme \<Rightarrow> rat" where
  "estimateCacheSavings st usage =
     (case resolvePricing st (use_model usage) (use_provider usage) of
        None \<Rightarrow> 0
      | Some pricing \<Rightarrow>
          use_cache_read_tokens usage * prc_input pricing / 1000000
          - use_cache_read_tokens usage * prc_cacheRead pricing / 1000000)"

section \<open>The table\<close>

lemma table_distinct: "distinct (map fst MODEL_PRICING)"
  unfolding MODEL_PRICING_def list.map fst_conv by code_simp

lemma table_keys_plain:
  "list_all (\<lambda>k. stripDate k = k \<and> last k \<noteq> CHR '']'' \<and> k \<noteq> []
      \<and> CHR ''['' \<notin> set k \<and> \<not> starts_with ''claude-'' k
      \<and> (starts_with k ''claude-'' \<longrightarrow> CHR ''.'' \<notin> set k)) (map fst MODEL_PRICING)"
  unfolding MODEL_PRICING_def list.map fst_conv by code_simp

lemma table_keys_qualified:
  "list_all (\<lambda>k. CHR ''/'' \<in> set k \<longrightarrow>
      starts_with k ''cursor/'' \<and> CHR ''/'' \<notin> set (drop 7 k) \<and> \<not> starts_with (drop 7 k) ''claude-''
      \<and> drop 7 k \<notin> set (map fst MODEL_PRICING)) (map fst MODEL_PRICING)"
  unfolding MODEL_PRICING_def list.map fst_conv by code_simp

lemma table_rates:
  "list_all (\<lambda>(_, p). 0 \<le> prc_input p \<and> 0 \<le> prc_output p \<and> 0 \<le> prc_cacheRead p \<and> 0 \<le> prc_cacheWrite p
      \<and> prc_cacheRead p \<le> prc_input p) MODEL_PRICING"
  by (simp add: MODEL_PRICING_def price_def)

text \<open>The facts on a key of the table, by its lookup.\<close>

lemma table_key:
  assumes "map_of MODEL_PRICING k \<noteq> None"
  shows "stripDate k = k" "k \<noteq> []" "last k \<noteq> CHR '']''" "CHR ''['' \<notin> set k" "\<not> starts_with ''claude-'' k"
    and "starts_with k ''claude-'' \<Longrightarrow> CHR ''.'' \<notin> set k"
  using table_keys_plain assms by (auto simp: map_of_eq_None_iff list_all_iff)

lemma table_key_slash:
  assumes "k \<in> set (map fst MODEL_PRICING)" "CHR ''/'' \<in> set k"
  shows "starts_with k ''cursor/''" "CHR ''/'' \<notin> set (drop 7 k)"
    and "\<not> starts_with (drop 7 k) ''claude-''" "drop 7 k \<notin> set (map fst MODEL_PRICING)"
  using table_keys_qualified assms unfolding list_all_iff by blast+

lemma table_key_qualified:
  assumes "map_of MODEL_PRICING (x @ CHR ''/'' # y) \<noteq> None" "CHR ''/'' \<notin> set y"
  shows "x = ''cursor''" "\<not> starts_with y ''claude-''" "map_of MODEL_PRICING y = None"
proof -
  define k where "k = x @ CHR ''/'' # y"
  have "k \<in> set (map fst MODEL_PRICING)" "CHR ''/'' \<in> set k"
    using assms(1) unfolding map_of_eq_None_iff k_def by simp_all
  note q = table_key_slash [OF this]
  obtain z where k: "k = ''cursor'' @ CHR ''/'' # z"
  proof
    have "take (length ''cursor/'') k = ''cursor/''" using q(1) unfolding starts_with_def .
    moreover have "length ''cursor/'' = 7" by simp
    ultimately have "k = ''cursor/'' @ drop 7 k" by (metis append_take_drop_id)
    then show "k = ''cursor'' @ CHR ''/'' # drop 7 k" by simp
  qed
  then have z: "drop 7 k = z" by simp
  have "CHR ''/'' \<notin> set z" using q(2) unfolding z .
  then have "x = ''cursor'' \<and> y = z" 
    using append_Cons_eq_iff [of "CHR ''/''" "''cursor''" z x y] k k_def by auto
  then show "x = ''cursor''" "\<not> starts_with y ''claude-''" "map_of MODEL_PRICING y = None"
    using q(3,4) unfolding z map_of_eq_None_iff by simp_all
qed

section \<open>Suffixes\<close>

lemma matches_nth:
  "matches p s \<longleftrightarrow> length p = length s
     \<and> (\<forall>i < length p. if p ! i = CHR ''#'' then is_digit (s ! i) else s ! i = p ! i)"
  by (induction p s rule: matches.induct) (auto simp: nth_Cons' less_Suc_eq_0_disj split: if_splits)

lemma suffix_matches_append:
  assumes "suffix_matches s p"
  shows "suffix_matches (u @ s) p"
proof -
  have "length p \<le> length s" using assms by (simp add: suffix_matches_def)
  then have "length (u @ s) - length p = length u + (length s - length p)" by simp
  then have "drop (length (u @ s) - length p) (u @ s) = drop (length s - length p) s" by simp
  then show ?thesis using assms by (simp add: suffix_matches_def)
qed

lemma suffix_matches_end: "matches p d \<Longrightarrow> suffix_matches (u @ d) p"
  by (simp add: suffix_matches_def matches_nth)

definition dated_end :: "string \<Rightarrow> bool" where
  "dated_end s \<longleftrightarrow> (\<exists>p \<in> set date_patterns. suffix_matches s p)"

lemma stripDate_id_iff: "stripDate s = s \<longleftrightarrow> \<not> dated_end s"
proof -
  have "take (length s - length p) s \<noteq> s" if "p \<in> set date_patterns" "suffix_matches s p" for p
  proof -
    have "0 < length p" "length p \<le> length s" using that by (auto simp: date_patterns_def suffix_matches_def)
    then show ?thesis by (metis diff_less length_take min.commute min_def nat_less_le less_le_trans)
  qed
  then show ?thesis
    by (auto simp: stripDate_def dated_end_def find_None_iff find_Some_iff split: option.splits)
qed

lemma table_not_dated: "dated_end s \<Longrightarrow> map_of MODEL_PRICING s = None"
  using table_key(1) stripDate_id_iff by blast

lemma table_not_bracket: "s \<noteq> [] \<Longrightarrow> last s = CHR '']'' \<Longrightarrow> map_of MODEL_PRICING s = None"
  using table_key(3) by blast

text \<open>A date at the end is what is stripped.\<close>

lemma patterns_apart:
  "\<forall>p \<in> set date_patterns. p \<noteq> [] \<and> p ! 0 = CHR ''-'' \<and> (\<forall>p' \<in> set date_patterns. length p \<le> length p' \<longrightarrow>
     p' = p \<or> (let n = length p' - length p in n < length p' \<and> (p' ! n = CHR ''0'' \<or> p' ! n = CHR ''#'')))"
  by code_simp

lemma suffix_matches_nth:
  assumes "suffix_matches s p" "i < length p"
  shows "if p ! i = CHR ''#'' then is_digit (s ! (length s - length p + i)) else s ! (length s - length p + i) = p ! i"
proof -
  have "drop (length s - length p) s ! i = s ! (length s - length p + i)" by (simp add: nth_drop)
  then show ?thesis using assms unfolding suffix_matches_def matches_nth by metis
qed

lemma suffix_matches_longer:
  assumes p: "p \<in> set date_patterns" "suffix_matches s p"
    and p': "p' \<in> set date_patterns" "suffix_matches s p'" "length p \<le> length p'"
  shows "p' = p"
proof (rule ccontr)
  assume "p' \<noteq> p"
  define n where "n = length p' - length p"
  have n: "n < length p'" "p' ! n = CHR ''0'' \<or> p' ! n = CHR ''#''" "p ! 0 = CHR ''-''" "0 < length p"
    using patterns_apart p(1) p'(1,3) \<open>p' \<noteq> p\<close> by (auto simp: n_def Let_def)
  have "length p' \<le> length s" using p'(2) by (simp add: suffix_matches_def)
  then have "length s - length p' + n = length s - length p + 0" using p'(3) by (simp add: n_def)
  then show False
    using suffix_matches_nth [OF p'(2) n(1)] suffix_matches_nth [OF p(2) n(4)] n(2,3)
    by (auto simp: is_digit_def split: if_splits)
qed

lemma suffix_matches_unique:
  "p \<in> set date_patterns \<Longrightarrow> p' \<in> set date_patterns \<Longrightarrow> suffix_matches s p \<Longrightarrow> suffix_matches s p' \<Longrightarrow> p' = p"
  using suffix_matches_longer by (metis nat_le_linear)

lemma stripDate_dated:
  assumes "p \<in> set date_patterns" "matches p d"
  shows "stripDate (u @ d) = u"
proof -
  have now: "suffix_matches (u @ d) p" by (rule suffix_matches_end [OF assms(2)])
  then have "find (suffix_matches (u @ d)) date_patterns \<noteq> None" using assms(1) by (auto simp: find_None_iff)
  then obtain p' where found: "find (suffix_matches (u @ d)) date_patterns = Some p'" by blast
  then have "suffix_matches (u @ d) p'" "p' \<in> set date_patterns" by (auto simp: find_Some_iff)
  then have "p' = p" using suffix_matches_unique [OF assms(1)] now by blast
  moreover have "length p = length d" using assms(2) by (simp add: matches_nth)
  ultimately show ?thesis using found by (simp add: stripDate_def)
qed

end
