(* ===== verification/Model_Pricing_Properties.thy ===== *)
theory Model_Pricing_Properties
  imports Model_Pricing
begin

text \<open>
  What the price lookup of \<open>Model_Pricing\<close> promises: the spellings under which a model of the table is
  found, and that the prices a user enters for the reported keys cover every row.
\<close>

section \<open>The spellings of a model\<close>

definition provider_part :: "string \<Rightarrow> bool" where
  "provider_part P \<longleftrightarrow> P = [] \<or> (\<exists>p. provider_token p \<and> P = p @ ''/'')"

definition date_part :: "string \<Rightarrow> bool" where
  "date_part D \<longleftrightarrow> D = [] \<or> list_ex (\<lambda>p. matches p D) date_patterns"

definition tag_part :: "string \<Rightarrow> bool" where
  "tag_part T \<longleftrightarrow> T = [] \<or> context_tag T"

text \<open>\<open>k'\<close> is a spelling of the table's key \<open>k\<close>, with dots for dashes in a Claude model.\<close>

definition spelled :: "string \<Rightarrow> string \<Rightarrow> bool" where
  "spelled k k' \<longleftrightarrow> map_of MODEL_PRICING k \<noteq> None \<and> CHR ''/'' \<notin> set k \<and> canonAnthropic k' = k"

lemma spelled_facts:
  assumes "spelled k k'"
  shows "length k' = length k" "CHR ''/'' \<notin> set k'" "CHR ''['' \<notin> set k'" "k' \<noteq> []"
    and "\<And>i. i < length k \<Longrightarrow> k ! i = k' ! i \<or> k' ! i = CHR ''.'' \<and> k ! i = CHR ''-''"
proof -
  note k = table_key [of k]
  have key: "map_of MODEL_PRICING k \<noteq> None" "CHR ''/'' \<notin> set k" "canonAnthropic k' = k"
    using assms by (auto simp: spelled_def)
  show "length k' = length k" "CHR ''/'' \<notin> set k'" "CHR ''['' \<notin> set k'" "k' \<noteq> []"
    using key k(2,4) by (auto simp: canonAnthropic_def split: if_splits)
  show "\<And>i. i < length k \<Longrightarrow> k ! i = k' ! i \<or> k' ! i = CHR ''.'' \<and> k ! i = CHR ''-''"
    using key(3) by (auto simp: canonAnthropic_def split: if_splits)
qed

lemma canonAnthropic_key: "map_of MODEL_PRICING k \<noteq> None \<Longrightarrow> canonAnthropic k = k"
  using table_key(6) by (auto simp: canonAnthropic_def intro!: map_idI)

lemma spelled_self: "map_of MODEL_PRICING k \<noteq> None \<Longrightarrow> CHR ''/'' \<notin> set k \<Longrightarrow> spelled k k"
  by (simp add: spelled_def canonAnthropic_key)

text \<open>A spelling is found as the key itself or not at all, and never behind a provider.\<close>

lemma lookup_spelled:
  assumes "spelled k k'" "map_of MODEL_PRICING k = Some pr"
  shows "map_of MODEL_PRICING k' \<in> {None, Some pr}" "map_of MODEL_PRICING (x @ CHR ''/'' # k') = None"
proof -
  have c: "canonAnthropic k' = k" using assms(1) by (simp add: spelled_def)
  show "map_of MODEL_PRICING k' \<in> {None, Some pr}"
    using canonAnthropic_key [of k'] c assms(2) by (cases "map_of MODEL_PRICING k'") auto
  show "map_of MODEL_PRICING (x @ CHR ''/'' # k') = None"
  proof (rule ccontr)
    assume q: "map_of MODEL_PRICING (x @ CHR ''/'' # k') \<noteq> None"
    note q = table_key_qualified [OF q spelled_facts(2) [OF assms(1)]]
    from q(2) c have "k' = k" by (simp add: canonAnthropic_def)
    with q(3) assms(2) show False by simp
  qed
qed

lemma suffix_within:
  assumes "suffix_matches (x @ CHR ''/'' # y) p" "p \<in> set date_patterns"
  shows "suffix_matches y p"
proof (cases "length p \<le> length y")
  case True
  then have "length (x @ CHR ''/'' # y) - length p = length (x @ [CHR ''/'']) + (length y - length p)" by simp
  then have "drop (length (x @ CHR ''/'' # y) - length p) (x @ CHR ''/'' # y) = drop (length y - length p) y"
    by (metis append.assoc append_Cons append_Nil drop_drop append_eq_conv_conj add.commute)
  with assms(1) True show ?thesis by (simp add: suffix_matches_def)
next
  case False
  define i where "i = length p - length y - 1"
  have le: "length p \<le> length x + 1 + length y" using assms(1) by (simp add: suffix_matches_def)
  have "i < length p" using False by (simp add: i_def)
  moreover have "length (x @ CHR ''/'' # y) - length p + i = length x" using False le by (simp add: i_def)
  ultimately have "if p ! i = CHR ''#'' then is_digit ((x @ CHR ''/'' # y) ! (length x))
      else (x @ CHR ''/'' # y) ! (length x) = p ! i"
    using suffix_matches_nth [OF assms(1)] by metis
  then have "p ! i = CHR ''/''" by (auto simp: nth_append is_digit_def split: if_splits)
  then have "CHR ''/'' \<in> set p" using \<open>i < length p\<close> by (metis nth_mem)
  then show ?thesis using assms(2) by (auto simp: date_patterns_def)
qed

lemma spelled_not_dated:
  assumes "spelled k k'" "suffix_matches k' p" "p \<in> set date_patterns"
  shows False
proof -
  note f = spelled_facts [OF assms(1)]
  have le: "length p \<le> length k'" using assms(2) by (simp add: suffix_matches_def)
  have nodot: "p ! i \<noteq> CHR ''.''" if "i < length p" for i
    using assms(3) nth_mem [OF that] by (auto simp: date_patterns_def)
  have "matches p (drop (length k - length p) k)"
    unfolding matches_nth
  proof (intro conjI allI impI)
    show "length p = length (drop (length k - length p) k)" using le f(1) by simp
    fix i assume i: "i < length p"
    let ?j = "length k' - length p + i"
    have "?j < length k" using i le f(1) by simp
    from f(5) [OF this] suffix_matches_nth [OF assms(2) i] nodot [OF i]
    have "if p ! i = CHR ''#'' then is_digit (k ! ?j) else k ! ?j = p ! i"
      by (auto simp: is_digit_def split: if_splits)
    then show "if p ! i = CHR ''#'' then is_digit (drop (length k - length p) k ! i)
        else drop (length k - length p) k ! i = p ! i"
      unfolding f(1) by (simp add: nth_drop)
  qed
  then have "dated_end k" using assms(3) le f(1) by (auto simp: dated_end_def suffix_matches_def)
  then show False using assms(1) table_not_dated by (auto simp: spelled_def)
qed

lemma stripDate_spelled:
  assumes "spelled k k'" "provider_part P"
  shows "stripDate (P @ k') = P @ k'"
proof -
  have False if "suffix_matches (P @ k') p" "p \<in> set date_patterns" for p
  proof -
    have "suffix_matches k' p"
      using that suffix_within [of _ k' p] assms(2) by (auto simp: provider_part_def)
    then show False using spelled_not_dated assms(1) that(2) by blast
  qed
  then show ?thesis by (auto simp: stripDate_id_iff dated_end_def)
qed

text \<open>A candidate that can only lead to the price \<open>pr\<close>, bare or behind any provider.\<close>

definition harmless :: "model_pricing \<Rightarrow> string \<Rightarrow> bool" where
  "harmless pr c \<longleftrightarrow> map_of MODEL_PRICING c \<in> {None, Some pr}
     \<and> (\<forall>q. map_of MODEL_PRICING (qualify q c) \<in> {None, Some pr})"

lemma qualify_cases: "qualify q c = c \<or> qualify q c = (q @ ''/'') @ c"
  by (simp add: qualify_def)

lemma harmless_bracket:
  assumes "s \<noteq> []" "last s = CHR '']''"
  shows "harmless pr s"
proof -
  have "map_of MODEL_PRICING (u @ s) = None" for u using table_not_bracket [of "u @ s"] assms by simp
  then show ?thesis unfolding harmless_def by (metis append_Nil insertCI qualify_cases)
qed

lemma harmless_dated:
  assumes "dated_end s"
  shows "harmless pr s"
proof -
  have "dated_end (u @ s)" for u using assms by (auto simp: dated_end_def intro: suffix_matches_append)
  then have "map_of MODEL_PRICING (u @ s) = None" for u by (rule table_not_dated)
  then show ?thesis unfolding harmless_def by (metis append_Nil insertCI qualify_cases)
qed

lemma harmless_spelled:
  assumes "spelled k k'" "map_of MODEL_PRICING k = Some pr" "provider_part P"
  shows "harmless pr (P @ k')"
proof -
  note look = lookup_spelled [OF assms(1,2)]
  have bare: "map_of MODEL_PRICING (P @ k') \<in> {None, Some pr}"
    using assms(3) look by (auto simp: provider_part_def)
  have "map_of MODEL_PRICING ((q @ ''/'') @ P @ k') = None" for q
    using assms(3) look(2) [of q] look(2) [of "q @ CHR ''/'' # _"] by (auto simp: provider_part_def)
  then show ?thesis unfolding harmless_def using bare by (metis insertCI qualify_cases)
qed

lemma first_hit_harmless:
  "(\<forall>x \<in> set xs. look x \<in> {None, Some v}) \<Longrightarrow> first_hit look xs = (if \<exists>x \<in> set xs. look x = Some v then Some v else None)"
  by (induction xs) (auto split: option.splits)

text \<open>The pieces of a spelling.\<close>

lemma provider_token_chars: "provider_token p \<Longrightarrow> c \<in> set p \<Longrightarrow> c \<noteq> CHR ''/'' \<and> c \<noteq> CHR ''[''"
  by (auto simp: provider_token_def letter_def lower_def is_digit_def list_all_iff split: list.splits)

lemma date_part_chars:
  assumes "date_part D" "c \<in> set D"
  shows "c \<notin> set ''/[.]''"
proof -
  obtain p where p: "p \<in> set date_patterns" "matches p D" using assms by (auto simp: date_part_def list_ex_iff)
  obtain i where "i < length D" "c = D ! i" using assms(2) by (metis in_set_conv_nth)
  then have "is_digit c \<or> c \<in> set p"
    using p(2) unfolding matches_nth by (metis nth_mem)
  then show ?thesis using p(1) by (auto simp: date_patterns_def is_digit_def)
qed

lemma js_index_of_first: "c \<notin> set p \<Longrightarrow> js_index_of c (p @ c # r) = Some (length p)"
  by (induction p) auto

lemma stripProvider_spelling:
  assumes "spelled k k'" "provider_part P" "date_part D" "tag_part T"
  shows "stripProvider (P @ k' @ D @ T) = k' @ D @ T"
proof (cases "P = []")
  case True
  let ?s = "k' @ D @ T"
  have no: "CHR ''/'' \<notin> set (k' @ D)"
    using spelled_facts(2) [OF assms(1)] date_part_chars [OF assms(3)] by auto
  have "\<not> provider_token (take i ?s)" if i: "js_index_of CHR ''/'' ?s = Some i" for i
  proof -
    have "i < length ?s" "?s ! i = CHR ''/''" using js_index_of_less [OF i] by auto
    moreover have "\<not> i < length (k' @ D)"
      using no calculation(2) by (metis append.assoc nth_append nth_mem)
    ultimately obtain j where j: "i = length (k' @ D) + j" "j < length T" "T ! j = CHR ''/''"
      by (metis add_diff_inverse_nat append.assoc length_append nat_add_left_cancel_less nth_append_length_plus)
    then obtain t where t: "T = CHR ''['' # t"
      using assms(4) by (cases T) (auto simp: tag_part_def context_tag_def)
    have "j \<noteq> 0" using j(3) t by (cases j) auto
    then have "take i ?s = k' @ D @ CHR ''['' # take (j - 1) t"
      using j(1) t by (simp add: take_Cons')
    then show ?thesis using provider_token_chars [of "take i ?s" "CHR ''[''"] by auto
  qed
  then show ?thesis using True by (auto simp: stripProvider_def split: option.splits)
next
  case False
  then obtain p where p: "provider_token p" "P = p @ ''/''" using assms(2) by (auto simp: provider_part_def)
  have "CHR ''/'' \<notin> set p" "p \<noteq> []" using p(1) provider_token_chars by (auto simp: provider_token_def)
  then show ?thesis using p by (simp add: stripProvider_def js_index_of_first)
qed

lemma starts_with_append_long: "length p \<le> length s \<Longrightarrow> starts_with (s @ r) p = starts_with s p"
  by (simp add: starts_with_def)

lemma starts_with_extend:
  assumes "starts_with s p"
  shows "starts_with (s @ r) p"
proof -
  have "length p \<le> length s" using assms by (metis length_take min.cobounded1 starts_with_def)
  then show ?thesis using assms starts_with_append_long by blast
qed

lemma starts_with_short: "length s \<le> length p \<Longrightarrow> starts_with (s @ r) p \<Longrightarrow> starts_with p s"
  unfolding starts_with_def by (metis append_eq_conv_conj min.absorb1 take_take)

lemma canonAnthropic_spelling:
  assumes "spelled k k'" "date_part D" "tag_part T"
  obtains T' where "canonAnthropic (k' @ D @ T) = k @ D @ T'" "tag_part T'" "T' = [] \<longleftrightarrow> T = []"
proof (cases "starts_with k' ''claude-''")
  case True
  let ?f = "\<lambda>c. if c = CHR ''.'' then CHR ''-'' else c"
  have "map ?f k' = k" using assms(1) True by (simp add: spelled_def canonAnthropic_def)
  moreover have "map ?f D = D"
    by (rule map_idI) (use date_part_chars [OF assms(2)] in auto)
  moreover have "starts_with (k' @ D @ T) ''claude-''"
    by (rule starts_with_extend [OF True])
  ultimately have "canonAnthropic (k' @ D @ T) = k @ D @ map ?f T" by (simp add: canonAnthropic_def)
  moreover have "tag_part (map ?f T)"
    using assms(3) by (auto simp: tag_part_def context_tag_def last_map map_butlast [symmetric] split: list.splits)
  ultimately show ?thesis using that by blast
next
  case False
  then have k: "k' = k" using assms(1) by (simp add: spelled_def canonAnthropic_def)
  have key: "map_of MODEL_PRICING k \<noteq> None" using assms(1) by (simp add: spelled_def)
  have "\<not> starts_with (k @ D @ T) ''claude-''"
    using False k table_key(5) [OF key] starts_with_append_long [of "''claude-''" k "D @ T"]
      starts_with_short [of k "''claude-''" "D @ T"] by (metis nat_le_linear)
  then have "canonAnthropic (k' @ D @ T) = k @ D @ T" using k by (simp add: canonAnthropic_def)
  then show ?thesis using assms(3) that by blast
qed

lemma stripContextTag_tag:
  assumes "CHR ''['' \<notin> set u" "tag_part T"
  shows "stripContextTag (u @ T) = u"
  using assms(1)
proof (induction u)
  case Nil
  then show ?case using assms(2) by (cases T) (auto simp: tag_part_def context_tag_def)
next
  case (Cons c u)
  then show ?case by (auto simp: context_tag_def)
qed

lemma bracket_not_dated:
  assumes "s \<noteq> []" "last s = CHR '']''"
  shows "\<not> dated_end s"
proof
  assume "dated_end s"
  then obtain p where p: "p \<in> set date_patterns" "suffix_matches s p" by (auto simp: dated_end_def)
  have ends: "p \<noteq> [] \<and> (last p = CHR ''#'' \<or> last p = CHR ''t'')" using p(1) by (auto simp: date_patterns_def)
  have "length p \<le> length s" using p(2) by (simp add: suffix_matches_def)
  then have i: "length p - 1 < length p" "length s - length p + (length p - 1) = length s - 1" using ends by (cases p; simp)+
  have "if last p = CHR ''#'' then is_digit (last s) else last s = last p"
    using suffix_matches_nth [OF p(2) i(1)] last_conv_nth [OF assms(1)] last_conv_nth [of p] ends
    unfolding i(2) by metis
  then show False using ends assms(2) by (auto simp: is_digit_def)
qed

lemma harmless_spelling:
  assumes "spelled k s" "map_of MODEL_PRICING k = Some pr" "provider_part P" "date_part D" "tag_part T"
  shows "harmless pr (P @ s @ D @ T)" "harmless pr (stripDate (P @ s @ D @ T))"
proof -
  let ?x = "P @ s @ D @ T"
  have "harmless pr ?x \<and> harmless pr (stripDate ?x)"
  proof (cases "T = []")
    case False
    then have "last ?x = CHR '']''" using assms(5) by (auto simp: tag_part_def context_tag_def split: list.splits)
    moreover have "?x \<noteq> []" using False by simp
    ultimately show ?thesis
      using harmless_bracket bracket_not_dated stripDate_id_iff by metis
  next
    case True
    show ?thesis
    proof (cases "D = []")
      case True
      then show ?thesis
        using \<open>T = []\<close> harmless_spelled [OF assms(1-3)] stripDate_spelled [OF assms(1,3)] by simp
    next
      case False
      then obtain p where p: "p \<in> set date_patterns" "matches p D"
        using assms(4) by (auto simp: date_part_def list_ex_iff)
      have "dated_end ?x" using p suffix_matches_end [OF p(2), of "P @ s"] True by (auto simp: dated_end_def)
      moreover have "stripDate ?x = P @ s" using stripDate_dated [OF p, of "P @ s"] True by simp
      ultimately show ?thesis using harmless_dated harmless_spelled [OF assms(1-3)] by simp
    qed
  qed
  then show "harmless pr ?x" "harmless pr (stripDate ?x)" by auto
qed

lemma candidates_spelling:
  assumes "spelled k k'" "map_of MODEL_PRICING k = Some pr" "provider_part P" "date_part D" "tag_part T"
  shows "\<forall>c \<in> set (canonicalCandidates (P @ k' @ D @ T)). harmless pr c"
    and "k \<in> set (canonicalCandidates (P @ k' @ D @ T))"
proof -
  have self: "spelled k k" using assms(1,2) by (auto simp: spelled_def intro: canonAnthropic_key)
  have empty: "provider_part []" "tag_part []" by (simp_all add: provider_part_def tag_part_def)
  obtain T' where T': "canonAnthropic (k' @ D @ T) = k @ D @ T'" "tag_part T'"
    using canonAnthropic_spelling [OF assms(1,4,5)] by metis
  have "CHR ''['' \<notin> set (k @ D)"
    using spelled_facts(3) [OF self] date_part_chars [OF assms(4)] by auto
  from stripContextTag_tag [OF this T'(2)] have tag: "stripContextTag (k @ D @ T') = k @ D" by simp
  note h = harmless_spelling [OF assms] harmless_spelling [OF assms(1,2) empty(1) assms(4,5)]
    harmless_spelling [OF self assms(2) empty(1) assms(4) T'(2)]
    harmless_spelling [OF self assms(2) empty(1) assms(4) empty(2)]
  have list: "set (canonicalCandidates (P @ k' @ D @ T)) = {c. c \<noteq> [] \<and> c \<in> {P @ k' @ D @ T, k' @ D @ T,
      k @ D @ T', k @ D, stripDate (P @ k' @ D @ T), stripDate (k' @ D @ T), stripDate (k @ D @ T'), stripDate (k @ D)}}"
    unfolding canonicalCandidates_def Let_def stripProvider_spelling [OF assms(1,3-5)] T'(1) tag
    by (simp only: set_js_set set_filter list.set) blast
  show "\<forall>c \<in> set (canonicalCandidates (P @ k' @ D @ T)). harmless pr c"
    unfolding list using h by auto
  have "stripDate (k @ D) = k"
  proof (cases "D = []")
    case True
    then show ?thesis using stripDate_spelled [OF self empty(1)] by simp
  next
    case False
    then show ?thesis using assms(4) stripDate_dated by (auto simp: date_part_def list_ex_iff)
  qed
  moreover have "k \<noteq> []" using spelled_facts(4) [OF self] .
  ultimately show "k \<in> set (canonicalCandidates (P @ k' @ D @ T))" unfolding list by simp
qed

lemma resolvePricing_spelling:
  assumes "spelled k k'" "map_of MODEL_PRICING k = Some pr" "provider_part P" "date_part D" "tag_part T"
  shows "resolvePricing st (P @ k' @ D @ T) provider = Some pr"
proof -
  let ?m = "P @ k' @ D @ T"
  note c = candidates_spelling [OF assms]
  let ?cs = "pricingCandidates ?m provider"
  have "\<forall>x \<in> set ?cs. map_of MODEL_PRICING x \<in> {None, Some pr}"
    using c(1) by (auto simp: pricingCandidates_def Let_def harmless_def)
  moreover have "k \<in> set ?cs" using c(2) by (simp add: pricingCandidates_def Let_def)
  ultimately have "first_hit (map_of MODEL_PRICING) ?cs = Some pr"
    using first_hit_harmless [of ?cs "map_of MODEL_PRICING" pr] assms(2) by auto
  moreover have "?m \<noteq> []" using spelled_facts(4) [OF assms(1)] by simp
  ultimately show ?thesis by (simp add: resolvePricing_def Let_def)
qed

section \<open>Generic names\<close>

lemma generic_keys:
  "list_all (\<lambda>k. starts_with k ''cursor/'' \<longrightarrow> canonicalCandidates (drop 7 k) = [drop 7 k]) (map fst MODEL_PRICING)"
  unfolding MODEL_PRICING_def list.map fst_conv by code_simp

text \<open>A generic name is priced by the table only for the provider it is listed under.\<close>

lemma generic_model:
  assumes "map_of MODEL_PRICING (''cursor'' @ ''/'' @ g) = Some pr"
  shows "normalizeProvider provider = ''cursor'' \<Longrightarrow> resolvePricing st g provider = Some pr"
    and "normalizeProvider provider \<noteq> ''cursor'' \<Longrightarrow>
      resolvePricing st g provider = first_hit (getCustomPricing st) (pricingCandidates g provider)"
proof -
  have key: "''cursor/'' @ g \<in> set (map fst MODEL_PRICING)"
    using assms by (metis append.assoc append_Cons append_Nil map_of_eq_None_iff option.distinct(1) set_map)
  have start: "starts_with (''cursor/'' @ g) ''cursor/''" by (rule starts_with_append)
  have drop: "drop 7 (''cursor/'' @ g) = g" by simp
  have cand: "canonicalCandidates g = [g]"
    using generic_keys key start unfolding list_all_iff by (metis drop)
  have "[] \<notin> set (canonicalCandidates g)"
    unfolding canonicalCandidates_def Let_def set_js_set set_filter by blast
  then have "g \<noteq> []" by (simp add: cand)
  have slash: "CHR ''/'' \<notin> set g" "g \<notin> set (map fst MODEL_PRICING)"
    using table_key_slash(2,4) [OF key] unfolding drop by auto
  have bare: "map_of MODEL_PRICING g = None" using slash(2) by (simp add: map_of_eq_None_iff)
  have q: "qualify q g = q @ CHR ''/'' # g" for q
    using slash(1) by (auto simp: qualify_def starts_with_def dest: in_set_takeD)
      (metis in_set_conv_decomp in_set_takeD)
  show "normalizeProvider provider = ''cursor'' \<Longrightarrow> resolvePricing st g provider = Some pr"
    using assms \<open>g \<noteq> []\<close> by (simp add: resolvePricing_def pricingCandidates_def cand q Let_def)
  assume other: "normalizeProvider provider \<noteq> ''cursor''"
  then have "map_of MODEL_PRICING (normalizeProvider provider @ CHR ''/'' # g) = None"
    using table_key_qualified(1) [OF _ slash(1)] by blast
  then have "first_hit (map_of MODEL_PRICING) (pricingCandidates g provider) = None"
    by (simp add: pricingCandidates_def cand q bare Let_def)
  then show "resolvePricing st g provider = first_hit (getCustomPricing st) (pricingCandidates g provider)"
    using \<open>g \<noteq> []\<close> by (simp add: resolvePricing_def Let_def)
qed

section \<open>The user's prices\<close>

text \<open>The key under which an unpriced row is reported is among the keys by which it is looked up.\<close>

lemma pricingKey_candidate: "model \<noteq> [] \<Longrightarrow> pricingKey model provider \<in> set (pricingCandidates model provider)"
  by (auto simp: pricingKey_def pricingCandidates_def canonicalCandidates_def Let_def)

lemma first_hit_None: "first_hit look xs = None \<longleftrightarrow> (\<forall>x \<in> set xs. look x = None)"
  by (induction xs) (auto split: option.splits)

lemma isModelPriced_custom:
  assumes "model \<noteq> []" "getCustomPricing st (pricingKey model provider) \<noteq> None"
  shows "isModelPriced st model provider"
proof -
  have "first_hit (getCustomPricing st) (pricingCandidates model provider) \<noteq> None"
    using pricingKey_candidate [OF assms(1)] assms(2) by (auto simp: first_hit_None)
  then show ?thesis using assms(1) by (auto simp: isModelPriced_def resolvePricing_def Let_def split: option.splits)
qed

lemma getCustomPricing_set:
  "getCustomPricing (setCustomPricing m p st) k = (if k = m then Some p else getCustomPricing st k)"
  by (simp add: getCustomPricing_def setCustomPricing_def js_get_put)

lemma getCustomPricing_fold:
  "getCustomPricing (fold (\<lambda>k. setCustomPricing k (rate k)) ks st) k =
     (if k \<in> set ks then Some (rate k) else getCustomPricing st k)"
  by (induction ks arbitrary: st) (auto simp: getCustomPricing_set)

text \<open>A price of the table stays, whatever the user enters; and more entries price more models.\<close>

lemma resolvePricing_table:
  "first_hit (map_of MODEL_PRICING) (pricingCandidates model provider) = Some pr \<Longrightarrow> model \<noteq> [] \<Longrightarrow>
    resolvePricing st model provider = Some pr"
  by (simp add: resolvePricing_def Let_def)

lemma isModelPriced_mono:
  assumes "\<And>k. getCustomPricing st k \<noteq> None \<Longrightarrow> getCustomPricing st' k \<noteq> None" "isModelPriced st model provider"
  shows "isModelPriced st' model provider"
proof -
  have "first_hit (getCustomPricing st) cs \<noteq> None \<Longrightarrow> first_hit (getCustomPricing st') cs \<noteq> None" for cs
    unfolding first_hit_None using assms(1) by blast
  then show ?thesis using assms(2)
    by (auto simp: isModelPriced_def resolvePricing_def Let_def split: option.splits if_splits)
qed

lemma set_collectUnmappedModels:
  "set (collectUnmappedModels st rows) = {pricingKey (use_model r) (use_provider r) |r.
     r \<in> set rows \<and> use_model r \<noteq> [] \<and> \<not> isModelPriced st (use_model r) (use_provider r)}"
  by (auto simp: collectUnmappedModels_def)

lemma collectUnmappedModels_entered:
  assumes "set (collectUnmappedModels st rows) \<subseteq> set ks"
  shows "collectUnmappedModels (fold (\<lambda>k. setCustomPricing k (rate k)) ks st) rows = []"
proof -
  let ?st = "fold (\<lambda>k. setCustomPricing k (rate k)) ks st"
  have "isModelPriced ?st (use_model r) (use_provider r)" if r: "r \<in> set rows" "use_model r \<noteq> []" for r
  proof (cases "isModelPriced st (use_model r) (use_provider r)")
    case True
    then show ?thesis by (rule isModelPriced_mono [rotated]) (simp add: getCustomPricing_fold)
  next
    case False
    then have "pricingKey (use_model r) (use_provider r) \<in> set ks"
      using assms r by (auto simp: set_collectUnmappedModels)
    then show ?thesis using r(2) by (intro isModelPriced_custom) (auto simp: getCustomPricing_fold)
  qed
  then have "set (collectUnmappedModels ?st rows) = {}" unfolding set_collectUnmappedModels by blast
  then show ?thesis by simp
qed

text \<open>The reported keys are in order and not repeated.\<close>

lemma compare_text_le: "cmp_le compare_text a b \<longleftrightarrow> a = b \<or> str_less a b"
  using str_less_total [of a b] str_less_trans [of a b a] by (auto simp: cmp_le_def compare_text_def)

lemma collectUnmappedModels_sorted:
  "sorted_wrt str_less (collectUnmappedModels st rows)"
proof -
  let ?ks = "js_set (map (\<lambda>r. pricingKey (use_model r) (use_provider r))
    (filter (\<lambda>r. use_model r \<noteq> [] \<and> \<not> isModelPriced st (use_model r) (use_provider r)) rows))"
  have "sorted_wrt (cmp_le compare_text) (js_sort compare_text ?ks)"
  proof (rule sorted_js_sort)
    show "distinct ?ks" by simp
    show "cmp_le compare_text a b \<or> cmp_le compare_text b a" for a b
      using str_less_total by (auto simp: compare_text_le)
    show "cmp_le compare_text a b \<Longrightarrow> cmp_le compare_text b c \<Longrightarrow> cmp_le compare_text a c" for a b c
      by (metis compare_text_le str_less_trans)
  qed
  moreover have "distinct (js_sort compare_text ?ks)"
    by (simp only: mset_eq_imp_distinct_iff [OF mset_js_sort] distinct_js_set)
  ultimately show ?thesis
    unfolding collectUnmappedModels_def by (rule sorted_wrt_strict) (simp add: compare_text_le)
qed

section \<open>Properties\<close>

text \<open>
  C34. A model of the price table is found under every spelling the agents report: behind any
  provider prefix, with a dated snapshot or \<open>-latest\<close>, with a tag of the context window, with dots
  for dashes in a Claude model, whatever provider the row names and whatever the user has entered.
  A generic name is priced by the table for its own provider and for no other.
\<close>
theorem pricing_tolerant:
  assumes "spelled k k'" "provider_part P" "date_part D" "tag_part T"
  shows "resolvePricing st (P @ k' @ D @ T) provider = map_of MODEL_PRICING k
    \<and> (\<forall>g pr p. map_of MODEL_PRICING (''cursor'' @ ''/'' @ g) = Some pr \<longrightarrow>
        (if normalizeProvider p = ''cursor'' then resolvePricing st g p = Some pr
         else resolvePricing st g p = first_hit (getCustomPricing st) (pricingCandidates g p)))"
proof -
  obtain pr where pr: "map_of MODEL_PRICING k = Some pr" using assms(1) by (auto simp: spelled_def)
  show ?thesis using resolvePricing_spelling [OF assms(1) pr assms(2-4)] pr by (auto simp: generic_model)
qed

lemma pricing_tolerant_witness:
  "resolvePricing \<lparr>cps_pricings = []\<rparr> ''anthropic/claude-opus-4.7-20250929[1m]'' (Some ''claude'')
    = map_of MODEL_PRICING ''claude-opus-4-7''"
proof -
  have key: "''claude-opus-4-7'' \<in> set (map fst MODEL_PRICING)"
    unfolding MODEL_PRICING_def list.map fst_conv by code_simp
  have "canonAnthropic ''claude-opus-4.7'' = ''claude-opus-4-7''" by code_simp
  with key have s: "spelled ''claude-opus-4-7'' ''claude-opus-4.7''"
    by (simp add: spelled_def map_of_eq_None_iff)
  have "provider_token ''anthropic''" by code_simp
  then have p: "provider_part ''anthropic/''" by (auto simp: provider_part_def intro!: exI [of _ "''anthropic''"])
  have d: "date_part ''-20250929''" "tag_part ''[1m]''" by code_simp+
  show ?thesis
    using pricing_tolerant [OF s p d, of "\<lparr>cps_pricings = []\<rparr>" "Some ''claude''"] by simp
qed

text \<open>
  C35. The pricing dialog closes every gap it reports.  The reported keys are sorted and not
  repeated, and nothing is reported exactly when every named model has a price; once the user has
  entered a rate for each reported key, nothing is reported any more, a row that the table prices
  keeps its price, and the other keys keep the rates they had.
\<close>
theorem custom_prices_complete:
  "let st' = fold (\<lambda>k. setCustomPricing k (rate k)) (collectUnmappedModels st rows) st
   in sorted_wrt str_less (collectUnmappedModels st rows)
    \<and> (collectUnmappedModels st rows = [] \<longleftrightarrow>
        list_all (\<lambda>r. use_model r = [] \<or> isModelPriced st (use_model r) (use_provider r)) rows)
    \<and> collectUnmappedModels st' rows = []
    \<and> (\<forall>model provider pr. model \<noteq> []
        \<and> first_hit (map_of MODEL_PRICING) (pricingCandidates model provider) = Some pr \<longrightarrow>
        resolvePricing st' model provider = Some pr)
    \<and> (\<forall>k. k \<notin> set (collectUnmappedModels st rows) \<longrightarrow> getCustomPricing st' k = getCustomPricing st k)"
proof -
  have "collectUnmappedModels st rows = [] \<longleftrightarrow> set (collectUnmappedModels st rows) = {}" by simp
  then have "collectUnmappedModels st rows = [] \<longleftrightarrow>
      list_all (\<lambda>r. use_model r = [] \<or> isModelPriced st (use_model r) (use_provider r)) rows"
    unfolding set_collectUnmappedModels list_all_iff by blast
  then show ?thesis
    by (simp add: Let_def collectUnmappedModels_sorted collectUnmappedModels_entered getCustomPricing_fold resolvePricing_table)
qed

definition example_row :: "string \<Rightarrow> string option \<Rightarrow> priceable" where
  "example_row model provider =
     \<lparr>use_model = model, use_provider = provider, use_input_tokens = 1000, use_output_tokens = 200,
      use_cache_read_tokens = 0, use_cache_write_tokens = 0\<rparr>"

lemma example_unmapped:
  "collectUnmappedModels \<lparr>cps_pricings = []\<rparr> [example_row ''auto'' (Some ''Acme''), example_row ''gpt-5'' None,
     example_row ''auto'' None] = [''acme/auto'', ''auto'']"
  unfolding collectUnmappedModels_def isModelPriced_def resolvePricing_def MODEL_PRICING_def by code_simp

lemma custom_prices_complete_witness:
  "collectUnmappedModels
     (fold (\<lambda>k. setCustomPricing k (price 1 2 0 0)) [''acme/auto'', ''auto''] \<lparr>cps_pricings = []\<rparr>)
     [example_row ''auto'' (Some ''Acme''), example_row ''gpt-5'' None, example_row ''auto'' None] = []"
  using custom_prices_complete [of "\<lambda>_. price 1 2 0 0" "\<lparr>cps_pricings = []\<rparr>"
      "[example_row ''auto'' (Some ''Acme''), example_row ''gpt-5'' None, example_row ''auto'' None]"]
  by (simp add: Let_def example_unmapped)

end
