(* ===== verification/Iso_Day.thy ===== *)
theory Iso_Day
  imports Js_Number Js_Sort Date_Only
begin

text \<open>
  Calendar arithmetic on \<open>YYYY-MM-DD\<close> strings: the calendar helpers of
  \<open>packages/views/runtimes/utils.ts\<close>.  A time value that may be invalid is an \<open>option\<close>; where the code
  calls \<open>toISOString\<close> on an invalid date it raises, and the result is \<open>None\<close>.
\<close>

section \<open>Operations\<close>

text \<open>\<open>iso.split("-").map(Number)\<close> with the defaults for missing pieces.\<close>

definition iso_parts :: "string \<Rightarrow> jnum \<times> jnum \<times> jnum" where
  "iso_parts s =
     (let ps = map js_number (js_split CHR ''-'' s);
          part = (\<lambda>i default. if i < length ps then ps ! i else Fin default)
      in (part 0 1970, part 1 1, part 2 1))"

text \<open>Time values beyond 100,000,000 days around 1970 are invalid.\<close>

definition time_clip :: "int \<Rightarrow> int option" where
  "time_clip t = (if \<bar>t\<bar> \<le> 8640000000000000 then Some t else None)"

fun utc_value :: "jnum \<times> jnum \<times> jnum \<Rightarrow> int option" where
  "utc_value (Fin y, Fin m, Fin d) = time_clip (date_UTC (trunc y) (trunc (m - 1)) (trunc d))"
| "utc_value _ = None"

text \<open>\<open>new Date(Date.UTC(y, m - 1, d))\<close> of a string.\<close>

definition utc_of_iso :: "string \<Rightarrow> int option" where
  "utc_of_iso s = utc_value (iso_parts s)"

definition pad_to :: "nat \<Rightarrow> int \<Rightarrow> string" where
  "pad_to n k = (let s = js_int_string k in replicate (n - length s) CHR ''0'' @ s)"

definition iso_year :: "int \<Rightarrow> string" where
  "iso_year y =
     (if 0 \<le> y \<and> y \<le> 9999 then pad_to 4 y
      else (if y < 0 then ''-'' else ''+'') @ pad_to 6 \<bar>y\<bar>)"

text \<open>\<open>dt.toISOString().slice(0, 10)\<close>: the time of day starts after the tenth character.\<close>

definition iso_text :: "int \<Rightarrow> string" where
  "iso_text t = (case civil_from_day (t div ms_per_day) of
     (y, m, d) \<Rightarrow> take 10 (iso_year y @ ''-'' @ pad m @ ''-'' @ pad d))"

text \<open>\<open>dt.setUTCDate(dt.getUTCDate() + days)\<close>.\<close>

definition shift_days :: "int \<Rightarrow> int \<Rightarrow> int option" where
  "shift_days t days = (case utc_fields t of (_, _, d) \<Rightarrow> time_clip (utc_set_date t (d + days)))"

definition addDaysIso :: "string \<Rightarrow> int \<Rightarrow> string option" where
  "addDaysIso s days =
     map_option iso_text (Option.bind (utc_of_iso s) (\<lambda>dt. shift_days dt days))"

definition getUTCDay :: "int \<Rightarrow> int" where
  "getUTCDay t = (t div ms_per_day + 4) mod 7"

definition weekStartIso :: "string \<Rightarrow> string option" where
  "weekStartIso s =
     map_option iso_text (Option.bind (utc_of_iso s)
       (\<lambda>dt. let offset = (getUTCDay dt + 6) mod 7 in shift_days dt (- offset)))"

definition diffDaysIso :: "string \<Rightarrow> string \<Rightarrow> jnum" where
  "diffDaysIso from_day to_day =
     (case (utc_of_iso from_day, utc_of_iso to_day) of
        (Some a, Some b) \<Rightarrow> Fin (of_int (js_round (of_int (b - a) / 86400000)))
      | _ \<Rightarrow> NaN)"

definition month_names :: "string list" where
  "month_names = [''Jan'', ''Feb'', ''Mar'', ''Apr'', ''May'', ''Jun'', ''Jul'', ''Aug'', ''Sep'', ''Oct'', ''Nov'', ''Dec'']"

definition formatShortDate :: "string \<Rightarrow> string" where
  "formatShortDate s =
     (case utc_of_iso s of
        None \<Rightarrow> ''Invalid Date''
      | Some dt \<Rightarrow> (case utc_fields dt of (_, m, d) \<Rightarrow> month_names ! nat m @ '' '' @ js_int_string d))"

section \<open>Days with a year of four digits\<close>

definition day_text :: "int \<Rightarrow> string" where
  "day_text k = (case civil_from_day k of (y, m, d) \<Rightarrow> day_string y m d)"

text \<open>The days from 1000-01-06, a Monday, to 9999-12-31.\<close>

definition usual_day :: "int \<Rightarrow> bool" where
  "usual_day k \<longleftrightarrow> -354280 \<le> k \<and> k \<le> 2932896"

lemma usual_day_year:
  assumes "usual_day k" "civil_from_day k = (y, m, d)"
  shows "1000 \<le> y" "y \<le> 9999"
proof -
  note c = civil_from_day_civil [OF assms(2)]
  note r = civil_in_year [OF c(1)]
  have ends: "day_from_year 1000 = -354285" "day_from_year 10000 = 2932897" by (simp_all add: day_from_year_def)
  show "1000 \<le> y"
  proof (rule ccontr)
    assume "\<not> 1000 \<le> y"
    then have "day_from_year (y + 1) \<le> day_from_year 1000" by (intro day_from_year_le) simp
    then show False using r(2) c(2) assms(1) ends by (simp add: usual_day_def day_from_year_Suc)
  qed
  show "y \<le> 9999"
  proof (rule ccontr)
    assume "\<not> y \<le> 9999"
    then have "day_from_year 10000 \<le> day_from_year y" by (intro day_from_year_le) simp
    then show False using r(1) c(2) assms(1) ends by (simp add: usual_day_def)
  qed
qed

lemma civil_small: "civil y m d \<Longrightarrow> 0 \<le> m \<and> m \<le> 99 \<and> 0 \<le> d \<and> d \<le> 99"
  using month_cases [of m] by (auto simp: civil_def month_length_def days_before_month_def split: if_splits)

text \<open>A day string is three runs of digits.\<close>

lemma day_string_pieces:
  assumes "1000 \<le> y" "y \<le> 9999" "civil y m d"
  obtains a b c where "day_string y m d = a @ ''-'' @ b @ ''-'' @ c"
    "list_all is_digit a" "list_all is_digit b" "list_all is_digit c"
    "length a = 4" "length b = 2" "length c = 2" "num a = y" "num b = m" "num c = d"
proof -
  have md: "0 \<le> m" "m \<le> 99" "0 \<le> d" "d \<le> 99" using civil_small [OF assms(3)] by auto
  show thesis
  proof (rule that)
    show "day_string y m d = nat_digits (nat y) @ ''-'' @ pad m @ ''-'' @ pad d"
      using assms(1) by (simp add: day_string_def js_int_string_def)
    show "length (nat_digits (nat y)) = 4" using assms by (intro nat_digits_length_4) auto
    show "num (nat_digits (nat y)) = y" using assms(1) by (simp add: num_nat_digits)
  qed (rule nat_digits_digits pad_spec [OF md(1,2)] pad_spec [OF md(3,4)])+
qed

lemma no_dash: "list_all is_digit s \<Longrightarrow> CHR ''-'' \<notin> set s"
proof -
  have "\<not> is_digit CHR ''-''" by (simp add: is_digit_def)
  then show "list_all is_digit s \<Longrightarrow> CHR ''-'' \<notin> set s" by (auto simp: list_all_iff)
qed

lemma iso_parts_day:
  assumes "1000 \<le> y" "y \<le> 9999" "civil y m d"
  shows "iso_parts (day_string y m d) = (Fin (of_int y), Fin (of_int m), Fin (of_int d))"
proof -
  obtain a b c where p: "day_string y m d = a @ ''-'' @ b @ ''-'' @ c"
    "list_all is_digit a" "list_all is_digit b" "list_all is_digit c"
    "length a = 4" "length b = 2" "length c = 2" "num a = y" "num b = m" "num c = d"
    using day_string_pieces [OF assms] .
  have pieces: "js_split CHR ''-'' (day_string y m d) = [a, b, c]"
    unfolding p(1) by (simp add: js_split_sep js_split_no_sep no_dash p(2-4))
  have ne: "a \<noteq> []" "b \<noteq> []" "c \<noteq> []" using p(5-7) by auto
  show ?thesis
    using js_number_digits [OF p(2) ne(1)] js_number_digits [OF p(3) ne(2)] js_number_digits [OF p(4) ne(3)]
    by (simp add: iso_parts_def pieces p(8-10) Let_def)
qed

lemma trunc_int [simp]: "trunc (of_int n) = n" "trunc (of_int n - 1) = n - 1"
proof -
  have "trunc (of_int k) = k" for k by (simp add: trunc_def)
  from this [of n] this [of "n - 1"] show "trunc (of_int n) = n" "trunc (of_int n - 1) = n - 1" by simp_all
qed

lemma time_clip_usual: "usual_day k \<Longrightarrow> time_clip (k * ms_per_day) = Some (k * ms_per_day)"
  by (auto simp: time_clip_def usual_day_def ms_per_day_def)

lemma utc_of_iso_day:
  assumes "usual_day k"
  shows "utc_of_iso (day_text k) = Some (k * ms_per_day)"
proof -
  obtain y m d where c: "civil_from_day k = (y, m, d)" by (metis prod_cases3)
  note y = usual_day_year [OF assms c] and civil = civil_from_day_civil [OF c]
  have "date_UTC y (m - 1) d = k * ms_per_day" using y civil(2) by (simp add: date_UTC_def)
  then show ?thesis
    using iso_parts_day [OF y civil(1)] time_clip_usual [OF assms] c
    by (simp add: utc_of_iso_def day_text_def)
qed

lemma iso_text_day:
  assumes "usual_day k"
  shows "iso_text (k * ms_per_day) = day_text k"
proof -
  obtain y m d where c: "civil_from_day k = (y, m, d)" by (metis prod_cases3)
  note y = usual_day_year [OF assms c] and civil = civil_from_day_civil [OF c]
  have len: "length (nat_digits (nat y)) = 4" using y by (intro nat_digits_length_4) auto
  then have "iso_year y = js_int_string y" using y by (simp add: iso_year_def pad_to_def js_int_string_def Let_def)
  moreover have "length (day_string y m d) = 10"
    by (rule day_string_pieces [OF y civil(1)]) simp
  moreover have "k * ms_per_day div ms_per_day = k" by (simp add: ms_per_day_def)
  ultimately show ?thesis by (simp add: iso_text_def day_text_def c day_string_def)
qed

lemma shift_days_day:
  assumes "usual_day (k + n)"
  shows "shift_days (k * ms_per_day) n = Some ((k + n) * ms_per_day)"
proof -
  obtain y m d where c: "civil_from_day k = (y, m, d)" by (metis prod_cases3)
  have u: "utc_fields (k * ms_per_day) = (y, m - 1, d)" by (simp add: utc_fields_def c ms_per_day_def)
  have "make_day y (m - 1) (d + n) = k + n"
    using civil_from_day_civil(2) [OF c] by (simp add: make_day_def Let_def)
  then show ?thesis using time_clip_usual [OF assms]
    by (simp add: shift_days_def utc_set_date_def u)
qed

lemma addDaysIso_day:
  assumes "usual_day k" "usual_day (k + n)"
  shows "addDaysIso (day_text k) n = Some (day_text (k + n))"
  using assms by (simp add: addDaysIso_def utc_of_iso_day shift_days_day iso_text_day)

text \<open>The Monday of a day's week; day \<open>0\<close> was a Thursday.\<close>

definition monday :: "int \<Rightarrow> int" where
  "monday k = k - (k + 3) mod 7"

lemma monday_div: "monday k = 7 * ((k + 3) div 7) - 3"
  unfolding monday_def using mult_div_mod_eq [of 7 "k + 3"] by linarith

lemma usual_day_monday:
  assumes "usual_day k"
  shows "usual_day (monday k)"
proof -
  have "(-354277) div 7 \<le> (k + 3) div 7"
    by (rule zdiv_mono1) (use assms in \<open>simp_all add: usual_day_def\<close>)
  moreover have "monday k \<le> k" by (simp add: monday_def)
  ultimately show ?thesis using assms by (simp add: usual_day_def monday_div)
qed

lemma monday_iff: "monday k = w \<longleftrightarrow> monday w = w \<and> w \<le> k \<and> k < w + 7"
proof
  assume m: "monday k = w"
  then have "w + 3 = 7 * ((k + 3) div 7)" by (simp add: monday_div)
  then have "(w + 3) div 7 = (k + 3) div 7" by simp
  then have "monday w = w" using m by (simp add: monday_div)
  moreover have "0 \<le> (k + 3) mod 7" "(k + 3) mod 7 < 7" by simp_all
  ultimately show "monday w = w \<and> w \<le> k \<and> k < w + 7" using m unfolding monday_def [of k] by linarith
next
  assume w: "monday w = w \<and> w \<le> k \<and> k < w + 7"
  then have "k + 3 = 7 * ((w + 3) div 7) + (k - w)" by (simp add: monday_div)
  from int_div_pos_eq [OF this] w have "(k + 3) div 7 = (w + 3) div 7" by simp
  then show "monday k = w" using w by (simp add: monday_div)
qed

lemma weekStartIso_day:
  assumes "usual_day k"
  shows "weekStartIso (day_text k) = Some (day_text (monday k))"
proof -
  have "usual_day (monday k)" by (rule usual_day_monday [OF assms])
  moreover have "(getUTCDay (k * ms_per_day) + 6) mod 7 = (k + 3) mod 7"
    by (simp add: getUTCDay_def ms_per_day_def) presburger
  ultimately show ?thesis
    using assms shift_days_day [of k "- ((k + 3) mod 7)"]
    by (simp add: weekStartIso_def utc_of_iso_day monday_def iso_text_day Let_def)
qed

lemma diffDaysIso_day:
  assumes "usual_day j" "usual_day k"
  shows "diffDaysIso (day_text j) (day_text k) = Fin (of_int (k - j))"
proof -
  have "k * ms_per_day - j * ms_per_day = (k - j) * 86400000" by (simp add: ms_per_day_def left_diff_distrib)
  then have "(of_int (k * ms_per_day - j * ms_per_day) :: rat) / 86400000 = of_int (k - j)"
    by (simp only: of_int_mult of_int_numeral) simp
  then show ?thesis
    using utc_of_iso_day [OF assms(1)] utc_of_iso_day [OF assms(2)] js_round_int [of "k - j"]
    by (simp only: diffDaysIso_def prod.case option.case)
qed

section \<open>The order of day strings\<close>

lemma str_less_append:
  "length s = length t \<Longrightarrow> str_less (s @ u) (t @ v) \<longleftrightarrow> str_less s t \<or> (s = t \<and> str_less u v)"
proof (induction s t rule: list_induct2)
  case (Cons x xs y ys)
  then show ?case by auto
qed simp

lemma digit_val_less: "is_digit c \<Longrightarrow> is_digit d \<Longrightarrow> digit_val c < digit_val d \<longleftrightarrow> (of_char c :: nat) < of_char d"
  by (simp add: digit_val_def)

lemma digit_val_range: "is_digit c \<Longrightarrow> 0 \<le> digit_val c \<and> digit_val c \<le> 9"
  by (auto simp: is_digit_def digit_val_def)

lemma str_less_snoc1: "str_less [c] [d] \<longleftrightarrow> (of_char c :: nat) < of_char d"
  by simp

text \<open>Digit strings of equal length are ordered as numbers.\<close>

lemma str_less_digits:
  assumes "length s = length t" "list_all is_digit s" "list_all is_digit t"
  shows "str_less s t \<longleftrightarrow> num s < num t" "s = t \<longleftrightarrow> num s = num t"
proof -
  have "(str_less s t \<longleftrightarrow> num s < num t) \<and> (s = t \<longleftrightarrow> num s = num t)"
    using assms
  proof (induction s arbitrary: t rule: rev_induct)
    case (snoc c s)
    then obtain t' d where t: "t = t' @ [d]" "length t' = length s" by (cases t rule: rev_cases) auto
    have dig: "is_digit c" "is_digit d" and all: "list_all is_digit s" "list_all is_digit t'"
      using snoc.prems t by auto
    have IH: "str_less s t' \<longleftrightarrow> num s < num t'" "s = t' \<longleftrightarrow> num s = num t'"
      using snoc.IH [of t'] t(2) all by auto
    have eq: "digit_val c = digit_val d \<longleftrightarrow> c = d" by (simp add: digit_val_def)
    have less: "str_less (s @ [c]) (t' @ [d]) \<longleftrightarrow> num s < num t' \<or> (num s = num t' \<and> digit_val c < digit_val d)"
      using str_less_append [of s t' "[c]" "[d]"] t(2) IH digit_val_less [OF dig] by simp
    show ?case
      unfolding t(1) less num_snoc append_eq_append_conv2
      using digit_val_range [OF dig(1)] digit_val_range [OF dig(2)] IH(2) eq by auto
  qed simp
  then show "str_less s t \<longleftrightarrow> num s < num t" "s = t \<longleftrightarrow> num s = num t" by auto
qed

text \<open>Days of four-digit years are ordered as their strings.\<close>

lemma day_text_less:
  assumes "usual_day j" "usual_day k"
  shows "str_less (day_text j) (day_text k) \<longleftrightarrow> j < k"
proof -
  obtain y m d where c: "civil_from_day j = (y, m, d)" by (metis prod_cases3)
  obtain y' m' d' where c': "civil_from_day k = (y', m', d')" by (metis prod_cases3)
  note y = usual_day_year [OF assms(1) c] and y' = usual_day_year [OF assms(2) c']
  note civil = civil_from_day_civil [OF c] and civil' = civil_from_day_civil [OF c']
  obtain a b e where p: "day_string y m d = a @ ''-'' @ b @ ''-'' @ e"
    "list_all is_digit a" "list_all is_digit b" "list_all is_digit e"
    "length a = 4" "length b = 2" "length e = 2" "num a = y" "num b = m" "num e = d"
    using day_string_pieces [OF y civil(1)] .
  obtain a' b' e' where p': "day_string y' m' d' = a' @ ''-'' @ b' @ ''-'' @ e'"
    "list_all is_digit a'" "list_all is_digit b'" "list_all is_digit e'"
    "length a' = 4" "length b' = 2" "length e' = 2" "num a' = y'" "num b' = m'" "num e' = d'"
    using day_string_pieces [OF y' civil'(1)] .
  have "str_less (day_text j) (day_text k) \<longleftrightarrow>
      str_less a a' \<or> (a = a' \<and> (str_less b b' \<or> (b = b' \<and> str_less e e')))"
    using p(5,6) p'(5,6) by (simp add: day_text_def c c' p(1) p'(1) str_less_append)
  also have "\<dots> \<longleftrightarrow> y < y' \<or> (y = y' \<and> (m < m' \<or> (m = m' \<and> d < d')))"
    using p(5-7) p'(5-7) by (simp only: str_less_digits [OF _ p(2) p'(2)] str_less_digits [OF _ p(3) p'(3)]
        str_less_digits [OF _ p(4) p'(4)] p(8-10) p'(8-10))
  also have "\<dots> \<longleftrightarrow> j < k"
    using make_day_less [OF civil(1) civil'(1)] civil(2) civil'(2) by simp
  finally show ?thesis .
qed

lemma day_text_inject: "usual_day j \<Longrightarrow> usual_day k \<Longrightarrow> day_text j = day_text k \<longleftrightarrow> j = k"
  using day_text_less [of j k] day_text_less [of k j] by (metis not_less_iff_gr_or_eq str_less_irrefl)

end
