(* ===== verification/Usage.thy ===== *)
theory Usage
  imports Model_Pricing Iso_Day
begin

text \<open>
  The usage figures of \<open>packages/views/runtimes/utils.ts\<close>: rows of tokens per day, model and agent are
  folded into days, weeks, models and agents, and cut into windows.  \<open>localeCompare\<close> orders the days;
  \<open>local_day\<close> gives month and day of \<open>new Date(s)\<close> in the viewer's calendar; \<open>today_in\<close> is the day
  that \<open>Intl.DateTimeFormat\<close> prints for a time zone.  An operation that raises on a date it cannot
  print is \<open>None\<close>.
\<close>

section \<open>Rows\<close>

record dated_usage = priceable +
  use_date :: string

record runtime_usage = dated_usage +
  rus_runtime_id :: string

record usage_by_agent = priceable +
  uba_agent_id :: string
  uba_task_count :: rat

section \<open>Figures of a bucket\<close>

text \<open>The sums of a day or a week; \<open>tks_key\<close> is its date or the first day of the week.\<close>

record token_sums =
  tks_key :: string
  tks_input :: rat
  tks_output :: rat
  tks_cacheRead :: rat
  tks_cacheWrite :: rat

definition zero_tokens :: "string \<Rightarrow> token_sums" where
  "zero_tokens k = \<lparr>tks_key = k, tks_input = 0, tks_output = 0, tks_cacheRead = 0, tks_cacheWrite = 0\<rparr>"

definition add_tokens :: "'a priceable_scheme \<Rightarrow> token_sums \<Rightarrow> token_sums" where
  "add_tokens u b = b\<lparr>tks_input := tks_input b + use_input_tokens u,
     tks_output := tks_output b + use_output_tokens u,
     tks_cacheRead := tks_cacheRead b + use_cache_read_tokens u,
     tks_cacheWrite := tks_cacheWrite b + use_cache_write_tokens u\<rparr>"

record cost_sums =
  cst_input :: rat
  cst_output :: rat
  cst_cacheWrite :: rat

definition zero_costs :: cost_sums where
  "zero_costs = \<lparr>cst_input = 0, cst_output = 0, cst_cacheWrite = 0\<rparr>"

definition add_costs :: "custom_pricing_state \<Rightarrow> 'a priceable_scheme \<Rightarrow> cost_sums \<Rightarrow> cost_sums" where
  "add_costs st u s =
     (let b = estimateCostBreakdown st u
      in s\<lparr>cst_input := cst_input s + cbd_input b, cst_output := cst_output s + cbd_output b,
           cst_cacheWrite := cst_cacheWrite s + cbd_cacheWrite b\<rparr>)"

definition row_tokens :: "'a priceable_scheme \<Rightarrow> rat" where
  "row_tokens u = use_input_tokens u + use_output_tokens u + use_cache_read_tokens u + use_cache_write_tokens u"

definition round_cents :: "rat \<Rightarrow> rat" where
  "round_cents n = of_int (js_round (n * 100)) / 100"

section \<open>Days\<close>

record daily_token_data =
  dtd_date :: string
  dtd_label :: string
  dtd_input :: rat
  dtd_output :: rat
  dtd_cacheRead :: rat
  dtd_cacheWrite :: rat

record daily_cost_data =
  dcd_date :: string
  dcd_label :: string
  dcd_cost :: rat

record daily_cost_stack =
  dcs_date :: string
  dcs_label :: string
  dcs_input :: rat
  dcs_output :: rat
  dcs_cacheWrite :: rat
  dcs_total :: rat

record model_distribution =
  mds_model :: string
  mds_tokens :: rat
  mds_cost :: rat

record usage_by_date =
  ubd_dailyTokens :: "daily_token_data list"
  ubd_dailyCost :: "daily_cost_data list"
  ubd_dailyCostStack :: "daily_cost_stack list"
  ubd_modelDist :: "model_distribution list"

definition formatLabel :: "(string \<Rightarrow> (int \<times> int) option) \<Rightarrow> string \<Rightarrow> string" where
  "formatLabel local_day d =
     (case local_day (d @ ''T00:00:00'') of
        None \<Rightarrow> ''NaN/NaN''
      | Some (month, day) \<Rightarrow> js_int_string (month + 1) @ ''/'' @ js_int_string day)"

definition by_entry_key :: "(string \<Rightarrow> string \<Rightarrow> rat) \<Rightarrow> string \<times> 'v \<Rightarrow> string \<times> 'v \<Rightarrow> rat option" where
  "by_entry_key localeCompare a b = Some (localeCompare (fst a) (fst b))"

definition daily_tokens_of ::
  "(string \<Rightarrow> string \<Rightarrow> rat) \<Rightarrow> (string \<Rightarrow> (int \<times> int) option) \<Rightarrow> 'a dated_usage_scheme list \<Rightarrow> daily_token_data list" where
  "daily_tokens_of localeCompare local_day usage =
     map (\<lambda>d. \<lparr>dtd_date = tks_key d, dtd_label = formatLabel local_day (tks_key d), dtd_input = tks_input d,
                dtd_output = tks_output d, dtd_cacheRead = tks_cacheRead d, dtd_cacheWrite = tks_cacheWrite d\<rparr>)
       (js_sort (\<lambda>a b. Some (localeCompare (tks_key a) (tks_key b)))
         (map snd (bucket_rows use_date zero_tokens add_tokens usage [])))"

definition daily_stack :: "(string \<Rightarrow> (int \<times> int) option) \<Rightarrow> string \<Rightarrow> cost_sums \<Rightarrow> daily_cost_stack" where
  "daily_stack local_day date s =
     (let input = round_cents (cst_input s); out = round_cents (cst_output s);
          cacheWrite = round_cents (cst_cacheWrite s)
      in \<lparr>dcs_date = date, dcs_label = formatLabel local_day date, dcs_input = input, dcs_output = out,
          dcs_cacheWrite = cacheWrite, dcs_total = round_cents (input + out + cacheWrite)\<rparr>)"

definition daily_stacks_of ::
  "(string \<Rightarrow> string \<Rightarrow> rat) \<Rightarrow> (string \<Rightarrow> (int \<times> int) option) \<Rightarrow> custom_pricing_state
     \<Rightarrow> 'a dated_usage_scheme list \<Rightarrow> daily_cost_stack list" where
  "daily_stacks_of localeCompare local_day st usage =
     map (\<lambda>(date, s). daily_stack local_day date s)
       (js_sort (by_entry_key localeCompare)
         (bucket_rows use_date (\<lambda>_. zero_costs) (add_costs st) usage []))"

definition add_share :: "custom_pricing_state \<Rightarrow> 'a priceable_scheme \<Rightarrow> rat \<times> rat \<Rightarrow> rat \<times> rat" where
  "add_share st u m = (fst m + row_tokens u, snd m + estimateCost st u)"

definition aggregateByDate ::
  "(string \<Rightarrow> string \<Rightarrow> rat) \<Rightarrow> (string \<Rightarrow> (int \<times> int) option) \<Rightarrow> custom_pricing_state
     \<Rightarrow> 'a dated_usage_scheme list \<Rightarrow> usage_by_date" where
  "aggregateByDate localeCompare local_day st usage =
     \<lparr>ubd_dailyTokens = daily_tokens_of localeCompare local_day usage,
      ubd_dailyCost =
        map (\<lambda>(date, cost). \<lparr>dcd_date = date, dcd_label = formatLabel local_day date, dcd_cost = round_cents cost\<rparr>)
          (js_sort (by_entry_key localeCompare)
            (bucket_rows use_date (\<lambda>_. 0) (\<lambda>u c. c + estimateCost st u) usage [])),
      ubd_dailyCostStack = daily_stacks_of localeCompare local_day st usage,
      ubd_modelDist =
        js_sort (\<lambda>a b. Some (mds_tokens b - mds_tokens a))
          (map (\<lambda>(model, m). \<lparr>mds_model = model, mds_tokens = fst m, mds_cost = snd m\<rparr>)
            (bucket_rows (\<lambda>u. modelGroupingKey st (use_model u) (use_provider u)) (\<lambda>_. (0, 0)) (add_share st) usage []))\<rparr>"

section \<open>Agents and models\<close>

record cost_by_key =
  cbk_key :: string
  cbk_tokens :: rat
  cbk_cost :: rat
  cbk_taskCount :: rat

definition zero_cost_by_key :: "string \<Rightarrow> cost_by_key" where
  "zero_cost_by_key k = \<lparr>cbk_key = k, cbk_tokens = 0, cbk_cost = 0, cbk_taskCount = 0\<rparr>"

definition add_cost_by_key :: "custom_pricing_state \<Rightarrow> 'a priceable_scheme \<Rightarrow> rat \<Rightarrow> cost_by_key \<Rightarrow> cost_by_key" where
  "add_cost_by_key st r tasks e =
     e\<lparr>cbk_tokens := cbk_tokens e + row_tokens r, cbk_cost := cbk_cost e + estimateCost st r,
       cbk_taskCount := cbk_taskCount e + tasks\<rparr>"

definition by_cost :: "cost_by_key \<Rightarrow> cost_by_key \<Rightarrow> rat option" where
  "by_cost a b = Some (cbk_cost b - cbk_cost a)"

definition aggregateCostByAgent :: "custom_pricing_state \<Rightarrow> usage_by_agent list \<Rightarrow> cost_by_key list" where
  "aggregateCostByAgent st rows =
     js_sort by_cost (map snd (bucket_rows uba_agent_id zero_cost_by_key
       (\<lambda>r. add_cost_by_key st r (uba_task_count r)) rows []))"

definition aggregateCostByModel :: "custom_pricing_state \<Rightarrow> 'a dated_usage_scheme list \<Rightarrow> cost_by_key list" where
  "aggregateCostByModel st rows =
     js_sort by_cost (map snd (bucket_rows (\<lambda>u. modelGroupingKey st (use_model u) (use_provider u))
       zero_cost_by_key (\<lambda>r. add_cost_by_key st r 0) rows []))"

section \<open>Windows\<close>

definition str_le :: "string \<Rightarrow> string \<Rightarrow> bool" where
  "str_le a b \<longleftrightarrow> \<not> str_less b a"

definition sliceWindow ::
  "(string \<Rightarrow> string) \<Rightarrow> 'a dated_usage_scheme list \<Rightarrow> int \<Rightarrow> string
     \<Rightarrow> ('a dated_usage_scheme list \<times> 'a dated_usage_scheme list) option" where
  "sliceWindow today_in usage days tz = do {
     let today = today_in tz;
     isoCurrent \<leftarrow> addDaysIso today (- days);
     isoPrev \<leftarrow> addDaysIso today (- days * 2);
     Some (filter (\<lambda>u. str_le isoCurrent (use_date u)) usage,
           filter (\<lambda>u. str_le isoPrev (use_date u) \<and> str_less (use_date u) isoCurrent) usage)
   }"

definition computeCostInWindow ::
  "(string \<Rightarrow> string) \<Rightarrow> custom_pricing_state \<Rightarrow> 'a dated_usage_scheme list \<Rightarrow> int \<Rightarrow> string \<Rightarrow> int \<Rightarrow> rat option" where
  "computeCostInWindow today_in st rows daysBack tz offsetDays = do {
     let today = today_in tz;
     isoEnd \<leftarrow> addDaysIso today (- offsetDays);
     isoStart \<leftarrow> addDaysIso today (- offsetDays - daysBack);
     Some (fold (\<lambda>r total. if str_le isoStart (use_date r) \<and> str_less (use_date r) isoEnd
                           then total + estimateCost st r else total) rows 0)
   }"

definition pctChange :: "rat \<Rightarrow> rat \<Rightarrow> int option" where
  "pctChange current previous =
     (if previous \<le> 0 then None else Some (js_round ((current - previous) / previous * 100)))"

section \<open>Weeks\<close>

record week_shell =
  wks_weekStart :: string
  wks_weekEnd :: string
  wks_label :: string
  wks_rangeLabel :: string
  wks_partial :: bool
  wks_daysCovered :: jnum

fun js_plus_one :: "jnum \<Rightarrow> jnum" where
  "js_plus_one (Fin r) = Fin (r + 1)"
| "js_plus_one x = x"

definition js_max :: "jnum \<Rightarrow> jnum \<Rightarrow> jnum" where
  "js_max a b = (if a = NaN \<or> b = NaN then NaN else if jless a b then b else a)"

definition js_min :: "jnum \<Rightarrow> jnum \<Rightarrow> jnum" where
  "js_min a b = (if a = NaN \<or> b = NaN then NaN else if jless b a then b else a)"

definition decorate_week :: "string \<Rightarrow> string \<Rightarrow> week_shell option" where
  "decorate_week today weekStart = do {
     weekEnd \<leftarrow> addDaysIso weekStart 6;
     let partly = str_less today weekEnd;
     let clamped = (if str_less today weekStart then weekStart else if str_less today weekEnd then today else weekEnd);
     let elapsed = js_min (Fin 7) (js_max (Fin 1) (js_plus_one (diffDaysIso weekStart clamped)));
     Some \<lparr>wks_weekStart = weekStart, wks_weekEnd = weekEnd, wks_label = formatShortDate weekStart,
       wks_rangeLabel = formatShortDate weekStart @ '' '' @ [CHR 0xE2, CHR 0x80, CHR 0x93] @ '' '' @ formatShortDate weekEnd,
       wks_partial = partly, wks_daysCovered = (if partly then elapsed else Fin 7)\<rparr>
   }"

text \<open>A loop that stops where a step raises.\<close>

fun traverse :: "('a \<Rightarrow> 'b option) \<Rightarrow> 'a list \<Rightarrow> 'b list option" where
  "traverse f [] = Some []"
| "traverse f (x # xs) = do { y \<leftarrow> f x; ys \<leftarrow> traverse f xs; Some (y # ys) }"

definition week_count :: "rat \<Rightarrow> int" where
  "week_count weekCount = max 1 \<lfloor>weekCount\<rfloor>"

text \<open>The first days of the trailing weeks, oldest first.\<close>

definition week_starts :: "string \<Rightarrow> int \<Rightarrow> string list option" where
  "week_starts firstWeekStart n = traverse (\<lambda>i. addDaysIso firstWeekStart (i * 7)) [0..n - 1]"

fun add_week_rows ::
  "custom_pricing_state \<Rightarrow> string \<Rightarrow> string \<Rightarrow> 'a dated_usage_scheme list
     \<Rightarrow> (string \<times> token_sums) list \<times> (string \<times> cost_sums) list
     \<Rightarrow> ((string \<times> token_sums) list \<times> (string \<times> cost_sums) list) option" where
  "add_week_rows st first current [] maps = Some maps"
| "add_week_rows st first current (u # us) (tokenMap, stackMap) =
     (case weekStartIso (use_date u) of
        None \<Rightarrow> None
      | Some wkStart \<Rightarrow>
          if str_less wkStart first \<or> str_less current wkStart
          then add_week_rows st first current us (tokenMap, stackMap)
          else (case map_of tokenMap wkStart of
                  None \<Rightarrow> add_week_rows st first current us (tokenMap, stackMap)
                | Some tokens \<Rightarrow>
                    let tokenMap' = AList.update wkStart (add_tokens u tokens) tokenMap
                    in (case map_of stackMap wkStart of
                          None \<Rightarrow> add_week_rows st first current us (tokenMap', stackMap)
                        | Some s \<Rightarrow> add_week_rows st first current us
                            (tokenMap', AList.update wkStart (add_costs st u s) stackMap))))"

record weekly_token_data = week_shell +
  wtd_input :: rat
  wtd_output :: rat
  wtd_cacheRead :: rat
  wtd_cacheWrite :: rat

record weekly_cost_stack = week_shell +
  wcs_input :: rat
  wcs_output :: rat
  wcs_cacheWrite :: rat
  wcs_total :: rat

definition weekly_tokens :: "string \<Rightarrow> token_sums \<Rightarrow> weekly_token_data option" where
  "weekly_tokens today t = map_option (\<lambda>w. week_shell.extend w
     \<lparr>wtd_input = tks_input t, wtd_output = tks_output t, wtd_cacheRead = tks_cacheRead t,
      wtd_cacheWrite = tks_cacheWrite t\<rparr>) (decorate_week today (tks_key t))"

definition weekly_stack :: "string \<Rightarrow> string \<Rightarrow> cost_sums \<Rightarrow> weekly_cost_stack option" where
  "weekly_stack today weekStart s =
     (let input = round_cents (cst_input s); out = round_cents (cst_output s);
          cacheWrite = round_cents (cst_cacheWrite s)
      in map_option (\<lambda>w. week_shell.extend w
           \<lparr>wcs_input = input, wcs_output = out, wcs_cacheWrite = cacheWrite,
            wcs_total = round_cents (input + out + cacheWrite)\<rparr>) (decorate_week today weekStart))"

definition aggregateByWeek ::
  "(string \<Rightarrow> string) \<Rightarrow> (string \<Rightarrow> string \<Rightarrow> rat) \<Rightarrow> custom_pricing_state \<Rightarrow> 'a dated_usage_scheme list
     \<Rightarrow> string \<Rightarrow> rat \<Rightarrow> (weekly_token_data list \<times> weekly_cost_stack list) option" where
  "aggregateByWeek today_in localeCompare st usage tz weekCount = do {
     let n = week_count weekCount;
     let today = today_in tz;
     currentWeekStart \<leftarrow> weekStartIso today;
     firstWeekStart \<leftarrow> addDaysIso currentWeekStart (- (n - 1) * 7);
     starts \<leftarrow> week_starts firstWeekStart n;
     (tokenMap, stackMap) \<leftarrow> add_week_rows st firstWeekStart currentWeekStart usage
       (fold (\<lambda>w. AList.update w (zero_tokens w)) starts [], fold (\<lambda>w. AList.update w zero_costs) starts []);
     weeks \<leftarrow> traverse (weekly_tokens today)
       (js_sort (\<lambda>a b. Some (localeCompare (tks_key a) (tks_key b))) (map snd tokenMap));
     stacks \<leftarrow> traverse (\<lambda>(weekStart, s). weekly_stack today weekStart s) (js_sort (by_entry_key localeCompare) stackMap);
     Some (weeks, stacks)
   }"

end
