(* ===== verification/Usage_Properties.thy ===== *)
theory Usage_Properties
  imports Usage
begin

text \<open>
  The usage figures of \<open>Usage\<close> lose and invent nothing: what the days, weeks, models and agents show
  adds up to the rows, and what a window holds.
\<close>

section \<open>Figures of the buckets\<close>

interpretation tokens_in: bucket_figure zero_tokens add_tokens tks_input use_input_tokens
  by unfold_locales (auto simp: zero_tokens_def add_tokens_def)

interpretation tokens_out: bucket_figure zero_tokens add_tokens tks_output use_output_tokens
  by unfold_locales (auto simp: zero_tokens_def add_tokens_def)

interpretation tokens_read: bucket_figure zero_tokens add_tokens tks_cacheRead use_cache_read_tokens
  by unfold_locales (auto simp: zero_tokens_def add_tokens_def)

interpretation tokens_write: bucket_figure zero_tokens add_tokens tks_cacheWrite use_cache_write_tokens
  by unfold_locales (auto simp: zero_tokens_def add_tokens_def)

interpretation costs_in: bucket_figure "\<lambda>_. zero_costs" "add_costs st" cst_input
    "\<lambda>u. cbd_input (estimateCostBreakdown st u)" for st
  by unfold_locales (auto simp: zero_costs_def add_costs_def Let_def)

interpretation costs_out: bucket_figure "\<lambda>_. zero_costs" "add_costs st" cst_output
    "\<lambda>u. cbd_output (estimateCostBreakdown st u)" for st
  by unfold_locales (auto simp: zero_costs_def add_costs_def Let_def)

interpretation costs_write: bucket_figure "\<lambda>_. zero_costs" "add_costs st" cst_cacheWrite
    "\<lambda>u. cbd_cacheWrite (estimateCostBreakdown st u)" for st
  by unfold_locales (auto simp: zero_costs_def add_costs_def Let_def)

interpretation day_cost: bucket_figure "\<lambda>_. 0" "\<lambda>u c. c + estimateCost st u" "\<lambda>c. c" "estimateCost st" for st
  by unfold_locales auto

interpretation share_tokens: bucket_figure "\<lambda>_. (0, 0)" "add_share st" fst row_tokens for st
  by unfold_locales (auto simp: add_share_def)

interpretation share_cost: bucket_figure "\<lambda>_. (0, 0)" "add_share st" snd "estimateCost st" for st
  by unfold_locales (auto simp: add_share_def)

interpretation key_tokens: bucket_figure zero_cost_by_key "\<lambda>r. add_cost_by_key st r (tasks r)" cbk_tokens row_tokens
  for st tasks
  by unfold_locales (auto simp: zero_cost_by_key_def add_cost_by_key_def)

interpretation key_cost: bucket_figure zero_cost_by_key "\<lambda>r. add_cost_by_key st r (tasks r)" cbk_cost "estimateCost st"
  for st tasks
  by unfold_locales (auto simp: zero_cost_by_key_def add_cost_by_key_def)

interpretation key_tasks: bucket_figure zero_cost_by_key "\<lambda>r. add_cost_by_key st r (tasks r)" cbk_taskCount tasks
  for st tasks
  by unfold_locales (auto simp: zero_cost_by_key_def add_cost_by_key_def)

lemmas token_figures = tokens_in.figure_bucket tokens_out.figure_bucket tokens_read.figure_bucket
  tokens_write.figure_bucket

lemmas cost_figures = costs_in.figure_bucket costs_out.figure_bucket costs_write.figure_bucket

text \<open>A bucket keeps its key.\<close>

lemma tks_key_fold: "tks_key (fold add_tokens rs b) = tks_key b"
  by (induction rs arbitrary: b) (auto simp: add_tokens_def)

lemma tks_key_bucket [simp]: "tks_key (bucket key zero_tokens add_tokens rows k) = k"
  by (simp add: bucket_def zero_tokens_def tks_key_fold)

lemma cbk_key_bucket [simp]: "cbk_key (bucket key zero_cost_by_key (\<lambda>r. add_cost_by_key st r (tasks r)) rows k) = k"
proof -
  have "cbk_key (fold (\<lambda>r. add_cost_by_key st r (tasks r)) rs b) = cbk_key b" for rs b
    by (induction rs arbitrary: b) (auto simp: add_cost_by_key_def)
  then show ?thesis by (simp add: bucket_def zero_cost_by_key_def)
qed

section \<open>Costs\<close>

text \<open>The parts of a cost add up to it; savings are what the reads would have cost as input.\<close>

lemma estimateCost_parts:
  "estimateCost st u = cbd_input (estimateCostBreakdown st u) + cbd_output (estimateCostBreakdown st u)
     + cbd_cacheRead (estimateCostBreakdown st u) + cbd_cacheWrite (estimateCostBreakdown st u)"
  by (auto simp: estimateCost_def estimateCostBreakdown_def add_divide_distrib split: option.splits)

lemma estimateCost_without_reads:
  "estimateCost st (u\<lparr>use_input_tokens := use_input_tokens u + use_cache_read_tokens u, use_cache_read_tokens := 0\<rparr>)
     = estimateCost st u + estimateCacheSavings st u"
  by (auto simp: estimateCost_def estimateCacheSavings_def field_simps split: option.splits)

text \<open>Cents: rounding moves a figure by at most half a cent, and a sum of rounded figures is exact.\<close>

lemma round_cents_near: "\<bar>round_cents n - n\<bar> \<le> 1 / 200"
proof -
  define k where "k = js_round (n * 100)"
  have "of_int k \<le> n * 100 + 1 / 2" "n * 100 + 1 / 2 < of_int k + 1"
    unfolding k_def js_round_def by linarith+
  then have "\<bar>of_int k - n * 100\<bar> \<le> 1 / 2" by linarith
  then show ?thesis by (simp add: round_cents_def k_def [symmetric] abs_le_iff field_simps)
qed

lemma round_cents_whole: "round_cents (of_int k / 100) = of_int k / 100"
  by (simp add: round_cents_def)

lemma round_cents_sum [simp]: "round_cents (round_cents a + round_cents b + round_cents c)
    = round_cents a + round_cents b + round_cents c"
proof -
  have "round_cents a + round_cents b + round_cents c
      = of_int (js_round (a * 100) + js_round (b * 100) + js_round (c * 100)) / 100"
    by (simp add: round_cents_def add_divide_distrib)
  then show ?thesis by (metis round_cents_whole)
qed

section \<open>Days, models and agents\<close>

text \<open>What a table of days holds for one day.\<close>

definition rows_of_day :: "'a dated_usage_scheme list \<Rightarrow> string \<Rightarrow> 'a dated_usage_scheme list" where
  "rows_of_day usage day = filter (\<lambda>u. use_date u = day) usage"

definition tally :: "('a \<Rightarrow> rat) \<Rightarrow> 'a list \<Rightarrow> rat" where
  "tally w rows = sum_list (map w rows)"

lemma distinct_mset_map: "mset (map f xs) = mset ys \<Longrightarrow> distinct ys \<Longrightarrow> distinct (map f xs)"
  using mset_eq_imp_distinct_iff by blast

lemma daily_tokens_of_dates:
  "distinct (map dtd_date (daily_tokens_of localeCompare local_day usage))"
  "set (map dtd_date (daily_tokens_of localeCompare local_day usage)) = use_date ` set usage"
proof -
  have m: "mset (map dtd_date (daily_tokens_of localeCompare local_day usage)) = mset (js_set (map use_date usage))"
    by (simp add: daily_tokens_of_def bucket_rows_spec comp_def multiset.map_comp)
  then show "distinct (map dtd_date (daily_tokens_of localeCompare local_day usage))"
    by (rule distinct_mset_map) simp
  from m show "set (map dtd_date (daily_tokens_of localeCompare local_day usage)) = use_date ` set usage"
    using mset_eq_setD by fastforce
qed

lemma daily_tokens_of_day:
  assumes "d \<in> set (daily_tokens_of localeCompare local_day usage)"
  shows "dtd_input d = tally use_input_tokens (rows_of_day usage (dtd_date d))"
    "dtd_output d = tally use_output_tokens (rows_of_day usage (dtd_date d))"
    "dtd_cacheRead d = tally use_cache_read_tokens (rows_of_day usage (dtd_date d))"
    "dtd_cacheWrite d = tally use_cache_write_tokens (rows_of_day usage (dtd_date d))"
  using assms
  by (auto simp: daily_tokens_of_def bucket_rows_spec token_figures tally_def rows_of_day_def)

lemma daily_stacks_of_day:
  assumes "d \<in> set (daily_stacks_of localeCompare local_day st usage)"
  shows "dcs_input d = round_cents (tally (\<lambda>u. cbd_input (estimateCostBreakdown st u)) (rows_of_day usage (dcs_date d)))"
    "dcs_output d = round_cents (tally (\<lambda>u. cbd_output (estimateCostBreakdown st u)) (rows_of_day usage (dcs_date d)))"
    "dcs_cacheWrite d = round_cents (tally (\<lambda>u. cbd_cacheWrite (estimateCostBreakdown st u)) (rows_of_day usage (dcs_date d)))"
    "dcs_total d = dcs_input d + dcs_output d + dcs_cacheWrite d"
  using assms
  by (auto simp: daily_stacks_of_def bucket_rows_spec daily_stack_def Let_def cost_figures tally_def rows_of_day_def)

lemma total_models:
  "tally mds_tokens (ubd_modelDist (aggregateByDate localeCompare local_day st usage)) = tally row_tokens usage"
  "tally mds_cost (ubd_modelDist (aggregateByDate localeCompare local_day st usage)) = tally (estimateCost st) usage"
  by (simp_all add: aggregateByDate_def tally_def sum_list_js_sort bucket_rows_spec comp_def
      share_tokens.figures_conserved share_cost.figures_conserved)

lemma total_by_agent:
  "tally cbk_tokens (aggregateCostByAgent st rows) = tally row_tokens rows"
  "tally cbk_cost (aggregateCostByAgent st rows) = tally (estimateCost st) rows"
  "tally cbk_taskCount (aggregateCostByAgent st rows) = tally uba_task_count rows"
  by (simp_all add: aggregateCostByAgent_def tally_def sum_list_js_sort bucket_rows_spec comp_def
      key_tokens.figures_conserved key_cost.figures_conserved key_tasks.figures_conserved)

lemma total_by_model:
  "tally cbk_tokens (aggregateCostByModel st usage) = tally row_tokens usage"
  "tally cbk_cost (aggregateCostByModel st usage) = tally (estimateCost st) usage"
  by (simp_all add: aggregateCostByModel_def tally_def sum_list_js_sort bucket_rows_spec comp_def
      key_tokens.figures_conserved key_cost.figures_conserved)

text \<open>Both lists of models show the same figures.\<close>

lemma models_agree:
  "mset (map (\<lambda>e. (cbk_key e, cbk_tokens e, cbk_cost e)) (aggregateCostByModel st usage)) =
   mset (map (\<lambda>e. (mds_model e, mds_tokens e, mds_cost e)) (ubd_modelDist (aggregateByDate localeCompare local_day st usage)))"
  by (simp add: aggregateByDate_def aggregateCostByModel_def bucket_rows_spec comp_def multiset.map_comp key_tokens.figure_bucket
      key_cost.figure_bucket share_tokens.figure_bucket share_cost.figure_bucket)

text \<open>A list sorted by a figure, the largest first.\<close>

lemma sorted_js_sort_total:
  assumes "\<And>a b. cmp_le cmp a b \<or> cmp_le cmp b a" "\<And>a b c. cmp_le cmp a b \<Longrightarrow> cmp_le cmp b c \<Longrightarrow> cmp_le cmp a c"
  shows "sorted_wrt (cmp_le cmp) (js_sort cmp xs)"
proof (induction xs)
  case (Cons x xs)
  from sorted_insert_sorted [OF this _ assms(2)] assms(1) show ?case by (simp add: js_sort_def)
qed (simp add: js_sort_def)

lemma cmp_le_descending: "cmp_le (\<lambda>a b. Some (f b - f a :: rat)) = (\<lambda>a b. f b \<le> f a)"
  by (intro ext) (simp add: cmp_le_def)

lemma sorted_descending: "sorted_wrt (\<lambda>a b. f b \<le> f a) (js_sort (\<lambda>a b. Some (f b - f a :: rat)) xs)"
  using sorted_js_sort_total [of "\<lambda>a b. Some (f b - f a)" xs] unfolding cmp_le_descending by force

section \<open>Windows\<close>

lemma str_le_day: "usual_day j \<Longrightarrow> usual_day k \<Longrightarrow> str_le (day_text j) (day_text k) \<longleftrightarrow> j \<le> k"
  by (simp add: str_le_def day_text_less not_less)

text \<open>Rows whose date is a day with a year of four digits.\<close>

definition dated_rows :: "'a dated_usage_scheme list \<Rightarrow> bool" where
  "dated_rows rows \<longleftrightarrow> list_all (\<lambda>u. \<exists>k. usual_day k \<and> use_date u = day_text k) rows"

lemma dated_row:
  assumes "dated_rows rows" "u \<in> set rows"
  obtains k where "usual_day k" "use_date u = day_text k"
  using assms by (auto simp: dated_rows_def list_all_iff)

definition rows_between :: "'a dated_usage_scheme list \<Rightarrow> int \<Rightarrow> int \<Rightarrow> 'a dated_usage_scheme list" where
  "rows_between rows i j = filter (\<lambda>u. use_date u \<in> day_text ` {i..<j}) rows"

lemma in_days:
  assumes "usual_day i" "usual_day (j - 1)" "usual_day k"
  shows "day_text k \<in> day_text ` {i..<j} \<longleftrightarrow> i \<le> k \<and> k < j"
proof -
  have "usual_day x" if "i \<le> x" "x < j" for x using assms(1,2) that by (auto simp: usual_day_def)
  then show ?thesis using assms(3) day_text_inject by (auto simp: image_iff)
qed

lemma fold_tally: "fold (\<lambda>r tot. if P r then tot + w r else tot) rows a = a + tally w (filter P rows)"
  by (induction rows arbitrary: a) (auto simp: tally_def)

lemma computeCostInWindow_spec:
  assumes "dated_rows rows" "today_in tz = day_text t" "usual_day t"
    and "usual_day (t - off)" "usual_day (t - off - back)" "0 < back"
  shows "computeCostInWindow today_in st rows back tz off =
     Some (tally (estimateCost st) (rows_between rows (t - off - back) (t - off)))"
proof -
  have days: "addDaysIso (day_text t) (- off) = Some (day_text (t - off))"
    "addDaysIso (day_text t) (- off - back) = Some (day_text (t - off - back))"
    using addDaysIso_day [of t "- off"] addDaysIso_day [of t "- off - back"] assms
    by (simp_all add: algebra_simps)
  let ?in = "\<lambda>u. str_le (day_text (t - off - back)) (use_date u) \<and> str_less (use_date u) (day_text (t - off))"
  have same: "?in u \<longleftrightarrow> use_date u \<in> day_text ` {t - off - back..<t - off}" if "u \<in> set rows" for u
  proof -
    note now = that
    obtain k where k: "usual_day k" "use_date u = day_text k"
      using dated_row [OF assms(1) now] .
    have "usual_day (t - off - 1)" using assms(4-6) by (auto simp: usual_day_def)
    from in_days [OF assms(5) this k(1)] show ?thesis
      using assms(4,5) k by (simp add: str_le_day day_text_less)
  qed
  have "filter ?in rows = rows_between rows (t - off - back) (t - off)"
    unfolding rows_between_def using same by (intro filter_cong) auto
  then show ?thesis
    by (simp add: computeCostInWindow_def assms(2) days Let_def fold_tally)
qed

lemma sliceWindow_spec:
  assumes "dated_rows rows" "today_in tz = day_text t" "usual_day t"
    and "usual_day (t - n)" "usual_day (t - 2 * n)" "0 < n"
  shows "sliceWindow today_in rows n tz =
     Some (filter (\<lambda>u. str_le (day_text (t - n)) (use_date u)) rows, rows_between rows (t - 2 * n) (t - n))"
proof -
  have days: "addDaysIso (day_text t) (- n) = Some (day_text (t - n))"
    "addDaysIso (day_text t) (- n * 2) = Some (day_text (t - 2 * n))"
    using addDaysIso_day [of t "- n"] addDaysIso_day [of t "- n * 2"] assms by (simp_all add: algebra_simps)
  have "str_le (day_text (t - 2 * n)) (use_date u) \<and> str_less (use_date u) (day_text (t - n))
      \<longleftrightarrow> use_date u \<in> day_text ` {t - 2 * n..<t - n}" if "u \<in> set rows" for u
  proof -
    note now = that
    obtain k where k: "usual_day k" "use_date u = day_text k"
      using dated_row [OF assms(1) now] .
    have "usual_day (t - n - 1)" using assms(4-6) by (auto simp: usual_day_def)
    from in_days [OF assms(5) this k(1)] show ?thesis
      using assms(4,5) k by (simp add: str_le_day day_text_less)
  qed
  then have "filter (\<lambda>u. str_le (day_text (t - 2 * n)) (use_date u) \<and> str_less (use_date u) (day_text (t - n))) rows
      = rows_between rows (t - 2 * n) (t - n)"
    unfolding rows_between_def by (intro filter_cong) auto
  then show ?thesis by (simp add: sliceWindow_def assms(2) days [simplified] Let_def)
qed

text \<open>Cutting a window in two.\<close>

lemma total_window_split:
  assumes "dated_rows rows" "usual_day i" "usual_day j" "i \<le> j"
  shows "tally w (filter (\<lambda>u. str_le (day_text i) (use_date u)) rows) =
    tally w (rows_between rows i j) + tally w (filter (\<lambda>u. str_le (day_text j) (use_date u)) rows)"
  using assms(1)
proof (induction rows)
  case (Cons u rows)
  obtain k where k: "usual_day k" "use_date u = day_text k" using Cons.prems by (auto simp: dated_rows_def)
  have "use_date u \<in> day_text ` {i..<j} \<longleftrightarrow> i \<le> k \<and> k < j"
  proof (cases "i = j")
    case False
    then have "usual_day (j - 1)" using assms(2-4) by (auto simp: usual_day_def)
    then show ?thesis using in_days [OF assms(2) _ k(1)] k(2) by simp
  qed auto
  then show ?case
    using Cons assms(2-4) k by (auto simp: rows_between_def tally_def str_le_day dated_rows_def)
qed (simp add: rows_between_def tally_def)

section \<open>Properties\<close>


text \<open>
  C37. How the cost windows fit together.  For rows with proper dates, the window before the selected
  one holds the same cost for the detail page and for the list; the selected window of the detail
  page is what the list shows plus the cost of the rows dated today or later, which the list leaves
  out.
\<close>
theorem cost_windows:
  assumes "dated_rows rows" "today_in tz = day_text t" "usual_day t" "usual_day (t - 2 * n)" "0 < n"
  shows "\<exists>cur prev. sliceWindow today_in rows n tz = Some (cur, prev)
    \<and> computeCostInWindow today_in st rows n tz n = Some (tally (estimateCost st) prev)
    \<and> computeCostInWindow today_in st rows n tz 0 =
        Some (tally (estimateCost st) cur
              - tally (estimateCost st) (filter (\<lambda>u. str_le (today_in tz) (use_date u)) rows))"
proof -
  have mid: "usual_day (t - n)" using assms(3-5) by (auto simp: usual_day_def)
  note c = computeCostInWindow_spec [of rows today_in tz t _ n st, OF assms(1-3)]
  have "t - n - n = t - 2 * n" by simp
  then have prev: "computeCostInWindow today_in st rows n tz n =
      Some (tally (estimateCost st) (rows_between rows (t - 2 * n) (t - n)))"
    using c [of n] mid assms(4,5) by simp
  have cur: "computeCostInWindow today_in st rows n tz 0 = Some (tally (estimateCost st) (rows_between rows (t - n) t))"
    using c [of 0] assms(3,5) mid by simp
  show ?thesis
    using sliceWindow_spec [of rows today_in tz t n, OF assms(1-3) mid assms(4,5)] prev cur
      total_window_split [OF assms(1) mid assms(3), of "estimateCost st"] assms(2,5) by simp
qed

text \<open>An example: three rows, one of them of today.\<close>

definition example_use :: "string \<Rightarrow> rat \<Rightarrow> dated_usage" where
  "example_use date input =
     \<lparr>use_model = ''gpt-5'', use_provider = None, use_input_tokens = input, use_output_tokens = 0,
      use_cache_read_tokens = 0, use_cache_write_tokens = 0, use_date = date\<rparr>"

definition example_uses :: "dated_usage list" where
  "example_uses = [example_use (day_text 20593) 800000, example_use (day_text 20592) 1600000,
     example_use (day_text 20588) 3200000]"

lemma example_days: "usual_day 20593" "usual_day 20592" "usual_day 20588" "day_text 20593 = ''2026-05-20''"
  by (simp_all add: usual_day_def) code_simp

lemma example_dated: "dated_rows example_uses"
  using example_days by (auto simp: dated_rows_def example_uses_def example_use_def)

lemma cost_windows_witness:
  "\<exists>cur prev. sliceWindow (\<lambda>_. ''2026-05-20'') example_uses 3 ''UTC'' = Some (cur, prev)
    \<and> computeCostInWindow (\<lambda>_. ''2026-05-20'') \<lparr>cps_pricings = []\<rparr> example_uses 3 ''UTC'' 3 =
        Some (tally (estimateCost \<lparr>cps_pricings = []\<rparr>) prev)"
proof -
  have "usual_day (20593 - 2 * 3)" by (simp add: usual_day_def)
  from cost_windows [of example_uses "\<lambda>_. ''2026-05-20''" "''UTC''" 20593 3 "\<lparr>cps_pricings = []\<rparr>", OF example_dated _ _ this]
  show ?thesis using example_days by auto
qed

end
