(* ===== verification/Usage_Weeks.thy ===== *)
theory Usage_Weeks
  imports Usage_Properties
begin

text \<open>
  The weekly figures of \<open>Usage\<close> against a direct description: one entry per trailing week, each with
  the sums of the rows of its seven days.
\<close>

section \<open>Loops\<close>

lemma js_sort_id: "sorted_wrt (cmp_le cmp) xs \<Longrightarrow> js_sort cmp xs = xs"
proof (induction xs)
  case (Cons x xs)
  then have "js_sort cmp xs = xs" by simp
  then have "js_sort cmp (x # xs) = insert_sorted cmp x xs" by (simp add: js_sort_def)
  also have "\<dots> = x # xs" using Cons.prems by (cases xs) auto
  finally show ?case .
qed (simp add: js_sort_def)

lemma traverse_Some: "(\<And>x. x \<in> set xs \<Longrightarrow> f x = Some (g x)) \<Longrightarrow> traverse f xs = Some (map g xs)"
  by (induction xs) auto

lemma traverse_map: "traverse f (map g xs) = traverse (\<lambda>x. f (g x)) xs"
  by (induction xs) auto

lemma seeded_map: "distinct ks \<Longrightarrow> fold (\<lambda>k. AList.update k (f k)) ks [] = map (\<lambda>k. (k, f k)) ks"
proof (induction ks rule: rev_induct)
  case (snoc k ks)
  then have "fold (\<lambda>k. AList.update k (f k)) (ks @ [k]) [] = AList.update k (f k) (map (\<lambda>k. (k, f k)) ks)" by simp
  also have "\<dots> = map (\<lambda>j. (j, f j)) (adjoin k ks)" using snoc.prems by (subst update_tabulated) auto
  finally show ?case using snoc.prems by (simp add: adjoin_def)
qed simp

text \<open>Each row is added to the week it belongs to, if that week is on the table.\<close>

definition week_key :: "'a dated_usage_scheme \<Rightarrow> string" where
  "week_key u = (case weekStartIso (use_date u) of None \<Rightarrow> [] | Some w \<Rightarrow> w)"

lemma add_week_rows_tabulated:
  assumes "distinct ks" "\<forall>k\<in>set ks. \<not> str_less k first \<and> \<not> str_less current k"
    and "\<forall>u\<in>set rows. weekStartIso (use_date u) \<noteq> None"
  shows "add_week_rows st first current rows (map (\<lambda>k. (k, f k)) ks, map (\<lambda>k. (k, g k)) ks) =
    Some (map (\<lambda>k. (k, fold add_tokens (filter (\<lambda>u. week_key u = k) rows) (f k))) ks,
          map (\<lambda>k. (k, fold (add_costs st) (filter (\<lambda>u. week_key u = k) rows) (g k))) ks)"
  using assms(3)
proof (induction rows arbitrary: f g)
  case (Cons u rows)
  obtain wk where wk: "weekStartIso (use_date u) = Some wk" using Cons.prems by auto
  then have key: "week_key u = wk" by (simp add: week_key_def)
  show ?case
  proof (cases "wk \<in> set ks")
    case False
    then have "map_of (map (\<lambda>k. (k, f k)) ks) wk = None" by (simp add: map_of_tabulated)
    then have "add_week_rows st first current (u # rows) (map (\<lambda>k. (k, f k)) ks, map (\<lambda>k. (k, g k)) ks) =
        add_week_rows st first current rows (map (\<lambda>k. (k, f k)) ks, map (\<lambda>k. (k, g k)) ks)"
      by (simp add: wk)
    also have "\<dots> = Some (map (\<lambda>k. (k, fold add_tokens (filter (\<lambda>u. week_key u = k) rows) (f k))) ks,
          map (\<lambda>k. (k, fold (add_costs st) (filter (\<lambda>u. week_key u = k) rows) (g k))) ks)"
      using Cons by simp
    finally show ?thesis using False key by (auto intro!: map_cong)
  next
    case True
    let ?f = "f(wk := add_tokens u (f wk))" and ?g = "g(wk := add_costs st u (g wk))"
    have same: "adjoin wk ks = ks" using True by (simp add: adjoin_def)
    have look: "map_of (map (\<lambda>k. (k, f k)) ks) wk = Some (f wk)" "map_of (map (\<lambda>k. (k, g k)) ks) wk = Some (g wk)"
      using True by (simp_all add: map_of_tabulated)
    have upd: "AList.update wk (add_tokens u (f wk)) (map (\<lambda>k. (k, f k)) ks) = map (\<lambda>k. (k, ?f k)) ks"
      "AList.update wk (add_costs st u (g wk)) (map (\<lambda>k. (k, g k)) ks) = map (\<lambda>k. (k, ?g k)) ks"
      using update_tabulated [OF assms(1), of wk] same by simp_all
    have "add_week_rows st first current (u # rows) (map (\<lambda>k. (k, f k)) ks, map (\<lambda>k. (k, g k)) ks) =
        add_week_rows st first current rows (map (\<lambda>k. (k, ?f k)) ks, map (\<lambda>k. (k, ?g k)) ks)"
      using assms(2) True by (simp add: wk look upd Let_def del: fun_upd_apply)
    also have "\<dots> = Some (map (\<lambda>k. (k, fold add_tokens (filter (\<lambda>u. week_key u = k) rows) (?f k))) ks,
          map (\<lambda>k. (k, fold (add_costs st) (filter (\<lambda>u. week_key u = k) rows) (?g k))) ks)"
      by (rule Cons.IH) (use Cons.prems in simp)
    finally show ?thesis using key by (auto intro!: map_cong)
  qed
qed simp

section \<open>One week\<close>

definition week_shell_of :: "int \<Rightarrow> int \<Rightarrow> week_shell" where
  "week_shell_of t w =
     \<lparr>wks_weekStart = day_text w, wks_weekEnd = day_text (w + 6), wks_label = formatShortDate (day_text w),
      wks_rangeLabel = formatShortDate (day_text w) @ '' '' @ [CHR 0xE2, CHR 0x80, CHR 0x93] @ '' ''
        @ formatShortDate (day_text (w + 6)),
      wks_partial = (t < w + 6), wks_daysCovered = Fin (of_int (min 7 (t - w + 1)))\<rparr>"

lemma decorate_week_day:
  assumes "usual_day t" "usual_day w" "usual_day (w + 6)" "w \<le> t"
  shows "decorate_week (day_text t) (day_text w) = Some (week_shell_of t w)"
proof -
  have partly: "str_less (day_text t) (day_text (w + 6)) \<longleftrightarrow> t < w + 6"
    and "\<not> str_less (day_text t) (day_text w)"
    using assms by (simp_all add: day_text_less)
  moreover have "diffDaysIso (day_text w) (if t < w + 6 then day_text t else day_text (w + 6)) = Fin (of_int (min t (w + 6) - w))"
    using diffDaysIso_day assms by auto
  moreover have "js_min (Fin 7) (js_max (Fin 1) (Fin (of_int (t - w) + 1))) = Fin (of_int (min 7 (t - w + 1)))" if "t < w + 6"
  proof -
    have "(of_int (t - w) :: rat) + 1 = of_int (t - w + 1)" "(1 :: rat) \<le> of_int (t - w + 1)" "(of_int (t - w + 1) :: rat) \<le> 7"
      using that assms(4) by linarith+
    then show ?thesis using that by (simp add: js_min_def js_max_def)
  qed
  ultimately show ?thesis
    using addDaysIso_day [OF assms(2,3)] by (auto simp: decorate_week_def week_shell_of_def Let_def)
qed

text \<open>The rows of a week are those of its seven days.\<close>

lemma week_key_day: "usual_day k \<Longrightarrow> use_date u = day_text k \<Longrightarrow> week_key u = day_text (monday k)"
  by (simp add: week_key_def weekStartIso_day)

lemma filter_week:
  assumes "dated_rows rows" "usual_day w" "usual_day (w + 6)" "monday w = w"
  shows "filter (\<lambda>u. week_key u = day_text w) rows = rows_between rows w (w + 7)"
  unfolding rows_between_def
proof (intro filter_cong refl)
  fix u assume "u \<in> set rows"
  then obtain k where k: "usual_day k" "use_date u = day_text k" by (rule dated_row [OF assms(1)])
  have "week_key u = day_text w \<longleftrightarrow> monday k = w"
    using day_text_inject [OF usual_day_monday [OF k(1)] assms(2)] week_key_day [OF k] by simp
  also have "\<dots> \<longleftrightarrow> use_date u \<in> day_text ` {w..<w + 7}"
    using in_days [OF assms(2) _ k(1), of "w + 7"] assms(3,4) k(2) monday_iff [of k w] by (simp add: add.commute)
  finally show "week_key u = day_text w \<longleftrightarrow> use_date u \<in> day_text ` {w..<w + 7}" .
qed

section \<open>The trailing weeks\<close>

text \<open>What the code relies on of \<open>localeCompare\<close>: it orders days as their strings.\<close>

definition orders_days :: "(string \<Rightarrow> string \<Rightarrow> rat) \<Rightarrow> bool" where
  "orders_days localeCompare \<longleftrightarrow>
     (\<forall>j k. usual_day j \<and> usual_day k \<longrightarrow> (localeCompare (day_text j) (day_text k) \<le> 0 \<longleftrightarrow> j \<le> k))"

text \<open>The Mondays of the \<open>n\<close> weeks that end with the week of day \<open>t\<close>.\<close>

definition trailing_mondays :: "int \<Rightarrow> int \<Rightarrow> int list" where
  "trailing_mondays t n = map (\<lambda>i. monday t - (n - 1) * 7 + i * 7) [0..n - 1]"

definition week_tokens_of :: "'a dated_usage_scheme list \<Rightarrow> int \<Rightarrow> int \<Rightarrow> weekly_token_data" where
  "week_tokens_of usage t w =
     (let rows = rows_between usage w (w + 7)
      in week_shell.extend (week_shell_of t w)
           \<lparr>wtd_input = tally use_input_tokens rows, wtd_output = tally use_output_tokens rows,
            wtd_cacheRead = tally use_cache_read_tokens rows, wtd_cacheWrite = tally use_cache_write_tokens rows\<rparr>)"

definition week_costs_of :: "custom_pricing_state \<Rightarrow> 'a dated_usage_scheme list \<Rightarrow> int \<Rightarrow> int \<Rightarrow> weekly_cost_stack" where
  "week_costs_of st usage t w =
     (let rows = rows_between usage w (w + 7);
          part = (\<lambda>p. round_cents (tally (\<lambda>u. p (estimateCostBreakdown st u)) rows))
      in week_shell.extend (week_shell_of t w)
           \<lparr>wcs_input = part cbd_input, wcs_output = part cbd_output, wcs_cacheWrite = part cbd_cacheWrite,
            wcs_total = part cbd_input + part cbd_output + part cbd_cacheWrite\<rparr>)"

lemma trailing_monday:
  assumes "usual_day (monday t - (n - 1) * 7)" "usual_day (monday t + 6)" "w \<in> set (trailing_mondays t n)"
  shows "usual_day w" "usual_day (w + 6)" "monday w = w" "monday t - (n - 1) * 7 \<le> w" "w \<le> monday t"
proof -
  obtain i where i: "0 \<le> i" "i \<le> n - 1" "w = monday t - (n - 1) * 7 + i * 7"
    using assms(3) by (auto simp: trailing_mondays_def)
  show le: "monday t - (n - 1) * 7 \<le> w" "w \<le> monday t" using i by (simp_all add: algebra_simps)
  show "usual_day w" "usual_day (w + 6)" using le assms(1,2) by (auto simp: usual_day_def)
  have "(w + 3) mod 7 = (monday t + 3) mod 7" using i(3) by (simp add: algebra_simps) presburger
  then show "monday w = w" using monday_iff [of t "monday t"] by (simp add: monday_def [of w] monday_def [of "monday t"])
qed

lemma sorted_trailing: "sorted_wrt (<) (trailing_mondays t n)"
  by (simp add: trailing_mondays_def sorted_wrt_map sorted_wrt_upto)

lemma week_starts_day:
  assumes "usual_day (monday t - (n - 1) * 7)" "usual_day (monday t + 6)"
  shows "week_starts (day_text (monday t - (n - 1) * 7)) n = Some (map day_text (trailing_mondays t n))"
  unfolding week_starts_def trailing_mondays_def map_map comp_def
proof (rule traverse_Some)
  fix i assume "i \<in> set [0..n - 1]"
  then have "monday t - (n - 1) * 7 + i * 7 \<in> set (trailing_mondays t n)" by (auto simp: trailing_mondays_def)
  from trailing_monday(1) [OF assms this]
  show "addDaysIso (day_text (monday t - (n - 1) * 7)) (i * 7) = Some (day_text (monday t - (n - 1) * 7 + i * 7))"
    by (rule addDaysIso_day [OF assms(1)])
qed

lemma distinct_trailing:
  assumes "usual_day (monday t - (n - 1) * 7)" "usual_day (monday t + 6)"
  shows "distinct (map day_text (trailing_mondays t n))"
proof -
  have "distinct (trailing_mondays t n)" using sorted_trailing strict_sorted_iff by blast
  moreover have "inj_on day_text (set (trailing_mondays t n))"
    using day_text_inject trailing_monday(1) [OF assms] by (auto intro!: inj_onI)
  ultimately show ?thesis by (simp add: distinct_map)
qed

lemma sorted_days:
  assumes "orders_days lc" "\<forall>w\<in>set ws. usual_day w" "sorted_wrt (<) ws" "\<And>w. key (f w) = day_text w"
  shows "js_sort (\<lambda>a b. Some (lc (key a) (key b))) (map f ws) = map f ws"
proof (rule js_sort_id)
  show "sorted_wrt (cmp_le (\<lambda>a b. Some (lc (key a) (key b)))) (map f ws)"
    unfolding sorted_wrt_map
    by (rule sorted_wrt_mono_rel [OF _ assms(3)])
      (use assms(1,2) in \<open>auto simp: cmp_le_def assms(4) orders_days_def\<close>)
qed

lemma weekly_tokens_day:
  assumes "usual_day t" "usual_day w" "usual_day (w + 6)" "w \<le> t"
  shows "weekly_tokens (day_text t) (fold add_tokens (rows_between usage w (w + 7)) (zero_tokens (day_text w)))
    = Some (week_tokens_of usage t w)"
  using decorate_week_day [OF assms]
  by (simp add: weekly_tokens_def tks_key_fold zero_tokens_def week_tokens_of_def Let_def tally_def
      tokens_in.figure_fold tokens_out.figure_fold tokens_read.figure_fold tokens_write.figure_fold)

lemma weekly_stack_day:
  assumes "usual_day t" "usual_day w" "usual_day (w + 6)" "w \<le> t"
  shows "weekly_stack (day_text t) (day_text w) (fold (add_costs st) (rows_between usage w (w + 7)) zero_costs)
    = Some (week_costs_of st usage t w)"
  using decorate_week_day [OF assms]
  by (simp add: weekly_stack_def zero_costs_def week_costs_of_def Let_def tally_def
      costs_in.figure_fold costs_out.figure_fold costs_write.figure_fold)

lemma aggregateByWeek_spec:
  fixes usage :: "'a dated_usage_scheme list"
  assumes rows: "dated_rows usage" and lc: "orders_days localeCompare" and today: "today_in tz = day_text t"
    and t: "usual_day t" "usual_day (monday t + 6)"
    and first: "usual_day (monday t - (week_count weekCount - 1) * 7)"
  shows "aggregateByWeek today_in localeCompare st usage tz weekCount =
    Some (map (week_tokens_of usage t) (trailing_mondays t (week_count weekCount)),
          map (week_costs_of st usage t) (trailing_mondays t (week_count weekCount)))"
proof -
  define n where "n = week_count weekCount"
  define ws where "ws = trailing_mondays t n"
  note first' = first [folded n_def]
  note w = trailing_monday [OF first' t(2), folded ws_def]
  have le: "w \<le> t" if "w \<in> set ws" for w using w(5) [OF that] by (auto simp: monday_def intro: order_trans)
  have current: "weekStartIso (day_text t) = Some (day_text (monday t))" by (rule weekStartIso_day [OF t(1)])
  have start: "addDaysIso (day_text (monday t)) (- (n - 1) * 7) = Some (day_text (monday t - (n - 1) * 7))"
  proof -
    have "monday t + - (n - 1) * 7 = monday t - (n - 1) * 7" by simp
    then show ?thesis using addDaysIso_day [OF usual_day_monday [OF t(1)], of "- (n - 1) * 7"] first' by metis
  qed
  let ?tok = "\<lambda>w. fold add_tokens (rows_between usage w (w + 7)) (zero_tokens (day_text w))"
  let ?cst = "\<lambda>w. fold (add_costs st) (rows_between usage w (w + 7)) zero_costs"
  let ?ks = "map day_text ws"
  have window: "\<forall>k\<in>set ?ks. \<not> str_less k (day_text (monday t - (n - 1) * 7)) \<and> \<not> str_less (day_text (monday t)) k"
    using w(1,4,5) first' usual_day_monday [OF t(1)] by (fastforce simp: day_text_less)
  have weeks: "\<forall>u\<in>set usage. weekStartIso (use_date u) \<noteq> None"
  proof
    fix u assume "u \<in> set usage"
    then obtain k where "usual_day k" "use_date u = day_text k" by (rule dated_row [OF rows])
    then show "weekStartIso (use_date u) \<noteq> None" by (simp add: weekStartIso_day)
  qed
  have filters: "filter (\<lambda>u. week_key u = day_text x) usage = rows_between usage x (x + 7)" if "x \<in> set ws" for x
    by (rule filter_week [OF rows w(1-3) [OF that]])
  have added: "add_week_rows st (day_text (monday t - (n - 1) * 7)) (day_text (monday t)) usage
      (map (\<lambda>k. (k, zero_tokens k)) ?ks, map (\<lambda>k. (k, zero_costs)) ?ks) =
      Some (map (\<lambda>w. (day_text w, ?tok w)) ws, map (\<lambda>w. (day_text w, ?cst w)) ws)"
    unfolding add_week_rows_tabulated [OF distinct_trailing [OF first' t(2), folded ws_def] window weeks]
    using filters by (auto intro!: map_cong)
  have seeds: "fold (\<lambda>w. AList.update w (zero_tokens w)) ?ks [] = map (\<lambda>k. (k, zero_tokens k)) ?ks"
    "fold (\<lambda>w. AList.update w zero_costs) ?ks [] = map (\<lambda>k. (k, zero_costs)) ?ks"
    by (rule seeded_map [OF distinct_trailing [OF first' t(2), folded ws_def]])+
  have sorted: "sorted_wrt (<) ws" "\<forall>w\<in>set ws. usual_day w" using sorted_trailing w(1) by (auto simp: ws_def)
  have order: "js_sort (\<lambda>a b. Some (localeCompare (tks_key a) (tks_key b))) (map ?tok ws) = map ?tok ws"
    "js_sort (by_entry_key localeCompare) (map (\<lambda>w. (day_text w, ?cst w)) ws) = map (\<lambda>w. (day_text w, ?cst w)) ws"
    using sorted_days [OF lc sorted(2,1), of tks_key ?tok] sorted_days [OF lc sorted(2,1), of fst "\<lambda>w. (day_text w, ?cst w)"]
    by (simp_all add: tks_key_fold zero_tokens_def by_entry_key_def [abs_def])
  have "traverse (weekly_tokens (day_text t)) (map ?tok ws) = Some (map (week_tokens_of usage t) ws)"
    unfolding traverse_map by (rule traverse_Some) (rule weekly_tokens_day [OF t(1) w(1,2) le])
  moreover have "traverse (\<lambda>(weekStart, s). weekly_stack (day_text t) weekStart s) (map (\<lambda>w. (day_text w, ?cst w)) ws)
      = Some (map (week_costs_of st usage t) ws)"
    unfolding traverse_map prod.case by (rule traverse_Some) (rule weekly_stack_day [OF t(1) w(1,2) le])
  ultimately show ?thesis
    unfolding aggregateByWeek_def today Let_def n_def [symmetric] current
    using start week_starts_day [OF first' t(2), folded ws_def] added order
    by (simp add: seeds comp_def ws_def [symmetric])
qed

text \<open>
  C38. The weekly tables are what they say.  For rows with proper dates, the table shows exactly the
  asked number of weeks (at least one), from Monday to Sunday, one after the other, up to the week of
  today, empty ones included; each week has the sums of the tokens of the rows of its seven days and
  the parts of their cost in cents, whose shown total is their sum; the last week is partial unless
  today is its Sunday, and then counts the days up to today.
\<close>
theorem weekly_reference:
  assumes "dated_rows usage" "orders_days localeCompare" "today_in tz = day_text t"
    and "usual_day t" "usual_day (monday t + 6)" "usual_day (monday t - (week_count weekCount - 1) * 7)"
  shows "aggregateByWeek today_in localeCompare st usage tz weekCount =
    Some (map (week_tokens_of usage t) (trailing_mondays t (week_count weekCount)),
          map (week_costs_of st usage t) (trailing_mondays t (week_count weekCount)))"
  using assms by (rule aggregateByWeek_spec)

definition by_code_units :: "string \<Rightarrow> string \<Rightarrow> rat" where
  "by_code_units a b = (if a = b then 0 else if str_less a b then - 1 else 1)"

lemma orders_days_code_units: "orders_days by_code_units"
  by (auto simp: orders_days_def by_code_units_def day_text_inject day_text_less)

lemma weekly_reference_witness:
  "map_option (\<lambda>(weeks, _). map (\<lambda>w. (wks_weekStart w, wks_partial w)) weeks)
     (aggregateByWeek (\<lambda>_. ''2026-05-20'') by_code_units \<lparr>cps_pricings = []\<rparr> example_uses ''UTC'' 2)
   = Some [(''2026-05-11'', False), (''2026-05-18'', True)]"
proof -
  have d: "usual_day 20593" "usual_day (monday 20593 + 6)" "usual_day (monday 20593 - (week_count 2 - 1) * 7)"
    by (simp_all add: usual_day_def monday_def week_count_def)
  have days: "day_text 20584 = ''2026-05-11''" "day_text 20591 = ''2026-05-18''" by code_simp+
  have ws: "trailing_mondays 20593 (week_count 2) = [20584, 20591]"
    by (simp add: trailing_mondays_def week_count_def monday_def upto.simps)
  have "aggregateByWeek (\<lambda>_. ''2026-05-20'') by_code_units \<lparr>cps_pricings = []\<rparr> example_uses ''UTC'' 2 =
      Some (map (week_tokens_of example_uses 20593) (trailing_mondays 20593 (week_count 2)),
            map (week_costs_of \<lparr>cps_pricings = []\<rparr> example_uses 20593) (trailing_mondays 20593 (week_count 2)))"
    by (rule weekly_reference [of example_uses by_code_units "\<lambda>_. ''2026-05-20''" "''UTC''" 20593 2,
          OF example_dated orders_days_code_units example_days(4) [symmetric] d])
  then show ?thesis by (simp add: ws week_tokens_of_def week_shell_of_def week_shell.defs Let_def days)
qed

end
