(* ===== verification/Dashboard.thy ===== *)
theory Dashboard
  imports Usage_Weeks
begin

text \<open>
  The figures of the workspace dashboard (\<open>packages/views/dashboard/utils.ts\<close>): the daily and weekly
  tables, the totals, and the leaderboard of agents, which merges tokens with run time and folds the
  agents that no longer exist into one row.
\<close>

section \<open>Rows\<close>

record dashboard_usage_daily = dated_usage +
  dud_task_count :: rat

record agent_run_time =
  art_agent_id :: string
  art_total_seconds :: rat
  art_task_count :: rat
  art_failed_count :: rat

record run_time_daily =
  rtd_date :: string
  rtd_total_seconds :: rat
  rtd_task_count :: rat
  rtd_failed_count :: rat

section \<open>Days\<close>

definition formatDateLabel :: "(string \<Rightarrow> (int \<times> int) option) \<Rightarrow> string \<Rightarrow> string" where
  "formatDateLabel local_day d =
     (case local_day (d @ ''T00:00:00'') of
        None \<Rightarrow> ''NaN/NaN''
      | Some (month, day) \<Rightarrow> js_int_string (month + 1) @ ''/'' @ js_int_string day)"

definition aggregateDailyCost ::
  "(string \<Rightarrow> string \<Rightarrow> rat) \<Rightarrow> (string \<Rightarrow> (int \<times> int) option) \<Rightarrow> custom_pricing_state
     \<Rightarrow> 'a dated_usage_scheme list \<Rightarrow> daily_cost_stack list" where
  "aggregateDailyCost localeCompare local_day st usage =
     map (\<lambda>(date, s).
         let input = round_cents (cst_input s); out = round_cents (cst_output s);
             cacheWrite = round_cents (cst_cacheWrite s)
         in \<lparr>dcs_date = date, dcs_label = formatDateLabel local_day date, dcs_input = input, dcs_output = out,
             dcs_cacheWrite = cacheWrite, dcs_total = round_cents (input + out + cacheWrite)\<rparr>)
       (js_sort (by_entry_key localeCompare)
         (bucket_rows use_date (\<lambda>_. zero_costs) (add_costs st) usage []))"

definition aggregateDailyTokens ::
  "(string \<Rightarrow> string \<Rightarrow> rat) \<Rightarrow> (string \<Rightarrow> (int \<times> int) option) \<Rightarrow> 'a dated_usage_scheme list \<Rightarrow> daily_token_data list" where
  "aggregateDailyTokens localeCompare local_day usage =
     map (\<lambda>(date, t). \<lparr>dtd_date = date, dtd_label = formatDateLabel local_day date, dtd_input = tks_input t,
                dtd_output = tks_output t, dtd_cacheRead = tks_cacheRead t, dtd_cacheWrite = tks_cacheWrite t\<rparr>)
       (js_sort (by_entry_key localeCompare) (bucket_rows use_date zero_tokens add_tokens usage []))"

record token_totals =
  tot_input :: rat
  tot_output :: rat
  tot_cacheRead :: rat
  tot_cacheWrite :: rat
  tot_cost :: rat
  tot_taskCount :: rat

definition computeDailyTotals :: "custom_pricing_state \<Rightarrow> dashboard_usage_daily list \<Rightarrow> token_totals" where
  "computeDailyTotals st usage =
     fold (\<lambda>u acc.
         \<lparr>tot_input = tot_input acc + use_input_tokens u,
          tot_output = tot_output acc + use_output_tokens u,
          tot_cacheRead = tot_cacheRead acc + use_cache_read_tokens u,
          tot_cacheWrite = tot_cacheWrite acc + use_cache_write_tokens u,
          tot_cost = tot_cost acc + estimateCost st u,
          tot_taskCount = tot_taskCount acc + dud_task_count u\<rparr>)
       usage
       \<lparr>tot_input = 0, tot_output = 0, tot_cacheRead = 0, tot_cacheWrite = 0, tot_cost = 0, tot_taskCount = 0\<rparr>"

record daily_time_data =
  dtm_date :: string
  dtm_label :: string
  dtm_totalSeconds :: rat

definition by_date :: "(string \<Rightarrow> string \<Rightarrow> rat) \<Rightarrow> run_time_daily \<Rightarrow> run_time_daily \<Rightarrow> rat option" where
  "by_date localeCompare a b = Some (localeCompare (rtd_date a) (rtd_date b))"

definition aggregateDailyTime ::
  "(string \<Rightarrow> string \<Rightarrow> rat) \<Rightarrow> (string \<Rightarrow> (int \<times> int) option) \<Rightarrow> run_time_daily list \<Rightarrow> daily_time_data list" where
  "aggregateDailyTime localeCompare local_day rows =
     map (\<lambda>r. \<lparr>dtm_date = rtd_date r, dtm_label = formatDateLabel local_day (rtd_date r),
               dtm_totalSeconds = rtd_total_seconds r\<rparr>)
       (js_sort (by_date localeCompare) rows)"

record daily_tasks_data =
  dtt_date :: string
  dtt_label :: string
  dtt_completed :: rat
  dtt_failed :: rat

definition completed_tasks :: "run_time_daily \<Rightarrow> rat" where
  "completed_tasks r = max 0 (rtd_task_count r - rtd_failed_count r)"

definition aggregateDailyTasks ::
  "(string \<Rightarrow> string \<Rightarrow> rat) \<Rightarrow> (string \<Rightarrow> (int \<times> int) option) \<Rightarrow> run_time_daily list \<Rightarrow> daily_tasks_data list" where
  "aggregateDailyTasks localeCompare local_day rows =
     map (\<lambda>r. \<lparr>dtt_date = rtd_date r, dtt_label = formatDateLabel local_day (rtd_date r),
               dtt_completed = completed_tasks r, dtt_failed = rtd_failed_count r\<rparr>)
       (js_sort (by_date localeCompare) rows)"

section \<open>The leaderboard\<close>

record agent_cost_row =
  acr_agentId :: string
  acr_tokens :: rat
  acr_cost :: rat
  acr_taskCount :: rat

definition zero_agent_row :: "string \<Rightarrow> agent_cost_row" where
  "zero_agent_row k = \<lparr>acr_agentId = k, acr_tokens = 0, acr_cost = 0, acr_taskCount = 0\<rparr>"

definition add_agent_row :: "custom_pricing_state \<Rightarrow> usage_by_agent \<Rightarrow> agent_cost_row \<Rightarrow> agent_cost_row" where
  "add_agent_row st r e =
     e\<lparr>acr_tokens := acr_tokens e + row_tokens r, acr_cost := acr_cost e + estimateCost st r,
       acr_taskCount := acr_taskCount e + uba_task_count r\<rparr>"

definition aggregateAgentTokens :: "custom_pricing_state \<Rightarrow> usage_by_agent list \<Rightarrow> agent_cost_row list" where
  "aggregateAgentTokens st rows =
     js_sort (\<lambda>a b. Some (acr_cost b - acr_cost a))
       (map snd (bucket_rows uba_agent_id zero_agent_row (add_agent_row st) rows []))"

record agent_dashboard_row =
  adr_agentId :: string
  adr_tokens :: rat
  adr_cost :: rat
  adr_seconds :: rat
  adr_taskCount :: rat

definition by_cost_then_time :: "agent_dashboard_row \<Rightarrow> agent_dashboard_row \<Rightarrow> rat option" where
  "by_cost_then_time a b =
     Some (if adr_cost b \<noteq> adr_cost a then adr_cost b - adr_cost a else adr_seconds b - adr_seconds a)"

definition merge_token_row ::
  "(string \<times> agent_run_time) list \<Rightarrow> agent_cost_row \<Rightarrow> agent_dashboard_row" where
  "merge_token_row runTimeByAgent r =
     (let rt = map_of runTimeByAgent (acr_agentId r)
      in \<lparr>adr_agentId = acr_agentId r, adr_tokens = acr_tokens r, adr_cost = acr_cost r,
          adr_seconds = (case rt of None \<Rightarrow> 0 | Some x \<Rightarrow> art_total_seconds x),
          adr_taskCount = (case rt of None \<Rightarrow> acr_taskCount r | Some x \<Rightarrow> art_task_count x)\<rparr>)"

definition add_run_time_row ::
  "agent_run_time \<Rightarrow> (string \<times> agent_dashboard_row) list \<Rightarrow> (string \<times> agent_dashboard_row) list" where
  "add_run_time_row r merged =
     (if map_of merged (art_agent_id r) \<noteq> None then merged
      else AList.update (art_agent_id r)
        \<lparr>adr_agentId = art_agent_id r, adr_tokens = 0, adr_cost = 0, adr_seconds = art_total_seconds r,
         adr_taskCount = art_task_count r\<rparr> merged)"

definition mergeAgentDashboardRows :: "agent_cost_row list \<Rightarrow> agent_run_time list \<Rightarrow> agent_dashboard_row list" where
  "mergeAgentDashboardRows tokenRows runTimeRows =
     (let runTimeByAgent = fold (\<lambda>r. AList.update (art_agent_id r) r) runTimeRows [];
          merged = fold (\<lambda>r. AList.update (acr_agentId r) (merge_token_row runTimeByAgent r)) tokenRows [];
          merged = fold add_run_time_row runTimeRows merged
      in js_sort by_cost_then_time (map snd merged))"

definition DELETED_AGENTS_ROW_ID :: string where
  "DELETED_AGENTS_ROW_ID = ''__deleted_agents__''"

text \<open>The state of the loop: the known rows, the row of the deleted agents, and whether there is one.\<close>

definition bucket_unknown ::
  "string list \<Rightarrow> agent_dashboard_row \<Rightarrow> agent_dashboard_row list \<times> agent_dashboard_row \<times> bool
     \<Rightarrow> agent_dashboard_row list \<times> agent_dashboard_row \<times> bool" where
  "bucket_unknown knownAgentIds r s =
     (case s of (known, deleted, hasDeleted) \<Rightarrow>
        if adr_agentId r \<in> set knownAgentIds then (known @ [r], deleted, hasDeleted)
        else (known, deleted\<lparr>adr_tokens := adr_tokens deleted + adr_tokens r,
                             adr_cost := adr_cost deleted + adr_cost r\<rparr>, True))"

definition bucketUnknownAgentRows :: "agent_dashboard_row list \<Rightarrow> string list option \<Rightarrow> agent_dashboard_row list" where
  "bucketUnknownAgentRows rows knownAgentIds =
     (case knownAgentIds of
        None \<Rightarrow> rows
      | Some ids \<Rightarrow>
          (case fold (bucket_unknown ids) rows
              ([], \<lparr>adr_agentId = DELETED_AGENTS_ROW_ID, adr_tokens = 0, adr_cost = 0, adr_seconds = 0,
                    adr_taskCount = 0\<rparr>, False) of
             (known, deleted, hasDeleted) \<Rightarrow> if hasDeleted then known @ [deleted] else known))"

section \<open>Weeks\<close>

definition buildWeekShells :: "(string \<Rightarrow> string) \<Rightarrow> string \<Rightarrow> rat \<Rightarrow> week_shell list option" where
  "buildWeekShells today_in tz weekCount = do {
     let n = week_count weekCount;
     let today = today_in tz;
     currentWeekStart \<leftarrow> weekStartIso today;
     firstWeekStart \<leftarrow> addDaysIso currentWeekStart (- (n - 1) * 7);
     traverse (\<lambda>i. do { weekStart \<leftarrow> addDaysIso firstWeekStart (i * 7); decorate_week today weekStart }) [0..n - 1]
   }"

text \<open>The loop over the rows: a row whose week is not on the table is skipped.\<close>

fun add_week_values ::
  "('r \<Rightarrow> string) \<Rightarrow> ('r \<Rightarrow> 'v \<Rightarrow> 'v) \<Rightarrow> 'r list \<Rightarrow> (string \<times> 'v) list \<Rightarrow> (string \<times> 'v) list option" where
  "add_week_values date add [] m = Some m"
| "add_week_values date add (r # rs) m =
     (case weekStartIso (date r) of
        None \<Rightarrow> None
      | Some wkStart \<Rightarrow>
          (case map_of m wkStart of
             None \<Rightarrow> add_week_values date add rs m
           | Some v \<Rightarrow> add_week_values date add rs (AList.update wkStart (add r v) m)))"

record weekly_time_data = week_shell +
  wtm_totalSeconds :: rat

definition aggregateWeeklyTime ::
  "(string \<Rightarrow> string) \<Rightarrow> run_time_daily list \<Rightarrow> string \<Rightarrow> rat \<Rightarrow> weekly_time_data list option" where
  "aggregateWeeklyTime today_in rows tz weekCount = do {
     shells \<leftarrow> buildWeekShells today_in tz weekCount;
     totals \<leftarrow> add_week_values rtd_date (\<lambda>r v. v + rtd_total_seconds r) rows
       (fold (\<lambda>s. AList.update (wks_weekStart s) 0) shells []);
     Some (map (\<lambda>s. week_shell.extend s
       \<lparr>wtm_totalSeconds = (case map_of totals (wks_weekStart s) of None \<Rightarrow> 0 | Some v \<Rightarrow> v)\<rparr>) shells)
   }"

record weekly_tasks_data = week_shell +
  wtt_completed :: rat
  wtt_failed :: rat

definition add_task_counts :: "run_time_daily \<Rightarrow> rat \<times> rat \<Rightarrow> rat \<times> rat" where
  "add_task_counts r b = (fst b + completed_tasks r, snd b + rtd_failed_count r)"

definition aggregateWeeklyTasks ::
  "(string \<Rightarrow> string) \<Rightarrow> run_time_daily list \<Rightarrow> string \<Rightarrow> rat \<Rightarrow> weekly_tasks_data list option" where
  "aggregateWeeklyTasks today_in rows tz weekCount = do {
     shells \<leftarrow> buildWeekShells today_in tz weekCount;
     buckets \<leftarrow> add_week_values rtd_date add_task_counts rows
       (fold (\<lambda>s. AList.update (wks_weekStart s) (0, 0)) shells []);
     Some (map (\<lambda>s.
         let b = (case map_of buckets (wks_weekStart s) of None \<Rightarrow> (0, 0) | Some b \<Rightarrow> b)
         in week_shell.extend s \<lparr>wtt_completed = fst b, wtt_failed = snd b\<rparr>) shells)
   }"

section \<open>Durations\<close>

definition formatDuration :: "jnum \<Rightarrow> string \<Rightarrow> string" where
  "formatDuration seconds lessThanMinuteLabel =
     (case seconds of
        NaN \<Rightarrow> lessThanMinuteLabel
      | Infinite _ \<Rightarrow> lessThanMinuteLabel
      | Fin s \<Rightarrow>
          if s < 0 then lessThanMinuteLabel
          else if s < 60 then (if s < 1 then lessThanMinuteLabel else js_int_string (js_round s) @ ''s'')
          else
            let totalMinutes = \<lfloor>s / 60\<rfloor>;
                hours = \<lfloor>(of_int totalMinutes :: rat) / 60\<rfloor>;
                mins = totalMinutes mod 60
            in if hours = 0
               then let secs = \<lfloor>s\<rfloor> mod 60
                    in if secs > 0 then js_int_string mins @ ''m '' @ js_int_string secs @ ''s''
                       else js_int_string mins @ ''m''
               else if hours \<ge> 24
               then let days = \<lfloor>(of_int hours :: rat) / 24\<rfloor>; h = hours mod 24
                    in if h > 0 then js_int_string days @ ''d '' @ js_int_string h @ ''h''
                       else js_int_string days @ ''d''
               else if mins > 0 then js_int_string hours @ ''h '' @ js_int_string mins @ ''m''
               else js_int_string hours @ ''h'')"

end
