(* ===== verification/Dashboard_Properties.thy ===== *)
theory Dashboard_Properties
  imports Dashboard
begin

text \<open>
  What the dashboard of \<open>Dashboard\<close> promises: its leaderboard adds up to the totals, whatever agents
  were deleted, and its tables agree with those of the runtime page.
\<close>

section \<open>The daily tables\<close>

lemma insert_sorted_map:
  "insert_sorted cmp (f x) (map f xs) = map f (insert_sorted (\<lambda>a b. cmp (f a) (f b)) x xs)"
  by (induction xs) (auto simp: cmp_le_def)

lemma js_sort_map: "js_sort cmp (map f xs) = map f (js_sort (\<lambda>a b. cmp (f a) (f b)) xs)"
  by (induction xs) (simp_all add: js_sort_def insert_sorted_map)

lemma dashboard_daily_cost:
  "aggregateDailyCost localeCompare local_day st usage =
    ubd_dailyCostStack (aggregateByDate localeCompare local_day st usage)"
  by (simp add: aggregateDailyCost_def aggregateByDate_def daily_stacks_of_def daily_stack_def formatDateLabel_def
      formatLabel_def)

lemma dashboard_daily_tokens:
  "aggregateDailyTokens localeCompare local_day usage =
    ubd_dailyTokens (aggregateByDate localeCompare local_day st usage)"
  by (simp add: aggregateDailyTokens_def aggregateByDate_def daily_tokens_of_def formatDateLabel_def formatLabel_def
      bucket_rows_spec js_sort_map by_entry_key_def comp_def)

lemma computeDailyTotals_sums:
  "computeDailyTotals st usage =
    \<lparr>tot_input = tally use_input_tokens usage, tot_output = tally use_output_tokens usage,
     tot_cacheRead = tally use_cache_read_tokens usage, tot_cacheWrite = tally use_cache_write_tokens usage,
     tot_cost = tally (estimateCost st) usage, tot_taskCount = tally dud_task_count usage\<rparr>"
proof -
  have "fold (\<lambda>u acc.
         \<lparr>tot_input = tot_input acc + use_input_tokens u,
          tot_output = tot_output acc + use_output_tokens u,
          tot_cacheRead = tot_cacheRead acc + use_cache_read_tokens u,
          tot_cacheWrite = tot_cacheWrite acc + use_cache_write_tokens u,
          tot_cost = tot_cost acc + estimateCost st u,
          tot_taskCount = tot_taskCount acc + dud_task_count u\<rparr>) usage a =
      \<lparr>tot_input = tot_input a + tally use_input_tokens usage, tot_output = tot_output a + tally use_output_tokens usage,
       tot_cacheRead = tot_cacheRead a + tally use_cache_read_tokens usage,
       tot_cacheWrite = tot_cacheWrite a + tally use_cache_write_tokens usage,
       tot_cost = tot_cost a + tally (estimateCost st) usage,
       tot_taskCount = tot_taskCount a + tally dud_task_count usage\<rparr>" for a
    by (induction usage arbitrary: a) (auto simp: tally_def)
  then show ?thesis by (simp add: computeDailyTotals_def)
qed

text \<open>The columns of the daily table add up to the rows.\<close>

lemma tally_daily_tokens:
  "tally dtd_input (aggregateDailyTokens localeCompare local_day usage) = tally use_input_tokens usage"
  "tally dtd_output (aggregateDailyTokens localeCompare local_day usage) = tally use_output_tokens usage"
  "tally dtd_cacheRead (aggregateDailyTokens localeCompare local_day usage) = tally use_cache_read_tokens usage"
  "tally dtd_cacheWrite (aggregateDailyTokens localeCompare local_day usage) = tally use_cache_write_tokens usage"
  by (simp_all add: aggregateDailyTokens_def tally_def comp_def case_prod_beta sum_list_js_sort bucket_rows_spec
      tokens_in.figures_conserved tokens_out.figures_conserved tokens_read.figures_conserved
      tokens_write.figures_conserved)

section \<open>The leaderboard\<close>

interpretation agent_tokens: bucket_figure zero_agent_row "add_agent_row st" acr_tokens row_tokens for st
  by unfold_locales (auto simp: zero_agent_row_def add_agent_row_def)

interpretation agent_cost: bucket_figure zero_agent_row "add_agent_row st" acr_cost "estimateCost st" for st
  by unfold_locales (auto simp: zero_agent_row_def add_agent_row_def)

lemma acr_agentId_bucket [simp]: "acr_agentId (bucket key zero_agent_row (add_agent_row st) rows k) = k"
proof -
  have "acr_agentId (fold (add_agent_row st) rs b) = acr_agentId b" for rs b
    by (induction rs arbitrary: b) (auto simp: add_agent_row_def)
  then show ?thesis by (simp add: bucket_def zero_agent_row_def)
qed

lemma aggregateAgentTokens_facts:
  "tally acr_tokens (aggregateAgentTokens st rows) = tally row_tokens rows"
  "tally acr_cost (aggregateAgentTokens st rows) = tally (estimateCost st) rows"
  "distinct (map acr_agentId (aggregateAgentTokens st rows))"
  "set (map acr_agentId (aggregateAgentTokens st rows)) = uba_agent_id ` set rows"
proof -
  show "tally acr_tokens (aggregateAgentTokens st rows) = tally row_tokens rows"
    "tally acr_cost (aggregateAgentTokens st rows) = tally (estimateCost st) rows"
    by (simp_all add: aggregateAgentTokens_def tally_def sum_list_js_sort bucket_rows_spec comp_def
        agent_tokens.figures_conserved agent_cost.figures_conserved)
  have m: "mset (map acr_agentId (aggregateAgentTokens st rows)) = mset (js_set (map uba_agent_id rows))"
    by (simp add: aggregateAgentTokens_def bucket_rows_spec comp_def multiset.map_comp)
  then show "distinct (map acr_agentId (aggregateAgentTokens st rows))" by (rule distinct_mset_map) simp
  from m show "set (map acr_agentId (aggregateAgentTokens st rows)) = uba_agent_id ` set rows"
    using mset_eq_setD by fastforce
qed

text \<open>The map of the merge: one row per agent, first those with tokens.\<close>

lemma merged_tokens:
  assumes "distinct (map acr_agentId tokenRows)"
  shows "fold (\<lambda>r. AList.update (acr_agentId r) (merge_token_row rts r)) tokenRows [] =
    map (\<lambda>r. (acr_agentId r, merge_token_row rts r)) tokenRows"
  using assms
proof (induction tokenRows rule: rev_induct)
  case (snoc r rs)
  then have "fold (\<lambda>r. AList.update (acr_agentId r) (merge_token_row rts r)) (rs @ [r]) [] =
      AList.update (acr_agentId r) (merge_token_row rts r) (map (\<lambda>r. (acr_agentId r, merge_token_row rts r)) rs)"
    by simp
  also have "\<dots> = map (\<lambda>r. (acr_agentId r, merge_token_row rts r)) rs @ [(acr_agentId r, merge_token_row rts r)]"
    using snoc.prems by (intro update_new) (auto simp: comp_def)
  finally show ?case by simp
qed simp

text \<open>The entries that the run times add, in their order: agents without tokens.\<close>

definition keyed_rows :: "(string \<times> agent_dashboard_row) list \<Rightarrow> bool" where
  "keyed_rows m \<longleftrightarrow> distinct (map fst m) \<and> list_all (\<lambda>(k, r). adr_agentId r = k) m"

lemma merged_run_times:
  "keyed_rows m \<Longrightarrow> \<exists>extra. fold add_run_time_row rts m = m @ extra \<and> keyed_rows (m @ extra)
     \<and> list_all (\<lambda>(_, r). adr_tokens r = 0 \<and> adr_cost r = 0) extra"
proof (induction rts arbitrary: m)
  case Nil
  then show ?case by (intro exI [of _ "[]"]) simp
next
  case (Cons r rts)
  show ?case
  proof (cases "map_of m (art_agent_id r) = None")
    case False
    then have "fold add_run_time_row (r # rts) m = fold add_run_time_row rts m" by (simp add: add_run_time_row_def)
    then show ?thesis using Cons.IH [OF Cons.prems] by simp
  next
    case True
    let ?new = "\<lparr>adr_agentId = art_agent_id r, adr_tokens = 0, adr_cost = 0, adr_seconds = art_total_seconds r,
         adr_taskCount = art_task_count r\<rparr>"
    have new: "art_agent_id r \<notin> set (map fst m)" using True by (auto simp: map_of_eq_None_iff)
    then have step: "add_run_time_row r m = m @ [(art_agent_id r, ?new)]"
      using True by (simp add: add_run_time_row_def update_new)
    have "keyed_rows (m @ [(art_agent_id r, ?new)])" using Cons.prems new by (auto simp: keyed_rows_def)
    from Cons.IH [OF this] obtain extra where
      e: "fold add_run_time_row rts (m @ [(art_agent_id r, ?new)]) = (m @ [(art_agent_id r, ?new)]) @ extra"
      "keyed_rows ((m @ [(art_agent_id r, ?new)]) @ extra)" "list_all (\<lambda>(_, r). adr_tokens r = 0 \<and> adr_cost r = 0) extra"
      by blast
    then show ?thesis
      by (intro exI [of _ "(art_agent_id r, ?new) # extra"]) (simp add: step)
  qed
qed

text \<open>The merge keeps the figures and has one row per agent.\<close>

lemma mergeAgentDashboardRows_facts:
  assumes "distinct (map acr_agentId tokenRows)"
  shows "tally adr_tokens (mergeAgentDashboardRows tokenRows rts) = tally acr_tokens tokenRows"
    "tally adr_cost (mergeAgentDashboardRows tokenRows rts) = tally acr_cost tokenRows"
    "distinct (map adr_agentId (mergeAgentDashboardRows tokenRows rts))"
proof -
  define by_agent where "by_agent = fold (\<lambda>r. AList.update (art_agent_id r) r) rts []"
  define m where "m = map (\<lambda>r. (acr_agentId r, merge_token_row by_agent r)) tokenRows"
  have "keyed_rows m" using assms by (auto simp: m_def keyed_rows_def list_all_iff merge_token_row_def comp_def Let_def)
  then obtain extra where e: "fold add_run_time_row rts m = m @ extra" "keyed_rows (m @ extra)"
    "list_all (\<lambda>(_, r). adr_tokens r = 0 \<and> adr_cost r = 0) extra"
    using merged_run_times by blast
  have rows: "mergeAgentDashboardRows tokenRows rts = js_sort by_cost_then_time (map snd (m @ extra))"
    using e(1) merged_tokens [OF assms, of by_agent]
    by (simp add: mergeAgentDashboardRows_def Let_def by_agent_def m_def)
  have zero: "sum_list (map (\<lambda>x. adr_tokens (snd x)) extra) = 0" "sum_list (map (\<lambda>x. adr_cost (snd x)) extra) = 0"
    using e(3) by (induction extra) auto
  have kept: "map (\<lambda>x. adr_tokens (snd x)) m = map acr_tokens tokenRows" "map (\<lambda>x. adr_cost (snd x)) m = map acr_cost tokenRows"
    by (simp_all add: m_def merge_token_row_def Let_def)
  show "tally adr_tokens (mergeAgentDashboardRows tokenRows rts) = tally acr_tokens tokenRows"
    "tally adr_cost (mergeAgentDashboardRows tokenRows rts) = tally acr_cost tokenRows"
    unfolding rows tally_def sum_list_js_sort map_map comp_def by (simp_all add: zero kept)
  have ids: "map adr_agentId (map snd (m @ extra)) = map fst (m @ extra)"
    unfolding map_map comp_def using e(2) by (intro map_cong refl) (simp add: keyed_rows_def list_all_iff case_prod_beta)
  have "mset (map adr_agentId (mergeAgentDashboardRows tokenRows rts)) = mset (map fst (m @ extra))"
    unfolding rows using ids by (metis mset_js_sort mset_map)
  then show "distinct (map adr_agentId (mergeAgentDashboardRows tokenRows rts))"
    by (rule distinct_mset_map) (use e(2) in \<open>simp add: keyed_rows_def\<close>)
qed

text \<open>The fold of the unknown agents.\<close>

lemma fold_bucket_unknown:
  "fold (bucket_unknown ids) rows (known, deleted, has) =
    (known @ filter (\<lambda>r. adr_agentId r \<in> set ids) rows,
     deleted\<lparr>adr_tokens := adr_tokens deleted + tally adr_tokens (filter (\<lambda>r. adr_agentId r \<notin> set ids) rows),
             adr_cost := adr_cost deleted + tally adr_cost (filter (\<lambda>r. adr_agentId r \<notin> set ids) rows)\<rparr>,
     has \<or> list_ex (\<lambda>r. adr_agentId r \<notin> set ids) rows)"
  by (induction rows arbitrary: known deleted has) (auto simp: bucket_unknown_def tally_def)

lemma tally_split: "tally w (filter p rows) + tally w (filter (\<lambda>r. \<not> p r) rows) = tally w rows"
  by (induction rows) (auto simp: tally_def)

lemma bucketUnknownAgentRows_spec:
  "bucketUnknownAgentRows rows (Some ids) = filter (\<lambda>r. adr_agentId r \<in> set ids) rows @
    (let gone = filter (\<lambda>r. adr_agentId r \<notin> set ids) rows
     in if gone = [] then []
        else [\<lparr>adr_agentId = DELETED_AGENTS_ROW_ID, adr_tokens = tally adr_tokens gone, adr_cost = tally adr_cost gone,
               adr_seconds = 0, adr_taskCount = 0\<rparr>])"
  by (auto simp: bucketUnknownAgentRows_def fold_bucket_unknown Let_def filter_empty_conv list_ex_iff)

lemma bucketUnknownAgentRows_cases:
  "bucketUnknownAgentRows rows known =
    (case known of
       None \<Rightarrow> rows
     | Some ids \<Rightarrow> filter (\<lambda>r. adr_agentId r \<in> set ids) rows @
         (let gone = filter (\<lambda>r. adr_agentId r \<notin> set ids) rows
          in if gone = [] then []
             else [\<lparr>adr_agentId = DELETED_AGENTS_ROW_ID, adr_tokens = tally adr_tokens gone,
                    adr_cost = tally adr_cost gone, adr_seconds = 0, adr_taskCount = 0\<rparr>]))"
proof (cases known)
  case None
  then show ?thesis by (simp add: bucketUnknownAgentRows_def)
next
  case (Some ids)
  then show ?thesis by (simp only: option.case bucketUnknownAgentRows_spec)
qed

lemma bucketUnknownAgentRows_tally:
  "tally adr_tokens (bucketUnknownAgentRows rows known) = tally adr_tokens rows"
  "tally adr_cost (bucketUnknownAgentRows rows known) = tally adr_cost rows"
proof -
  have "tally w (bucketUnknownAgentRows rows known) = tally w rows"
    if w: "\<And>d t c. w \<lparr>adr_agentId = d, adr_tokens = tally adr_tokens t, adr_cost = tally adr_cost t,
        adr_seconds = 0, adr_taskCount = 0\<rparr> = tally w t" for w
  proof (cases known)
    case None
    then show ?thesis by (simp add: bucketUnknownAgentRows_def)
  next
    case (Some ids)
    let ?gone = "filter (\<lambda>r. adr_agentId r \<notin> set ids) rows"
    have "tally w (bucketUnknownAgentRows rows known) = tally w (filter (\<lambda>r. adr_agentId r \<in> set ids) rows) + tally w ?gone"
      by (cases "?gone = []") (simp_all add: Some bucketUnknownAgentRows_spec Let_def tally_def w [unfolded tally_def])
    then show ?thesis using tally_split [of w "\<lambda>r. adr_agentId r \<in> set ids" rows] by simp
  qed
  from this [of adr_tokens] this [of adr_cost] show "tally adr_tokens (bucketUnknownAgentRows rows known) = tally adr_tokens rows"
    "tally adr_cost (bucketUnknownAgentRows rows known) = tally adr_cost rows" by simp_all
qed

section \<open>The weekly tables\<close>

lemma buildWeekShells_spec:
  assumes today: "today_in tz = day_text t" and t: "usual_day t" "usual_day (monday t + 6)"
    and first: "usual_day (monday t - (week_count weekCount - 1) * 7)"
  shows "buildWeekShells today_in tz weekCount =
    Some (map (week_shell_of t) (trailing_mondays t (week_count weekCount)))"
proof -
  define n where "n = week_count weekCount"
  note first' = first [folded n_def]
  have start: "addDaysIso (day_text (monday t)) (- (n - 1) * 7) = Some (day_text (monday t - (n - 1) * 7))"
  proof -
    have "monday t + - (n - 1) * 7 = monday t - (n - 1) * 7" by simp
    then show ?thesis using addDaysIso_day [OF usual_day_monday [OF t(1)], of "- (n - 1) * 7"] first' by metis
  qed
  have step: "(do { weekStart \<leftarrow> addDaysIso (day_text (monday t - (n - 1) * 7)) (i * 7); decorate_week (day_text t) weekStart })
      = Some (week_shell_of t (monday t - (n - 1) * 7 + i * 7))" if "i \<in> set [0..n - 1]" for i
  proof -
    have "monday t - (n - 1) * 7 + i * 7 \<in> set (trailing_mondays t n)" using that by (auto simp: trailing_mondays_def)
    note w = trailing_monday [OF first' t(2) this]
    have "monday t - (n - 1) * 7 + i * 7 \<le> t" using w(5) by (auto simp: monday_def intro: order_trans)
    then show ?thesis
      using addDaysIso_day [OF first' w(1)] decorate_week_day [OF t(1) w(1,2)] by simp
  qed
  have "traverse (\<lambda>i. do { weekStart \<leftarrow> addDaysIso (day_text (monday t - (n - 1) * 7)) (i * 7); decorate_week (day_text t) weekStart }) [0..n - 1]
      = Some (map (week_shell_of t) (trailing_mondays t n))"
    unfolding trailing_mondays_def map_map comp_def by (rule traverse_Some) (rule step)
  then show ?thesis
    unfolding buildWeekShells_def today Let_def n_def [symmetric] weekStartIso_day [OF t(1)]
    using start by simp
qed

definition key_of_week :: "('r \<Rightarrow> string) \<Rightarrow> 'r \<Rightarrow> string" where
  "key_of_week date r = (case weekStartIso (date r) of None \<Rightarrow> [] | Some w \<Rightarrow> w)"

lemma add_week_values_tabulated:
  assumes "distinct ks" "\<forall>r\<in>set rows. weekStartIso (date r) \<noteq> None"
  shows "add_week_values date add rows (map (\<lambda>k. (k, f k)) ks) =
    Some (map (\<lambda>k. (k, fold add (filter (\<lambda>r. key_of_week date r = k) rows) (f k))) ks)"
  using assms(2)
proof (induction rows arbitrary: f)
  case (Cons r rows)
  obtain wk where wk: "weekStartIso (date r) = Some wk" using Cons.prems by auto
  then have key: "key_of_week date r = wk" by (simp add: key_of_week_def)
  show ?case
  proof (cases "wk \<in> set ks")
    case False
    then have "add_week_values date add (r # rows) (map (\<lambda>k. (k, f k)) ks) =
        add_week_values date add rows (map (\<lambda>k. (k, f k)) ks)"
      by (simp add: wk map_of_tabulated)
    also have "\<dots> = Some (map (\<lambda>k. (k, fold add (filter (\<lambda>r. key_of_week date r = k) rows) (f k))) ks)"
      using Cons by simp
    finally show ?thesis using False key by (auto intro!: map_cong)
  next
    case True
    let ?f = "f(wk := add r (f wk))"
    have "AList.update wk (add r (f wk)) (map (\<lambda>k. (k, f k)) ks) = map (\<lambda>k. (k, ?f k)) ks"
      using update_tabulated [OF assms(1), of wk] True by (simp add: adjoin_def)
    then have "add_week_values date add (r # rows) (map (\<lambda>k. (k, f k)) ks) =
        add_week_values date add rows (map (\<lambda>k. (k, ?f k)) ks)"
      using True by (simp add: wk map_of_tabulated del: fun_upd_apply)
    also have "\<dots> = Some (map (\<lambda>k. (k, fold add (filter (\<lambda>r. key_of_week date r = k) rows) (?f k))) ks)"
      by (rule Cons.IH) (use Cons.prems in simp)
    finally show ?thesis using key by (auto intro!: map_cong)
  qed
qed simp

definition dated_runs :: "run_time_daily list \<Rightarrow> bool" where
  "dated_runs rows \<longleftrightarrow> list_all (\<lambda>r. \<exists>k. usual_day k \<and> rtd_date r = day_text k) rows"

definition runs_between :: "run_time_daily list \<Rightarrow> int \<Rightarrow> int \<Rightarrow> run_time_daily list" where
  "runs_between rows i j = filter (\<lambda>r. rtd_date r \<in> day_text ` {i..<j}) rows"

lemma dated_run:
  assumes "dated_runs rows" "r \<in> set rows"
  obtains k where "usual_day k" "rtd_date r = day_text k"
  using assms by (auto simp: dated_runs_def list_all_iff)

lemma filter_run_week:
  assumes "dated_runs rows" "usual_day w" "usual_day (w + 6)" "monday w = w"
  shows "filter (\<lambda>r. key_of_week rtd_date r = day_text w) rows = runs_between rows w (w + 7)"
  unfolding runs_between_def
proof (intro filter_cong refl)
  fix r assume "r \<in> set rows"
  then obtain k where k: "usual_day k" "rtd_date r = day_text k" by (rule dated_run [OF assms(1)])
  have "key_of_week rtd_date r = day_text w \<longleftrightarrow> monday k = w"
    using day_text_inject [OF usual_day_monday [OF k(1)] assms(2)] k by (simp add: key_of_week_def weekStartIso_day)
  also have "\<dots> \<longleftrightarrow> rtd_date r \<in> day_text ` {w..<w + 7}"
    using in_days [OF assms(2) _ k(1), of "w + 7"] assms(3,4) k(2) monday_iff [of k w] by (simp add: add.commute)
  finally show "key_of_week rtd_date r = day_text w \<longleftrightarrow> rtd_date r \<in> day_text ` {w..<w + 7}" .
qed

text \<open>The loop of both weekly tables, on the weeks of the shells.\<close>

lemma add_week_values_spec:
  assumes rows: "dated_runs rows" and t: "usual_day (monday t + 6)" "usual_day (monday t - (n - 1) * 7)"
  shows "add_week_values rtd_date add rows
      (fold (\<lambda>s. AList.update (wks_weekStart s) z) (map (week_shell_of t) (trailing_mondays t n)) []) =
    Some (map (\<lambda>w. (day_text w, fold add (runs_between rows w (w + 7)) z)) (trailing_mondays t n))"
proof -
  let ?ws = "trailing_mondays t n"
  note distinct = distinct_trailing [OF t(2,1)]
  have "fold (\<lambda>s. AList.update (wks_weekStart s) z) (map (week_shell_of t) ?ws) [] =
      fold (\<lambda>k. AList.update k z) (map day_text ?ws) []"
    by (simp add: fold_map comp_def week_shell_of_def)
  also have "\<dots> = map (\<lambda>k. (k, z)) (map day_text ?ws)"
    by (rule seeded_map [OF distinct])
  finally have seeds: "fold (\<lambda>s. AList.update (wks_weekStart s) z) (map (week_shell_of t) ?ws) [] = map (\<lambda>k. (k, z)) (map day_text ?ws)" .
  have "\<forall>r\<in>set rows. weekStartIso (rtd_date r) \<noteq> None"
    using dated_run [OF rows] by (metis option.distinct(1) weekStartIso_day)
  from add_week_values_tabulated [OF distinct this, of add "\<lambda>_. z"]
  show ?thesis
    unfolding seeds using filter_run_week [OF rows trailing_monday(1-3) [OF t(2,1)]] by (auto intro!: map_cong)
qed

lemma map_of_weeks:
  assumes "usual_day (monday t - (n - 1) * 7)" "usual_day (monday t + 6)" "w \<in> set (trailing_mondays t n)"
  shows "map_of (map (\<lambda>w. (day_text w, f w)) (trailing_mondays t n)) (day_text w) = Some (f w)"
proof -
  have "distinct (map fst (map (\<lambda>w. (day_text w, f w)) (trailing_mondays t n)))"
    using distinct_trailing [OF assms(1,2)] by (simp add: comp_def)
  then show ?thesis by (rule map_of_is_SomeI) (use assms(3) in auto)
qed

definition week_time_of :: "run_time_daily list \<Rightarrow> int \<Rightarrow> int \<Rightarrow> weekly_time_data" where
  "week_time_of rows t w = week_shell.extend (week_shell_of t w)
     \<lparr>wtm_totalSeconds = tally rtd_total_seconds (runs_between rows w (w + 7))\<rparr>"

definition week_tasks_of :: "run_time_daily list \<Rightarrow> int \<Rightarrow> int \<Rightarrow> weekly_tasks_data" where
  "week_tasks_of rows t w = week_shell.extend (week_shell_of t w)
     \<lparr>wtt_completed = tally completed_tasks (runs_between rows w (w + 7)),
      wtt_failed = tally rtd_failed_count (runs_between rows w (w + 7))\<rparr>"

lemma fold_seconds: "fold (\<lambda>r v. v + rtd_total_seconds r) rows a = a + tally rtd_total_seconds rows"
  by (induction rows arbitrary: a) (auto simp: tally_def)

lemma fold_task_counts:
  "fold add_task_counts rows b = (fst b + tally completed_tasks rows, snd b + tally rtd_failed_count rows)"
  by (induction rows arbitrary: b) (auto simp: tally_def add_task_counts_def)

lemma weekly_runs:
  assumes "dated_runs rows" "today_in tz = day_text t" "usual_day t" "usual_day (monday t + 6)"
    and "usual_day (monday t - (week_count weekCount - 1) * 7)"
  shows "aggregateWeeklyTime today_in rows tz weekCount =
      Some (map (week_time_of rows t) (trailing_mondays t (week_count weekCount)))"
    "aggregateWeeklyTasks today_in rows tz weekCount =
      Some (map (week_tasks_of rows t) (trailing_mondays t (week_count weekCount)))"
proof -
  let ?n = "week_count weekCount"
  have shells: "buildWeekShells today_in tz weekCount = Some (map (week_shell_of t) (trailing_mondays t ?n))"
    using assms(2-5) by (rule buildWeekShells_spec)
  have start: "wks_weekStart (week_shell_of t w) = day_text w" for w by (simp add: week_shell_of_def)
  note add = add_week_values_spec [OF assms(1,4,5)]
  note look = map_of_weeks [OF assms(5,4)]
  show "aggregateWeeklyTime today_in rows tz weekCount = Some (map (week_time_of rows t) (trailing_mondays t ?n))"
    by (simp add: aggregateWeeklyTime_def shells add look start week_time_of_def fold_seconds cong: map_cong)
  show "aggregateWeeklyTasks today_in rows tz weekCount = Some (map (week_tasks_of rows t) (trailing_mondays t ?n))"
    by (simp add: aggregateWeeklyTasks_def shells add look start week_tasks_of_def fold_task_counts Let_def cong: map_cong)
qed

section \<open>Properties\<close>

text \<open>
  C39. The dashboard's leaderboard reconciles with its totals.  Whatever agents were deleted and
  whichever have run times, the tokens and costs of the shown rows add up to those of all rows; there
  is one row per agent; with the list of agents known, every other agent is folded into the single
  row of the deleted agents, which carries no time and no tasks; and while the list is loading, the
  rows are shown as they are.
\<close>
theorem leaderboard_reconciles:
  "let merged = mergeAgentDashboardRows (aggregateAgentTokens st rows) runTimes
   in tally adr_tokens (bucketUnknownAgentRows merged known) = tally row_tokens rows
    \<and> tally adr_cost (bucketUnknownAgentRows merged known) = tally (estimateCost st) rows
    \<and> distinct (map adr_agentId merged)
    \<and> bucketUnknownAgentRows merged known =
        (case known of
           None \<Rightarrow> merged
         | Some ids \<Rightarrow> filter (\<lambda>r. adr_agentId r \<in> set ids) merged @
             (let gone = filter (\<lambda>r. adr_agentId r \<notin> set ids) merged
              in if gone = [] then []
                 else [\<lparr>adr_agentId = DELETED_AGENTS_ROW_ID, adr_tokens = tally adr_tokens gone,
                        adr_cost = tally adr_cost gone, adr_seconds = 0, adr_taskCount = 0\<rparr>]))"
  unfolding Let_def [of "mergeAgentDashboardRows _ _"] bucketUnknownAgentRows_tally
    mergeAgentDashboardRows_facts [OF aggregateAgentTokens_facts(3)] aggregateAgentTokens_facts(1,2)
  by (intro conjI refl mergeAgentDashboardRows_facts(3) [OF aggregateAgentTokens_facts(3)] bucketUnknownAgentRows_cases)


definition example_run :: "string \<Rightarrow> rat \<Rightarrow> run_time_daily" where
  "example_run date seconds =
     \<lparr>rtd_date = date, rtd_total_seconds = seconds, rtd_task_count = 3, rtd_failed_count = 1\<rparr>"


text \<open>A minute less half a second is shown as sixty seconds.\<close>

lemma formatDuration_minute: "formatDuration (Fin (59 + 1 / 2)) label = ''60s''"
proof -
  have "js_round (59 + 1 / 2) = 60" by (simp add: js_round_def)
  moreover have "js_int_string 60 = ''60''" by code_simp
  ultimately show ?thesis by (simp add: formatDuration_def)
qed

end
