(* ===== verification/Spec2Isabelle.thy ===== *)
theory Spec2Isabelle
  imports Tab_Restore Issue_Event_Properties Presence Date_Only Ws_Steps Feature_Flags Exception_Dedupe Issue_Mutation_Properties Recent_Contexts
  Timeline_Events Threads Workspace_Storage Board_Drag_Properties Api_Issues Cli_Version Model_Pricing_Properties Dashboard_Properties
begin

text \<open>
  Verification of the Multica client.

  Multica is a task tracker in which people and AI agents work on the same issues.  The server is
  a Go program; the clients (web, desktop, mobile) are TypeScript and share \<open>packages/core\<close>.  This
  development models the parts of the clients that carry state or decide something: the desktop
  tab store, the cached issue lists with the code that keeps them in step with the server, the
  board's drag and drop, the usage figures with their prices, timelines and comment threads, the HTTP client and the realtime
  connection, the storage kept per workspace, permissions, presence, calendar days, feature flags
  and the exception fuse.

  How the parts interact.  The views read issue lists from a query cache (TanStack Query).  A
  mutation or a realtime event changes an issue: \<open>applyIssueChange\<close> patches every cached list it can
  decide about and reports the other keys as stale; the caller invalidates these, and rolls the
  change back when the server refuses it.  Realtime events arrive over the WebSocket client, whose
  reconnection triggers a refetch.  A deleted issue is removed from the lists, the caches keyed by
  it and the recent issues.  A drop on the board is settled in the board's own columns and then
  moves the issue through the same update mutation, so that columns and cache agree again.  The
  mutations and queries reach the server through the HTTP client, whose errors are what the
  mutations roll back on.  The desktop keeps one router session per tab, grouped by workspace,
  and restores them after a restart.

  Theories and the code they model.

  \<^item> \<open>Prelude\<close>, \<open>Js_Object\<close>, \<open>Js_Date\<close>, \<open>Js_Json\<close>, \<open>Js_Sort\<close>, \<open>Js_Url\<close>, \<open>Js_Number\<close>, \<open>Js_Map\<close>:
    what the code uses of JavaScript: truthiness,
    string and array methods, objects as dictionaries in key order, the calendar arithmetic and
    the date-time format of \<open>Date\<close>, JSON values, sorting
    with a comparator, the encoding of query strings and path segments,
    \<open>Number\<close> of a string, and \<open>Map\<close> with the loop that adds rows up per key (locale \<open>bucket_figure\<close>).
  \<^item> \<open>Tab_Url\<close>, \<open>Tab_Store\<close>, \<open>Tab_Persist\<close>: \<open>apps/desktop/src/renderer/src/stores/tab-store.ts\<close> and
    \<open>packages/core/paths/reserved-slugs.ts\<close>: URLs and slugs, the store with every action, and the
    persistence with its three migrations.  \<open>Tab_Invariant\<close> and \<open>Tab_Actions\<close> hold the invariant and
    its preservation by every action, \<open>Tab_Properties\<close> and \<open>Tab_Restore\<close> their properties.
  \<^item> \<open>Issue_Types\<close>, \<open>Query_Client\<close>, \<open>Issue_Buckets\<close>, \<open>Issue_Membership\<close>, \<open>Issue_Coordinator\<close>,
    \<open>Issue_Soundness\<close>: issues, patches and the cached values; the query keys of
    \<open>issues/queries.ts\<close> and the interface of the query cache (locale \<open>query_cache\<close>, interpreted on
    an in-memory cache); \<open>issues/cache-helpers.ts\<close>; \<open>issues/surface/\<close> (scopes, query plans, membership
    verdicts); \<open>issues/cache-coordinator.ts\<close>; and the soundness of the coordinator against the
    server's lists.
  \<^item> \<open>Issue_Events\<close>, \<open>Issue_Event_Properties\<close>, \<open>Recent_Issues\<close>: \<open>issues/ws-updaters.ts\<close>,
    \<open>issues/delete-cache.ts\<close>, \<open>inbox/ws-updaters.ts\<close> and \<open>issues/stores/recent-issues-store.ts\<close>
    (with \<open>Recent_Contexts\<close>: \<open>packages/core/chat/recent-context-store.ts\<close>, proved to refine the recent
    issues).
  \<^item> \<open>Issue_Mutations\<close>, \<open>Issue_Rollback\<close>, \<open>Issue_Mutation_Properties\<close>: the issue mutations of
    \<open>issues/mutations.ts\<close> (create, update, delete and their batches, the paging of columns) over the
    coordinator; the lemmas on snapshots; and what a success, a failure and a batch leave behind.
  \<^item> \<open>Issue_Fetch\<close>: the query functions of \<open>issues/queries.ts\<close> that fetch first pages, merge the
    personal lists and walk the Gantt pages.
  \<^item> \<open>Timeline\<close>: the comment mutations of \<open>issues/mutations.ts\<close> on a cached timeline, kept in the
    order of \<open>issues/timeline-sort.ts\<close>.  \<open>Timeline_Events\<close>: the realtime handlers of
    \<open>packages/views/issues/hooks/use-issue-timeline.ts\<close>, the step relation of a cached timeline and
    the reactions shown while a toggle is pending.  \<open>Threads\<close>:
    \<open>packages/views/issues/components/thread-utils.ts\<close>.
  \<^item> \<open>Permissions\<close>, \<open>Presence\<close>, \<open>Date_Only\<close>: \<open>permissions/rules.ts\<close> with \<open>agents/effective-access.ts\<close>
   , \<open>runtimes/derive-health.ts\<close> with \<open>agents/derive-presence.ts\<close>, \<open>issues/date.ts\<close>
   .
  \<^item> \<open>Ws_Client\<close>, \<open>Ws_Steps\<close>: the class \<open>WSClient\<close> of \<open>api/ws-client.ts\<close>, one definition per method and
    event handler, and the step relation of the browser's events and the provider's calls with
    the invariant of its reachable states.
  \<^item> \<open>Feature_Flags\<close>: \<open>feature-flags/\<close>, the hash on 32-bit words, rules, providers and the service;
    the locale \<open>flag_contract\<close> is what the service relies on of a provider, interpreted on static
    providers and on chains of them.
  \<^item> \<open>Exception_Dedupe\<close>: \<open>analytics/exception-dedupe.ts\<close> and \<open>benign-exceptions.ts\<close>.

  \<^item> \<open>Workspace_Storage\<close>: \<open>packages/core/platform/\<close> (\<open>workspace-storage.ts\<close>, \<open>storage.ts\<close>,
    \<open>persist-storage.ts\<close>, \<open>storage-cleanup.ts\<close>): the current workspace, its callbacks and the keys
    stored per workspace; the locale \<open>lawful_storage\<close> is what they rely on of a storage, interpreted
    on the default storage.
  \<^item> \<open>Board_Drag\<close>, \<open>Board_Drag_Properties\<close>: \<open>packages/views/issues/utils/drag-utils.ts\<close>, the drag
    handlers of \<open>components/board-view.tsx\<close> and \<open>hooks/use-drag-settle.ts\<close>, composed with the issue
    cache.
  \<^item> \<open>Api_Client\<close>, \<open>Api_Issues\<close>: the core of \<open>packages/core/api/client.ts\<close> (headers, errors, the
    end of a session, parsing with a fallback from \<open>schema.ts\<close>) and its issue endpoints.
  \<^item> \<open>Cli_Version\<close>: \<open>packages/core/runtimes/cli-version.ts\<close> and the version comparison of
    \<open>packages/views/runtimes/utils.ts\<close>.  \<open>Model_Pricing\<close>, \<open>Model_Pricing_Properties\<close>: the price table of
    that file, its lookup, and \<open>packages/core/runtimes/custom-pricing-store.ts\<close>.
  \<^item> \<open>Iso_Day\<close>, \<open>Usage\<close>, \<open>Usage_Properties\<close>, \<open>Usage_Weeks\<close>: the day arithmetic on strings and the usage
    tables of \<open>packages/views/runtimes/utils.ts\<close>; \<open>Dashboard\<close>, \<open>Dashboard_Properties\<close>:
    \<open>packages/views/dashboard/utils.ts\<close>, whose leaderboard and weekly tables build on them.

  How the state corresponds.  An interface or class is a record whose fields keep the names of the
  code behind a short prefix, a union of literals is a datatype, \<open>null\<close> and \<open>undefined\<close> are \<open>None\<close>.
  An operation is a function from the old state to the new one with the guards and early returns
  of the code; an exception is a value: the left side of a sum, the first component of a \<open>run\<close>, or
  the effect \<open>Uncaught\<close>.  Integers that the code computes with 32-bit operators are words, all other
  numbers are exact integers or rationals, so rounding of floating point is not modelled.  Strings
  are lists of characters, literals outside ASCII are written as their UTF-8 bytes; only the hash
  of the feature flags looks at an encoding, and there strings are UTF-16 code units.

  What the groups of lemmas show.  Invariants are proved once per operation and lifted to every
  reachable state by rule induction (tabs, WebSocket).  The issue caches are compared with an
  abstract server: \<open>Issue_Soundness\<close> proves that after any change each list either agrees with the
  server's list or is reported stale, which \<open>Issue_Event_Properties\<close> carries to the realtime
  handlers.  Optimised or one-pass code is proved equal to a reference (presence map, hash, gate
  and access scope).  Round trips cover history, persistence, rollback, add and remove, and
  calendar days.  Where the code fails its own comments or raises, the failing run is a theorem.

  Bounds and termination.  No definition uses fuel: the loops are recursions over lists; for the
  Gantt walk, a function whose measure is the distance of the offset to its cap of 10,000; for the
  cascade of deleted comments, functions whose measure is the number of comments not yet visited;
  for the workspace's notifications, a function whose measure is the queue of microtasks.  The walk
  below a comment that collects a thread's replies would not end on a cycle of parents: it is a
  partial function, proved to return below every top-level comment.  The
  tab history and the sessions of the exception fuse may be of any length.

  Parameters.  \<open>arrayMove\<close> of the drag library, the generator of tab ids, the query cache, the
  server's answers, today's date in a time zone, the network and the schemas of responses, the printing of numbers in
  requests, the clock, the random source, \<open>localeCompare\<close>, the viewer's calendar and
  \<open>Date.parse\<close> outside the standard format are arguments, with what the code relies on of them as
  hypotheses of the theorems that need it.

  Not modelled.  Inherited properties of dictionary objects (a slug such as \<open>constructor\<close>), the
  notification of store subscribers, handlers that change the WebSocket client while it
  dispatches to them, own members whose value is \<open>undefined\<close> in patches, the typed casts of cached
  values beyond the shapes the code distinguishes, and the redaction of exception messages by
  regular expressions.  Of the repository: the Go server and its daemons, React components and
  hooks beyond the handlers above, the declarations of the response schemas, the text editor, the mobile screens, translations,
  the landing pages and the documentation.

  The order of further work: the chat store and the
  view stores, the mobile caches, the desktop shell's version and routing logic.
\<close>

end
